(* ===== verification/Go_Prelude.thy ===== *)
theory Go_Prelude
  imports Main "HOL-Library.Sublist"
begin

text \<open>
  The vocabulary the component theories share: the outcome of a Go call that may panic, the
  arithmetic of the 64-bit type \<open>int\<close>, and the functions of the packages \<open>strings\<close>,
  \<open>strconv\<close> and \<open>fmt\<close> that the repository calls.  A Go \<open>string\<close> is a byte
  sequence and is modelled as a HOL \<open>string\<close> (a \<open>char list\<close>, one \<open>char\<close> per byte).
  The collection \<open>go_simps\<close> holds the equations that every component proof unfolds.
\<close>

named_theorems go_simps
  \<open>equations of the Go run-time vocabulary\<close>

section \<open>Outcomes: a value or a run-time panic\<close>

datatype panic =
    IndexOutOfRange
  | SliceBounds
  | NilDereference
  | ReflectKindMismatch

type_synonym 'a go = "panic + 'a"

abbreviation ret :: "'a \<Rightarrow> 'a go" where
  "ret \<equiv> Inr"

abbreviation raise_panic :: "panic \<Rightarrow> 'a go" where
  "raise_panic \<equiv> Inl"

definition go_bind :: "'a go \<Rightarrow> ('a \<Rightarrow> 'b go) \<Rightarrow> 'b go" where
  "go_bind m f = (case m of Inl p \<Rightarrow> Inl p | Inr a \<Rightarrow> f a)"

lemma go_bind_simps [simp, go_simps]:
  "go_bind (Inl p) f = Inl p"
  "go_bind (Inr a) f = f a"
  by (simp_all add: go_bind_def)

lemma go_bind_eq_ret: "go_bind m f = Inr b \<longleftrightarrow> (\<exists>a. m = Inr a \<and> f a = Inr b)"
  by (cases m) auto

text \<open>The short-circuit conjunction: the right operand runs only when the left one is true.\<close>

definition go_and :: "bool \<Rightarrow> bool go \<Rightarrow> bool go" where
  "go_and a m = (if a then m else Inr False)"

lemma go_and_simps [simp, go_simps]:
  "go_and True m = m"
  "go_and False m = Inr False"
  by (simp_all add: go_and_def)

text \<open>
  Indexing and slicing panic out of range.  \<open>go_slice s lo hi\<close> is \<open>s[lo:hi]\<close> for a slice
  whose capacity is its length.
\<close>

definition go_index :: "'a list \<Rightarrow> int \<Rightarrow> 'a go" where
  "go_index s i =
     (if 0 \<le> i \<and> i < int (length s) then Inr (s ! nat i) else Inl IndexOutOfRange)"

definition go_slice :: "'a list \<Rightarrow> int \<Rightarrow> int \<Rightarrow> 'a list go" where
  "go_slice s lo hi =
     (if 0 \<le> lo \<and> lo \<le> hi \<and> hi \<le> int (length s)
      then Inr (take (nat hi - nat lo) (drop (nat lo) s)) else Inl SliceBounds)"

lemma go_index_in [simp]: "i < length s \<Longrightarrow> go_index s (int i) = Inr (s ! i)"
  by (simp add: go_index_def)

lemma go_slice_prefix: "i \<le> length s \<Longrightarrow> go_slice s 0 (int i) = Inr (take i s)"
  by (simp add: go_slice_def)

lemma go_slice_suffix:
  "i \<le> length s \<Longrightarrow> go_slice s (int i) (int (length s)) = Inr (drop i s)"
  by (simp add: go_slice_def)

section \<open>64-bit integers\<close>

text \<open>
  Go's \<open>int\<close> and \<open>int64\<close> are two's complement on the supported platforms.  A value is an
  \<open>int\<close> in \<open>int64_range\<close>; addition wraps.
\<close>

definition int64_range :: "int set" where
  "int64_range = {- (2 ^ 63) ..< 2 ^ 63}"

definition wrap64 :: "int \<Rightarrow> int" where
  "wrap64 x = (x + 2 ^ 63) mod 2 ^ 64 - 2 ^ 63"

definition add64 :: "int \<Rightarrow> int \<Rightarrow> int" where
  "add64 a b = wrap64 (a + b)"

lemma wrap64_range: "wrap64 x \<in> int64_range"
  by (simp add: wrap64_def int64_range_def)

lemma wrap64_id: "x \<in> int64_range \<Longrightarrow> wrap64 x = x"
  by (simp add: wrap64_def int64_range_def)

lemma add64_id: "a + b \<in> int64_range \<Longrightarrow> add64 a b = a + b"
  by (simp add: add64_def wrap64_id)

section \<open>Strings\<close>

text \<open>\<open>strconv.Itoa\<close> and the verb \<open>%d\<close>.\<close>

definition digit_char :: "nat \<Rightarrow> char" where
  "digit_char d = char_of (48 + d)"

fun itoa_nat :: "nat \<Rightarrow> string" where
  "itoa_nat n = (if n < 10 then [digit_char n] else itoa_nat (n div 10) @ [digit_char (n mod 10)])"

declare itoa_nat.simps [simp del]

definition itoa :: "int \<Rightarrow> string" where
  "itoa i = (if i < 0 then CHR ''-'' # itoa_nat (nat (- i)) else itoa_nat (nat i))"

definition is_digit_char :: "char \<Rightarrow> bool" where
  "is_digit_char c \<longleftrightarrow> 48 \<le> (of_char c :: nat) \<and> (of_char c :: nat) \<le> 57"

lemma digit_char_is_digit: "d < 10 \<Longrightarrow> is_digit_char (digit_char d)"
  by (simp add: is_digit_char_def digit_char_def)

lemma digit_char_inj: "a < 10 \<Longrightarrow> b < 10 \<Longrightarrow> digit_char a = digit_char b \<Longrightarrow> a = b"
  by (auto simp: digit_char_def take_bit_eq_mod dest: arg_cong [where f = "of_char :: char \<Rightarrow> nat"])

lemma itoa_nat_nonempty [simp]: "itoa_nat n \<noteq> []"
  by (subst itoa_nat.simps) simp

lemma itoa_nat_digits: "c \<in> set (itoa_nat n) \<Longrightarrow> is_digit_char c"
proof (induction n rule: itoa_nat.induct)
  case (1 n)
  show ?case
  proof (cases "n < 10")
    case True
    with 1 show ?thesis
      by (auto simp: itoa_nat.simps [of n] digit_char_is_digit)
  next
    case False
    with 1 show ?thesis
      by (auto simp: itoa_nat.simps [of n] digit_char_is_digit)
  qed
qed

lemma itoa_nat_inj: "itoa_nat m = itoa_nat n \<Longrightarrow> m = n"
proof (induction m arbitrary: n rule: itoa_nat.induct)
  case (1 m)
  show ?case
  proof (cases "m < 10")
    case True
    then have m: "itoa_nat m = [digit_char m]" by (simp add: itoa_nat.simps)
    with "1.prems" have n: "n < 10"
      by (simp add: itoa_nat.simps [of n] split: if_splits)
        (metis append_eq_Cons_conv itoa_nat_nonempty append_is_Nil_conv not_Cons_self2)
    with m "1.prems" True show ?thesis
      by (auto simp: itoa_nat.simps [of n] dest: digit_char_inj)
  next
    case False
    then have m: "itoa_nat m = itoa_nat (m div 10) @ [digit_char (m mod 10)]"
      by (simp add: itoa_nat.simps [of m])
    with "1.prems" have n: "\<not> n < 10" by (auto simp: itoa_nat.simps [of n] split: if_splits)
    then have "itoa_nat n = itoa_nat (n div 10) @ [digit_char (n mod 10)]"
      by (simp add: itoa_nat.simps [of n])
    with m "1.prems" have "itoa_nat (m div 10) = itoa_nat (n div 10)"
      and "digit_char (m mod 10) = digit_char (n mod 10)" by simp_all
    then have "m div 10 = n div 10" and "m mod 10 = n mod 10"
      using "1.IH" [OF False] by (auto intro: digit_char_inj)
    then show ?thesis by (metis div_mult_mod_eq)
  qed
qed

lemma itoa_nat_no_minus: "CHR ''-'' \<notin> set (itoa_nat n)"
  by (auto dest: itoa_nat_digits simp: is_digit_char_def)

lemma itoa_inj: "itoa i = itoa j \<Longrightarrow> i = j"
proof -
  assume eq: "itoa i = itoa j"
  have hd: "(itoa_nat n = CHR ''-'' # s) = False" "(CHR ''-'' # s = itoa_nat n) = False" for n s
    using itoa_nat_no_minus [of n] by (metis list.set_intros(1))+
  from eq show "i = j"
    by (auto simp: itoa_def hd split: if_splits dest!: itoa_nat_inj)
qed

lemma itoa_chars: "c \<in> set (itoa i) \<Longrightarrow> is_digit_char c \<or> c = CHR ''-''"
  by (auto simp: itoa_def dest: itoa_nat_digits split: if_splits)

text \<open>A number followed by a separator that is not one of its characters can be read back.\<close>

lemma append_sep_inj:
  "c \<notin> set xs \<Longrightarrow> c \<notin> set ys \<Longrightarrow> xs @ c # s = ys @ c # t \<Longrightarrow> xs = ys \<and> s = t"
proof (induction xs arbitrary: ys)
  case Nil
  then show ?case by (cases ys) auto
next
  case (Cons x xs)
  then show ?case by (cases ys) auto
qed

lemma itoa_sep_inj:
  assumes "itoa i @ c # s = itoa j @ c # t" and "\<not> is_digit_char c" and "c \<noteq> CHR ''-''"
  shows "i = j \<and> s = t"
proof -
  have "c \<notin> set (itoa n)" for n using itoa_chars assms(2,3) by blast
  then have "itoa i = itoa j \<and> s = t"
    using assms(1) append_sep_inj [of c "itoa i" "itoa j" s t] by blast
  then show ?thesis using itoa_inj by blast
qed

text \<open>\<open>strings.Join\<close>.\<close>

fun go_join :: "string list \<Rightarrow> string \<Rightarrow> string" where
  "go_join [] sep = []"
| "go_join [s] sep = s"
| "go_join (s # t # ss) sep = s @ sep @ go_join (t # ss) sep"

lemma go_join_append:
  "xs \<noteq> [] \<Longrightarrow> ys \<noteq> [] \<Longrightarrow> go_join (xs @ ys) sep = go_join xs sep @ sep @ go_join ys sep"
proof (induction xs sep rule: go_join.induct)
  case (2 s sep)
  then show ?case by (cases ys) auto
qed auto

text \<open>\<open>strings.HasPrefix\<close>, \<open>strings.Trim(s, " ")\<close> and \<open>strings.Contains(s, t)\<close>.\<close>

definition has_prefix :: "string \<Rightarrow> string \<Rightarrow> bool" where
  "has_prefix s p \<longleftrightarrow> take (length p) s = p"

lemma has_prefix_iff: "has_prefix s p \<longleftrightarrow> prefix p s"
  by (auto simp: has_prefix_def prefix_def) (metis append_take_drop_id)

definition trim_spaces :: "string \<Rightarrow> string" where
  "trim_spaces s =
     rev (dropWhile (\<lambda>c. c = CHR '' '') (rev (dropWhile (\<lambda>c. c = CHR '' '') s)))"

fun go_contains :: "string \<Rightarrow> string \<Rightarrow> bool" where
  "go_contains [] t \<longleftrightarrow> t = []"
| "go_contains (c # s) t \<longleftrightarrow> has_prefix (c # s) t \<or> go_contains s t"

lemma go_contains_iff: "go_contains s t \<longleftrightarrow> sublist t s"
  by (induction s) (auto simp: has_prefix_iff sublist_Cons_right)

text \<open>\<open>strings.Compare\<close>: the byte-wise lexicographic order, as -1, 0 or 1.\<close>

fun go_compare :: "string \<Rightarrow> string \<Rightarrow> int" where
  "go_compare [] [] = 0"
| "go_compare [] (d # t) = - 1"
| "go_compare (c # s) [] = 1"
| "go_compare (c # s) (d # t) =
     (if (of_char c :: nat) < of_char d then - 1
      else if (of_char d :: nat) < of_char c then 1
      else go_compare s t)"

lemma of_char_nat_eq: "(of_char c :: nat) = of_char d \<longleftrightarrow> c = d"
  by (metis char_of_char)

lemma go_compare_refl [simp]: "go_compare s s = 0"
  by (induction s) auto

lemma go_compare_eq_0: "go_compare s t = 0 \<longleftrightarrow> s = t"
  by (induction s t rule: go_compare.induct)
    (auto simp: not_less_iff_gr_or_eq of_char_nat_eq)

lemma go_compare_antisym: "go_compare t s = - go_compare s t"
  by (induction s t rule: go_compare.induct) auto

definition byte_less :: "(char \<times> char) set" where
  "byte_less = {(c, d). (of_char c :: nat) < of_char d}"

lemma trans_byte_less: "trans byte_less"
  by (auto simp: byte_less_def intro: transI)

lemma go_compare_less: "go_compare s t < 0 \<longleftrightarrow> (s, t) \<in> lexord byte_less"
  by (induction s t rule: go_compare.induct)
    (auto simp: byte_less_def not_less_iff_gr_or_eq of_char_nat_eq)

lemma go_compare_le: "go_compare s t \<le> 0 \<longleftrightarrow> s = t \<or> (s, t) \<in> lexord byte_less"
  by (auto simp: le_less go_compare_less go_compare_eq_0)

lemma go_compare_trans:
  "go_compare s t \<le> 0 \<Longrightarrow> go_compare t u \<le> 0 \<Longrightarrow> go_compare s u \<le> 0"
  by (auto simp: go_compare_le intro: lexord_trans [OF _ _ trans_byte_less])

end
