(* ===== verification/Comparison.thy ===== *)
theory Comparison
  imports Complex_Main Go_Prelude
begin

text \<open>
  The run-time query objects of \<open>definations/comparison_meta.go\<close>: a \<open>ComparisonObject\<close>
  holds conditions joined by \<open>And\<close> and by \<open>Or\<close>, and \<open>Evaluate\<close> decides them
  on the fields of a struct by reflection.  The queues use it to search their elements.
  \<open>gval\<close> is what the package \<open>reflect\<close> shows of a value: its kind and its contents.
\<close>

named_theorems compare_simps
  \<open>the evaluators of the comparison package\<close>

section \<open>Reflected values\<close>

text \<open>
  A floating-point value, up to the bits that comparisons ignore: not a number, an infinity or
  a finite number (finite binary floats are rationals, and the two zeros compare equal).
\<close>

datatype gfloat = NaN | NegInf | Fin rat | PosInf

fun float_le :: "gfloat \<Rightarrow> gfloat \<Rightarrow> bool" where
  "float_le NaN y = False"
| "float_le x NaN = False"
| "float_le NegInf y = True"
| "float_le x PosInf = True"
| "float_le (Fin a) (Fin b) = (a \<le> b)"
| "float_le x y = False"

definition float_eq :: "gfloat \<Rightarrow> gfloat \<Rightarrow> bool" where
  "float_eq x y \<longleftrightarrow> float_le x y \<and> float_le y x"

definition float_less :: "gfloat \<Rightarrow> gfloat \<Rightarrow> bool" where
  "float_less x y \<longleftrightarrow> float_le x y \<and> \<not> float_le y x"

datatype gkind =
    KInvalid | KInt | KUint | KFloat | KString | KBool | KArray | KStruct | KPtr | KInterface | KOther

text \<open>
  \<open>GNil\<close> is the zero \<open>reflect.Value\<close> (\<open>reflect.ValueOf(nil)\<close>, a missing field).
  \<open>GSlice\<close> is an array or a slice, \<open>GIface\<close> a value stored in a variable of interface
  type, whose kind reflection reports as \<open>Interface\<close>.
\<close>

datatype gval =
    GNil
  | GInt int
  | GUint nat
  | GFloat gfloat
  | GString string
  | GBool bool
  | GSlice "gval list"
  | GStruct "(string \<times> gval) list"
  | GPtr "gval option"
  | GIface gval
  | GOther

fun kind_of :: "gval \<Rightarrow> gkind" where
  "kind_of GNil = KInvalid"
| "kind_of (GInt i) = KInt"
| "kind_of (GUint n) = KUint"
| "kind_of (GFloat f) = KFloat"
| "kind_of (GString s) = KString"
| "kind_of (GBool b) = KBool"
| "kind_of (GSlice vs) = KArray"
| "kind_of (GStruct fs) = KStruct"
| "kind_of (GPtr p) = KPtr"
| "kind_of (GIface v) = KInterface"
| "kind_of GOther = KOther"

definition is_valid :: "gval \<Rightarrow> bool" where
  "is_valid v \<longleftrightarrow> v \<noteq> GNil"

text \<open>\<open>v.Type().Kind()\<close>, \<open>v.Int()\<close>, \<open>v.String()\<close> and \<open>v.Float()\<close>: the accessors
  panic on a value of another kind (\<open>String\<close> never does, and is used on strings only).\<close>

definition rv_kind :: "gval \<Rightarrow> gkind go" where
  "rv_kind v = (if is_valid v then Inr (kind_of v) else Inl ReflectKindMismatch)"

fun rv_Int :: "gval \<Rightarrow> int go" where
  "rv_Int (GInt i) = Inr i"
| "rv_Int _ = Inl ReflectKindMismatch"

fun rv_Float :: "gval \<Rightarrow> gfloat go" where
  "rv_Float (GFloat f) = Inr f"
| "rv_Float _ = Inl ReflectKindMismatch"

fun rv_String :: "gval \<Rightarrow> string go" where
  "rv_String (GString s) = Inr s"
| "rv_String _ = Inr ''<Value>''"

fun rv_Elems :: "gval \<Rightarrow> gval list" where
  "rv_Elems (GSlice vs) = vs"
| "rv_Elems _ = []"

definition isIntKind :: "gkind \<Rightarrow> bool" where
  "isIntKind k = (case k of KInt \<Rightarrow> True | KUint \<Rightarrow> True | _ \<Rightarrow> False)"

definition isFloatKind :: "gkind \<Rightarrow> bool" where
  "isFloatKind k = (case k of KFloat \<Rightarrow> True | _ \<Rightarrow> False)"

definition isArrayKind :: "gkind \<Rightarrow> bool" where
  "isArrayKind k = (case k of KArray \<Rightarrow> True | _ \<Rightarrow> False)"

definition isStringKind :: "gkind \<Rightarrow> bool" where
  "isStringKind k = (case k of KString \<Rightarrow> True | _ \<Rightarrow> False)"

lemmas kind_defs = isIntKind_def isFloatKind_def isArrayKind_def isStringKind_def
  rv_kind_def is_valid_def

section \<open>One condition\<close>

datatype CompareType =
    CompareEquals | ConpareNotEquals
  | CompareLessThan | CompareLessEquals | CompareGreaterThan | CompareGreaterEquals
  | CompareContains | CompareInArray | CompareNotInArray
  | CompareBetween | CompareNotBetween
  | CompareUnknown int

text \<open>
  \<open>compareInt\<close>, \<open>compareString\<close> and \<open>compareFloat\<close> have one shape: they differ in
  the kind test, the accessor and the comparison operators, which \<open>operand_ops\<close> collects
  (and in \<open>CompareContains\<close> on strings).
\<close>

record 'a operand_ops =
  op_kind :: "gkind \<Rightarrow> bool"
  op_get :: "gval \<Rightarrow> 'a go"
  op_eq :: "'a \<Rightarrow> 'a \<Rightarrow> bool"
  op_lt :: "'a \<Rightarrow> 'a \<Rightarrow> bool"
  op_le :: "'a \<Rightarrow> 'a \<Rightarrow> bool"
  op_gt :: "'a \<Rightarrow> 'a \<Rightarrow> bool"
  op_ge :: "'a \<Rightarrow> 'a \<Rightarrow> bool"

definition intOps :: "int operand_ops" where
  "intOps = \<lparr>op_kind = isIntKind, op_get = rv_Int, op_eq = (\<lambda>a b. a = b),
     op_lt = (\<lambda>a b. a < b), op_le = (\<lambda>a b. a \<le> b), op_gt = (\<lambda>a b. a > b), op_ge = (\<lambda>a b. a \<ge> b)\<rparr>"

definition stringOps :: "string operand_ops" where
  "stringOps = \<lparr>op_kind = isStringKind, op_get = rv_String, op_eq = (\<lambda>a b. go_compare a b = 0),
     op_lt = (\<lambda>a b. go_compare a b < 0), op_le = (\<lambda>a b. go_compare a b \<le> 0),
     op_gt = (\<lambda>a b. go_compare a b > 0), op_ge = (\<lambda>a b. go_compare a b \<ge> 0)\<rparr>"

definition floatOps :: "gfloat operand_ops" where
  "floatOps = \<lparr>op_kind = isFloatKind, op_get = rv_Float, op_eq = float_eq,
     op_lt = float_less, op_le = float_le, op_gt = (\<lambda>a b. float_less b a), op_ge = (\<lambda>a b. float_le b a)\<rparr>"

text \<open>\<open>isKind(rv.Type().Kind()) \<and> left op rv.Get()\<close>\<close>

definition compare_scalar ::
    "'a operand_ops \<Rightarrow> ('a \<Rightarrow> 'a \<Rightarrow> bool) \<Rightarrow> 'a \<Rightarrow> gval \<Rightarrow> bool go" where
  "compare_scalar ops r left rv =
     go_bind (rv_kind rv) (\<lambda>k. go_and (op_kind ops k) (go_bind (op_get ops rv) (\<lambda>x. Inr (r left x))))"

text \<open>The search loop over the elements of \<open>right\<close>; it stops at the first equal element.\<close>

fun array_has :: "'a operand_ops \<Rightarrow> 'a \<Rightarrow> gval list \<Rightarrow> bool go" where
  "array_has ops left [] = Inr False"
| "array_has ops left (ev # evs) =
     (if is_valid ev \<and> op_kind ops (kind_of ev)
      then go_bind (op_get ops ev) (\<lambda>x. if op_eq ops left x then Inr True else array_has ops left evs)
      else array_has ops left evs)"

definition compare_in :: "'a operand_ops \<Rightarrow> 'a \<Rightarrow> gval \<Rightarrow> bool go" where
  "compare_in ops left rv =
     (if is_valid rv \<and> isArrayKind (kind_of rv) then array_has ops left (rv_Elems rv) else Inr False)"

definition compare_not_in :: "'a operand_ops \<Rightarrow> 'a \<Rightarrow> gval \<Rightarrow> bool go" where
  "compare_not_in ops left rv =
     (if is_valid rv \<and> isArrayKind (kind_of rv)
      then go_bind (array_has ops left (rv_Elems rv)) (\<lambda>b. Inr (\<not> b)) else Inr True)"

text \<open>
  The range test: \<open>None\<close> where \<open>right\<close> is not an array with two operands of the right
  kind, in which case both \<open>CompareBetween\<close> and \<open>CompareNotBetween\<close> leave \<open>r\<close> false.
\<close>

definition in_bounds :: "'a operand_ops \<Rightarrow> 'a \<Rightarrow> gval \<Rightarrow> bool option go" where
  "in_bounds ops left rv =
     (if is_valid rv \<and> isArrayKind (kind_of rv) \<and> 1 < length (rv_Elems rv)
      then let ev1 = rv_Elems rv ! 0; ev2 = rv_Elems rv ! 1 in
        if is_valid ev1 \<and> op_kind ops (kind_of ev1) \<and> is_valid ev2 \<and> op_kind ops (kind_of ev2)
        then go_bind (op_get ops ev1) (\<lambda>x. if op_ge ops left x
               then go_bind (op_get ops ev2) (\<lambda>y. Inr (Some (op_le ops left y)))
               else Inr (Some False))
        else Inr None
      else Inr None)"

definition compare_between :: "'a operand_ops \<Rightarrow> 'a \<Rightarrow> gval \<Rightarrow> bool go" where
  "compare_between ops left rv = go_bind (in_bounds ops left rv) (\<lambda>b. Inr (b = Some True))"

definition compare_not_between :: "'a operand_ops \<Rightarrow> 'a \<Rightarrow> gval \<Rightarrow> bool go" where
  "compare_not_between ops left rv = go_bind (in_bounds ops left rv) (\<lambda>b. Inr (b = Some False))"

fun compare_op :: "'a operand_ops \<Rightarrow> CompareType \<Rightarrow> 'a \<Rightarrow> gval \<Rightarrow> bool go" where
  "compare_op ops CompareEquals left rv = compare_scalar ops (op_eq ops) left rv"
| "compare_op ops ConpareNotEquals left rv = compare_scalar ops (\<lambda>a b. \<not> op_eq ops a b) left rv"
| "compare_op ops CompareLessThan left rv = compare_scalar ops (op_lt ops) left rv"
| "compare_op ops CompareLessEquals left rv = compare_scalar ops (op_le ops) left rv"
| "compare_op ops CompareGreaterThan left rv = compare_scalar ops (op_gt ops) left rv"
| "compare_op ops CompareGreaterEquals left rv = compare_scalar ops (op_ge ops) left rv"
| "compare_op ops CompareContains left rv = compare_in ops left rv"
| "compare_op ops CompareInArray left rv = compare_in ops left rv"
| "compare_op ops CompareNotInArray left rv = compare_not_in ops left rv"
| "compare_op ops CompareBetween left rv = compare_between ops left rv"
| "compare_op ops CompareNotBetween left rv = compare_not_between ops left rv"
| "compare_op ops (CompareUnknown n) left rv = Inr False"

definition compareInt :: "CompareType \<Rightarrow> gval \<Rightarrow> gval \<Rightarrow> bool go" where
  "compareInt cmp value right = go_bind (rv_Int value) (\<lambda>left. compare_op intOps cmp left right)"

definition compareString :: "CompareType \<Rightarrow> gval \<Rightarrow> gval \<Rightarrow> bool go" where
  "compareString cmp value right =
     go_bind (rv_String value) (\<lambda>left.
       if cmp = CompareContains
       then compare_scalar stringOps (\<lambda>l r. go_contains r l) left right
       else compare_op stringOps cmp left right)"

definition compareFloat :: "CompareType \<Rightarrow> gval \<Rightarrow> gval \<Rightarrow> bool go" where
  "compareFloat cmp value right = go_bind (rv_Float value) (\<lambda>left. compare_op floatOps cmp left right)"

definition compareValue :: "gval \<Rightarrow> gval \<Rightarrow> CompareType \<Rightarrow> bool go" where
  "compareValue value right cmp =
     go_bind (rv_kind value) (\<lambda>k.
       if isIntKind k then compareInt cmp value right
       else if isStringKind k then compareString cmp value right
       else if isFloatKind k then compareFloat cmp value right
       else Inr False)"

section \<open>Comparison objects\<close>

record comparisonMeta =
  Comparison :: CompareType
  Field :: string
  Value :: gval

datatype ComparisonObject =
  ComparisonObject (ands: "comparisonMeta list option") (ors: "comparisonMeta list option")
    (nestedComparison: "ComparisonObject option")

definition NewComparisonObject :: ComparisonObject where
  "NewComparisonObject = ComparisonObject None None None"

definition cmpAnd :: "ComparisonObject \<Rightarrow> CompareType \<Rightarrow> string \<Rightarrow> gval \<Rightarrow> ComparisonObject" where
  "cmpAnd c t f v = ComparisonObject
     (Some ((case ands c of None \<Rightarrow> [] | Some as \<Rightarrow> as) @ [\<lparr>Comparison = t, Field = f, Value = v\<rparr>]))
     (ors c) (nestedComparison c)"

definition cmpOr :: "ComparisonObject \<Rightarrow> CompareType \<Rightarrow> string \<Rightarrow> gval \<Rightarrow> ComparisonObject" where
  "cmpOr c t f v = ComparisonObject (ands c)
     (Some ((case ors c of None \<Rightarrow> [] | Some os \<Rightarrow> os) @ [\<lparr>Comparison = t, Field = f, Value = v\<rparr>]))
     (nestedComparison c)"

text \<open>\<open>FieldByName\<close>: the zero value where the struct has no such field.\<close>

definition field_by_name :: "(string \<times> gval) list \<Rightarrow> string \<Rightarrow> gval" where
  "field_by_name fs f = (case map_of fs f of None \<Rightarrow> GNil | Some v \<Rightarrow> v)"

definition meta_holds :: "(string \<times> gval) list \<Rightarrow> comparisonMeta \<Rightarrow> bool go" where
  "meta_holds fs a =
     (let fv = field_by_name fs (Field a)
      in go_and (is_valid fv) (compareValue fv (Value a) (Comparison a)))"

fun ands_loop :: "(string \<times> gval) list \<Rightarrow> comparisonMeta list \<Rightarrow> bool go" where
  "ands_loop fs [] = Inr True"
| "ands_loop fs (a # as) = go_bind (meta_holds fs a) (\<lambda>b. if b then ands_loop fs as else Inr False)"

fun ors_loop :: "(string \<times> gval) list \<Rightarrow> comparisonMeta list \<Rightarrow> bool go" where
  "ors_loop fs [] = Inr False"
| "ors_loop fs (a # as) = go_bind (meta_holds fs a) (\<lambda>b. if b then Inr True else ors_loop fs as)"

text \<open>\<open>ev.Elem()\<close> once, when the value is a pointer.\<close>

definition indirect :: "gval \<Rightarrow> gval" where
  "indirect v = (case v of GPtr None \<Rightarrow> GNil | GPtr (Some w) \<Rightarrow> w | _ \<Rightarrow> v)"

fun Evaluate :: "ComparisonObject \<Rightarrow> gval \<Rightarrow> bool go" where
  "Evaluate (ComparisonObject as os nested) element =
     (case indirect element of
        GStruct fs \<Rightarrow>
          go_bind (case as of None \<Rightarrow> Inr False | Some xs \<Rightarrow> ands_loop fs xs) (\<lambda>r1.
            if as \<noteq> None \<and> \<not> r1 then Inr False
            else go_bind (case os of None \<Rightarrow> Inr r1 | Some ys \<Rightarrow> ors_loop fs ys) (\<lambda>r2.
              if os \<noteq> None \<and> \<not> r2 then Inr False
              else (case nested of None \<Rightarrow> Inr r2 | Some c \<Rightarrow> Evaluate c element)))
      | _ \<Rightarrow> Inr False)"

section \<open>Operands of one kind\<close>

text \<open>
  What the three families of operands share: values \<open>inj a\<close> of the kind pass the kind test
  and are read back by the accessor.
\<close>

locale operand =
  fixes ops :: "'a operand_ops" and inj :: "'a \<Rightarrow> gval"
  assumes get_inj [simp]: "op_get ops (inj a) = Inr a"
    and valid_inj [simp]: "is_valid (inj a)"
    and kind_inj [simp]: "op_kind ops (kind_of (inj a))"
begin

lemma scalar_typed [simp]: "compare_scalar ops r left (inj a) = Inr (r left a)"
  using valid_inj [of a] by (simp add: compare_scalar_def rv_kind_def)

lemma array_has_typed [simp]:
  "array_has ops left (map inj xs) = Inr (\<exists>x\<in>set xs. op_eq ops left x)"
  by (induction xs) auto

lemma in_typed [simp]:
  "compare_in ops left (GSlice (map inj xs)) = Inr (\<exists>x\<in>set xs. op_eq ops left x)"
  by (simp add: compare_in_def is_valid_def isArrayKind_def)

lemma not_in_typed [simp]:
  "compare_not_in ops left (GSlice (map inj xs)) = Inr (\<not> (\<exists>x\<in>set xs. op_eq ops left x))"
  by (simp add: compare_not_in_def is_valid_def isArrayKind_def)

lemma in_bounds_typed [simp]:
  "in_bounds ops left (GSlice (inj a # inj b # vs)) = Inr (Some (op_ge ops left a \<and> op_le ops left b))"
  using valid_inj [of a] valid_inj [of b]
  by (simp add: in_bounds_def is_valid_def isArrayKind_def)

lemma between_typed [simp]:
  "compare_between ops left (GSlice (inj a # inj b # vs)) = Inr (op_ge ops left a \<and> op_le ops left b)"
  "compare_not_between ops left (GSlice (inj a # inj b # vs)) = Inr (\<not> (op_ge ops left a \<and> op_le ops left b))"
  by (simp_all add: compare_between_def compare_not_between_def)

end

text \<open>Operands under a total order, on which the six scalar comparisons are consistent.\<close>

locale ordered_operand = operand +
  assumes eq_iff: "op_eq ops a b \<longleftrightarrow> a = b"
    and le_refl: "op_le ops a a"
    and le_antisym: "op_le ops a b \<Longrightarrow> op_le ops b a \<Longrightarrow> a = b"
    and le_trans: "op_le ops a b \<Longrightarrow> op_le ops b c \<Longrightarrow> op_le ops a c"
    and le_total: "op_le ops a b \<or> op_le ops b a"
    and lt_iff: "op_lt ops a b \<longleftrightarrow> \<not> op_le ops b a"
    and gt_iff: "op_gt ops a b \<longleftrightarrow> \<not> op_le ops a b"
    and ge_iff: "op_ge ops a b \<longleftrightarrow> op_le ops b a"
begin

lemma trichotomy: "op_lt ops a b \<or> op_eq ops a b \<or> op_gt ops a b"
  using le_antisym le_refl by (auto simp: eq_iff lt_iff gt_iff)

lemma exclusive: "\<not> (op_lt ops a b \<and> op_gt ops a b)" "\<not> (op_lt ops a b \<and> op_eq ops a b)"
  "\<not> (op_eq ops a b \<and> op_gt ops a b)"
  using le_total [of a b] le_refl by (auto simp: eq_iff lt_iff gt_iff)

lemma empty_range: "op_lt ops b a \<Longrightarrow> compare_between ops x (GSlice [inj a, inj b]) = Inr False"
  using le_trans by (auto simp: ge_iff lt_iff)

lemma point_range: "compare_between ops x (GSlice [inj a, inj a]) = compare_op ops CompareEquals x (inj a)"
  using le_antisym le_refl by (auto simp: ge_iff eq_iff)

end

interpretation ints: ordered_operand intOps GInt
  by unfold_locales (auto simp: intOps_def is_valid_def isIntKind_def)

interpretation strs: ordered_operand stringOps GString
proof unfold_locales
  fix a b c :: string
  have flip: "go_compare b a = - go_compare a b" by (rule go_compare_antisym)
  show "op_eq stringOps a b = (a = b)"
    by (simp add: stringOps_def go_compare_eq_0)
  show "op_le stringOps a b \<Longrightarrow> op_le stringOps b a \<Longrightarrow> a = b"
    using flip go_compare_eq_0 [of a b] by (simp add: stringOps_def)
  show "op_le stringOps a b \<Longrightarrow> op_le stringOps b c \<Longrightarrow> op_le stringOps a c"
    using go_compare_trans by (simp add: stringOps_def)
  show "op_le stringOps a b \<or> op_le stringOps b a"
    "op_lt stringOps a b = (\<not> op_le stringOps b a)"
    "op_gt stringOps a b = (\<not> op_le stringOps a b)"
    "op_ge stringOps a b = op_le stringOps b a"
    using flip by (auto simp: stringOps_def)
qed (simp_all add: stringOps_def is_valid_def isStringKind_def)

interpretation floats: operand floatOps GFloat
  by unfold_locales (auto simp: floatOps_def is_valid_def isFloatKind_def)

lemma compareValue_simps [simp, compare_simps]:
  "compareValue (GInt i) rv t = compare_op intOps t i rv"
  "compareValue (GFloat x) rv t = compare_op floatOps t x rv"
  "compareValue (GUint n) rv t = Inl ReflectKindMismatch"
  "t \<noteq> CompareContains \<Longrightarrow> compareValue (GString s) rv t = compare_op stringOps t s rv"
  "compareValue (GString s) (GString u) CompareContains = Inr (sublist s u)"
  by (simp_all add: compareValue_def compareInt_def compareString_def compareFloat_def kind_defs
      go_contains_iff)

section \<open>What a comparison object means\<close>

text \<open>
  The specification of \<open>Evaluate\<close>: every \<open>And\<close> condition holds, some \<open>Or\<close>
  condition holds (when there are any), and the nested object is satisfied; an object with no
  condition at all is never satisfied.
\<close>

definition meta_sat :: "(string \<times> gval) list \<Rightarrow> comparisonMeta \<Rightarrow> bool" where
  "meta_sat fs a \<longleftrightarrow> meta_holds fs a = Inr True"

fun cmp_sat :: "(string \<times> gval) list \<Rightarrow> ComparisonObject \<Rightarrow> bool" where
  "cmp_sat fs (ComparisonObject as os nested) \<longleftrightarrow>
     (case as of None \<Rightarrow> True | Some xs \<Rightarrow> list_all (meta_sat fs) xs) \<and>
     (case os of None \<Rightarrow> True | Some ys \<Rightarrow> list_ex (meta_sat fs) ys) \<and>
     (case nested of None \<Rightarrow> as \<noteq> None \<or> os \<noteq> None | Some c \<Rightarrow> cmp_sat fs c)"

fun cmp_metas :: "ComparisonObject \<Rightarrow> comparisonMeta list" where
  "cmp_metas (ComparisonObject as os nested) =
     (case as of None \<Rightarrow> [] | Some xs \<Rightarrow> xs) @ (case os of None \<Rightarrow> [] | Some ys \<Rightarrow> ys) @
     (case nested of None \<Rightarrow> [] | Some c \<Rightarrow> cmp_metas c)"

definition no_panic :: "'a go \<Rightarrow> bool" where
  "no_panic m \<longleftrightarrow> (case m of Inl _ \<Rightarrow> False | Inr _ \<Rightarrow> True)"

lemma no_panic_simps [simp]: "no_panic (Inr a)" "\<not> no_panic (Inl p)"
  by (simp_all add: no_panic_def)

lemma meta_holds_sat: "no_panic (meta_holds fs a) \<Longrightarrow> meta_holds fs a = Inr (meta_sat fs a)"
  by (cases "meta_holds fs a") (auto simp: meta_sat_def)

lemma ands_loop_sat:
  "list_all (\<lambda>a. no_panic (meta_holds fs a)) as \<Longrightarrow> ands_loop fs as = Inr (list_all (meta_sat fs) as)"
  by (induction as) (auto simp: meta_holds_sat)

lemma ors_loop_sat:
  "list_all (\<lambda>a. no_panic (meta_holds fs a)) as \<Longrightarrow> ors_loop fs as = Inr (list_ex (meta_sat fs) as)"
  by (induction as) (auto simp: meta_holds_sat)

lemma Evaluate_sat:
  assumes "indirect element = GStruct fs"
    and "list_all (\<lambda>a. no_panic (meta_holds fs a)) (cmp_metas c)"
  shows "Evaluate c element = Inr (cmp_sat fs c)"
  using assms
proof (induction c element rule: Evaluate.induct)
  case (1 as os nested element)
  have ands: "(case as of None \<Rightarrow> Inr False | Some xs \<Rightarrow> ands_loop fs xs)
      = Inr (as \<noteq> None \<and> list_all (meta_sat fs) (case as of None \<Rightarrow> [] | Some xs \<Rightarrow> xs))"
    using "1.prems" by (cases as) (simp_all add: ands_loop_sat)
  have ors: "os = Some ys \<Longrightarrow> ors_loop fs ys = Inr (list_ex (meta_sat fs) ys)" for ys
    using "1.prems" by (simp add: ors_loop_sat)
  have nested: "nested = Some c \<Longrightarrow> Evaluate c element = Inr (cmp_sat fs c)" for c
    using "1.IH" "1.prems" ands ors by (cases as; cases os) auto
  show ?case
    using "1.prems"(1) ands ors nested by (cases as; cases os; cases nested) auto
qed

text \<open>A query built with \<open>And\<close> alone.\<close>

definition and_query :: "(CompareType \<times> string \<times> gval) list \<Rightarrow> ComparisonObject" where
  "and_query qs = foldl (\<lambda>c (t, f, v). cmpAnd c t f v) NewComparisonObject qs"

definition query_meta :: "CompareType \<times> string \<times> gval \<Rightarrow> comparisonMeta" where
  "query_meta q = (case q of (t, f, v) \<Rightarrow> \<lparr>Comparison = t, Field = f, Value = v\<rparr>)"

lemma and_query_eq:
  "qs \<noteq> [] \<Longrightarrow> and_query qs = ComparisonObject (Some (map query_meta qs)) None None"
proof (induction qs rule: rev_induct)
  case (snoc q qs)
  then show ?case
    by (cases "qs = []")
      (auto simp: and_query_def cmpAnd_def NewComparisonObject_def query_meta_def split: prod.splits)
qed simp

section \<open>Properties\<close>

text \<open>
  C34. On a struct, passed by value or through one pointer, \<open>Evaluate\<close> computes the
  meaning \<open>cmp_sat\<close> of the object (all of the \<open>And\<close> conditions, one of the \<open>Or\<close>
  conditions, and the nested object), provided no single condition panics on the element's fields.
\<close>

theorem Evaluate_spec:
  assumes "indirect element = GStruct fs"
    and "list_all (\<lambda>a. no_panic (meta_holds fs a)) (cmp_metas c)"
  shows "Evaluate c element = Inr (cmp_sat fs c)"
  using assms by (rule Evaluate_sat)

theorem Evaluate_spec_witness:
  "Evaluate (cmpOr (cmpAnd NewComparisonObject CompareLessThan ''n'' (GInt 5)) CompareEquals ''s'' (GString ''a''))
     (GPtr (Some (GStruct [(''n'', GInt 3), (''s'', GString ''a'')]))) = Inr True"
  by (subst Evaluate_spec [where fs = "[(''n'', GInt 3), (''s'', GString ''a'')]"])
    (simp_all add: indirect_def cmpOr_def cmpAnd_def NewComparisonObject_def meta_holds_def meta_sat_def
      field_by_name_def is_valid_def intOps_def stringOps_def compare_scalar_def kind_defs)

text \<open>
  A query of \<open>And\<close> conditions alone selects exactly the structs on which every
  condition holds; the order in which the conditions were added is irrelevant to the answer.
\<close>

theorem and_query_conjunction:
  assumes "qs \<noteq> []" and "\<forall>q\<in>set qs. no_panic (meta_holds fs (query_meta q))"
  shows "Evaluate (and_query qs) (GPtr (Some (GStruct fs)))
    = Inr (\<forall>q\<in>set qs. meta_holds fs (query_meta q) = Inr True)"
proof -
  have "Evaluate (and_query qs) (GPtr (Some (GStruct fs))) = Inr (cmp_sat fs (and_query qs))"
    using assms
    by (intro Evaluate_sat) (simp_all add: indirect_def and_query_eq list_all_iff)
  then show ?thesis
    using assms(1) by (simp add: and_query_eq list_all_iff meta_sat_def)
qed

theorem and_query_conjunction_witness:
  "Evaluate (and_query [(CompareGreaterEquals, ''val'', GString ''3''), (CompareLessEquals, ''val'', GString ''5'')])
     (GPtr (Some (GStruct [(''val'', GString ''4'')]))) = Inr True"
  by (subst and_query_conjunction)
    (simp_all add: query_meta_def meta_holds_def field_by_name_def is_valid_def stringOps_def
      compare_scalar_def kind_defs)

text \<open>
  Membership tests on slices of integers and of strings: \<open>CompareInArray\<close> decides
  membership and \<open>CompareNotInArray\<close> its complement; on strings \<open>CompareContains\<close> is
  instead the substring test of the field in the given text.
\<close>

theorem membership_tests:
  "compareValue (GInt i) (GSlice (map GInt xs)) CompareInArray = Inr (i \<in> set xs)
   \<and> compareValue (GInt i) (GSlice (map GInt xs)) CompareNotInArray = Inr (i \<notin> set xs)
   \<and> compareValue (GString s) (GSlice (map GString ts)) CompareInArray = Inr (s \<in> set ts)
   \<and> compareValue (GString s) (GSlice (map GString ts)) CompareNotInArray = Inr (s \<notin> set ts)
   \<and> compareValue (GString s) (GString u) CompareContains = Inr (sublist s u)"
  by (auto simp: ints.eq_iff strs.eq_iff)

text \<open>
  The range tests agree with the scalar tests on both bounds, for integers and for strings:
  \<open>CompareBetween\<close> holds exactly when \<open>CompareGreaterEquals\<close> holds on the lower bound and
  \<open>CompareLessEquals\<close> on the upper one, and \<open>CompareNotBetween\<close> is its complement.
\<close>

theorem range_tests:
  "compareValue (GInt i) (GSlice [GInt a, GInt b]) CompareBetween =
     go_bind (compareValue (GInt i) (GInt a) CompareGreaterEquals)
       (\<lambda>l. go_and l (compareValue (GInt i) (GInt b) CompareLessEquals))
   \<and> compareValue (GInt i) (GSlice [GInt a, GInt b]) CompareNotBetween =
     go_bind (compareValue (GInt i) (GSlice [GInt a, GInt b]) CompareBetween) (\<lambda>r. Inr (\<not> r))
   \<and> compareValue (GString s) (GSlice [GString t, GString u]) CompareBetween =
     go_bind (compareValue (GString s) (GString t) CompareGreaterEquals)
       (\<lambda>l. go_and l (compareValue (GString s) (GString u) CompareLessEquals))
   \<and> compareValue (GString s) (GSlice [GString t, GString u]) CompareNotBetween =
     go_bind (compareValue (GString s) (GSlice [GString t, GString u]) CompareBetween) (\<lambda>r. Inr (\<not> r))"
  by (simp add: go_and_def)

definition is_scalar_compare :: "CompareType \<Rightarrow> bool" where
  "is_scalar_compare t \<longleftrightarrow> t \<in> {CompareEquals, ConpareNotEquals, CompareLessThan, CompareLessEquals,
     CompareGreaterThan, CompareGreaterEquals}"

lemma compare_scalar_panics:
  "no_panic (compare_scalar intOps r i rv) \<longleftrightarrow> rv \<noteq> GNil \<and> kind_of rv \<noteq> KUint"
  "no_panic (compare_scalar stringOps q s rv) \<longleftrightarrow> rv \<noteq> GNil"
  "no_panic (compare_scalar floatOps p x rv) \<longleftrightarrow> rv \<noteq> GNil"
  by (cases rv; simp add: compare_scalar_def intOps_def stringOps_def floatOps_def kind_defs)+

text \<open>
  Exactly when a scalar comparison panics: the field is an unsigned integer (the code asks
  \<open>reflect\<close> for its signed value, whatever the right operand), or an integer compared with an
  unsigned one, or any integer, string or float compared with \<open>nil\<close>.
\<close>

theorem scalar_compare_panics:
  assumes "is_scalar_compare t" and "v \<noteq> GNil"
  shows "\<not> no_panic (compareValue v rv t) \<longleftrightarrow>
    kind_of v = KUint \<or> (kind_of v \<in> {KInt, KString, KFloat} \<and> rv = GNil)
    \<or> (kind_of v = KInt \<and> kind_of rv = KUint)"
proof -
  have op: "no_panic (compare_op intOps t i rv) \<longleftrightarrow> rv \<noteq> GNil \<and> kind_of rv \<noteq> KUint"
    "no_panic (compare_op stringOps t s rv) \<longleftrightarrow> rv \<noteq> GNil"
    "no_panic (compare_op floatOps t x rv) \<longleftrightarrow> rv \<noteq> GNil" for i s x
    using assms(1) by (auto simp: is_scalar_compare_def compare_scalar_panics)
  have "t \<noteq> CompareContains" using assms(1) by (auto simp: is_scalar_compare_def)
  then show ?thesis
    using assms(2) op by (cases v) (auto simp: compareValue_def kind_defs compareInt_def compareString_def compareFloat_def)
qed

theorem scalar_compare_panics_witness:
  "\<not> no_panic (compareValue (GUint 3) (GInt 3) CompareEquals)"
  by (subst scalar_compare_panics) (simp_all add: is_scalar_compare_def)

end
