(* ===== verification/IQueue.thy ===== *)
theory IQueue
  imports Comparison "HOL-Library.Multiset"
begin

text \<open>
  The interfaces of \<open>queues/prototypes.go\<close>.  An element type \<open>'a\<close> comes with its
  dictionary \<open>'a IElement\<close> of methods (Go dispatches them dynamically), together with the
  view that reflection has of an element.  The locale \<open>iqueue\<close> is the contract of
  \<open>IQueue\<close> that the two implementations share: what \<open>Pop\<close>, \<open>PopMany\<close>,
  \<open>First\<close>, \<open>Elements\<close> and \<open>GetSize\<close> show of one underlying sequence.
\<close>

named_theorems queue_simps
  \<open>the operations of the two queues\<close>

section \<open>Elements\<close>

record 'a IElement =
  GetID :: "'a \<Rightarrow> string"
  GetName :: "'a \<Rightarrow> string"
  OrderingValue :: "'a \<Rightarrow> int"
  DebugString :: "'a \<Rightarrow> string"
  Reflected :: "'a \<Rightarrow> gval"

text \<open>The element of the repository's own tests: \<open>demoElement\<close> of \<open>unittests/queues_test.go\<close>.\<close>

record demoElement =
  demo_val :: string
  demo_ordering :: int

definition demoIE :: "demoElement IElement" where
  "demoIE = \<lparr>GetID = demo_val, GetName = demo_val, OrderingValue = demo_ordering, DebugString = demo_val,
     Reflected = (\<lambda>e. GPtr (Some (GStruct [(''val'', GString (demo_val e)), (''ordering'', GInt (demo_ordering e))])))\<rparr>"

section \<open>Searching a sequence of elements\<close>

text \<open>The selection loop of \<open>FindElements\<close>; a panic of \<open>Evaluate\<close> aborts it.\<close>

fun find_loop :: "('a \<Rightarrow> bool go) \<Rightarrow> 'a list \<Rightarrow> 'a list go" where
  "find_loop p [] = Inr []"
| "find_loop p (e # es) =
     go_bind (p e) (\<lambda>b. go_bind (find_loop p es) (\<lambda>rs. Inr (if b then e # rs else rs)))"

lemma find_loop_filter:
  "(\<And>e. e \<in> set es \<Longrightarrow> p e = Inr (q e)) \<Longrightarrow> find_loop p es = Inr (filter q es)"
  by (induction es) auto

text \<open>The position of the first element with a given identifier.\<close>

fun id_position :: "'a IElement \<Rightarrow> string \<Rightarrow> 'a list \<Rightarrow> nat option" where
  "id_position ie k [] = None"
| "id_position ie k (e # es) =
     (if GetID ie e = k then Some 0 else map_option Suc (id_position ie k es))"

lemma id_position_None: "id_position ie k es = None \<longleftrightarrow> k \<notin> GetID ie ` set es"
  by (induction es) auto

lemma id_position_Some:
  "id_position ie k es = Some i \<Longrightarrow>
    i < length es \<and> GetID ie (es ! i) = k \<and> (\<forall>j<i. GetID ie (es ! j) \<noteq> k)"
proof (induction es arbitrary: i)
  case (Cons e es)
  show ?case
  proof (cases "GetID ie e = k")
    case False
    with Cons.prems obtain j where "id_position ie k es = Some j" "i = Suc j" by auto
    with Cons.IH False show ?thesis by (fastforce simp: less_Suc_eq_0_disj)
  qed (use Cons.prems in simp)
qed simp

lemma id_position_split:
  "id_position ie k es = Some i \<Longrightarrow>
    \<exists>xs e ys. es = xs @ e # ys \<and> length xs = i \<and> GetID ie e = k \<and> k \<notin> GetID ie ` set xs"
proof (induction es arbitrary: i)
  case (Cons e es)
  show ?case
  proof (cases "GetID ie e = k")
    case True
    with Cons.prems show ?thesis by (intro exI [of _ "[]"]) auto
  next
    case False
    with Cons.prems obtain j where "id_position ie k es = Some j" "i = Suc j" by auto
    with Cons.IH obtain xs e' ys where "es = xs @ e' # ys" "length xs = j" "GetID ie e' = k"
      "k \<notin> GetID ie ` set xs" by blast
    with False \<open>i = Suc j\<close> show ?thesis by (intro exI [of _ "e # xs"]) auto
  qed
qed simp

lemma find_id_split:
  "GetID ie e = k \<Longrightarrow> k \<notin> GetID ie ` set xs \<Longrightarrow> find (\<lambda>e. GetID ie e = k) (xs @ e # ys) = Some e"
  by (induction xs) auto

text \<open>\<open>append(q[0:i], q[i+1:]...)\<close>\<close>

definition drop_nth :: "nat \<Rightarrow> 'a list \<Rightarrow> 'a list" where
  "drop_nth i xs = take i xs @ drop (Suc i) xs"

lemma drop_nth_split [simp]: "drop_nth (length xs) (xs @ e # ys) = xs @ ys"
  by (simp add: drop_nth_def)

lemma mset_drop_nth: "i < length xs \<Longrightarrow> mset (drop_nth i xs) = mset xs - {#xs ! i#}"
proof -
  assume i: "i < length xs"
  then have "mset xs = mset (take i xs @ xs ! i # drop (Suc i) xs)"
    by (simp flip: id_take_nth_drop)
  then show ?thesis by (simp add: drop_nth_def)
qed

lemma sorted_wrt_drop_nth: "sorted_wrt P xs \<Longrightarrow> sorted_wrt P (drop_nth i xs)"
proof (cases "i < length xs")
  case True
  assume "sorted_wrt P xs"
  with True have "sorted_wrt P (take i xs @ xs ! i # drop (Suc i) xs)"
    by (simp flip: id_take_nth_drop)
  then show ?thesis by (auto simp: drop_nth_def sorted_wrt_append)
qed (simp add: drop_nth_def)

lemma map_nth_take: "n \<le> length xs \<Longrightarrow> map (\<lambda>i. xs ! i) [0..<n] = take n xs"
  by (rule nth_equalityI) auto

section \<open>The contract of IQueue\<close>

text \<open>
  The laws are stated over \<open>elems\<close>, the sequence a queue holds, and \<open>push_spec\<close>, the
  position at which the implementation inserts.
\<close>

locale iqueue =
  fixes elems :: "'q \<Rightarrow> 'a list"
    and inv :: "'q \<Rightarrow> bool"
    and push :: "'q \<Rightarrow> 'a \<Rightarrow> bool \<times> 'q"
    and pop :: "'q \<Rightarrow> 'a option \<times> 'q"
    and pop_many :: "'q \<Rightarrow> int \<Rightarrow> ('a list \<times> int) \<times> 'q"
    and first :: "'q \<Rightarrow> 'a option"
    and elements :: "'q \<Rightarrow> 'a list"
    and get_size :: "'q \<Rightarrow> int"
  assumes elems_elements: "elements q = elems q"
    and size_elems: "get_size q = int (length (elems q))"
    and first_elems: "first q = (case elems q of [] \<Rightarrow> None | x # _ \<Rightarrow> Some x)"
    and pop_result: "fst (pop q) = first q"
    and pop_elems: "elems (snd (pop q)) = tl (elems q)"
    and pop_many_result: "fst (pop_many q n) = (take (nat n) (elems q), min (max 0 n) (get_size q))"
    and pop_many_elems: "elems (snd (pop_many q n)) = drop (nat n) (elems q)"
    and push_result: "fst (push q e)"
    and push_mset: "mset (elems (snd (push q e))) = mset (elems q) + {#e#}"
    and inv_push: "inv q \<Longrightarrow> inv (snd (push q e))"
    and inv_pop: "inv q \<Longrightarrow> inv (snd (pop q))"
    and inv_pop_many: "inv q \<Longrightarrow> inv (snd (pop_many q n))"
begin

text \<open>\<open>n\<close> calls of \<open>Pop\<close>, collecting the elements they return.\<close>

fun pops :: "nat \<Rightarrow> 'q \<Rightarrow> 'a list \<times> 'q" where
  "pops 0 q = ([], q)"
| "pops (Suc n) q =
     (case pop q of (None, q') \<Rightarrow> ([], q')
      | (Some x, q') \<Rightarrow> (case pops n q' of (xs, q'') \<Rightarrow> (x # xs, q'')))"

lemma pop_Nil: "elems q = [] \<Longrightarrow> fst (pop q) = None \<and> elems (snd (pop q)) = []"
  by (simp add: pop_result first_elems pop_elems)

lemma pop_Cons: "elems q = x # xs \<Longrightarrow> fst (pop q) = Some x \<and> elems (snd (pop q)) = xs"
  by (simp add: pop_result first_elems pop_elems)

lemma pops_elems: "fst (pops n q) = take n (elems q) \<and> elems (snd (pops n q)) = drop n (elems q)"
proof (induction n arbitrary: q)
  case (Suc n)
  show ?case
  proof (cases "elems q")
    case Nil
    with pop_Nil [OF Nil] show ?thesis by (cases "pop q") simp
  next
    case (Cons x xs)
    obtain o' q' where "pop q = (o', q')" by fastforce
    with pop_Cons [OF Cons] Suc.IH [of q'] Cons show ?thesis
      by (cases "pops n q'") simp
  qed
qed simp

lemma pop_many_pops:
  "fst (fst (pop_many q n)) = fst (pops (nat n) q)
   \<and> elems (snd (pop_many q n)) = elems (snd (pops (nat n) q))"
  by (simp add: pops_elems pop_many_result pop_many_elems)

lemma pop_many_count: "snd (fst (pop_many q n)) = int (length (fst (fst (pop_many q n))))"
  by (simp add: pop_many_result size_elems)

lemma inv_pops: "inv q \<Longrightarrow> inv (snd (pops n q))"
proof (induction n arbitrary: q)
  case (Suc n)
  then show ?case using inv_pop [OF Suc.prems] Suc.IH
    by (cases "pop q") (auto split: option.splits prod.splits, force)
qed simp

lemma pop_mset: "pop q = (Some x, q') \<Longrightarrow> mset (elems q) = add_mset x (mset (elems q'))"
  using pop_Nil [of q] pop_Cons [of q] by (cases "elems q") auto

lemma push_size: "get_size (snd (push q e)) = get_size q + 1"
proof -
  have "size (mset (elems (snd (push q e)))) = size (mset (elems q) + {#e#})"
    by (simp only: push_mset)
  then show ?thesis by (simp add: size_elems)
qed

lemma pop_empty_iff: "fst (pop q) = None \<longleftrightarrow> get_size q = 0"
  by (simp add: pop_result first_elems size_elems split: list.splits)

end

end
