(* ===== verification/Fifo_Queue.thy ===== *)
theory Fifo_Queue
  imports IQueue
begin

text \<open>
  \<open>queues/fifoqueue.go\<close>: the queue in order of arrival.  Every method runs under the queue's
  mutex from its first to its last access of the slice, so a method is one step on the state.  A
  nil slice behaves as an empty one in every method and is not distinguished.  No method leaves
  the backing array shared with a caller, except in branches that panic, so the slice is a list.
\<close>

record 'a FIFOQueue =
  fifo_queue :: "'a list"

definition NewFIFOQueue :: "'a FIFOQueue" where
  "NewFIFOQueue = \<lparr>fifo_queue = []\<rparr>"

definition fifo_Push :: "'a FIFOQueue \<Rightarrow> 'a \<Rightarrow> bool \<times> 'a FIFOQueue" where
  "fifo_Push q item = (True, q\<lparr>fifo_queue := fifo_queue q @ [item]\<rparr>)"

definition fifo_Pop :: "'a FIFOQueue \<Rightarrow> 'a option \<times> 'a FIFOQueue" where
  "fifo_Pop q =
     (case fifo_queue q of [] \<Rightarrow> (None, q)
      | item # rest \<Rightarrow> (Some item, q\<lparr>fifo_queue := rest\<rparr>))"

definition fifo_PopMany :: "'a FIFOQueue \<Rightarrow> int \<Rightarrow> ('a list \<times> int) \<times> 'a FIFOQueue" where
  "fifo_PopMany q maxResults =
     (let maxLen = int (length (fifo_queue q))
      in if 0 \<ge> maxLen \<or> 0 \<ge> maxResults then (([], 0), q)
         else let maxLen = (if maxLen > maxResults then maxResults else maxLen)
           in ((map (\<lambda>i. fifo_queue q ! i) [0..<nat maxLen], maxLen),
               q\<lparr>fifo_queue := drop (nat maxLen) (fifo_queue q)\<rparr>))"

definition fifo_First :: "'a FIFOQueue \<Rightarrow> 'a option" where
  "fifo_First q = (case fifo_queue q of [] \<Rightarrow> None | item # _ \<Rightarrow> Some item)"

definition fifo_Remove :: "'a IElement \<Rightarrow> 'a FIFOQueue \<Rightarrow> 'a \<Rightarrow> bool \<times> 'a FIFOQueue" where
  "fifo_Remove ie q item =
     (case id_position ie (GetID ie item) (fifo_queue q) of
        None \<Rightarrow> (False, q)
      | Some i \<Rightarrow> (True, q\<lparr>fifo_queue := drop_nth i (fifo_queue q)\<rparr>))"

definition fifo_Elements :: "'a FIFOQueue \<Rightarrow> 'a list" where
  "fifo_Elements q = fifo_queue q"

definition fifo_Dump :: "'a IElement \<Rightarrow> 'a FIFOQueue \<Rightarrow> string" where
  "fifo_Dump ie q = go_join (map (DebugString ie) (fifo_queue q)) '' ''"

text \<open>\<open>GetOne\<close> returns its argument, not the stored element.\<close>

definition fifo_GetOne :: "'a IElement \<Rightarrow> 'a FIFOQueue \<Rightarrow> 'a \<Rightarrow> 'a option" where
  "fifo_GetOne ie q item =
     (if id_position ie (GetID ie item) (fifo_queue q) = None then None else Some item)"

definition fifo_FindElements ::
    "'a IElement \<Rightarrow> 'a FIFOQueue \<Rightarrow> ComparisonObject option \<Rightarrow> 'a list go" where
  "fifo_FindElements ie q cmp =
     (case cmp of None \<Rightarrow> Inr []
      | Some c \<Rightarrow> find_loop (\<lambda>e. Evaluate c (Reflected ie e)) (fifo_queue q))"

definition fifo_GetElement :: "'a IElement \<Rightarrow> 'a FIFOQueue \<Rightarrow> string \<Rightarrow> 'a option" where
  "fifo_GetElement ie q ID = find (\<lambda>e. GetID ie e = ID) (fifo_queue q)"

text \<open>
  The cuts.  The two-sided slicing \<open>q.queue[:idx]\<close>, \<open>q.queue[idx:]\<close> is reached only with
  \<open>idx > len(q.queue)\<close>; there the second slicing panics whatever the capacity, with the mutex
  held.
\<close>

definition fifo_CutBefore :: "'a FIFOQueue \<Rightarrow> int \<Rightarrow> ('a list \<times> 'a FIFOQueue) go" where
  "fifo_CutBefore q idx =
     (if 0 > idx then Inr ([], q)
      else if int (length (fifo_queue q)) \<ge> idx then Inr (fifo_queue q, q\<lparr>fifo_queue := []\<rparr>)
      else go_bind (go_slice (fifo_queue q) 0 idx) (\<lambda>cuts.
        go_bind (go_slice (fifo_queue q) idx (int (length (fifo_queue q)))) (\<lambda>rest.
          Inr (cuts, q\<lparr>fifo_queue := rest\<rparr>))))"

definition fifo_CutAfter :: "'a FIFOQueue \<Rightarrow> int \<Rightarrow> ('a list \<times> 'a FIFOQueue) go" where
  "fifo_CutAfter q idx =
     (if 0 > idx then Inr (fifo_queue q, q\<lparr>fifo_queue := []\<rparr>)
      else if int (length (fifo_queue q)) \<ge> idx then Inr ([], q)
      else go_bind (go_slice (fifo_queue q) (idx + 1) (int (length (fifo_queue q)))) (\<lambda>cuts.
        go_bind (go_slice (fifo_queue q) 0 (idx + 1)) (\<lambda>rest.
          Inr (cuts, q\<lparr>fifo_queue := rest\<rparr>))))"

definition fifo_GetSize :: "'a FIFOQueue \<Rightarrow> int" where
  "fifo_GetSize q = int (length (fifo_queue q))"

section \<open>The contract\<close>

lemma fifo_PopMany_eq [queue_simps]:
  "fifo_PopMany q n =
     ((take (nat n) (fifo_queue q), min (max 0 n) (int (length (fifo_queue q)))),
      q\<lparr>fifo_queue := drop (nat n) (fifo_queue q)\<rparr>)"
  by (auto simp: fifo_PopMany_def Let_def map_nth_take nat_less_iff)

interpretation fifo: iqueue fifo_queue "\<lambda>_. True" fifo_Push fifo_Pop fifo_PopMany fifo_First
  fifo_Elements fifo_GetSize
  by unfold_locales
    (auto simp: fifo_Elements_def fifo_GetSize_def fifo_First_def fifo_Pop_def fifo_PopMany_eq
      fifo_Push_def split: list.splits)

lemma fifo_Push_queue [queue_simps]: "fifo_queue (snd (fifo_Push q e)) = fifo_queue q @ [e]"
  by (simp add: fifo_Push_def)

text \<open>A queue filled with a sequence of elements.\<close>

definition fifo_push_all :: "'a list \<Rightarrow> 'a FIFOQueue \<Rightarrow> 'a FIFOQueue" where
  "fifo_push_all es q = fold (\<lambda>e q. snd (fifo_Push q e)) es q"

lemma fifo_push_all_queue: "fifo_queue (fifo_push_all es q) = fifo_queue q @ es"
  by (induction es arbitrary: q) (simp_all add: fifo_push_all_def queue_simps)

lemma fifo_Remove_mset:
  assumes "fifo_Remove ie q item = (True, q')"
  obtains e where "e \<in> set (fifo_queue q)" and "GetID ie e = GetID ie item"
    and "mset (fifo_queue q) = add_mset e (mset (fifo_queue q'))"
proof -
  from assms obtain i where i: "id_position ie (GetID ie item) (fifo_queue q) = Some i"
    and q': "fifo_queue q' = drop_nth i (fifo_queue q)"
    by (auto simp: fifo_Remove_def split: option.splits)
  from id_position_Some [OF i] have "i < length (fifo_queue q)"
    and "GetID ie (fifo_queue q ! i) = GetID ie item" by auto
  with that [of "fifo_queue q ! i"] q' show ?thesis
    by (simp add: mset_drop_nth)
qed

section \<open>Properties\<close>

text \<open>
  First in, first out: after any sequence of pushes on a new queue, the \<open>n\<close>-th prefix of
  the pushed elements is what \<open>n\<close> calls of \<open>Pop\<close> return, in order, and what one call of
  \<open>PopMany(n)\<close> returns, and both leave the remaining elements.
\<close>

theorem fifo_order:
  "fst (fifo.pops n (fifo_push_all es NewFIFOQueue)) = take n es
   \<and> fst (fifo_PopMany (fifo_push_all es NewFIFOQueue) (int n)) = (take n es, int (length (take n es)))
   \<and> fifo_Elements (snd (fifo.pops n (fifo_push_all es NewFIFOQueue))) = drop n es
   \<and> fifo_Elements (snd (fifo_PopMany (fifo_push_all es NewFIFOQueue) (int n))) = drop n es"
  by (simp add: fifo.pops_elems fifo_push_all_queue NewFIFOQueue_def fifo_Elements_def queue_simps)

text \<open>
  \<open>Remove\<close> deletes exactly the first element with the identifier of its argument and
  keeps every other element in place; it reports false, and changes nothing, exactly when no
  element has that identifier.  \<open>GetOne\<close> and \<open>GetElement\<close> succeed on the same queues.
\<close>

theorem fifo_Remove_first_match:
  "(case fifo_Remove ie q item of (r, q') \<Rightarrow>
      (r \<longleftrightarrow> GetID ie item \<in> GetID ie ` set (fifo_queue q))
      \<and> (if \<not> r then q' = q else (\<exists>xs e ys. fifo_queue q = xs @ e # ys \<and> fifo_queue q' = xs @ ys
            \<and> GetID ie e = GetID ie item \<and> GetID ie item \<notin> GetID ie ` set xs
            \<and> fifo_GetElement ie q (GetID ie item) = Some e)))
   \<and> (fifo_GetOne ie q item \<noteq> None \<longleftrightarrow> GetID ie item \<in> GetID ie ` set (fifo_queue q))"
proof (cases "id_position ie (GetID ie item) (fifo_queue q)")
  case None
  then have "GetID ie item \<notin> GetID ie ` set (fifo_queue q)"
    by (simp add: id_position_None)
  then show ?thesis
    by (simp add: fifo_Remove_def fifo_GetOne_def None)
next
  case (Some i)
  then obtain xs e ys where "fifo_queue q = xs @ e # ys" "length xs = i" "GetID ie e = GetID ie item"
    "GetID ie item \<notin> GetID ie ` set xs" by (blast dest: id_position_split)
  with Some show ?thesis
    by (auto simp: fifo_Remove_def fifo_GetOne_def fifo_GetElement_def find_id_split) blast
qed

text \<open>
  \<open>FindElements\<close> returns, in queue order, the elements that satisfy the query, when no
  condition of the query panics on an element.
\<close>

theorem fifo_FindElements_spec:
  assumes "\<forall>e\<in>set (fifo_queue q). indirect (Reflected ie e) = GStruct (fs e)
      \<and> list_all (\<lambda>a. no_panic (meta_holds (fs e) a)) (cmp_metas c)"
  shows "fifo_FindElements ie q (Some c) = Inr (filter (\<lambda>e. cmp_sat (fs e) c) (fifo_queue q))"
  using assms by (simp add: fifo_FindElements_def find_loop_filter Evaluate_sat)

theorem fifo_FindElements_spec_witness:
  "fifo_FindElements demoIE \<lparr>fifo_queue = [\<lparr>demo_val = ''a'', demo_ordering = 7\<rparr>, \<lparr>demo_val = ''b'', demo_ordering = 2\<rparr>]\<rparr>
     (Some (cmpAnd NewComparisonObject CompareGreaterThan ''ordering'' (GInt 5)))
   = Inr [\<lparr>demo_val = ''a'', demo_ordering = 7\<rparr>]"
  by (subst fifo_FindElements_spec [where fs = "\<lambda>e. [(''val'', GString (demo_val e)), (''ordering'', GInt (demo_ordering e))]"])
    (simp_all add: demoIE_def indirect_def cmpAnd_def NewComparisonObject_def meta_holds_def meta_sat_def
      field_by_name_def is_valid_def intOps_def compare_scalar_def kind_defs)

text \<open>
  What the cuts do: \<open>CutBefore\<close> with an index inside the queue takes the whole queue out,
  also the elements at and after the index; \<open>CutAfter\<close> with an index inside the queue takes
  nothing; and both panic on every index beyond the length, so neither ever splits a queue.
\<close>

theorem fifo_cuts:
  "fifo_CutBefore q idx =
     (if idx < 0 then Inr ([], q)
      else if idx \<le> fifo_GetSize q then Inr (fifo_Elements q, NewFIFOQueue)
      else Inl SliceBounds)
   \<and> fifo_CutAfter q idx =
     (if idx < 0 then Inr (fifo_Elements q, NewFIFOQueue)
      else if idx \<le> fifo_GetSize q then Inr ([], q)
      else Inl SliceBounds)"
  by (simp add: fifo_CutBefore_def fifo_CutAfter_def fifo_GetSize_def fifo_Elements_def
      NewFIFOQueue_def go_slice_def)

end
