(* ===== verification/Ordered_Queue.thy ===== *)
theory Ordered_Queue
  imports IQueue
begin

text \<open>
  \<open>queues/orderedqueue.go\<close>: the queue kept sorted by \<open>OrderingValue\<close>, ascending or
  descending, by binary search for the inserting index.  The search keeps the loop variables
  \<open>idx\<close>, \<open>minIdx\<close> and \<open>maxIdx\<close> of the code; they are natural numbers because the code
  decrements \<open>maxIdx\<close> only below a positive \<open>idx\<close>, and every access of the slice is in
  range (the guard \<open>idx < l\<close>).  As in the other queue, a method is one step under the mutex.
\<close>

datatype OrderingMode = OrderingAsc | OrderingDesc

record 'a OrderedQueue =
  ord_queue :: "'a list"
  ord_ordering :: OrderingMode

definition NewAscOrderingQueue :: "'a OrderedQueue" where
  "NewAscOrderingQueue = \<lparr>ord_queue = [], ord_ordering = OrderingAsc\<rparr>"

definition NewDescOrderingQueue :: "'a OrderedQueue" where
  "NewDescOrderingQueue = \<lparr>ord_queue = [], ord_ordering = OrderingDesc\<rparr>"

definition checkInsertBefore :: "'a IElement \<Rightarrow> 'a \<Rightarrow> 'a \<Rightarrow> OrderingMode \<Rightarrow> bool" where
  "checkInsertBefore ie e1 e2 mode =
     (if mode = OrderingDesc then OrderingValue ie e1 > OrderingValue ie e2
      else OrderingValue ie e1 < OrderingValue ie e2)"

section \<open>The binary search\<close>

text \<open>
  Why the search ends: once \<open>idx\<close> is the middle of the interval, which every turn
  establishes, a turn that moves \<open>idx\<close> shortens the interval.
\<close>

lemma search_left:
  fixes mn mx idx :: nat
  assumes "idx = (mn + mx + 1) div 2" "0 < idx" "(mn + (idx - 1) + 1) div 2 \<noteq> idx"
  shows "nat \<bar>int (idx - 1) + 1 - int mn\<bar> < nat \<bar>int mx + 1 - int mn\<bar>"
  using assms by linarith

lemma search_right:
  fixes mn mx idx :: nat
  assumes "idx = (mn + mx + 1) div 2" "(idx + 1 + mx + 1) div 2 \<noteq> idx"
  shows "nat \<bar>int mx + 1 - int (idx + 1)\<bar> < nat \<bar>int mx + 1 - int mn\<bar>"
  using assms by linarith

text \<open>
  One turn of the loop is one call; \<open>idx\<close> is also the \<open>originIdx\<close> of the code, which the
  loop makes equal to \<open>idx\<close> before each turn.
\<close>

function insert_loop ::
    "'a IElement \<Rightarrow> 'a list \<Rightarrow> nat \<Rightarrow> 'a \<Rightarrow> OrderingMode \<Rightarrow> nat \<Rightarrow> nat \<Rightarrow> nat \<Rightarrow> nat" where
  "insert_loop ie queue l item mode idx minIdx maxIdx =
     (if idx < l then
        let left = (if mode = OrderingDesc
                    then OrderingValue ie item > OrderingValue ie (queue ! idx)
                    else OrderingValue ie item < OrderingValue ie (queue ! idx))
        in if left then
             (if idx \<le> 0 then idx
              else let maxIdx' = idx - 1; idx' = (minIdx + maxIdx' + 1) div 2
                in if idx' = idx then idx'
                   else insert_loop ie queue l item mode idx' minIdx maxIdx')
           else
             (let minIdx' = idx + 1; idx' = (minIdx' + maxIdx + 1) div 2
              in if idx' = idx then idx'
                 else insert_loop ie queue l item mode idx' minIdx' maxIdx)
      else idx)"
  by pat_completeness auto
termination
proof (relation "measures [\<lambda>(ie, q, l, e, r, idx, mn, mx). if idx = (mn + mx + 1) div 2 then 0 else 1,
    \<lambda>(ie, q, l, e, r, idx, mn, mx). nat \<bar>int mx + 1 - int mn\<bar>]", goal_cases)
  case (2 ie q l item r idx mn mx x xa xb)
  then show ?case using search_left [of idx mn mx]
    by (cases "idx = (mn + mx + 1) div 2") simp_all
next
  case (3 ie q l item r idx mn mx x xa xb)
  then show ?case using search_right [of idx mn mx]
    by (cases "idx = (mn + mx + 1) div 2") simp_all
qed simp

declare insert_loop.simps [simp del]

definition findOrderedQueueInsertingIndex ::
    "'a IElement \<Rightarrow> 'a list \<Rightarrow> nat \<Rightarrow> 'a \<Rightarrow> OrderingMode \<Rightarrow> nat" where
  "findOrderedQueueInsertingIndex ie queue l item mode =
     (if 0 \<ge> l then 0 else insert_loop ie queue l item mode (l div 2) 0 (l - 1))"

text \<open>
  Correctness of the search: on a queue where the elements that \<open>item\<close> precedes form a
  suffix, the loop returns where that suffix starts.
\<close>

definition goes_left :: "'a IElement \<Rightarrow> 'a list \<Rightarrow> 'a \<Rightarrow> OrderingMode \<Rightarrow> nat \<Rightarrow> bool" where
  "goes_left ie queue item mode k = checkInsertBefore ie item (queue ! k) mode"

lemma insert_loop_unfold:
  "insert_loop ie queue l item mode idx mn mx =
     (if idx < l then
        if goes_left ie queue item mode idx then
          (if idx = 0 then 0
           else if (mn + idx) div 2 = idx then idx
           else insert_loop ie queue l item mode ((mn + idx) div 2) mn (idx - 1))
        else if (idx + mx + 2) div 2 = idx then idx
        else insert_loop ie queue l item mode ((idx + mx + 2) div 2) (idx + 1) mx
      else idx)"
  by (subst insert_loop.simps) (auto simp: goes_left_def checkInsertBefore_def Let_def)

text \<open>\<open>splits_at P l r\<close>: below \<open>l\<close>, the positions from \<open>r\<close> on are those with \<open>P\<close>.\<close>

definition splits_at :: "(nat \<Rightarrow> bool) \<Rightarrow> nat \<Rightarrow> nat \<Rightarrow> bool" where
  "splits_at P l r \<longleftrightarrow> r \<le> l \<and> (\<forall>k<r. \<not> P k) \<and> (\<forall>k. r \<le> k \<longrightarrow> k < l \<longrightarrow> P k)"

definition suffix_closed :: "(nat \<Rightarrow> bool) \<Rightarrow> nat \<Rightarrow> bool" where
  "suffix_closed P l \<longleftrightarrow> (\<forall>i j. i < j \<longrightarrow> j < l \<longrightarrow> P i \<longrightarrow> P j)"

definition search_inv :: "(nat \<Rightarrow> bool) \<Rightarrow> nat \<Rightarrow> nat \<Rightarrow> nat \<Rightarrow> bool" where
  "search_inv P l mn mx \<longleftrightarrow> mn \<le> mx + 1 \<and> mx < l \<and> (\<forall>k<mn. \<not> P k) \<and> (\<forall>k. mx < k \<longrightarrow> k < l \<longrightarrow> P k)"

lemma search_inv_left:
  assumes "search_inv P l mn mx" "suffix_closed P l" "P idx" "idx < l"
  shows "mn \<le> idx" "idx \<noteq> 0 \<Longrightarrow> search_inv P l mn (idx - 1)" "mn = idx \<or> idx = 0 \<Longrightarrow> splits_at P l idx"
proof -
  have right: "k < l \<Longrightarrow> idx \<le> k \<Longrightarrow> P k" for k
    using assms(2) [unfolded suffix_closed_def, rule_format, of idx k] assms(3) by (cases "k = idx") auto
  show le: "mn \<le> idx"
    using assms(1,3) by (meson not_le search_inv_def)
  show "idx \<noteq> 0 \<Longrightarrow> search_inv P l mn (idx - 1)" "mn = idx \<or> idx = 0 \<Longrightarrow> splits_at P l idx"
    using assms(1,4) le right by (auto simp: search_inv_def splits_at_def)
qed

lemma search_inv_right:
  assumes "search_inv P l mn mx" "suffix_closed P l" "\<not> P idx" "idx < l"
  shows "idx \<le> mx" "search_inv P l (idx + 1) mx"
proof -
  have left: "k \<le> idx \<Longrightarrow> \<not> P k" for k
    using assms(2) [unfolded suffix_closed_def, rule_format, of k idx] assms(3,4) by (cases "k = idx") auto
  show le: "idx \<le> mx"
    using assms(1,3,4) by (meson not_le search_inv_def)
  show "search_inv P l (idx + 1) mx"
    using assms(1) le left by (auto simp: search_inv_def)
qed

lemma search_inv_end:
  assumes "search_inv P l mn mx" "idx = (mn + mx + 1) div 2" "\<not> idx < l"
  shows "splits_at P l idx"
proof -
  have "idx = l" "mn = l"
    using assms by (auto simp: search_inv_def)
  then show ?thesis using assms(1) by (simp add: search_inv_def splits_at_def)
qed

lemma insert_loop_correct:
  assumes mono: "suffix_closed (goes_left ie queue item mode) l"
  shows "search_inv (goes_left ie queue item mode) l mn mx \<Longrightarrow> idx = (mn + mx + 1) div 2 \<Longrightarrow>
    splits_at (goes_left ie queue item mode) l (insert_loop ie queue l item mode idx mn mx)"
proof (induction "nat \<bar>int mx + 1 - int mn\<bar>" arbitrary: idx mn mx rule: less_induct)
  case less
  let ?L = "goes_left ie queue item mode"
  note inv = less.prems(1) and idx = less.prems(2)
  note unfold = insert_loop_unfold [of ie queue l item mode idx mn mx]
  show ?case
  proof (cases "idx < l")
    case False
    with search_inv_end [OF inv idx] unfold show ?thesis by simp
  next
    case True
    show ?thesis
    proof (cases "?L idx")
      case L: True
      note steps = search_inv_left [OF inv mono L True]
      consider "idx = 0" | "idx \<noteq> 0" "(mn + idx) div 2 = idx" | "idx \<noteq> 0" "(mn + idx) div 2 \<noteq> idx"
        by blast
      then show ?thesis
      proof cases
        case 1
        with unfold steps(3) True L show ?thesis by simp
      next
        case 2
        with steps(1) have "mn = idx" by linarith
        with 2 unfold steps(3) True L show ?thesis by simp
      next
        case 3
        have "nat \<bar>int (idx - 1) + 1 - int mn\<bar> < nat \<bar>int mx + 1 - int mn\<bar>"
          using 3 by (intro search_left [OF idx]) simp_all
        from less.hyps [OF this steps(2) [OF 3(1)], of "(mn + idx) div 2"] unfold True L 3
        show ?thesis by simp
      qed
    next
      case R: False
      note steps = search_inv_right [OF inv mono R True]
      from steps(1) have ne: "(idx + mx + 2) div 2 \<noteq> idx" by linarith
      then have "nat \<bar>int mx + 1 - int (idx + 1)\<bar> < nat \<bar>int mx + 1 - int mn\<bar>"
        by (intro search_right [OF idx]) simp_all
      from less.hyps [OF this steps(2), of "(idx + mx + 2) div 2"] unfold True R ne
      show ?thesis by simp
    qed
  qed
qed

section \<open>The operations\<close>

definition pushItemToOrderedQueue ::
    "'a IElement \<Rightarrow> 'a list \<Rightarrow> nat \<Rightarrow> 'a \<Rightarrow> OrderingMode \<Rightarrow> 'a list" where
  "pushItemToOrderedQueue ie queue l item mode =
     (if 0 \<ge> l then [item]
      else let idx = findOrderedQueueInsertingIndex ie queue l item mode
        in if idx \<ge> l then queue @ [item]
           else let tails = drop idx queue in take idx queue @ [item] @ tails)"

definition ord_Add :: "'a IElement \<Rightarrow> 'a OrderedQueue \<Rightarrow> 'a \<Rightarrow> 'a OrderedQueue" where
  "ord_Add ie q item =
     q\<lparr>ord_queue := pushItemToOrderedQueue ie (ord_queue q) (length (ord_queue q)) item (ord_ordering q)\<rparr>"

definition ord_Push :: "'a IElement \<Rightarrow> 'a OrderedQueue \<Rightarrow> 'a \<Rightarrow> bool \<times> 'a OrderedQueue" where
  "ord_Push ie q item = (True, ord_Add ie q item)"

definition ord_Pop :: "'a OrderedQueue \<Rightarrow> 'a option \<times> 'a OrderedQueue" where
  "ord_Pop q =
     (case ord_queue q of [] \<Rightarrow> (None, q)
      | item # rest \<Rightarrow> (Some item, q\<lparr>ord_queue := rest\<rparr>))"

definition ord_PopMany :: "'a OrderedQueue \<Rightarrow> int \<Rightarrow> ('a list \<times> int) \<times> 'a OrderedQueue" where
  "ord_PopMany q maxResults =
     (let maxLen = int (length (ord_queue q))
      in if 0 \<ge> maxLen \<or> 0 \<ge> maxResults then (([], 0), q)
         else let maxLen = (if maxLen > maxResults then maxResults else maxLen)
           in ((map (\<lambda>i. ord_queue q ! i) [0..<nat maxLen], maxLen),
               q\<lparr>ord_queue := drop (nat maxLen) (ord_queue q)\<rparr>))"

definition ord_First :: "'a OrderedQueue \<Rightarrow> 'a option" where
  "ord_First q = (case ord_queue q of [] \<Rightarrow> None | item # _ \<Rightarrow> Some item)"

text \<open>The two loops of \<open>findElementIndex\<close>, up from the inserting index and down from it.\<close>

function scan_up :: "(int \<Rightarrow> bool) \<Rightarrow> int \<Rightarrow> int \<Rightarrow> int option" where
  "scan_up p cursor mx =
     (if cursor < mx then (if p cursor then Some cursor else scan_up p (cursor + 1) mx) else None)"
  by pat_completeness auto
termination
  by (relation "measure (\<lambda>(p, c, m). nat (m - c))") auto

function scan_down :: "(int \<Rightarrow> bool) \<Rightarrow> int \<Rightarrow> int \<Rightarrow> int option" where
  "scan_down p cursor mn =
     (if cursor > mn then (if p cursor then Some cursor else scan_down p (cursor - 1) mn) else None)"
  by pat_completeness auto
termination
  by (relation "measure (\<lambda>(p, c, m). nat (c - m))") auto

declare scan_up.simps [simp del] scan_down.simps [simp del]

definition findElementIndex :: "'a IElement \<Rightarrow> 'a OrderedQueue \<Rightarrow> 'a \<Rightarrow> int" where
  "findElementIndex ie q item =
     (let l = int (length (ord_queue q))
      in if 0 \<ge> l then - 1
      else let idx = int (findOrderedQueueInsertingIndex ie (ord_queue q) (length (ord_queue q)) item (ord_ordering q));
          mx = (if idx + 2 > l then l else idx + 2);
          mn = (if - 1 > idx - 2 then - 1 else idx - 2);
          same = (\<lambda>cursor. GetID ie item = GetID ie (ord_queue q ! nat cursor))
        in case scan_up same idx mx of Some c \<Rightarrow> c
           | None \<Rightarrow> (case scan_down same (idx - 1) mn of Some c \<Rightarrow> c | None \<Rightarrow> - 1))"

definition ord_Remove :: "'a IElement \<Rightarrow> 'a OrderedQueue \<Rightarrow> 'a \<Rightarrow> bool \<times> 'a OrderedQueue" where
  "ord_Remove ie q item =
     (let idx = findElementIndex ie q item
      in if 0 > idx then (False, q)
         else (True, q\<lparr>ord_queue := drop_nth (nat idx) (ord_queue q)\<rparr>))"

definition ord_Elements :: "'a OrderedQueue \<Rightarrow> 'a list" where
  "ord_Elements q = ord_queue q"

definition ord_GetOne :: "'a IElement \<Rightarrow> 'a OrderedQueue \<Rightarrow> 'a \<Rightarrow> 'a \<times> bool" where
  "ord_GetOne ie q item = (let idx = findElementIndex ie q item in if 0 > idx then (item, False) else (item, True))"

definition ord_FindElements ::
    "'a IElement \<Rightarrow> 'a OrderedQueue \<Rightarrow> ComparisonObject option \<Rightarrow> 'a list go" where
  "ord_FindElements ie q cmp =
     (case cmp of None \<Rightarrow> Inr []
      | Some c \<Rightarrow> find_loop (\<lambda>e. Evaluate c (Reflected ie e)) (ord_queue q))"

definition ord_GetElement :: "'a IElement \<Rightarrow> 'a OrderedQueue \<Rightarrow> string \<Rightarrow> 'a option" where
  "ord_GetElement ie q ID = find (\<lambda>e. GetID ie e = ID) (ord_queue q)"

definition ord_Dump :: "'a IElement \<Rightarrow> 'a OrderedQueue \<Rightarrow> string" where
  "ord_Dump ie q = go_join (map (DebugString ie) (ord_queue q)) ('', '' @ [CHR 0x0A])"

text \<open>The cuts have the code of the other queue: beyond the length both panic.\<close>

definition ord_CutBefore :: "'a OrderedQueue \<Rightarrow> int \<Rightarrow> ('a list \<times> 'a OrderedQueue) go" where
  "ord_CutBefore q idx =
     (if 0 > idx then Inr ([], q)
      else if int (length (ord_queue q)) \<ge> idx then Inr (ord_queue q, q\<lparr>ord_queue := []\<rparr>)
      else go_bind (go_slice (ord_queue q) 0 idx) (\<lambda>cuts.
        go_bind (go_slice (ord_queue q) idx (int (length (ord_queue q)))) (\<lambda>rest.
          Inr (cuts, q\<lparr>ord_queue := rest\<rparr>))))"

definition ord_CutAfter :: "'a OrderedQueue \<Rightarrow> int \<Rightarrow> ('a list \<times> 'a OrderedQueue) go" where
  "ord_CutAfter q idx =
     (if 0 > idx then Inr (ord_queue q, q\<lparr>ord_queue := []\<rparr>)
      else if int (length (ord_queue q)) \<ge> idx then Inr ([], q)
      else go_bind (go_slice (ord_queue q) (idx + 1) (int (length (ord_queue q)))) (\<lambda>cuts.
        go_bind (go_slice (ord_queue q) 0 (idx + 1)) (\<lambda>rest.
          Inr (cuts, q\<lparr>ord_queue := rest\<rparr>))))"

definition ord_GetSize :: "'a OrderedQueue \<Rightarrow> int" where
  "ord_GetSize q = int (length (ord_queue q))"

section \<open>Sortedness and stable insertion\<close>

text \<open>
  The sort key makes the two modes one: \<open>checkInsertBefore\<close> is the strict order of the keys.
\<close>

definition order_key :: "'a IElement \<Rightarrow> OrderingMode \<Rightarrow> 'a \<Rightarrow> int" where
  "order_key ie mode e = (if mode = OrderingDesc then - OrderingValue ie e else OrderingValue ie e)"

lemma checkInsertBefore_key: "checkInsertBefore ie a b mode \<longleftrightarrow> order_key ie mode a < order_key ie mode b"
  by (simp add: checkInsertBefore_def order_key_def)

definition ord_sorted :: "'a IElement \<Rightarrow> 'a OrderedQueue \<Rightarrow> bool" where
  "ord_sorted ie q \<longleftrightarrow> sorted (map (order_key ie (ord_ordering q)) (ord_queue q))"

definition stable_insert :: "('a \<Rightarrow> int) \<Rightarrow> 'a \<Rightarrow> 'a list \<Rightarrow> 'a list" where
  "stable_insert f x xs = takeWhile (\<lambda>y. f y \<le> f x) xs @ x # dropWhile (\<lambda>y. f y \<le> f x) xs"

lemma mset_stable_insert: "mset (stable_insert f x xs) = add_mset x (mset xs)"
proof -
  have "mset (takeWhile P xs) + mset (dropWhile P xs) = mset xs" for P
    by (metis mset_append takeWhile_dropWhile_id)
  then show ?thesis by (simp add: stable_insert_def)
qed

lemma sorted_stable_insert: "sorted (map f xs) \<Longrightarrow> sorted (map f (stable_insert f x xs))"
proof (induction xs)
  case (Cons y ys)
  have "z \<in> set (stable_insert f x ys) \<Longrightarrow> z = x \<or> z \<in> set ys" for z
    using mset_stable_insert [of f x ys] by (metis insert_iff set_mset_add_mset_insert set_mset_mset)
  with Cons show ?case by (fastforce simp: stable_insert_def)
qed (simp add: stable_insert_def)

lemma filter_stable_insert:
  "sorted (map f xs) \<Longrightarrow>
    filter (\<lambda>y. f y = k) (stable_insert f x xs) = filter (\<lambda>y. f y = k) xs @ (if f x = k then [x] else [])"
proof (induction xs)
  case (Cons y ys)
  show ?case
  proof (cases "f y \<le> f x")
    case True
    with Cons show ?thesis by (simp add: stable_insert_def)
  next
    case False
    with Cons.prems have "\<forall>z\<in>set (y # ys). f x < f z" by auto
    then have "f x = k \<Longrightarrow> filter (\<lambda>y. f y = k) (y # ys) = []" by (auto simp: filter_empty_conv)
    with False show ?thesis by (auto simp: stable_insert_def)
  qed
qed (simp add: stable_insert_def)

lemma splits_at_takeWhile:
  "splits_at (\<lambda>k. \<not> Q (xs ! k)) (length xs) r \<Longrightarrow> take r xs = takeWhile Q xs \<and> drop r xs = dropWhile Q xs"
proof (induction xs arbitrary: r)
  case (Cons x xs)
  show ?case
  proof (cases r)
    case 0
    with Cons.prems have "\<not> Q x" by (auto simp: splits_at_def)
    with 0 show ?thesis by simp
  next
    case (Suc r')
    with Cons.prems have "Q x" and "splits_at (\<lambda>k. \<not> Q (xs ! k)) (length xs) r'"
      by (fastforce simp: splits_at_def)+
    with Cons.IH Suc show ?thesis by simp
  qed
qed (simp add: splits_at_def)

text \<open>On a sorted queue the search returns the length of the prefix that stays before the item.\<close>

lemma findOrderedQueueInsertingIndex_splits:
  assumes "sorted (map (order_key ie mode) xs)"
  shows "splits_at (\<lambda>k. \<not> order_key ie mode (xs ! k) \<le> order_key ie mode item) (length xs)
    (findOrderedQueueInsertingIndex ie xs (length xs) item mode)"
proof -
  have P: "goes_left ie xs item mode = (\<lambda>k. \<not> order_key ie mode (xs ! k) \<le> order_key ie mode item)"
    by (auto simp: goes_left_def checkInsertBefore_key)
  have "i < j \<Longrightarrow> j < length xs \<Longrightarrow> order_key ie mode (xs ! i) \<le> order_key ie mode (xs ! j)" for i j
    using assms sorted_nth_mono [of "map (order_key ie mode) xs" i j] by simp
  then have mono: "suffix_closed (goes_left ie xs item mode) (length xs)"
    unfolding suffix_closed_def P by (meson le_less_trans not_le)
  show ?thesis
  proof (cases "xs = []")
    case False
    then have "search_inv (goes_left ie xs item mode) (length xs) 0 (length xs - 1)"
      by (auto simp: search_inv_def)
    from insert_loop_correct [OF mono this, of "length xs div 2"] False
    show ?thesis by (simp add: findOrderedQueueInsertingIndex_def P [symmetric])
  qed (simp add: findOrderedQueueInsertingIndex_def splits_at_def)
qed

lemma pushItem_stable_insert:
  assumes "sorted (map (order_key ie mode) xs)"
  shows "pushItemToOrderedQueue ie xs (length xs) item mode = stable_insert (order_key ie mode) item xs"
proof -
  let ?r = "findOrderedQueueInsertingIndex ie xs (length xs) item mode"
  let ?Q = "\<lambda>y. order_key ie mode y \<le> order_key ie mode item"
  have "take ?r xs = takeWhile ?Q xs" "drop ?r xs = dropWhile ?Q xs" "?r \<le> length xs"
    using splits_at_takeWhile [of ?Q xs ?r] findOrderedQueueInsertingIndex_splits [OF assms, of item]
    by (auto simp: splits_at_def)
  then show ?thesis
    by (auto simp: pushItemToOrderedQueue_def stable_insert_def Let_def)
qed

lemma mset_pushItem: "mset (pushItemToOrderedQueue ie xs (length xs) item mode) = add_mset item (mset xs)"
proof -
  have "mset xs = mset (take r xs) + mset (drop r xs)" for r
    by (metis append_take_drop_id mset_append)
  then show ?thesis by (auto simp: pushItemToOrderedQueue_def Let_def)
qed

lemma ord_Add_simps [queue_simps]:
  "ord_sorted ie q \<Longrightarrow>
    ord_queue (ord_Add ie q e) = stable_insert (order_key ie (ord_ordering q)) e (ord_queue q)"
  "ord_ordering (ord_Add ie q e) = ord_ordering q"
  by (simp_all add: ord_Add_def ord_sorted_def pushItem_stable_insert)

lemma set_ord_Add: "set (ord_queue (ord_Add ie q e)) = insert e (set (ord_queue q))"
proof -
  have "set_mset (mset (ord_queue (ord_Add ie q e))) = insert e (set_mset (mset (ord_queue q)))"
    by (simp add: ord_Add_def mset_pushItem del: set_mset_mset)
  then show ?thesis by simp
qed

lemma ord_sorted_Add: "ord_sorted ie q \<Longrightarrow> ord_sorted ie (ord_Add ie q e)"
  by (simp add: ord_sorted_def [of ie "ord_Add ie q e"] queue_simps)
    (simp add: ord_sorted_def sorted_stable_insert)

lemma ord_PopMany_eq [queue_simps]:
  "ord_PopMany q n =
     ((take (nat n) (ord_queue q), min (max 0 n) (int (length (ord_queue q)))),
      q\<lparr>ord_queue := drop (nat n) (ord_queue q)\<rparr>)"
  by (auto simp: ord_PopMany_def Let_def map_nth_take nat_less_iff)

interpretation ordq: iqueue ord_queue "ord_sorted ie" "ord_Push ie" ord_Pop ord_PopMany ord_First
  ord_Elements ord_GetSize for ie
  by unfold_locales
    (auto simp: ord_Elements_def ord_GetSize_def ord_First_def ord_Pop_def ord_PopMany_eq ord_Push_def
      mset_pushItem ord_Add_def ord_sorted_def pushItem_stable_insert sorted_stable_insert drop_map [symmetric] sorted_wrt_drop
      split: list.splits)

section \<open>Filling a queue\<close>

definition ord_push_all :: "'a IElement \<Rightarrow> 'a list \<Rightarrow> 'a OrderedQueue \<Rightarrow> 'a OrderedQueue" where
  "ord_push_all ie es q = fold (\<lambda>e q. snd (ord_Push ie q e)) es q"

lemma ord_push_all_invariant:
  "ord_sorted ie q \<Longrightarrow>
    ord_sorted ie (ord_push_all ie es q) \<and> ord_ordering (ord_push_all ie es q) = ord_ordering q
    \<and> mset (ord_queue (ord_push_all ie es q)) = mset (ord_queue q) + mset es
    \<and> filter (\<lambda>y. order_key ie (ord_ordering q) y = k) (ord_queue (ord_push_all ie es q))
      = filter (\<lambda>y. order_key ie (ord_ordering q) y = k) (ord_queue q @ es)"
proof (induction es arbitrary: q)
  case (Cons e es)
  have "ord_push_all ie (e # es) q = ord_push_all ie es (ord_Add ie q e)"
    by (simp add: ord_push_all_def ord_Push_def)
  moreover have "filter (\<lambda>y. order_key ie (ord_ordering q) y = k) (ord_queue (ord_Add ie q e))
      = filter (\<lambda>y. order_key ie (ord_ordering q) y = k) (ord_queue q @ [e])"
    using Cons.prems
    by (simp add: ord_Add_simps) (simp add: ord_sorted_def filter_stable_insert)
  ultimately show ?case
    using Cons.IH [OF ord_sorted_Add [OF Cons.prems, of e]] Cons.prems
    by (simp add: ord_Add_simps mset_stable_insert)
qed (simp add: ord_push_all_def)

lemma ord_sorted_new: "ord_sorted ie \<lparr>ord_queue = [], ord_ordering = mode\<rparr>"
  by (simp add: ord_sorted_def)

lemma ord_push_all_sort_key:
  "ord_queue (ord_push_all ie es \<lparr>ord_queue = [], ord_ordering = mode\<rparr>) = sort_key (order_key ie mode) es"
proof -
  note inv = ord_push_all_invariant [OF ord_sorted_new, of ie es mode]
  have flip: "(\<lambda>x. order_key ie mode k = order_key ie mode x) = (\<lambda>x. order_key ie mode x = order_key ie mode k)" for k
    by auto
  have "sorted (map (order_key ie mode) (ord_queue (ord_push_all ie es \<lparr>ord_queue = [], ord_ordering = mode\<rparr>)))"
    using inv [of undefined] by (auto simp: ord_sorted_def)
  then show ?thesis
    using inv by (intro sym [OF properties_for_sort_key]) (simp_all add: flip)
qed

section \<open>Finding an element\<close>

lemma scan_up_result:
  "case scan_up p c m of
     None \<Rightarrow> (\<forall>i. c \<le> i \<longrightarrow> i < m \<longrightarrow> \<not> p i) | Some i \<Rightarrow> c \<le> i \<and> i < m \<and> p i"
proof (induction p c m rule: scan_up.induct)
  case (1 p c m)
  then show ?case
    by (subst scan_up.simps) (auto split: option.splits simp: int_one_le_iff_zero_less,
      metis add1_zle_eq order_le_less)
qed

lemma scan_down_result:
  "case scan_down p c m of
     None \<Rightarrow> (\<forall>i. m < i \<longrightarrow> i \<le> c \<longrightarrow> \<not> p i) | Some i \<Rightarrow> m < i \<and> i \<le> c \<and> p i"
proof (induction p c m rule: scan_down.induct)
  case (1 p c m)
  then show ?case
    by (subst scan_down.simps) (auto split: option.splits, metis order_le_less zle_diff1_eq)
qed

text \<open>\<open>findElementIndex\<close> looks at the inserting index and one place on either side of it, no further.\<close>

lemma findElementIndex_window:
  assumes sorted: "ord_sorted ie q" and xs: "xs = ord_queue q"
    and r: "r = int (findOrderedQueueInsertingIndex ie xs (length xs) item (ord_ordering q))"
    and f: "f = findElementIndex ie q item"
  shows "if f < 0
    then \<forall>c. 0 \<le> c \<longrightarrow> c < int (length xs) \<longrightarrow> \<bar>c - r\<bar> \<le> 1 \<longrightarrow> GetID ie item \<noteq> GetID ie (xs ! nat c)
    else f < int (length xs) \<and> \<bar>f - r\<bar> \<le> 1 \<and> GetID ie item = GetID ie (xs ! nat f)"
proof (cases "xs = []")
  case True
  with xs f show ?thesis by (simp add: findElementIndex_def)
next
  case False
  let ?p = "\<lambda>c. GetID ie item = GetID ie (xs ! nat c)"
  let ?mx = "if r + 2 > int (length xs) then int (length xs) else r + 2"
  let ?mn = "if - 1 > r - 2 then - 1 else r - 2"
  have eq: "f = (case scan_up ?p r ?mx of Some c \<Rightarrow> c
      | None \<Rightarrow> (case scan_down ?p (r - 1) ?mn of Some c \<Rightarrow> c | None \<Rightarrow> - 1))"
    using False unfolding f r xs findElementIndex_def Let_def by simp
  have bounds: "0 \<le> r" "r \<le> int (length xs)"
    using findOrderedQueueInsertingIndex_splits [of ie "ord_ordering q" xs item] sorted xs r
    by (simp_all add: ord_sorted_def splits_at_def)
  show ?thesis
  proof (cases "scan_up ?p r ?mx")
    case (Some c)
    with scan_up_result [where p = ?p and c = r and m = ?mx] have "r \<le> c" "c < ?mx" "?p c" by simp_all
    with eq Some bounds show ?thesis by (auto split: if_splits)
  next
    case up: None
    show ?thesis
    proof (cases "scan_down ?p (r - 1) ?mn")
      case (Some c)
      with scan_down_result [where p = ?p and c = "r - 1" and m = ?mn] have "?mn < c" "c \<le> r - 1" "?p c" by simp_all
      with eq up Some bounds show ?thesis by (auto split: if_splits)
    next
      case None
      have "\<not> ?p c" if "0 \<le> c" "c < int (length xs)" "\<bar>c - r\<bar> \<le> 1" for c
      proof (cases "r \<le> c")
        case True
        then show ?thesis using scan_up_result [where p = ?p and c = r and m = ?mx] up that by (auto split: if_splits)
      next
        case False
        then show ?thesis using scan_down_result [where p = ?p and c = "r - 1" and m = ?mn] None that by (auto split: if_splits)
      qed
      with eq up None show ?thesis by simp
    qed
  qed
qed

text \<open>The inserting index of a queued element lies just behind the last element with its key.\<close>

lemma inserting_index_of_member:
  assumes sorted: "sorted (map (order_key ie mode) xs)" and p: "p < length xs"
    and r: "r = findOrderedQueueInsertingIndex ie xs (length xs) (xs ! p) mode"
  shows "p < r" and "r = Suc p \<longleftrightarrow> (\<forall>j. p < j \<longrightarrow> j < length xs \<longrightarrow> order_key ie mode (xs ! j) \<noteq> order_key ie mode (xs ! p))"
proof -
  let ?k = "\<lambda>i. order_key ie mode (xs ! i)"
  have split: "splits_at (\<lambda>k. \<not> ?k k \<le> ?k p) (length xs) r"
    using findOrderedQueueInsertingIndex_splits [OF sorted] r by blast
  have mono: "i \<le> j \<Longrightarrow> j < length xs \<Longrightarrow> ?k i \<le> ?k j" for i j
    using sorted sorted_nth_mono [of "map (order_key ie mode) xs" i j] by simp
  show less: "p < r"
    using split p by (meson not_le order_refl splits_at_def)
  show "r = Suc p \<longleftrightarrow> (\<forall>j. p < j \<longrightarrow> j < length xs \<longrightarrow> ?k j \<noteq> ?k p)"
  proof
    assume "r = Suc p"
    with split show "\<forall>j. p < j \<longrightarrow> j < length xs \<longrightarrow> ?k j \<noteq> ?k p"
      by (auto simp: splits_at_def Suc_le_eq)
  next
    assume strict: "\<forall>j. p < j \<longrightarrow> j < length xs \<longrightarrow> ?k j \<noteq> ?k p"
    show "r = Suc p"
    proof (rule ccontr)
      assume "r \<noteq> Suc p"
      with less have "Suc p < r" by simp
      with split have "Suc p < length xs" "?k (Suc p) \<le> ?k p" by (auto simp: splits_at_def)
      with strict mono [of p "Suc p"] show False by (auto simp: order_antisym)
    qed
  qed
qed

lemma ord_Remove_member:
  assumes sorted: "ord_sorted ie q" and distinct: "distinct (map (GetID ie) (ord_queue q))"
    and p: "p < length (ord_queue q)"
  shows "ord_Remove ie q (ord_queue q ! p) =
    (if \<forall>j. p < j \<longrightarrow> j < length (ord_queue q) \<longrightarrow>
         OrderingValue ie (ord_queue q ! j) \<noteq> OrderingValue ie (ord_queue q ! p)
     then (True, q\<lparr>ord_queue := drop_nth p (ord_queue q)\<rparr>) else (False, q))"
proof -
  let ?xs = "ord_queue q"
  define r where "r = findOrderedQueueInsertingIndex ie ?xs (length ?xs) (?xs ! p) (ord_ordering q)"
  define f where "f = findElementIndex ie q (?xs ! p)"
  have srt: "sorted (map (order_key ie (ord_ordering q)) ?xs)"
    using sorted by (simp add: ord_sorted_def)
  have key: "order_key ie (ord_ordering q) a \<noteq> order_key ie (ord_ordering q) b
      \<longleftrightarrow> OrderingValue ie a \<noteq> OrderingValue ie b" for a b
    by (simp add: order_key_def)
  note idx = inserting_index_of_member [OF srt p r_def, unfolded key]
  note window = findElementIndex_window [OF sorted refl refl f_def, folded r_def]
  have same: "GetID ie (?xs ! p) = GetID ie (?xs ! c) \<longleftrightarrow> c = p" if "c < length ?xs" for c
    using distinct p that nth_eq_iff_index_eq [of "map (GetID ie) ?xs" p c] by auto
  show ?thesis
  proof (cases "f < 0")
    case True
    then have "\<forall>c. 0 \<le> c \<longrightarrow> c < int (length ?xs) \<longrightarrow> \<bar>c - int r\<bar> \<le> 1
        \<longrightarrow> GetID ie (?xs ! p) \<noteq> GetID ie (?xs ! nat c)"
      using window by simp
    from this [rule_format, of "int p"] p have "\<not> \<bar>int p - int r\<bar> \<le> 1" by auto
    then have "r \<noteq> Suc p" by simp
    with True idx(2) show ?thesis by (simp add: ord_Remove_def f_def Let_def)
  next
    case False
    with window same [of "nat f"] have "nat f = p" "\<bar>f - int r\<bar> \<le> 1" by auto
    with idx(1) False have "r = Suc p" by linarith
    with False \<open>nat f = p\<close> idx(2) show ?thesis by (simp add: ord_Remove_def f_def Let_def)
  qed
qed

lemma ord_Remove_deletes:
  assumes "ord_sorted ie q"
  shows "snd (ord_GetOne ie q item) = fst (ord_Remove ie q item)
    \<and> ord_sorted ie (snd (ord_Remove ie q item))
    \<and> (if fst (ord_Remove ie q item)
       then \<exists>e. mset (ord_queue q) = add_mset e (mset (ord_queue (snd (ord_Remove ie q item)))) \<and> GetID ie e = GetID ie item
       else snd (ord_Remove ie q item) = q)"
proof -
  define f where "f = findElementIndex ie q item"
  note window = findElementIndex_window [OF assms refl refl f_def]
  show ?thesis
  proof (cases "f < 0")
    case True
    then show ?thesis using assms by (simp add: ord_Remove_def ord_GetOne_def f_def Let_def)
  next
    case False
    with window have i: "nat f < length (ord_queue q)" "GetID ie (ord_queue q ! nat f) = GetID ie item"
      by (simp_all add: nat_less_iff)
    have "sorted (map (order_key ie (ord_ordering q)) (drop_nth (nat f) (ord_queue q)))"
      using assms by (simp add: ord_sorted_def sorted_map sorted_wrt_drop_nth)
    with i False show ?thesis
      by (auto simp: ord_Remove_def ord_GetOne_def f_def [symmetric] Let_def ord_sorted_def mset_drop_nth
          intro!: exI [of _ "ord_queue q ! nat f"])
  qed
qed

lemma ord_Remove_ordering [simp]: "ord_ordering (snd (ord_Remove ie q item)) = ord_ordering q"
  by (simp add: ord_Remove_def Let_def)

lemma ord_Remove_keeps:
  assumes "ord_sorted ie q"
  shows "ord_sorted ie (snd (ord_Remove ie q item))"
    and "e \<in> set (ord_queue q) \<Longrightarrow> GetID ie e \<noteq> GetID ie item \<Longrightarrow> e \<in> set (ord_queue (snd (ord_Remove ie q item)))"
    and "set (ord_queue (snd (ord_Remove ie q item))) \<subseteq> set (ord_queue q)"
proof -
  note del = ord_Remove_deletes [OF assms, of item]
  show "ord_sorted ie (snd (ord_Remove ie q item))" using del by blast
  have "set (ord_queue q) = set (ord_queue (snd (ord_Remove ie q item))) \<or>
      (\<exists>e. set (ord_queue q) = insert e (set (ord_queue (snd (ord_Remove ie q item)))) \<and> GetID ie e = GetID ie item)"
    using del by (metis set_mset_add_mset_insert set_mset_mset)
  then show "e \<in> set (ord_queue q) \<Longrightarrow> GetID ie e \<noteq> GetID ie item \<Longrightarrow> e \<in> set (ord_queue (snd (ord_Remove ie q item)))"
    and "set (ord_queue (snd (ord_Remove ie q item))) \<subseteq> set (ord_queue q)"
    by auto
qed

section \<open>Properties\<close>

text \<open>
  The binary search agrees with linear insertion: on a sorted queue, \<open>Push\<close> puts the
  element behind the last element whose key is not greater, so the queue stays sorted in its mode
  and elements with equal ordering values stay in order of arrival.
\<close>

theorem ord_Push_stable:
  assumes "ord_sorted ie q"
  shows "ord_queue (snd (ord_Push ie q e)) = stable_insert (order_key ie (ord_ordering q)) e (ord_queue q)
    \<and> ord_sorted ie (snd (ord_Push ie q e))"
  using assms by (simp add: ord_Push_def ord_Add_simps ord_sorted_Add)

theorem ord_Push_stable_witness:
  "ord_sorted demoIE (snd (ord_Push demoIE \<lparr>ord_queue = [\<lparr>demo_val = ''a'', demo_ordering = 1\<rparr>], ord_ordering = OrderingAsc\<rparr>
     \<lparr>demo_val = ''b'', demo_ordering = 1\<rparr>))"
  by (rule ord_Push_stable [THEN conjunct2]) (simp add: ord_sorted_def)

text \<open>
  C31. Refinement of a sorted sequence: filling a new queue, ascending or descending, in any order
  of arrival leaves the stable sort of what was pushed, by ascending or descending ordering value;
  popping therefore yields the elements in that order.
\<close>

theorem ord_push_all_sorts:
  "ord_Elements (ord_push_all ie es NewAscOrderingQueue) = sort_key (OrderingValue ie) es
   \<and> ord_Elements (ord_push_all ie es NewDescOrderingQueue) = sort_key (\<lambda>e. - OrderingValue ie e) es
   \<and> fst (ordq.pops n (ord_push_all ie es NewAscOrderingQueue)) = take n (sort_key (OrderingValue ie) es)
   \<and> fst (ordq.pops n (ord_push_all ie es NewDescOrderingQueue)) = take n (sort_key (\<lambda>e. - OrderingValue ie e) es)"
proof -
  have "order_key ie OrderingAsc = OrderingValue ie" "order_key ie OrderingDesc = (\<lambda>e. - OrderingValue ie e)"
    by (simp_all add: order_key_def fun_eq_iff)
  then show ?thesis
    by (simp add: ordq.pops_elems ord_Elements_def NewAscOrderingQueue_def NewDescOrderingQueue_def
        ord_push_all_sort_key)
qed

text \<open>
  Exactly when \<open>Remove\<close> finds a queued element: the search window around the inserting
  index holds the last element of each run of equal ordering values, so an element is removed if
  and only if no later element shares its ordering value.  Otherwise \<open>Remove\<close> reports false
  and leaves the queue as it was, although the element is in it.
\<close>

theorem ord_Remove_iff_last_of_run:
  assumes "ord_sorted ie q" and "distinct (map (GetID ie) (ord_queue q))" and "p < length (ord_queue q)"
  shows "ord_Remove ie q (ord_queue q ! p) =
    (if \<forall>j. p < j \<longrightarrow> j < length (ord_queue q) \<longrightarrow>
         OrderingValue ie (ord_queue q ! j) \<noteq> OrderingValue ie (ord_queue q ! p)
     then (True, q\<lparr>ord_queue := drop_nth p (ord_queue q)\<rparr>) else (False, q))"
  using assms by (rule ord_Remove_member)

theorem ord_Remove_iff_last_of_run_witness:
  "ord_Remove demoIE \<lparr>ord_queue = [\<lparr>demo_val = ''a'', demo_ordering = 1\<rparr>, \<lparr>demo_val = ''b'', demo_ordering = 1\<rparr>], ord_ordering = OrderingAsc\<rparr>
     \<lparr>demo_val = ''a'', demo_ordering = 1\<rparr>
   = (False, \<lparr>ord_queue = [\<lparr>demo_val = ''a'', demo_ordering = 1\<rparr>, \<lparr>demo_val = ''b'', demo_ordering = 1\<rparr>], ord_ordering = OrderingAsc\<rparr>)"
proof -
  let ?q = "\<lparr>ord_queue = [\<lparr>demo_val = ''a'', demo_ordering = 1\<rparr>, \<lparr>demo_val = ''b'', demo_ordering = 1\<rparr>], ord_ordering = OrderingAsc\<rparr>"
  have "ord_Remove demoIE ?q (ord_queue ?q ! 0) = (False, ?q)"
    by (subst ord_Remove_iff_last_of_run)
      (auto simp: ord_sorted_def order_key_def demoIE_def intro!: exI [of _ 1])
  then show ?thesis by simp
qed

text \<open>
  The outcome of a lookup by element never depends on more than three places of the queue:
  \<open>GetOne\<close> and \<open>Remove\<close> succeed on the same arguments, and a removal deletes one element
  that has the identifier of the argument and keeps the queue sorted.
\<close>

theorem ord_Remove_sound:
  assumes "ord_sorted ie q"
  shows "snd (ord_GetOne ie q item) = fst (ord_Remove ie q item)
    \<and> ord_sorted ie (snd (ord_Remove ie q item))
    \<and> (if fst (ord_Remove ie q item)
       then \<exists>e. mset (ord_queue q) = add_mset e (mset (ord_queue (snd (ord_Remove ie q item)))) \<and> GetID ie e = GetID ie item
       else snd (ord_Remove ie q item) = q)"
  using assms by (rule ord_Remove_deletes)

theorem ord_Remove_sound_witness:
  "ord_sorted demoIE (snd (ord_Remove demoIE (ord_Add demoIE NewAscOrderingQueue \<lparr>demo_val = ''a'', demo_ordering = 4\<rparr>)
     \<lparr>demo_val = ''a'', demo_ordering = 4\<rparr>))"
  by (rule ord_Remove_sound [THEN conjunct2, THEN conjunct1])
    (simp add: ord_sorted_Add NewAscOrderingQueue_def ord_sorted_new)

end
