(* ===== verification/Keyed_Store.thy ===== *)
theory Keyed_Store
  imports Go_Prelude
begin

text \<open>
  The interface of the string-keyed stores the repository keeps behind a mutex, with the facts
  that their clients use, and the first provider, \<open>CoMapData\<close> of \<open>utils/co_mapdata.go\<close>.
  Each method of a provider runs under the mutex and is one step on the state.
\<close>

section \<open>The contract\<close>

locale keyed_store =
  fixes lookup :: "'s \<Rightarrow> string \<Rightarrow> 'e option"
    and put :: "'s \<Rightarrow> string \<Rightarrow> 'e \<Rightarrow> 's"
    and del :: "'s \<Rightarrow> string \<Rightarrow> 's"
  assumes lookup_put: "lookup (put s k e) = (lookup s)(k \<mapsto> e)"
    and lookup_del: "lookup (del s k) = (lookup s)(k := None)"
begin

lemma put_same [simp]: "lookup (put s k e) k = Some e"
  by (simp add: lookup_put)

lemma put_other [simp]: "k' \<noteq> k \<Longrightarrow> lookup (put s k e) k' = lookup s k'"
  by (simp add: lookup_put)

lemma del_same [simp]: "lookup (del s k) k = None"
  by (simp add: lookup_del)

lemma del_other [simp]: "k' \<noteq> k \<Longrightarrow> lookup (del s k) k' = lookup s k'"
  by (simp add: lookup_del)

lemma put_put: "lookup (put (put s k e) k e') = lookup (put s k e')"
  by (simp add: lookup_put)

lemma del_put: "lookup (del (put s k e) k) = lookup (del s k)"
  by (simp add: lookup_put lookup_del)

lemma put_commute: "k \<noteq> k' \<Longrightarrow> lookup (put (put s k e) k' e') = lookup (put (put s k' e') k e)"
  by (simp add: lookup_put fun_upd_twist)

text \<open>Deleting a sequence of keys, in any order and with repetitions, deletes the set of them.\<close>

lemma del_all: "lookup (fold (\<lambda>k s. del s k) ks s) = (lookup s) |` (- set ks)"
proof (induction ks arbitrary: s)
  case (Cons k ks)
  then show ?case by (auto simp: lookup_del restrict_map_def fun_eq_iff)
qed (simp add: restrict_map_def)

lemma del_all_dom: "dom (lookup (fold (\<lambda>k s. del s k) ks s)) = dom (lookup s) - set ks"
  by (auto simp: del_all)

end

section \<open>CoMapData\<close>

text \<open>The field \<open>data\<close> may be the nil map, which \<open>Add\<close> replaces and \<open>Delete\<close> leaves.\<close>

record 'v CoMapData =
  co_data :: "(string \<rightharpoonup> 'v) option"

definition NewCoMapData :: "'v CoMapData" where
  "NewCoMapData = \<lparr>co_data = Some Map.empty\<rparr>"

definition co_Add :: "'v CoMapData \<Rightarrow> string \<Rightarrow> 'v \<Rightarrow> 'v CoMapData" where
  "co_Add m key value =
     (let d = (case co_data m of None \<Rightarrow> Map.empty | Some d \<Rightarrow> d)
      in m\<lparr>co_data := Some (d(key \<mapsto> value))\<rparr>)"

definition co_Delete :: "'v CoMapData \<Rightarrow> string \<Rightarrow> 'v CoMapData" where
  "co_Delete m key =
     (case co_data m of None \<Rightarrow> m | Some d \<Rightarrow> m\<lparr>co_data := Some (d(key := None))\<rparr>)"

definition co_Exists :: "'v CoMapData \<Rightarrow> string \<Rightarrow> bool" where
  "co_Exists m key = (case co_data m of None \<Rightarrow> False | Some d \<Rightarrow> d key \<noteq> None)"

definition co_Get :: "'v CoMapData \<Rightarrow> string \<Rightarrow> 'v option" where
  "co_Get m key = (case co_data m of None \<Rightarrow> None | Some d \<Rightarrow> d key)"

interpretation comap: keyed_store co_Get co_Add co_Delete
  by unfold_locales
    (auto simp: co_Get_def co_Add_def co_Delete_def Let_def fun_eq_iff split: option.splits)

lemma co_Exists_Get: "co_Exists m k \<longleftrightarrow> co_Get m k \<noteq> None"
  by (simp add: co_Exists_def co_Get_def split: option.splits)

definition co_add_all :: "(string \<times> 'v) list \<Rightarrow> 'v CoMapData \<Rightarrow> 'v CoMapData" where
  "co_add_all kvs m = fold (\<lambda>(k, v) m. co_Add m k v) kvs m"

lemma co_add_all_Get: "co_Get (co_add_all kvs m) k = (case map_of (rev kvs) k of None \<Rightarrow> co_Get m k | Some v \<Rightarrow> Some v)"
proof (induction kvs arbitrary: m)
  case (Cons kv kvs)
  obtain k' v' where kv: "kv = (k', v')" by fastforce
  have "co_add_all (kv # kvs) m = co_add_all kvs (co_Add m k' v')"
    by (simp add: co_add_all_def kv)
  with Cons.IH show ?case
    by (simp add: kv map_add_def comap.lookup_put split: option.splits)
qed (simp add: co_add_all_def)

text \<open>
  \<open>CoMapData\<close> is a map, also when its field is still the nil map: after any
  additions and then deletions of keys, \<open>Get\<close> returns the value of the latest addition of
  every key that was not deleted, nothing for a deleted key, and what it returned before for the
  other keys, and \<open>Exists\<close> tells the two cases apart.
\<close>

theorem CoMapData_is_map:
  "co_Get (fold (\<lambda>k m. co_Delete m k) ks (co_add_all kvs m)) k =
     (if k \<in> set ks then None
      else case map_of (rev kvs) k of None \<Rightarrow> co_Get m k | Some v \<Rightarrow> Some v)
   \<and> co_Exists (fold (\<lambda>k m. co_Delete m k) ks (co_add_all kvs m)) k
     = (if k \<in> set ks then False
        else if map_of (rev kvs) k = None then co_Exists m k else True)"
  by (auto simp: comap.del_all restrict_map_def co_add_all_Get co_Exists_Get split: option.splits)

end
