(* ===== verification/Rdbms_Cache.thy ===== *)
theory Rdbms_Cache
  imports Ordered_Queue Keyed_Store
begin

text \<open>
  \<open>orm/rdbms/caches.go\<close>: the cache of query results, one group per table structure.  A group
  holds two wrappers: single records keyed by the serialized condition, and arrays of record keys;
  a wrapper is a map of elements together with an ascending ordered queue of the same elements by
  expiry time, which the periodic \<open>cleanTimeouts\<close> cuts.  Methods are sequential steps.  The
  clock is an argument (\<open>now\<close>, Unix seconds; \<open>now + cachingDurationSeconds\<close> stays far below
  \<open>2^63\<close>), and so are the code that is not in the repository or is pure reflection: \<open>ser\<close>
  prints a condition (\<open>_searlizeConditionBean\<close>, by the verb \<open>%v\<close>) and \<open>clone\<close> copies a
  record through \<open>encoding/gob\<close>, returning the copy and whether that succeeded.
\<close>

section \<open>Elements and wrappers\<close>

definition DefaultCachingDurationSeconds :: int where
  "DefaultCachingDurationSeconds = 300"

definition MaxArrayCachingDurationSeconds :: int where
  "MaxArrayCachingDurationSeconds = 180"

text \<open>
  \<open>refKeys\<close> is nil or a set of keys; the list stands for the order in which the code's
  \<open>range\<close> happens to visit them.  \<open>data\<close> is nil in an element that refers to another one.
\<close>

record 'd cacheElement =
  expiresAt :: int
  key :: string
  depKey :: string
  refKeys :: "string list option"
  data :: "'d option"

definition cacheIE :: "'d cacheElement IElement" where
  "cacheIE = \<lparr>GetID = key, GetName = key, OrderingValue = expiresAt, DebugString = (\<lambda>e. key e),
     Reflected = (\<lambda>e. GOther)\<rparr>"

record 'd cacheElementWrapper =
  objects :: "string \<rightharpoonup> 'd cacheElement"
  timerObjects :: "'d cacheElement OrderedQueue"

definition newCacheElementWrapper :: "'d cacheElementWrapper" where
  "newCacheElementWrapper = \<lparr>objects = Map.empty, timerObjects = NewAscOrderingQueue\<rparr>"

definition wrapper_reset :: "'d cacheElementWrapper \<Rightarrow> 'd cacheElementWrapper" where
  "wrapper_reset w = w\<lparr>objects := Map.empty, timerObjects := NewAscOrderingQueue\<rparr>"

definition wrapper_remove :: "'d cacheElementWrapper \<Rightarrow> string \<Rightarrow> 'd cacheElement option \<times> 'd cacheElementWrapper" where
  "wrapper_remove w k =
     (case objects w k of None \<Rightarrow> (None, w)
      | Some item \<Rightarrow> (Some item, w\<lparr>objects := (objects w)(k := None),
          timerObjects := snd (ord_Remove cacheIE (timerObjects w) item)\<rparr>))"

definition wrapper_get ::
    "'d cacheElementWrapper \<Rightarrow> string \<Rightarrow> bool \<Rightarrow> 'd cacheElement option \<times> 'd cacheElementWrapper" where
  "wrapper_get w k removeTimerIfExists =
     (case objects w k of None \<Rightarrow> (None, w)
      | Some item \<Rightarrow>
          if removeTimerIfExists
          then (Some item, w\<lparr>objects := (objects w)(k := None),
            timerObjects := snd (ord_Remove cacheIE (timerObjects w) item)\<rparr>)
          else (Some item, w))"

definition wrapper_set :: "'d cacheElementWrapper \<Rightarrow> string \<Rightarrow> 'd cacheElement \<Rightarrow> 'd cacheElementWrapper" where
  "wrapper_set w k item =
     w\<lparr>objects := (objects w)(k \<mapsto> item), timerObjects := snd (ord_Push cacheIE (timerObjects w) item)\<rparr>"

text \<open>The scan for the first element that has not expired; 0 also when there is none.\<close>

fun timeouts_index :: "int \<Rightarrow> nat \<Rightarrow> 'd cacheElement list \<Rightarrow> nat" where
  "timeouts_index now i [] = 0"
| "timeouts_index now i (e # es) =
     (if OrderingValue cacheIE e > now then i else timeouts_index now (Suc i) es)"

definition wrapper_cleanTimeouts :: "'d cacheElementWrapper \<Rightarrow> int \<Rightarrow> 'd cacheElementWrapper go" where
  "wrapper_cleanTimeouts w now =
     (let timeoutsIndex = timeouts_index now 0 (ord_Elements (timerObjects w))
      in if 0 < timeoutsIndex
         then go_bind (ord_CutBefore (timerObjects w) (int timeoutsIndex)) (\<lambda>(cuts, q).
           Inr (w\<lparr>objects := fold (\<lambda>e m. m(GetID cacheIE e := None)) cuts (objects w), timerObjects := q\<rparr>))
         else Inr w)"

section \<open>Groups\<close>

record ('b, 'c) cacheElementGroup =
  cachingDurationSeconds :: int
  g_objects :: "'b cacheElementWrapper"
  g_arrayObjects :: "string list cacheElementWrapper"
  pkColumns :: "'c list"

definition newCacheElementGroup :: "('b, 'c) cacheElementGroup" where
  "newCacheElementGroup = \<lparr>cachingDurationSeconds = DefaultCachingDurationSeconds,
     g_objects = newCacheElementWrapper, g_arrayObjects = newCacheElementWrapper, pkColumns = []\<rparr>"

text \<open>\<open>dataCaches.group\<close>: the group of a table structure, made on first use.\<close>

definition caches_group ::
    "(string \<rightharpoonup> ('b, 'c) cacheElementGroup) \<Rightarrow> string \<Rightarrow> ('b, 'c) cacheElementGroup \<times> (string \<rightharpoonup> ('b, 'c) cacheElementGroup)" where
  "caches_group c name =
     (case c name of Some eg \<Rightarrow> (eg, c) | None \<Rightarrow> (newCacheElementGroup, c(name \<mapsto> newCacheElementGroup)))"

definition serializeCondition :: "('q \<Rightarrow> string) \<Rightarrow> 'q option \<Rightarrow> string" where
  "serializeCondition ser condiBean = (case condiBean of None \<Rightarrow> [] | Some q \<Rightarrow> ser q)"

definition remove_all :: "'d cacheElementWrapper \<Rightarrow> string list \<Rightarrow> 'd cacheElementWrapper" where
  "remove_all w ks = fold (\<lambda>k w. snd (wrapper_remove w k)) ks w"

definition group_set ::
    "('q \<Rightarrow> string) \<Rightarrow> ('b \<Rightarrow> 'b \<times> bool) \<Rightarrow> int \<Rightarrow> ('b, 'c) cacheElementGroup \<Rightarrow> 'b \<Rightarrow> 'q option \<Rightarrow> 'q option
      \<Rightarrow> ('b, 'c) cacheElementGroup" where
  "group_set ser clone now c bean condiBean pkCondiBean =
     (let k = serializeCondition ser condiBean;
          pkKey = serializeCondition ser pkCondiBean
      in case clone bean of
           (setBean, False) \<Rightarrow> c
         | (setBean, True) \<Rightarrow>
             let w0 = (if length (pkColumns c) \<le> 0 \<and> pkKey = [] then wrapper_reset (g_objects c) else g_objects c);
                 (existsEle, w1) = wrapper_get w0 k True;
                 ele = \<lparr>expiresAt = now + cachingDurationSeconds c, key = k, depKey = [], refKeys = None, data = Some setBean\<rparr>
             in if pkKey = [] \<or> pkKey = k
                then
                  let w2 = (case existsEle of None \<Rightarrow> w1
                            | Some ex \<Rightarrow> (case refKeys ex of None \<Rightarrow> w1 | Some ks \<Rightarrow> remove_all w1 ks))
                  in c\<lparr>g_objects := wrapper_set w2 k (ele\<lparr>refKeys := Some []\<rparr>)\<rparr>
                else
                  let (existsEle, w2) = wrapper_get w1 pkKey False;
                      (rks, w3) = (case existsEle of None \<Rightarrow> ([], w2)
                        | Some ex \<Rightarrow> ((case refKeys ex of None \<Rightarrow> [] | Some ks \<Rightarrow> ks), snd (wrapper_remove w2 pkKey)));
                      rks = List.insert k rks;
                      pkEle = \<lparr>expiresAt = now + cachingDurationSeconds c, key = pkKey, depKey = [],
                        refKeys = Some rks, data = Some setBean\<rparr>;
                      w4 = wrapper_set w3 pkKey pkEle
                  in c\<lparr>g_objects := wrapper_set w4 k (ele\<lparr>data := None, depKey := pkKey\<rparr>)\<rparr>)"

text \<open>
  \<open>cloneBean(e.data)\<close>: the type of a nil interface cannot be taken, so a nil \<open>data\<close> panics.
  \<open>load_data\<close> is the copy or, without \<open>cloneResult\<close>, the stored value itself.
\<close>

definition cloneBean :: "('b \<Rightarrow> 'b \<times> bool) \<Rightarrow> 'b option \<Rightarrow> ('b \<times> bool) go" where
  "cloneBean clone d = (case d of None \<Rightarrow> Inl ReflectKindMismatch | Some b \<Rightarrow> Inr (clone b))"

definition load_data :: "('b \<Rightarrow> 'b \<times> bool) \<Rightarrow> bool \<Rightarrow> 'b option \<Rightarrow> ('b option \<times> bool) go" where
  "load_data clone cloneResult d =
     (if cloneResult then go_bind (cloneBean clone d) (\<lambda>(b, ok). Inr (Some b, ok)) else Inr (d, True))"

definition group_get ::
    "('q \<Rightarrow> string) \<Rightarrow> ('b \<Rightarrow> 'b \<times> bool) \<Rightarrow> int \<Rightarrow> ('b, 'c) cacheElementGroup \<Rightarrow> 'q option \<Rightarrow> bool
      \<Rightarrow> (('b option \<times> string \<times> bool) \<times> ('b, 'c) cacheElementGroup) go" where
  "group_get ser clone now c condiBean cloneResult =
     (let k = serializeCondition ser condiBean;
          e = fst (wrapper_get (g_objects c) k False)
      in go_bind
        (case e of
           None \<Rightarrow> Inr (None, False, None)
         | Some el \<Rightarrow>
             if now > expiresAt el then Inr (None, False, None)
             else if depKey el = [] then
               go_bind (load_data clone cloneResult (data el)) (\<lambda>(b, ok). Inr (b, ok, None))
             else
               (case fst (wrapper_get (g_objects c) (depKey el) False) of
                  None \<Rightarrow> Inr (None, False, None)
                | Some pkEle \<Rightarrow>
                    if now > expiresAt pkEle then Inr (None, False, Some pkEle)
                    else go_bind (load_data clone cloneResult (data pkEle)) (\<lambda>(b, ok). Inr (b, ok, Some pkEle))))
        (\<lambda>(bean, ok, pkEle).
           let c' = (if \<not> ok then
               (case pkEle of
                  None \<Rightarrow> (case e of None \<Rightarrow> c
                           | Some el \<Rightarrow> c\<lparr>g_objects := snd (wrapper_remove (g_objects c) k)\<rparr>)
                | Some _ \<Rightarrow> (case e of None \<Rightarrow> c
                           | Some el \<Rightarrow> c\<lparr>g_objects := remove_all (g_objects c) [k, depKey el]\<rparr>))
             else c)
           in Inr ((bean, k, ok), c')))"

definition group_del ::
    "('q \<Rightarrow> string) \<Rightarrow> ('b, 'c) cacheElementGroup \<Rightarrow> 'q option \<Rightarrow> ('b, 'c) cacheElementGroup" where
  "group_del ser c condiBean =
     (let k = serializeCondition ser condiBean
      in case fst (wrapper_get (g_objects c) k False) of
           None \<Rightarrow> c
         | Some e \<Rightarrow>
             let w = (case refKeys e of None \<Rightarrow> g_objects c
                      | Some ks \<Rightarrow> if 0 < length ks then remove_all (g_objects c) ks else g_objects c)
             in c\<lparr>g_objects := snd (wrapper_remove w k)\<rparr>)"

section \<open>Arrays of records\<close>

text \<open>
  \<open>fmt.Sprintf("%d:%d:%s", limit, offset, condition)\<close>.  \<open>pkof\<close> is
  \<open>formatPkConditionBeanImpl\<close>: the primary-key condition of a record and the number of key
  columns that are set.  The clock is read once per record and once at the end: \<open>clock i\<close>.
\<close>

definition array_key :: "int \<Rightarrow> int \<Rightarrow> string \<Rightarrow> string" where
  "array_key limit offset cond = itoa limit @ '':'' @ itoa offset @ '':'' @ cond"

fun set_array_loop ::
    "('q \<Rightarrow> string) \<Rightarrow> ('b \<Rightarrow> 'b \<times> bool) \<Rightarrow> ('c list \<Rightarrow> 'b \<Rightarrow> 'q option \<times> int) \<Rightarrow> (nat \<Rightarrow> int) \<Rightarrow> nat
      \<Rightarrow> ('b, 'c) cacheElementGroup \<Rightarrow> 'b list \<Rightarrow> string list option \<times> ('b, 'c) cacheElementGroup" where
  "set_array_loop ser clone pkof clock i c [] = (Some [], c)"
| "set_array_loop ser clone pkof clock i c (bean # beans) =
     (case pkof (pkColumns c) bean of (pkCondiBean, pkValues) \<Rightarrow>
        if 0 \<ge> pkValues then (None, c)
        else case set_array_loop ser clone pkof clock (Suc i)
                    (group_set ser clone (clock i) c bean pkCondiBean None) beans of
               (None, c') \<Rightarrow> (None, c')
             | (Some ks, c') \<Rightarrow> (Some (serializeCondition ser pkCondiBean # ks), c'))"

definition group_setArray ::
    "('q \<Rightarrow> string) \<Rightarrow> ('b \<Rightarrow> 'b \<times> bool) \<Rightarrow> ('c list \<Rightarrow> 'b \<Rightarrow> 'q option \<times> int) \<Rightarrow> (nat \<Rightarrow> int)
      \<Rightarrow> ('b, 'c) cacheElementGroup \<Rightarrow> 'q option \<Rightarrow> 'b list \<Rightarrow> int \<Rightarrow> int \<Rightarrow> ('b, 'c) cacheElementGroup" where
  "group_setArray ser clone pkof clock c condiBean beans limit offset =
     (let arrayCachingDurationSeconds = cachingDurationSeconds c - 30
      in if length (pkColumns c) \<le> 0 \<or> length beans \<le> 0 \<or> arrayCachingDurationSeconds \<le> 0 then c
         else
           let k = array_key limit offset (serializeCondition ser condiBean);
               c1 = c\<lparr>g_arrayObjects := snd (wrapper_get (g_arrayObjects c) k True)\<rparr>
           in case set_array_loop ser clone pkof clock 0 c1 beans of
                (None, c2) \<Rightarrow> c2
              | (Some cacheObjects, c2) \<Rightarrow>
                  let ele = \<lparr>expiresAt = clock (length beans) + cachingDurationSeconds c2, key = k,
                              depKey = [], refKeys = None, data = Some cacheObjects\<rparr>
                  in c2\<lparr>g_arrayObjects := wrapper_set (g_arrayObjects c2) k ele\<rparr>)"

text \<open>
  The records of an array: the loop stops at the first key without an element or with a copy that
  fails.  A nil \<open>data\<close> panics at the first key (its type is taken) and fails to encode later.
\<close>

fun get_array_loop ::
    "('b \<Rightarrow> 'b \<times> bool) \<Rightarrow> 'b cacheElementWrapper \<Rightarrow> nat \<Rightarrow> string list \<Rightarrow> ('b option list \<times> bool) go" where
  "get_array_loop clone w i [] = Inr ([], True)"
| "get_array_loop clone w i (pkey # pkeys) =
     (case fst (wrapper_get w pkey False) of
        None \<Rightarrow> Inr (replicate (Suc (length pkeys)) None, False)
      | Some one \<Rightarrow>
          (case data one of
             None \<Rightarrow> if i = 0 then Inl ReflectKindMismatch else Inr (replicate (Suc (length pkeys)) None, False)
           | Some d \<Rightarrow>
               (case clone d of
                  (_, False) \<Rightarrow> Inr (replicate (Suc (length pkeys)) None, False)
                | (bean, True) \<Rightarrow>
                    go_bind (get_array_loop clone w (Suc i) pkeys) (\<lambda>(bs, ok). Inr (Some bean # bs, ok)))))"

definition group_getArray ::
    "('q \<Rightarrow> string) \<Rightarrow> ('b \<Rightarrow> 'b \<times> bool) \<Rightarrow> int \<Rightarrow> ('b, 'c) cacheElementGroup \<Rightarrow> 'q option \<Rightarrow> int \<Rightarrow> int
      \<Rightarrow> (('b option list \<times> string \<times> bool) \<times> ('b, 'c) cacheElementGroup) go" where
  "group_getArray ser clone now c condiBean limit offset =
     (let k = array_key limit offset (serializeCondition ser condiBean)
      in case fst (wrapper_get (g_arrayObjects c) k False) of
           None \<Rightarrow> Inr (([], k, False), c)
         | Some e \<Rightarrow>
             if now > expiresAt e
             then Inr (([], k, False), c\<lparr>g_arrayObjects := snd (wrapper_remove (g_arrayObjects c) k)\<rparr>)
             else go_bind (get_array_loop clone (g_objects c) 0 (case data e of None \<Rightarrow> [] | Some ks \<Rightarrow> ks))
               (\<lambda>(records, ok). Inr ((records, k, ok), c)))"

definition group_cleanTimeouts :: "('b, 'c) cacheElementGroup \<Rightarrow> int \<Rightarrow> ('b, 'c) cacheElementGroup go" where
  "group_cleanTimeouts c now =
     go_bind (wrapper_cleanTimeouts (g_objects c) now) (\<lambda>w1.
       go_bind (wrapper_cleanTimeouts (g_arrayObjects c) now) (\<lambda>w2.
         Inr (c\<lparr>g_objects := w1, g_arrayObjects := w2\<rparr>)))"

section \<open>The wrapper as a keyed store\<close>

definition wrapper_del :: "'d cacheElementWrapper \<Rightarrow> string \<Rightarrow> 'd cacheElementWrapper" where
  "wrapper_del w k = snd (wrapper_remove w k)"

interpretation wrapper: keyed_store objects wrapper_set wrapper_del
  by unfold_locales
    (auto simp: wrapper_set_def wrapper_del_def wrapper_remove_def fun_eq_iff split: option.splits)

lemma remove_all_fold: "remove_all w ks = fold (\<lambda>k w. wrapper_del w k) ks w"
  by (simp add: remove_all_def wrapper_del_def)

lemma objects_remove_all [simp]: "objects (remove_all w ks) = (objects w) |` (- set ks)"
  by (simp add: remove_all_fold wrapper.del_all)

lemma wrapper_get_simps [simp]:
  "fst (wrapper_get w k b) = objects w k"
  "snd (wrapper_get w k False) = w"
  "snd (wrapper_get w k True) = wrapper_del w k"
  "fst (wrapper_remove w k) = objects w k"
  "snd (wrapper_remove w k) = wrapper_del w k"
  by (auto simp: wrapper_get_def wrapper_del_def wrapper_remove_def split: option.splits)

lemma wrapper_get_pair: "wrapper_get w k b = (objects w k, if b then wrapper_del w k else w)"
  by (rule prod_eqI) auto

section \<open>The invariant of a wrapper\<close>

text \<open>
  The timer queue is sorted by expiry time, and every cached element is in it under its own key.
  (The queue may hold more: elements that \<open>Remove\<close> failed to find.)
\<close>

definition wrapper_inv :: "'d cacheElementWrapper \<Rightarrow> bool" where
  "wrapper_inv w \<longleftrightarrow> ord_sorted cacheIE (timerObjects w) \<and> ord_ordering (timerObjects w) = OrderingAsc \<and>
     (\<forall>k e. objects w k = Some e \<longrightarrow> key e = k \<and> e \<in> set (ord_queue (timerObjects w)))"

lemma cacheIE_simps [simp]: "GetID cacheIE = key" "OrderingValue cacheIE = expiresAt"
  by (simp_all add: cacheIE_def)

lemma cache_order_key [simp]: "order_key cacheIE OrderingAsc = expiresAt"
  by (simp add: order_key_def fun_eq_iff)

lemma wrapper_inv_new: "wrapper_inv newCacheElementWrapper"
  by (simp add: wrapper_inv_def newCacheElementWrapper_def NewAscOrderingQueue_def ord_sorted_new)

lemma wrapper_inv_reset: "wrapper_inv (wrapper_reset w)"
  by (simp add: wrapper_inv_def wrapper_reset_def NewAscOrderingQueue_def ord_sorted_new)

lemma wrapper_inv_set: "wrapper_inv w \<Longrightarrow> key e = k \<Longrightarrow> wrapper_inv (wrapper_set w k e)"
by (auto simp: wrapper_inv_def wrapper_set_def ord_Push_def ord_sorted_Add set_ord_Add ord_Add_simps(2))

lemma wrapper_inv_del: "wrapper_inv w \<Longrightarrow> wrapper_inv (wrapper_del w k)"
proof (cases "objects w k")
  case (Some item)
  assume inv: "wrapper_inv w"
  with Some have "key item = k" by (simp add: wrapper_inv_def)
  moreover have "\<forall>e. e \<in> set (ord_queue (timerObjects w)) \<longrightarrow> key e \<noteq> key item
      \<longrightarrow> e \<in> set (ord_queue (snd (ord_Remove cacheIE (timerObjects w) item)))"
    using inv ord_Remove_keeps(2) [of cacheIE "timerObjects w" _ item] by (simp add: wrapper_inv_def)
  ultimately show ?thesis
    using Some inv ord_Remove_keeps(1) [of cacheIE "timerObjects w" item]
    by (auto simp: wrapper_inv_def wrapper_del_def wrapper_remove_def)
qed (simp add: wrapper_del_def wrapper_remove_def)

lemma wrapper_inv_remove_all: "wrapper_inv w \<Longrightarrow> wrapper_inv (remove_all w ks)"
  unfolding remove_all_fold by (induction ks arbitrary: w) (simp_all add: wrapper_inv_del)

lemmas wrapper_inv_intros =
  wrapper_inv_new wrapper_inv_reset wrapper_inv_set wrapper_inv_del wrapper_inv_remove_all

text \<open>What the scan finds in a queue sorted by expiry time.\<close>

lemma timeouts_index_sorted:
  "sorted (map expiresAt es) \<Longrightarrow>
    timeouts_index now i es =
      (if \<exists>e\<in>set es. now < expiresAt e then i + length (takeWhile (\<lambda>e. expiresAt e \<le> now) es) else 0)"
  by (induction es arbitrary: i) auto

lemma fold_delete: "fold (\<lambda>e m. m(f e := None)) es m = m |` (- f ` set es)"
  by (induction es arbitrary: m) (auto simp: restrict_map_def fun_eq_iff)

text \<open>
  A clean-up that cuts anything cuts the whole queue, and with it every cached element.
\<close>

lemma wrapper_cleanTimeouts_eq:
  assumes "wrapper_inv w"
  shows "wrapper_cleanTimeouts w now =
    (if (\<exists>e\<in>set (ord_queue (timerObjects w)). expiresAt e \<le> now)
        \<and> (\<exists>e\<in>set (ord_queue (timerObjects w)). now < expiresAt e)
     then Inr (w\<lparr>objects := Map.empty, timerObjects := (timerObjects w)\<lparr>ord_queue := []\<rparr>\<rparr>) else Inr w)"
proof -
  let ?es = "ord_queue (timerObjects w)"
  have srt: "sorted (map expiresAt ?es)"
    using assms by (auto simp: wrapper_inv_def ord_sorted_def cache_order_key)
  define i where "i = timeouts_index now 0 ?es"
  have i: "i = (if \<exists>e\<in>set ?es. now < expiresAt e then length (takeWhile (\<lambda>e. expiresAt e \<le> now) ?es) else 0)"
    by (simp add: i_def timeouts_index_sorted [OF srt])
  have pos: "0 < i \<longleftrightarrow> (\<exists>e\<in>set ?es. expiresAt e \<le> now) \<and> (\<exists>e\<in>set ?es. now < expiresAt e)"
    using srt by (cases ?es) (auto simp: i)
  have le: "i \<le> length ?es" by (simp add: i length_takeWhile_le)
  have keys: "objects w |` (- key ` set ?es) = Map.empty"
  proof
    fix k show "(objects w |` (- key ` set ?es)) k = None"
      using assms by (cases "objects w k") (force simp: restrict_map_def wrapper_inv_def)+
  qed
  have "wrapper_cleanTimeouts w now =
    (if 0 < i then Inr (w\<lparr>objects := Map.empty, timerObjects := (timerObjects w)\<lparr>ord_queue := []\<rparr>\<rparr>) else Inr w)"
    using le by (simp add: wrapper_cleanTimeouts_def ord_Elements_def i_def ord_CutBefore_def fold_delete keys)
  then show ?thesis using pos by simp
qed

section \<open>The invariant of a group\<close>

definition group_inv :: "('b, 'c) cacheElementGroup \<Rightarrow> bool" where
  "group_inv c \<longleftrightarrow> wrapper_inv (g_objects c) \<and> wrapper_inv (g_arrayObjects c)"

text \<open>What \<open>group_set\<close> leaves in the record wrapper, without the bookkeeping of timers.\<close>

lemma group_set_inv: "group_inv c \<Longrightarrow> group_inv (group_set ser clone now c bean condi pk)"
  by (auto simp: group_inv_def group_set_def Let_def wrapper_get_pair wrapper_inv_intros
      split: prod.splits bool.splits option.splits)

lemma group_set_frame [simp]:
  "cachingDurationSeconds (group_set ser clone now c bean condi pk) = cachingDurationSeconds c"
  "pkColumns (group_set ser clone now c bean condi pk) = pkColumns c"
  "g_arrayObjects (group_set ser clone now c bean condi pk) = g_arrayObjects c"
  by (auto simp: group_set_def Let_def split: prod.splits bool.splits option.splits)

lemma group_get_inv: "group_inv c \<Longrightarrow> group_get ser clone now c condi b = Inr (r, c') \<Longrightarrow> group_inv c'"
  by (auto simp: group_inv_def group_get_def Let_def go_bind_eq_ret wrapper_inv_intros
      split: prod.splits bool.splits option.splits if_splits)

lemma group_del_inv: "group_inv c \<Longrightarrow> group_inv (group_del ser c condi)"
  by (auto simp: group_inv_def group_del_def Let_def wrapper_inv_intros split: option.splits)

lemma set_array_loop_inv:
  "group_inv c \<Longrightarrow> group_inv (snd (set_array_loop ser clone pkof clock i c beans))
    \<and> pkColumns (snd (set_array_loop ser clone pkof clock i c beans)) = pkColumns c
    \<and> cachingDurationSeconds (snd (set_array_loop ser clone pkof clock i c beans)) = cachingDurationSeconds c"
proof (induction beans arbitrary: i c)
  case (Cons bean beans)
  obtain pc pv where pk: "pkof (pkColumns c) bean = (pc, pv)" by fastforce
  let ?c1 = "group_set ser clone (clock i) c bean pc None"
  obtain ks c2 where loop: "set_array_loop ser clone pkof clock (Suc i) ?c1 beans = (ks, c2)" by fastforce
  have "group_inv ?c1" using Cons.prems by (rule group_set_inv)
  from Cons.IH [OF this, of "Suc i"] Cons.prems show ?case
    by (cases ks) (simp_all add: pk loop)
qed simp

lemma group_setArray_inv:
  assumes "group_inv c"
  shows "group_inv (group_setArray ser clone pkof clock c condi beans limit offset)"
proof -
  let ?k = "array_key limit offset (serializeCondition ser condi)"
  let ?c1 = "c\<lparr>g_arrayObjects := wrapper_del (g_arrayObjects c) ?k\<rparr>"
  have "group_inv ?c1" using assms by (simp add: group_inv_def wrapper_inv_intros)
  from set_array_loop_inv [OF this, of ser clone pkof clock 0 beans] assms show ?thesis
    by (auto simp: group_setArray_def Let_def group_inv_def wrapper_inv_intros split: prod.splits option.splits)
qed

lemma group_getArray_inv:
  "group_inv c \<Longrightarrow> group_getArray ser clone now c condi limit offset = Inr (r, c') \<Longrightarrow> group_inv c'"
  by (auto simp: group_inv_def group_getArray_def Let_def go_bind_eq_ret wrapper_inv_intros
      split: prod.splits option.splits if_splits)

text \<open>When a wrapper's clean-up takes effect, and what it then leaves.\<close>

definition flushes :: "'d cacheElementWrapper \<Rightarrow> int \<Rightarrow> bool" where
  "flushes w now \<longleftrightarrow> (\<exists>e\<in>set (ord_queue (timerObjects w)). expiresAt e \<le> now)
     \<and> (\<exists>e\<in>set (ord_queue (timerObjects w)). now < expiresAt e)"

definition flushed :: "'d cacheElementWrapper \<Rightarrow> int \<Rightarrow> 'd cacheElementWrapper" where
  "flushed w now = (if flushes w now
     then w\<lparr>objects := Map.empty, timerObjects := (timerObjects w)\<lparr>ord_queue := []\<rparr>\<rparr> else w)"

lemma group_cleanTimeouts_eq:
  "group_inv c \<Longrightarrow> group_cleanTimeouts c now =
    Inr (c\<lparr>g_objects := flushed (g_objects c) now, g_arrayObjects := flushed (g_arrayObjects c) now\<rparr>)"
  by (simp add: group_inv_def group_cleanTimeouts_def wrapper_cleanTimeouts_eq flushed_def flushes_def)

lemma wrapper_inv_flushed: "wrapper_inv w \<Longrightarrow> wrapper_inv (flushed w now)"
  by (auto simp: flushed_def wrapper_inv_def ord_sorted_def)

section \<open>Runs of a group\<close>

text \<open>
  Any interleaving of the methods, with any clock readings; \<open>set_pkColumns\<close> is the assignment
  of \<open>orm/rdbms/index.go\<close> when a table's key columns become known.
\<close>

inductive group_step ::
    "('q \<Rightarrow> string) \<Rightarrow> ('b \<Rightarrow> 'b \<times> bool) \<Rightarrow> ('c list \<Rightarrow> 'b \<Rightarrow> 'q option \<times> int)
      \<Rightarrow> ('b, 'c) cacheElementGroup \<Rightarrow> ('b, 'c) cacheElementGroup \<Rightarrow> bool"
  for ser clone pkof where
  step_set: "group_step ser clone pkof c (group_set ser clone now c bean condi pk)"
| step_get: "group_get ser clone now c condi b = Inr (r, c') \<Longrightarrow> group_step ser clone pkof c c'"
| step_del: "group_step ser clone pkof c (group_del ser c condi)"
| step_setArray: "group_step ser clone pkof c (group_setArray ser clone pkof clock c condi beans limit offset)"
| step_getArray: "group_getArray ser clone now c condi limit offset = Inr (r', c') \<Longrightarrow> group_step ser clone pkof c c'"
| step_clean: "group_cleanTimeouts c now = Inr c' \<Longrightarrow> group_step ser clone pkof c c'"
| step_pkColumns: "group_step ser clone pkof c (c\<lparr>pkColumns := cols\<rparr>)"

inductive group_reachable ::
    "('q \<Rightarrow> string) \<Rightarrow> ('b \<Rightarrow> 'b \<times> bool) \<Rightarrow> ('c list \<Rightarrow> 'b \<Rightarrow> 'q option \<times> int)
      \<Rightarrow> ('b, 'c) cacheElementGroup \<Rightarrow> bool"
  for ser clone pkof where
  reach_new: "group_reachable ser clone pkof newCacheElementGroup"
| reach_step: "group_reachable ser clone pkof c \<Longrightarrow> group_step ser clone pkof c c' \<Longrightarrow> group_reachable ser clone pkof c'"

lemma group_inv_new: "group_inv newCacheElementGroup"
  by (simp add: group_inv_def newCacheElementGroup_def wrapper_inv_new)

lemma group_step_inv: "group_step ser clone pkof c c' \<Longrightarrow> group_inv c \<Longrightarrow> group_inv c'"
proof (induction rule: group_step.induct)
  case (step_get now c condi b r c')
  from step_get.prems step_get.hyps show ?case by (rule group_get_inv)
next
  case (step_getArray now c condi limit offset r' c')
  from step_getArray.prems step_getArray.hyps show ?case by (rule group_getArray_inv)
next
  case (step_clean c now c')
  then have "c' = c\<lparr>g_objects := flushed (g_objects c) now, g_arrayObjects := flushed (g_arrayObjects c) now\<rparr>"
    by (simp add: group_cleanTimeouts_eq)
  with step_clean.prems show ?case by (simp add: group_inv_def wrapper_inv_flushed)
next
  case (step_pkColumns c cols)
  then show ?case by (simp add: group_inv_def)
qed (rule group_set_inv group_del_inv group_setArray_inv, assumption)+

lemma group_reachable_inv: "group_reachable ser clone pkof c \<Longrightarrow> group_inv c"
  by (induction rule: group_reachable.induct) (auto simp: group_inv_new dest: group_step_inv)

section \<open>Results of the operations\<close>

text \<open>The elements a successful \<open>set\<close> leaves under the two keys of its record.\<close>

lemma group_set_objects:
  assumes "clone bean = (b', True)"
  shows "objects (g_objects (group_set ser clone now c bean condi pk)) (serializeCondition ser condi) =
      (if serializeCondition ser pk = [] \<or> serializeCondition ser pk = serializeCondition ser condi
       then Some \<lparr>expiresAt = now + cachingDurationSeconds c, key = serializeCondition ser condi, depKey = [],
              refKeys = Some [], data = Some b'\<rparr>
       else Some \<lparr>expiresAt = now + cachingDurationSeconds c, key = serializeCondition ser condi,
              depKey = serializeCondition ser pk, refKeys = None, data = None\<rparr>)"
  by (simp add: group_set_def assms Let_def wrapper_get_pair split: option.splits)

lemma group_set_pk_object:
  assumes "clone bean = (b', True)" and "serializeCondition ser pk \<noteq> []"
    and "serializeCondition ser pk \<noteq> serializeCondition ser condi"
  shows "\<exists>rks. objects (g_objects (group_set ser clone now c bean condi pk)) (serializeCondition ser pk) =
      Some \<lparr>expiresAt = now + cachingDurationSeconds c, key = serializeCondition ser pk, depKey = [],
        refKeys = Some (List.insert (serializeCondition ser condi) rks), data = Some b'\<rparr>"
proof -
  have "\<exists>rks. [k] = List.insert k rks" for k :: string
    by (rule exI [of _ "[]"]) simp
  then show ?thesis
    using assms(2,3) by (auto simp: group_set_def assms(1) Let_def wrapper_get_pair split: option.splits)
qed

lemma group_set_get:
  assumes "clone bean = (b', True)" and "clone b' = (b'', True)"
    and "t \<le> now + cachingDurationSeconds c"
    and "c' = group_set ser clone now c bean condi pk"
  shows "group_get ser clone t c' condi True = Inr ((Some b'', serializeCondition ser condi, True), c')"
    and "serializeCondition ser pk \<noteq> [] \<Longrightarrow>
      group_get ser clone t c' pk True = Inr ((Some b'', serializeCondition ser pk, True), c')"
proof -
  let ?k = "serializeCondition ser condi" and ?pk = "serializeCondition ser pk"
  note obj = group_set_objects [where bean = bean and b' = b' and clone = clone, OF assms(1), of ser now c condi pk, folded assms(4)]
  show main: "group_get ser clone t c' condi True = Inr ((Some b'', ?k, True), c')"
  proof (cases "?pk = [] \<or> ?pk = ?k")
    case True
    with obj assms(2,3) show ?thesis
      by (simp add: group_get_def load_data_def cloneBean_def)
  next
    case False
    then have "?pk \<noteq> []" "?pk \<noteq> ?k" by simp_all
    from group_set_pk_object [where bean = bean and b' = b' and clone = clone, OF assms(1) this, of now c] False obj assms(2,3,4) show ?thesis
      by (auto simp: group_get_def load_data_def cloneBean_def Let_def)
  qed
  assume "?pk \<noteq> []"
  show "group_get ser clone t c' pk True = Inr ((Some b'', ?pk, True), c')"
  proof (cases "?pk = ?k")
    case True
    with main show ?thesis by (simp add: group_get_def)
  next
    case False
    from group_set_pk_object [where bean = bean and b' = b' and clone = clone, OF assms(1) \<open>?pk \<noteq> []\<close> False, of now c] assms(2,3,4) show ?thesis
      by (auto simp: group_get_def load_data_def cloneBean_def Let_def)
  qed
qed

lemma group_del_miss:
  assumes "objects (g_objects c) (serializeCondition ser condi) = Some e" and "refKeys e = Some ks"
  shows "objects (g_objects (group_del ser c condi)) =
    (objects (g_objects c)) |` (- insert (serializeCondition ser condi) (set ks))"
  using assms
  by (cases ks) (auto simp: group_del_def Let_def wrapper.lookup_del restrict_map_def fun_eq_iff)

lemma group_get_miss:
  "objects (g_objects c) (serializeCondition ser condi) = None \<Longrightarrow>
    group_get ser clone now c condi b = Inr ((None, serializeCondition ser condi, False), c)"
  by (simp add: group_get_def Let_def)

section \<open>Properties\<close>

text \<open>
  C33. In every reachable state of a group, the timer queue of each wrapper is sorted by expiry
  time and holds every cached element under its own key.
\<close>

theorem cache_reachable_invariant:
  assumes "group_reachable ser clone pkof c"
  shows "wrapper_inv (g_objects c) \<and> wrapper_inv (g_arrayObjects c)"
  using group_reachable_inv [OF assms] by (simp add: group_inv_def)

theorem cache_reachable_invariant_witness:
  "wrapper_inv (g_objects (group_set (\<lambda>q. q) (\<lambda>b. (b, True)) 10 newCacheElementGroup (7::int) (Some ''a'') (Some ''b'')))"
  by (rule cache_reachable_invariant [where pkof = "\<lambda>_ _. (None, 0)" and ser = "\<lambda>q. q" and clone = "\<lambda>b. (b, True)", THEN conjunct1])
    (rule reach_step [OF reach_new step_set])

text \<open>
  The periodic clean-up is all or nothing: in every reachable state \<open>cleanTimeouts\<close>
  returns, and it leaves a wrapper untouched or removes all of its elements, expired or not.  It
  removes everything exactly when the timer queue holds both an expired and an unexpired element;
  when everything has expired nothing is removed.
\<close>

theorem cleanTimeouts_all_or_nothing:
  assumes "group_reachable ser clone pkof c"
  shows "\<exists>c'. group_cleanTimeouts c now = Inr c'
    \<and> objects (g_objects c') = (if flushes (g_objects c) now then Map.empty else objects (g_objects c))
    \<and> objects (g_arrayObjects c') = (if flushes (g_arrayObjects c) now then Map.empty else objects (g_arrayObjects c))"
  using group_cleanTimeouts_eq [OF group_reachable_inv [OF assms], of now] by (simp add: flushed_def)

theorem cleanTimeouts_all_or_nothing_witness:
  "let set = (\<lambda>now c k. group_set (\<lambda>q. q) (\<lambda>b. (b, True)) now (c\<lparr>pkColumns := [()]\<rparr>) (7::int) (Some k) None)
   in \<exists>c'. group_cleanTimeouts (set 400 (set 10 newCacheElementGroup ''old'') ''new'') 500 = Inr c'
     \<and> objects (g_objects c') = Map.empty"
proof -
  let ?set = "\<lambda>now c k. group_set (\<lambda>q. q) (\<lambda>b. (b, True)) now (c\<lparr>pkColumns := [()]\<rparr>) (7::int) (Some k) None"
  let ?c = "?set 400 (?set 10 newCacheElementGroup ''old'') ''new''"
  have "group_reachable (\<lambda>q. q) (\<lambda>b. (b, True)) (\<lambda>_ _. (None, 0)) ?c"
    by (rule reach_step [OF _ step_set], rule reach_step [OF _ step_pkColumns],
      rule reach_step [OF _ step_set], rule reach_step [OF reach_new step_pkColumns])
  from cleanTimeouts_all_or_nothing [OF this, of 500]
  have "\<exists>c'. group_cleanTimeouts ?c 500 = Inr c'
    \<and> objects (g_objects c') = (if flushes (g_objects ?c) 500 then Map.empty else objects (g_objects ?c))" by blast
  moreover have "flushes (g_objects ?c) 500"
    by (simp add: flushes_def group_set_def newCacheElementGroup_def newCacheElementWrapper_def wrapper_get_def
        wrapper_set_def ord_Push_def set_ord_Add serializeCondition_def DefaultCachingDurationSeconds_def Let_def)
  ultimately show ?thesis by simp
qed

text \<open>
  What is set can be read back until it expires, under the condition it was queried with and
  under its primary-key condition alike, whatever was cached before.
\<close>

theorem cache_set_get:
  assumes "clone bean = (b', True)" and "clone b' = (b'', True)"
    and "t \<le> now + cachingDurationSeconds c" and "serializeCondition ser pk \<noteq> []"
  shows "let c' = group_set ser clone now c bean condi pk in
    group_get ser clone t c' condi True = Inr ((Some b'', serializeCondition ser condi, True), c')
    \<and> group_get ser clone t c' pk True = Inr ((Some b'', serializeCondition ser pk, True), c')"
  using group_set_get [where bean = bean, OF assms(1,2,3) refl, where ser = ser and condi = condi and pk = pk] assms(4) by (simp add: Let_def)

theorem cache_set_get_witness:
  "let c' = group_set (\<lambda>q. q) (\<lambda>b. (b, True)) 10 newCacheElementGroup (7::int) (Some ''name=x'') (Some ''id=1'') in
    group_get (\<lambda>q. q) (\<lambda>b. (b, True)) 310 c' (Some ''name=x'') True = Inr ((Some 7, ''name=x'', True), c')
    \<and> group_get (\<lambda>q. q) (\<lambda>b. (b, True)) 310 c' (Some ''id=1'') True = Inr ((Some 7, ''id=1'', True), c')"
  using cache_set_get [where ser = "\<lambda>q. q" and clone = "\<lambda>b. (b, True)" and bean = "7::int" and b' = 7 and b'' = 7
      and now = 10 and t = 310 and c = newCacheElementGroup and condi = "Some ''name=x''" and pk = "Some ''id=1''"]
  by (simp add: serializeCondition_def newCacheElementGroup_def DefaultCachingDurationSeconds_def)

text \<open>
  C32. A lookup of a single record never serves an expired element: a hit comes from an element stored under
  the condition's key that has not expired, or from the unexpired element that one refers to; it is a
  successful copy of its record when a copy is asked for and the stored record itself otherwise; and it
  changes nothing.  After a miss the key is no longer cached.
\<close>

theorem cache_get_fresh:
  assumes "group_get ser clone now c condi cl = Inr ((bean, k, ok), c')"
  shows "k = serializeCondition ser condi \<and>
    (if ok then c' = c \<and> (\<exists>e s. objects (g_objects c) k = Some e \<and> now \<le> expiresAt e
        \<and> (if depKey e = [] then s = e else objects (g_objects c) (depKey e) = Some s)
        \<and> now \<le> expiresAt s
        \<and> (if cl then \<exists>d b. data s = Some d \<and> bean = Some b \<and> clone d = (b, True) else bean = data s))
     else objects (g_objects c') k = None)"
  using assms
  by (auto simp: group_get_def Let_def go_bind_eq_ret load_data_def cloneBean_def restrict_map_def
      split: option.splits prod.splits if_splits)

text \<open>The record 7, cached at time 10 under a condition and its key, is served at time 310, its last second.\<close>

theorem cache_get_fresh_witness:
  "let c = group_set (\<lambda>q. q) (\<lambda>b. (b, True)) 10 (newCacheElementGroup :: (int, unit) cacheElementGroup) 7
         (Some ''name=x'') (Some ''id=1'')
   in \<exists>e s. objects (g_objects c) ''name=x'' = Some e \<and> 310 \<le> expiresAt e
        \<and> (if depKey e = [] then s = e else objects (g_objects c) (depKey e) = Some s)
        \<and> 310 \<le> expiresAt s \<and> data s = Some 7"
proof -
  define c where "c = group_set (\<lambda>q. q) (\<lambda>b. (b, True)) 10 (newCacheElementGroup :: (int, unit) cacheElementGroup) 7
      (Some ''name=x'') (Some ''id=1'')"
  have "group_get (\<lambda>q. q) (\<lambda>b. (b, True)) 310 c (Some ''name=x'') True = Inr ((Some 7, ''name=x'', True), c)"
    unfolding c_def
    using cache_set_get [where ser = "\<lambda>q. q" and clone = "\<lambda>b. (b, True)" and bean = "7::int" and b' = 7 and b'' = 7
        and now = 10 and t = 310 and c = "newCacheElementGroup :: (int, unit) cacheElementGroup"
        and condi = "Some ''name=x''" and pk = "Some ''id=1''"]
    by (simp add: serializeCondition_def newCacheElementGroup_def DefaultCachingDurationSeconds_def Let_def)
  from cache_get_fresh [OF this] show ?thesis
    unfolding Let_def c_def [symmetric] by (simp add: serializeCondition_def)
qed

text \<open>
  Deleting by primary key also forgets the condition that led to the record: after a record was
  cached under a condition and its key, \<open>del\<close> of the key makes both lookups miss.
\<close>

theorem cache_del_dependents:
  assumes "clone bean = (b', True)" and "serializeCondition ser pk \<noteq> []"
    and "serializeCondition ser pk \<noteq> serializeCondition ser condi"
  shows "let c' = group_del ser (group_set ser clone now c bean condi pk) pk in
    group_get ser clone t c' condi b = Inr ((None, serializeCondition ser condi, False), c')
    \<and> group_get ser clone t c' pk b = Inr ((None, serializeCondition ser pk, False), c')"
proof -
  let ?c1 = "group_set ser clone now c bean condi pk"
  from group_set_pk_object [where bean = bean and clone = clone and ser = ser and pk = pk and condi = condi,
      OF assms, of now c] obtain rks e where
    e: "objects (g_objects ?c1) (serializeCondition ser pk) = Some e"
      "refKeys e = Some (List.insert (serializeCondition ser condi) rks)"
    by fastforce
  from group_del_miss [OF e]
  have "objects (g_objects (group_del ser ?c1 pk)) (serializeCondition ser condi) = None"
    and "objects (g_objects (group_del ser ?c1 pk)) (serializeCondition ser pk) = None"
    by simp_all
  then show ?thesis by (simp add: Let_def group_get_miss)
qed

theorem cache_del_dependents_witness:
  "let c' = group_del (\<lambda>q. q) (group_set (\<lambda>q. q) (\<lambda>b. (b, True)) 10 (newCacheElementGroup :: (int, unit) cacheElementGroup) 7 (Some ''name=x'') (Some ''id=1'')) (Some ''id=1'') in
    group_get (\<lambda>q. q) (\<lambda>b. (b, True)) 11 c' (Some ''name=x'') True = Inr ((None, ''name=x'', False), c')"
  using cache_del_dependents [where ser = "\<lambda>q. q" and clone = "\<lambda>b. (b, True)" and bean = "7::int" and b' = 7
      and now = 10 and c = "newCacheElementGroup :: (int, unit) cacheElementGroup" and condi = "Some ''name=x''" and pk = "Some ''id=1''" and t = 11 and b = True]
  by (simp add: serializeCondition_def Let_def)

text \<open>
  Array keys never collide: the key of an array of records determines the limit, the offset and
  the serialized condition it was built from.
\<close>

theorem array_key_injective:
  "array_key l o' s = array_key l' o'' s' \<longleftrightarrow> l = l' \<and> o' = o'' \<and> s = s'"
proof -
  have colon: "\<not> is_digit_char CHR '':''" by (simp add: is_digit_char_def)
  have "array_key l o' s = array_key l' o'' s' \<Longrightarrow> l = l' \<and> o' = o'' \<and> s = s'"
    using itoa_sep_inj [OF _ colon, of l "itoa o' @ '':'' @ s" l' "itoa o'' @ '':'' @ s'"]
      itoa_sep_inj [OF _ colon, of o' s o'' s'] by (simp add: array_key_def)
  then show ?thesis by auto
qed

end
