(* ===== verification/Sql_Adapters.thy ===== *)
theory Sql_Adapters
  imports Go_Prelude
begin

text \<open>
  \<open>dbutils\<close>: the eight database adapters, each of which writes a \<open>SELECT\<close> statement of
  its dialect for one page of a table.  A statement is the list \<open>queryParts\<close> of the code,
  joined by blanks.  \<open>limit\<close> and \<open>offset\<close> are 64-bit integers, so \<open>offset+limit\<close> is
  \<open>add64\<close>.  An adapter is the record of its five methods, the code's interface
  \<open>DatabaseAdapter\<close>.  The parts that the adapters repeat word for word are defined once.
\<close>

named_theorems sql_defs
  \<open>the statement builders\<close>

datatype sql_error = EmptyTableName | EmptyOrderBy

type_synonym 'a sql = "sql_error + 'a"

record DatabaseAdapter =
  adapter_name :: string
  GetDescription :: string
  GetSelectStatement :: "string \<Rightarrow> string \<Rightarrow> string \<Rightarrow> string \<Rightarrow> int \<Rightarrow> int \<Rightarrow> string list \<Rightarrow> string sql"
  UnwrapIdentifier :: "string \<Rightarrow> string"
  GetTableAliasClause :: "string \<Rightarrow> string"

section \<open>The repeated parts\<close>

definition columnForPartitioning :: "string list \<Rightarrow> string" where
  "columnForPartitioning ps = (if 0 < length ps then ps ! 0 else [])"

definition column_part :: "string \<Rightarrow> string list" where
  "column_part columnNames =
     (if columnNames = [] \<or> trim_spaces columnNames = ''*'' then [''*''] else [columnNames])"

definition from_part :: "string \<Rightarrow> string list" where
  "from_part tableName = [''FROM'', tableName]"

definition where_part :: "string \<Rightarrow> string \<Rightarrow> int \<Rightarrow> int \<Rightarrow> string list" where
  "where_part whereClause part limit offset =
     (if whereClause \<noteq> [] then
        [''WHERE'', whereClause] @
        (if part \<noteq> [] then
           [''AND'', part, ''>='', itoa offset] @
           (if limit \<noteq> 0 then [''AND'', part, ''<'', itoa (add64 offset limit)] else [])
         else [])
      else [])"

definition order_part :: "string \<Rightarrow> string \<Rightarrow> string list" where
  "order_part orderByClause part =
     (if orderByClause \<noteq> [] \<and> part = [] then [''ORDER BY'', orderByClause] else [])"

definition common_UnwrapIdentifier :: "string \<Rightarrow> string" where
  "common_UnwrapIdentifier identifier =
     (if identifier = [] then [] else filter (\<lambda>c. c \<noteq> CHR 0x22) identifier)"

definition common_GetTableAliasClause :: "string \<Rightarrow> string" where
  "common_GetTableAliasClause tableName = ''AS '' @ tableName"

text \<open>\<open>regexp.MustCompile(class).ReplaceAllString(identifier, "")\<close> for a character class.\<close>

definition strip_class :: "char list \<Rightarrow> string \<Rightarrow> string" where
  "strip_class cs identifier = (if identifier = [] then identifier else filter (\<lambda>c. c \<notin> set cs) identifier)"

lemmas part_defs = columnForPartitioning_def column_part_def from_part_def where_part_def order_part_def

section \<open>Statement builders\<close>

definition limit_offset_part :: "string \<Rightarrow> int \<Rightarrow> int \<Rightarrow> string list" where
  "limit_offset_part part limit offset =
     (if part = [] then
        (if limit \<noteq> 0 then [''LIMIT'', itoa limit] else []) @
        (if offset \<noteq> 0 then [''OFFSET'', itoa offset] else [])
      else [])"

definition Generic_GetSelectStatement ::
    "string \<Rightarrow> string \<Rightarrow> string \<Rightarrow> string \<Rightarrow> int \<Rightarrow> int \<Rightarrow> string list \<Rightarrow> string sql" where
  "Generic_GetSelectStatement tableName columnNames whereClause orderByClause limit offset ps =
     (if tableName = [] then Inl EmptyTableName
      else let part = columnForPartitioning ps in
        Inr (go_join ([''SELECT''] @ column_part columnNames @ from_part tableName
          @ where_part whereClause part limit offset @ order_part orderByClause part
          @ limit_offset_part part limit offset) '' ''))"

definition Phoenix_GetSelectStatement ::
    "string \<Rightarrow> string \<Rightarrow> string \<Rightarrow> string \<Rightarrow> int \<Rightarrow> int \<Rightarrow> string list \<Rightarrow> string sql" where
  "Phoenix_GetSelectStatement tableName columnNames whereClause orderByClause limit offset ps =
     (if tableName = [] then Inl EmptyTableName
      else let part = columnForPartitioning ps in
        Inr (go_join ([''SELECT''] @ column_part columnNames @ from_part tableName
          @ where_part whereClause part limit offset @ order_part orderByClause part
          @ limit_offset_part part limit offset) '' ''))"

definition offset_fetch_part :: "string \<Rightarrow> int \<Rightarrow> int \<Rightarrow> string list" where
  "offset_fetch_part part limit offset =
     (if part = [] then
        (if 0 < offset then [''OFFSET'', itoa offset, ''ROWS''] else []) @
        (if limit \<noteq> 0 then [''FETCH NEXT'', itoa limit, ''ROWS ONLY''] else [])
      else [])"

definition Derby_GetSelectStatement ::
    "string \<Rightarrow> string \<Rightarrow> string \<Rightarrow> string \<Rightarrow> int \<Rightarrow> int \<Rightarrow> string list \<Rightarrow> string sql" where
  "Derby_GetSelectStatement tableName columnNames whereClause orderByClause limit offset ps =
     (if tableName = [] then Inl EmptyTableName
      else let part = columnForPartitioning ps in
        Inr (go_join ([''SELECT''] @ column_part columnNames @ from_part tableName
          @ where_part whereClause part limit offset @ order_part orderByClause part
          @ offset_fetch_part part limit offset) '' ''))"

definition Oracle12_GetSelectStatement ::
    "string \<Rightarrow> string \<Rightarrow> string \<Rightarrow> string \<Rightarrow> int \<Rightarrow> int \<Rightarrow> string list \<Rightarrow> string sql" where
  "Oracle12_GetSelectStatement tableName columnNames whereClause orderByClause limit offset ps =
     (if tableName = [] then Inl EmptyTableName
      else let part = columnForPartitioning ps in
        Inr (go_join ([''SELECT''] @ column_part columnNames @ from_part tableName
          @ where_part whereClause part limit offset @ order_part orderByClause part
          @ offset_fetch_part part limit offset) '' ''))"

definition Oracle_GetSelectStatement ::
    "string \<Rightarrow> string \<Rightarrow> string \<Rightarrow> string \<Rightarrow> int \<Rightarrow> int \<Rightarrow> string list \<Rightarrow> string sql" where
  "Oracle_GetSelectStatement tableName columnNames whereClause orderByClause limit offset ps =
     (if tableName = [] then Inl EmptyTableName
      else let part = columnForPartitioning ps; nestedSelect = ((limit \<noteq> 0 \<or> offset \<noteq> 0) \<and> part = []) in
        Inr (go_join (
          (if nestedSelect
           then [''SELECT''] @ column_part columnNames @ [''FROM (SELECT a.*, ROWNUM rnum FROM ('']
           else [])
          @ [''SELECT''] @ column_part columnNames @ from_part tableName
          @ where_part whereClause part limit offset @ order_part orderByClause part
          @ (if nestedSelect
             then ['') a''] @ (if limit \<noteq> 0 then [''WHERE ROWNUM <='', itoa (add64 offset limit)] else [])
               @ ['') WHERE rnum >'', itoa offset]
             else [])) '' ''))"

definition MSSQL_GetSelectStatement ::
    "string \<Rightarrow> string \<Rightarrow> string \<Rightarrow> string \<Rightarrow> int \<Rightarrow> int \<Rightarrow> string list \<Rightarrow> string sql" where
  "MSSQL_GetSelectStatement tableName columnNames whereClause orderByClause limit offset ps =
     (if tableName = [] then Inl EmptyTableName
      else let part = columnForPartitioning ps;
          queryParts = [''SELECT'']
            @ (if limit \<noteq> 0 \<and> 0 > offset \<and> part = [] then [''TOP'', itoa limit] else [])
            @ column_part columnNames @ from_part tableName
            @ where_part whereClause part limit offset @ order_part orderByClause part
        in if part = [] \<and> 0 < limit \<and> 0 \<le> offset then
             (if orderByClause = [] then Inl EmptyOrderBy
              else Inr (go_join (queryParts
                @ [''OFFSET'', itoa offset, ''ROWS'', ''FETCH NEXT'', itoa limit, ''ROWS ONLY'']) '' ''))
           else Inr (go_join queryParts '' ''))"

definition MSSQL2008_GetSelectStatement ::
    "string \<Rightarrow> string \<Rightarrow> string \<Rightarrow> string \<Rightarrow> int \<Rightarrow> int \<Rightarrow> string list \<Rightarrow> string sql" where
  "MSSQL2008_GetSelectStatement tableName columnNames whereClause orderByClause limit originOffset ps =
     (if tableName = [] then Inl EmptyTableName
      else let part = columnForPartitioning ps; offset = (if originOffset < 0 then 0 else originOffset) in
        Inr (go_join ([''SELECT'']
          @ (if limit \<noteq> 0 \<and> part = [] then
               (if 0 \<le> originOffset then [''* FROM (SELECT''] else []) @
               (if add64 offset limit > 0 then [''TOP'', itoa (add64 offset limit)] else [])
             else [])
          @ column_part columnNames
          @ (if limit \<noteq> 0 \<and> 0 \<le> originOffset \<and> orderByClause \<noteq> [] \<and> part = []
             then ['', ROW_NUMBER() OVER(ORDER BY'', orderByClause, ''asc) rnum''] else [])
          @ from_part tableName
          @ where_part whereClause part limit offset @ order_part orderByClause part
          @ (if limit \<noteq> 0 \<and> 0 \<le> originOffset \<and> part = []
             then ['') A WHERE rnum >'', itoa offset, ''AND rnum <='', itoa (add64 offset limit)] else [])) '' ''))"

section \<open>The adapters\<close>

definition GenericDatabaseAdapter :: DatabaseAdapter where
  "GenericDatabaseAdapter = \<lparr>adapter_name = ''Generic'', GetDescription = ''Generates ANSI SQL'',
     GetSelectStatement = Generic_GetSelectStatement, UnwrapIdentifier = common_UnwrapIdentifier,
     GetTableAliasClause = common_GetTableAliasClause\<rparr>"

text \<open>MySQL embeds the generic adapter and replaces three of its methods.\<close>

definition MySQLDatabaseAdapter :: DatabaseAdapter where
  "MySQLDatabaseAdapter = GenericDatabaseAdapter\<lparr>adapter_name := ''MySQL'',
     GetDescription := ''Generates MySQL compatible SQL'', UnwrapIdentifier := strip_class [CHR 0x22, CHR 0x60]\<rparr>"

definition PhoenixDatabaseAdapter :: DatabaseAdapter where
  "PhoenixDatabaseAdapter = \<lparr>adapter_name = ''Phoenix'', GetDescription = ''Generates Phoenix compliant SQL'',
     GetSelectStatement = Phoenix_GetSelectStatement, UnwrapIdentifier = common_UnwrapIdentifier,
     GetTableAliasClause = common_GetTableAliasClause\<rparr>"

definition DerbyDatabaseAdapter :: DatabaseAdapter where
  "DerbyDatabaseAdapter = \<lparr>adapter_name = ''Derby'', GetDescription = ''Generates Derby compatible SQL'',
     GetSelectStatement = Derby_GetSelectStatement, UnwrapIdentifier = common_UnwrapIdentifier,
     GetTableAliasClause = common_GetTableAliasClause\<rparr>"

definition OracleDatabaseAdapter :: DatabaseAdapter where
  "OracleDatabaseAdapter = \<lparr>adapter_name = ''Oracle'', GetDescription = ''Generates Oracle compliant SQL'',
     GetSelectStatement = Oracle_GetSelectStatement, UnwrapIdentifier = common_UnwrapIdentifier,
     GetTableAliasClause = (\<lambda>tableName. tableName)\<rparr>"

definition Oracle12DatabaseAdapter :: DatabaseAdapter where
  "Oracle12DatabaseAdapter = \<lparr>adapter_name = ''Oracle 12+'',
     GetDescription = ''Generates Oracle compliant SQL for version 12 or greater'',
     GetSelectStatement = Oracle12_GetSelectStatement, UnwrapIdentifier = common_UnwrapIdentifier,
     GetTableAliasClause = (\<lambda>tableName. tableName)\<rparr>"

definition MSSQLDatabaseAdapter :: DatabaseAdapter where
  "MSSQLDatabaseAdapter = \<lparr>adapter_name = ''MS SQL 2012+'',
     GetDescription = ''Generates MS SQL Compatible SQL, for version 2012 or greater'',
     GetSelectStatement = MSSQL_GetSelectStatement, UnwrapIdentifier = strip_class [CHR 0x22, CHR ''['', CHR '']''],
     GetTableAliasClause = common_GetTableAliasClause\<rparr>"

definition MSSQL2008DatabaseAdapter :: DatabaseAdapter where
  "MSSQL2008DatabaseAdapter = \<lparr>adapter_name = ''MS SQL 2008'',
     GetDescription = ''Generates MS SQL Compatible SQL for version 2008'',
     GetSelectStatement = MSSQL2008_GetSelectStatement, UnwrapIdentifier = strip_class [CHR 0x22, CHR ''['', CHR '']''],
     GetTableAliasClause = common_GetTableAliasClause\<rparr>"

definition GetAllDatabaseAdapters :: "DatabaseAdapter list" where
  "GetAllDatabaseAdapters = [GenericDatabaseAdapter, OracleDatabaseAdapter, Oracle12DatabaseAdapter,
     MySQLDatabaseAdapter, MSSQLDatabaseAdapter, MSSQL2008DatabaseAdapter, PhoenixDatabaseAdapter, DerbyDatabaseAdapter]"

lemmas builder_defs [sql_defs] = Generic_GetSelectStatement_def Phoenix_GetSelectStatement_def
  Derby_GetSelectStatement_def Oracle12_GetSelectStatement_def Oracle_GetSelectStatement_def
  MSSQL_GetSelectStatement_def MSSQL2008_GetSelectStatement_def

lemmas adapter_defs = GenericDatabaseAdapter_def MySQLDatabaseAdapter_def PhoenixDatabaseAdapter_def
  DerbyDatabaseAdapter_def OracleDatabaseAdapter_def Oracle12DatabaseAdapter_def
  MSSQLDatabaseAdapter_def MSSQL2008DatabaseAdapter_def

section \<open>The contract of an adapter\<close>

text \<open>
  What every dialect writes alike: the statement without a page, and the statement whose page
  is a window \<open>offset \<le> column < offset+limit\<close> of the partitioning column.
\<close>

definition window_statement :: "string \<Rightarrow> string \<Rightarrow> string \<Rightarrow> string \<Rightarrow> string \<Rightarrow> int \<Rightarrow> int \<Rightarrow> string" where
  "window_statement tableName columnNames whereClause orderByClause part limit offset =
     go_join ([''SELECT''] @ column_part columnNames @ from_part tableName
       @ where_part whereClause part limit offset @ order_part orderByClause part) '' ''"

locale db_adapter =
  fixes a :: DatabaseAdapter and quotes :: "char set"
  assumes empty_table: "GetSelectStatement a [] c w ob limit off ps = Inl EmptyTableName"
    and partitioned: "t \<noteq> [] \<Longrightarrow> p \<noteq> [] \<Longrightarrow> 0 \<le> off \<Longrightarrow>
      GetSelectStatement a t c w ob limit off (p # ps) = Inr (window_statement t c w ob p limit off)"
    and unpaged: "t \<noteq> [] \<Longrightarrow>
      GetSelectStatement a t c w ob 0 0 [] = Inr (window_statement t c w ob [] 0 0)"
    and unwrap: "UnwrapIdentifier a s = filter (\<lambda>x. x \<notin> quotes) s"
    and quote: "CHR 0x22 \<in> quotes"
begin

lemma page_window:
  assumes "t \<noteq> []" and "p \<noteq> []" and "w \<noteq> []" and "0 \<le> off" and "limit \<noteq> 0"
  shows "GetSelectStatement a t c w ob limit off (p # ps) =
    Inr (''SELECT '' @ go_join (column_part c) '' '' @ '' FROM '' @ t @ '' WHERE '' @ w
      @ '' AND '' @ p @ '' >= '' @ itoa off @ '' AND '' @ p @ '' < '' @ itoa (add64 off limit))"
  using assms
  by (simp add: partitioned window_statement_def column_part_def from_part_def where_part_def order_part_def)

lemma page_inj:
  assumes "t \<noteq> []" and "p \<noteq> []" and "w \<noteq> []" and "0 \<le> off" and "limit \<noteq> 0"
    and "0 \<le> off'" and "limit' \<noteq> 0"
    and eq: "GetSelectStatement a t c w ob limit off (p # ps) = GetSelectStatement a t c w ob' limit' off' (p # ps')"
  shows "off = off' \<and> add64 off limit = add64 off' limit'"
proof -
  have "itoa off @ CHR '' '' # (''AND '' @ p @ '' < '' @ itoa (add64 off limit)) =
      itoa off' @ CHR '' '' # (''AND '' @ p @ '' < '' @ itoa (add64 off' limit'))"
    using eq assms by (simp add: page_window)
  from itoa_sep_inj [OF this] show ?thesis
    by (auto simp: is_digit_char_def dest: itoa_inj)
qed

lemma unwrap_idem: "UnwrapIdentifier a (UnwrapIdentifier a s) = UnwrapIdentifier a s"
  by (simp add: unwrap)

lemma unwrap_no_quote: "CHR 0x22 \<notin> set (UnwrapIdentifier a s)"
  using quote by (simp add: unwrap)

lemma unwrap_append: "UnwrapIdentifier a (s @ s') = UnwrapIdentifier a s @ UnwrapIdentifier a s'"
  by (simp add: unwrap)

lemma unwrap_wrapped: "set s \<inter> quotes = {} \<Longrightarrow> UnwrapIdentifier a (CHR 0x22 # s @ [CHR 0x22]) = s"
  using quote by (auto simp: unwrap filter_id_conv)

end

lemma common_unwrap: "common_UnwrapIdentifier s = filter (\<lambda>x. x \<notin> {CHR 0x22}) s"
  by (simp add: common_UnwrapIdentifier_def)

lemma strip_class_filter: "strip_class cs s = filter (\<lambda>x. x \<notin> set cs) s"
  by (simp add: strip_class_def)

lemmas adapter_contract = adapter_defs builder_defs window_statement_def common_unwrap strip_class_filter
  columnForPartitioning_def limit_offset_part_def offset_fetch_part_def

interpretation generic: db_adapter GenericDatabaseAdapter "{CHR 0x22}"
  by unfold_locales (simp_all add: adapter_contract Let_def)

interpretation mysql: db_adapter MySQLDatabaseAdapter "set [CHR 0x22, CHR 0x60]"
  by unfold_locales (simp_all add: adapter_contract Let_def)

interpretation phoenix: db_adapter PhoenixDatabaseAdapter "{CHR 0x22}"
  by unfold_locales (simp_all add: adapter_contract Let_def)

interpretation derby: db_adapter DerbyDatabaseAdapter "{CHR 0x22}"
  by unfold_locales (simp_all add: adapter_contract Let_def)

interpretation oracle11: db_adapter OracleDatabaseAdapter "{CHR 0x22}"
  by unfold_locales (simp_all add: adapter_contract Let_def)

interpretation oracle12: db_adapter Oracle12DatabaseAdapter "{CHR 0x22}"
  by unfold_locales (simp_all add: adapter_contract Let_def)

interpretation mssql: db_adapter MSSQLDatabaseAdapter "set [CHR 0x22, CHR ''['', CHR '']'']"
  by unfold_locales (simp_all add: adapter_contract Let_def)

interpretation mssql2008: db_adapter MSSQL2008DatabaseAdapter "set [CHR 0x22, CHR ''['', CHR '']'']"
  by unfold_locales (simp_all add: adapter_contract Let_def)

lemma all_adapters:
  assumes "a \<in> set GetAllDatabaseAdapters"
  shows "\<exists>quotes. db_adapter a quotes"
  using assms generic.db_adapter_axioms mysql.db_adapter_axioms phoenix.db_adapter_axioms
    derby.db_adapter_axioms oracle11.db_adapter_axioms oracle12.db_adapter_axioms
    mssql.db_adapter_axioms mssql2008.db_adapter_axioms
  unfolding GetAllDatabaseAdapters_def by auto

lemma adapter_cases:
  assumes "a \<in> set GetAllDatabaseAdapters"
  obtains quotes where "db_adapter a quotes"
  using all_adapters [OF assms] by blast

section \<open>Properties\<close>

text \<open>
  With a partitioning column and a WHERE clause, every one of the eight adapters selects
  exactly the window \<open>offset \<le> column < offset+limit\<close>, in the same words, whatever the
  order-by clause says.
\<close>

theorem partition_pages:
  assumes "a \<in> set GetAllDatabaseAdapters" and "t \<noteq> []" and "p \<noteq> []" and "w \<noteq> []"
    and "0 \<le> off" and "0 < limit" and "off + limit \<in> int64_range"
  shows "GetSelectStatement a t c w ob limit off (p # ps) =
    Inr (''SELECT '' @ go_join (column_part c) '' '' @ '' FROM '' @ t @ '' WHERE '' @ w
      @ '' AND '' @ p @ '' >= '' @ itoa off @ '' AND '' @ p @ '' < '' @ itoa (off + limit))"
  using adapter_cases [OF assms(1)] db_adapter.page_window [of a _ t p w off limit c ob ps] assms
  by (metis add64_id less_irrefl)

lemma partition_pages_witness:
  "GetSelectStatement OracleDatabaseAdapter ''users'' ''*'' ''1=1'' ''name'' 10 20 [''id''] =
    Inr (''SELECT * FROM users WHERE 1=1 AND id >= 20 AND id < 30'')"
proof -
  have "itoa 20 = ''20''" and "itoa 30 = ''30''"
    by code_simp+
  then show ?thesis
    using partition_pages [of OracleDatabaseAdapter "''users''" "''id''" "''1=1''" 20 10 "''*''" "''name''" "[]"]
    by (simp add: GetAllDatabaseAdapters_def int64_range_def column_part_def trim_spaces_def)
qed

text \<open>
  Two pages of one query are selected by the same statement only when they are the same
  page: the statement of a page determines its offset and its limit.
\<close>

theorem partition_pages_distinct:
  assumes "a \<in> set GetAllDatabaseAdapters" and "t \<noteq> []" and "p \<noteq> []" and "w \<noteq> []"
    and "0 \<le> off" and "0 < limit" and "off + limit \<in> int64_range"
    and "0 \<le> off'" and "0 < limit'" and "off' + limit' \<in> int64_range"
  shows "(GetSelectStatement a t c w ob limit off (p # ps) = GetSelectStatement a t c w ob limit' off' (p # ps))
    = (off = off' \<and> limit = limit')"
proof -
  obtain quotes where "db_adapter a quotes" using adapter_cases [OF assms(1)] .
  then have inj: "GetSelectStatement a t c w ob limit off (p # ps) =
      GetSelectStatement a t c w ob limit' off' (p # ps) \<Longrightarrow>
      off = off' \<and> add64 off limit = add64 off' limit'"
    using db_adapter.page_inj [of a quotes t p w off limit off' limit' c ob ps ob ps] assms by blast
  then show ?thesis using assms(7,10) by (auto simp: add64_id)
qed

lemma partition_pages_distinct_witness:
  "GetSelectStatement MSSQLDatabaseAdapter ''users'' ''*'' ''1=1'' [] 10 20 [''id''] \<noteq>
   GetSelectStatement MSSQLDatabaseAdapter ''users'' ''*'' ''1=1'' [] 10 30 [''id'']"
  using partition_pages_distinct [of MSSQLDatabaseAdapter "''users''" "''id''" "''1=1''" 20 10 30 10 "''*''" "[]" "[]"]
  by (simp add: GetAllDatabaseAdapters_def int64_range_def)

text \<open>
  The only errors are an empty table name, and for MS SQL 2012+ a page without an order-by
  clause; no other adapter and no other argument is rejected.
\<close>

theorem select_errors:
  assumes "a \<in> set GetAllDatabaseAdapters"
  shows "(GetSelectStatement a t c w ob limit off ps = Inl e) =
    (if t = [] then e = EmptyTableName
     else e = EmptyOrderBy \<and> adapter_name a = ''MS SQL 2012+'' \<and> columnForPartitioning ps = []
       \<and> 0 < limit \<and> 0 \<le> off \<and> ob = [])"
  using assms unfolding GetAllDatabaseAdapters_def
  by (auto simp: adapter_defs builder_defs Let_def split: if_splits)

lemma select_errors_witness:
  "GetSelectStatement MSSQLDatabaseAdapter ''users'' ''*'' [] [] 10 0 [] = Inl EmptyOrderBy"
  using select_errors [of MSSQLDatabaseAdapter "''users''" "''*''" "[]" "[]" 10 0 "[]" EmptyOrderBy]
  by (simp add: GetAllDatabaseAdapters_def columnForPartitioning_def MSSQLDatabaseAdapter_def)

text \<open>
  A statement that asks for no page, or for a window of a partitioning column, does not
  depend on the dialect: any two adapters write the same text.
\<close>

theorem unpaged_dialect_independent:
  assumes "a \<in> set GetAllDatabaseAdapters" and "b \<in> set GetAllDatabaseAdapters" and "0 \<le> off"
  shows "GetSelectStatement a t c w ob 0 0 [] = GetSelectStatement b t c w ob 0 0 [] \<and>
    GetSelectStatement a t c w ob limit off ((x # p) # ps) = GetSelectStatement b t c w ob limit off ((x # p) # ps)"
proof -
  obtain qa qb where ab: "db_adapter a qa" "db_adapter b qb"
    using adapter_cases assms(1,2) by metis
  show ?thesis
  proof (cases "t = []")
    case True then show ?thesis using ab by (simp add: db_adapter.empty_table)
  next
    case False then show ?thesis using ab assms(3) by (simp add: db_adapter.unpaged db_adapter.partitioned)
  qed
qed

lemma unpaged_dialect_independent_witness:
  "GetSelectStatement OracleDatabaseAdapter ''t'' ''a,b'' [] ''a'' 0 0 [] =
   GetSelectStatement MSSQL2008DatabaseAdapter ''t'' ''a,b'' [] ''a'' 0 0 []"
  using unpaged_dialect_independent [of OracleDatabaseAdapter MSSQL2008DatabaseAdapter 0]
  by (simp add: GetAllDatabaseAdapters_def)

text \<open>
  Unwrapping an identifier removes every double quote, is idempotent, works piecewise, and
  gives back a plain identifier that was wrapped in double quotes.
\<close>

theorem unwrap_identifier:
  assumes "a \<in> set GetAllDatabaseAdapters" and "set s \<inter> {CHR 0x22, CHR 0x60, CHR ''['', CHR '']''} = {}"
  shows "CHR 0x22 \<notin> set (UnwrapIdentifier a u)
    \<and> UnwrapIdentifier a (UnwrapIdentifier a u) = UnwrapIdentifier a u
    \<and> UnwrapIdentifier a (u @ v) = UnwrapIdentifier a u @ UnwrapIdentifier a v
    \<and> UnwrapIdentifier a (CHR 0x22 # s @ [CHR 0x22]) = s"
proof -
  obtain q where q: "db_adapter a q" using adapter_cases [OF assms(1)] .
  have "UnwrapIdentifier a (CHR 0x22 # s @ [CHR 0x22]) = s"
    using assms unfolding GetAllDatabaseAdapters_def
    by (auto simp: adapter_defs common_unwrap strip_class_filter filter_id_conv)
  then show ?thesis
    using db_adapter.unwrap_no_quote [OF q] db_adapter.unwrap_idem [OF q] db_adapter.unwrap_append [OF q] by blast
qed

lemma unwrap_identifier_witness:
  "UnwrapIdentifier MySQLDatabaseAdapter (CHR 0x22 # ''user_id'' @ [CHR 0x22]) = ''user_id''"
  using unwrap_identifier [of MySQLDatabaseAdapter "''user_id''" "[]" "[]"]
  by (simp add: GetAllDatabaseAdapters_def)

text \<open>
  A page of MS SQL 2008 filters the derived table on \<open>rnum\<close>; that column is defined
  only when an order-by clause is given.  Without one the statement still says
  \<open>WHERE rnum > ...\<close>, over a derived table that has no such column.
\<close>

theorem mssql2008_page:
  assumes "t \<noteq> []" and "0 \<le> off" and "0 < limit" and "off + limit \<in> int64_range"
  shows "GetSelectStatement MSSQL2008DatabaseAdapter t c [] ob limit off [] =
    Inr (''SELECT * FROM (SELECT TOP '' @ itoa (off + limit) @ '' '' @ go_join (column_part c) '' ''
      @ (if ob = [] then '' FROM '' @ t
         else '' , ROW_NUMBER() OVER(ORDER BY '' @ ob @ '' asc) rnum FROM '' @ t @ '' ORDER BY '' @ ob)
      @ '' ) A WHERE rnum > '' @ itoa off @ '' AND rnum <= '' @ itoa (off + limit))"
  using assms
  by (simp add: MSSQL2008DatabaseAdapter_def MSSQL2008_GetSelectStatement_def Let_def part_defs add64_id)

lemma mssql2008_page_witness:
  "GetSelectStatement MSSQL2008DatabaseAdapter ''t'' ''a'' [] [] 5 0 [] =
    Inr ''SELECT * FROM (SELECT TOP 5 a FROM t ) A WHERE rnum > 0 AND rnum <= 5''"
proof -
  have "itoa 0 = ''0''" and "itoa 5 = ''5''" by code_simp+
  then show ?thesis
    using mssql2008_page [of "''t''" 0 5 "''a''" "[]"]
    by (simp add: int64_range_def column_part_def trim_spaces_def)
qed

end
