(* ===== verification/Mq_Messages.thy ===== *)
theory Mq_Messages
  imports Go_Prelude
begin

text \<open>
  \<open>mq/mqenv/index.go\<close>: the messages that all brokers of the repository exchange, their
  headers, the construction of a response, and the conversion of a published message to a
  consumed one.  A body is a byte string.  A header map is \<open>None\<close> when it is nil.  Channels
  are named by numbers; \<open>BindData\<close>, an opaque Go value, is a number or nil.
\<close>

section \<open>Messages\<close>

type_synonym headers = "(string \<rightharpoonup> string) option"

record MQConsumerMessage =
  cm_Driver :: string
  cm_Queue :: string
  cm_CorrelationID :: string
  cm_ConsumerTag :: string
  cm_ReplyTo :: string
  cm_MessageID :: string
  cm_AppID :: string
  cm_UserID :: string
  cm_ContentType :: string
  cm_Exchange :: string
  cm_RoutingKey :: string
  cm_Timestamp :: int
  cm_Body :: string
  cm_Headers :: headers
  cm_BindData :: "nat option"

record MQPublishMessage =
  pm_Body :: string
  pm_Exchange :: string
  pm_RoutingKey :: string
  pm_CorrelationID :: string
  pm_ReplyTo :: string
  pm_MessageID :: string
  pm_AppID :: string
  pm_UserID :: string
  pm_ContentType :: string
  pm_PublishStatus :: "nat option"
  pm_EventLabel :: string
  pm_Headers :: headers
  pm_Response :: "nat option"
  pm_TimeoutSeconds :: int
  pm_callbackDisabled :: bool
  pm_SkipExchange :: bool

text \<open>The Go zero value of a published message.\<close>

definition zero_publish :: MQPublishMessage where
  "zero_publish = \<lparr>pm_Body = [], pm_Exchange = [], pm_RoutingKey = [], pm_CorrelationID = [], pm_ReplyTo = [],
     pm_MessageID = [], pm_AppID = [], pm_UserID = [], pm_ContentType = [], pm_PublishStatus = None,
     pm_EventLabel = [], pm_Headers = None, pm_Response = None, pm_TimeoutSeconds = 0,
     pm_callbackDisabled = False, pm_SkipExchange = False\<rparr>"

section \<open>Operations\<close>

definition GetHeader :: "MQConsumerMessage \<Rightarrow> string \<Rightarrow> string" where
  "GetHeader m name =
     (case cm_Headers m of
        None \<Rightarrow> []
      | Some h \<Rightarrow> (case h name of None \<Rightarrow> [] | Some v \<Rightarrow> v))"

definition SetHeader :: "MQConsumerMessage \<Rightarrow> string \<Rightarrow> string \<Rightarrow> MQConsumerMessage" where
  "SetHeader m name v =
     (let h = (case cm_Headers m of None \<Rightarrow> Map.empty | Some h \<Rightarrow> h)
      in m\<lparr>cm_Headers := Some (h(name \<mapsto> v))\<rparr>)"

definition OnClosed :: "MQPublishMessage \<Rightarrow> MQPublishMessage" where
  "OnClosed m = m\<lparr>pm_callbackDisabled := True\<rparr>"

definition CallbackEnabled :: "MQPublishMessage \<Rightarrow> bool" where
  "CallbackEnabled m = (False = pm_callbackDisabled m)"

text \<open>The second assignment to \<open>AppID\<close>, of the message id, is the code's.\<close>

definition NewMQResponseMessage :: "string \<Rightarrow> MQConsumerMessage option \<Rightarrow> MQPublishMessage" where
  "NewMQResponseMessage body cm =
     (let pm = zero_publish\<lparr>pm_Body := body, pm_Headers := Some Map.empty\<rparr> in
      case cm of
        None \<Rightarrow> pm
      | Some cm \<Rightarrow>
          let pm = pm\<lparr>pm_AppID := cm_AppID cm\<rparr>;
              pm = pm\<lparr>pm_RoutingKey := cm_ReplyTo cm\<rparr>;
              pm = pm\<lparr>pm_CorrelationID := cm_CorrelationID cm\<rparr>;
              pm = pm\<lparr>pm_ReplyTo := cm_ReplyTo cm\<rparr>;
              pm = pm\<lparr>pm_MessageID := cm_MessageID cm\<rparr>;
              pm = pm\<lparr>pm_AppID := cm_MessageID cm\<rparr>;
              pm = pm\<lparr>pm_UserID := cm_UserID cm\<rparr>;
              pm = pm\<lparr>pm_ContentType := cm_ContentType cm\<rparr>
          in (case cm_Headers cm of
                None \<Rightarrow> pm
              | Some h \<Rightarrow> pm\<lparr>pm_Headers := Some (Map.empty ++ h)\<rparr>))"

definition DriverTypeMock :: string where
  "DriverTypeMock = ''mock''"

definition NewConsumerMessageFromPublishMessage :: "int \<Rightarrow> MQPublishMessage \<Rightarrow> MQConsumerMessage" where
  "NewConsumerMessageFromPublishMessage now pm =
     \<lparr>cm_Driver = DriverTypeMock, cm_Queue = [], cm_CorrelationID = pm_CorrelationID pm, cm_ConsumerTag = [],
      cm_ReplyTo = pm_ReplyTo pm, cm_MessageID = pm_MessageID pm, cm_AppID = pm_AppID pm,
      cm_UserID = pm_UserID pm, cm_ContentType = pm_ContentType pm, cm_Exchange = pm_Exchange pm,
      cm_RoutingKey = pm_RoutingKey pm, cm_Timestamp = now, cm_Body = pm_Body pm,
      cm_Headers = pm_Headers pm, cm_BindData = None\<rparr>"

text \<open>The new channel size, which the function also returns.\<close>

definition SetPublishMessageChannelSize :: "int \<Rightarrow> int" where
  "SetPublishMessageChannelSize v =
     (let v = (if v < 1 then 1 else v); v = (if v > 65536 then 65536 else v) in v)"

lemma GetHeader_SetHeader: "GetHeader (SetHeader m k v) k' = (if k' = k then v else GetHeader m k')"
  by (simp add: GetHeader_def SetHeader_def Let_def split: option.split)

lemma response_fields [simp]:
  "pm_CorrelationID (NewMQResponseMessage body (Some cm)) = cm_CorrelationID cm"
  "pm_ReplyTo (NewMQResponseMessage body (Some cm)) = cm_ReplyTo cm"
  "pm_RoutingKey (NewMQResponseMessage body (Some cm)) = cm_ReplyTo cm"
  "pm_Body (NewMQResponseMessage body (Some cm)) = body"
  "pm_MessageID (NewMQResponseMessage body (Some cm)) = cm_MessageID cm"
  "pm_AppID (NewMQResponseMessage body (Some cm)) = cm_MessageID cm"
  "pm_UserID (NewMQResponseMessage body (Some cm)) = cm_UserID cm"
  "pm_ContentType (NewMQResponseMessage body (Some cm)) = cm_ContentType cm"
  "pm_Headers (NewMQResponseMessage body (Some cm)) =
     Some (case cm_Headers cm of None \<Rightarrow> Map.empty | Some h \<Rightarrow> h)"
  by (simp_all add: NewMQResponseMessage_def Let_def split: option.split)

lemma consumed_fields [simp]:
  "cm_CorrelationID (NewConsumerMessageFromPublishMessage now pm) = pm_CorrelationID pm"
  "cm_ReplyTo (NewConsumerMessageFromPublishMessage now pm) = pm_ReplyTo pm"
  "cm_Body (NewConsumerMessageFromPublishMessage now pm) = pm_Body pm"
  "cm_ConsumerTag (NewConsumerMessageFromPublishMessage now pm) = []"
  "cm_MessageID (NewConsumerMessageFromPublishMessage now pm) = pm_MessageID pm"
  "cm_AppID (NewConsumerMessageFromPublishMessage now pm) = pm_AppID pm"
  "cm_Headers (NewConsumerMessageFromPublishMessage now pm) = pm_Headers pm"
  by (simp_all add: NewConsumerMessageFromPublishMessage_def)

section \<open>Properties\<close>

text \<open>
  The response to a consumed message, once it is consumed in turn, carries the body of the
  responder and the correlation id, reply topic, user and every header of the request, and
  reading a header of a message gives the last value set.  Its application id is the message
  id of the request, not the application id.
\<close>

theorem response_correlates:
  "(let r = NewConsumerMessageFromPublishMessage now (NewMQResponseMessage body (Some cm)) in
     cm_Body r = body \<and> cm_CorrelationID r = cm_CorrelationID cm \<and> cm_ReplyTo r = cm_ReplyTo cm
     \<and> cm_RoutingKey r = cm_ReplyTo cm \<and> cm_UserID r = cm_UserID cm \<and> cm_MessageID r = cm_MessageID cm
     \<and> GetHeader r k = GetHeader cm k
     \<and> GetHeader (SetHeader r k v) k' = (if k' = k then v else GetHeader cm k')
     \<and> cm_AppID r = cm_MessageID cm)"
  by (simp add: Let_def GetHeader_SetHeader NewConsumerMessageFromPublishMessage_def)
    (simp add: GetHeader_def split: option.split)

end
