(* ===== verification/Mock_Mq.thy ===== *)
theory Mock_Mq
  imports Mq_Messages
begin

text \<open>
  \<open>mq/mockmq/mqmock.go\<close>: the in-process broker.  A world holds the package variables
  \<open>mockInstances\<close> and \<open>mockMQ\<close>, the locks that the running operation holds, and the
  messages sent on reply channels and not yet received.  A worker is named by its key of
  \<open>mockInstances\<close>; a subscriber is one of its two bound methods.  Consumer callbacks are
  functions of the message.  Publishing calls subscribers, whose answers are published in turn,
  so the operations take fuel and \<open>None\<close> stands for a call that does not return: recursion
  without end, or a lock taken twice by one goroutine.
\<close>

section \<open>State\<close>

type_synonym callback = "MQConsumerMessage \<Rightarrow> MQPublishMessage option"

text \<open>
  \<open>worker.bindToOnMessage\<close> and \<open>worker.bindToReplyMessage\<close>.  What \<open>reflect\<close> reports as
  the pointer of such a method value is its code, which all workers share.
\<close>

datatype subscriber = OnMessage string | OnReply string

fun code_pointer :: "subscriber \<Rightarrow> nat" where
  "code_pointer (OnMessage _) = 0"
| "code_pointer (OnReply _) = 1"

record mockQueue =
  q_topic :: string
  q_messages :: "MQPublishMessage list"
  q_subscribes :: "subscriber list"

record MockMQ =
  w_Name :: string
  consumerRegisters :: "string \<rightharpoonup> callback"
  waitingResponseMessages :: "(string \<rightharpoonup> nat) option"
  waitingResponseTopic :: string

record mock_world =
  mockInstances :: "string \<rightharpoonup> MockMQ"
  topicQueues :: "string \<rightharpoonup> mockQueue"
  m1_held :: "string set"
  m2_held :: "string set"
  pending :: "(nat \<times> MQConsumerMessage) list"
  next_chan :: nat

definition init_world :: mock_world where
  "init_world = \<lparr>mockInstances = Map.empty, topicQueues = Map.empty, m1_held = {}, m2_held = {},
     pending = [], next_chan = 0\<rparr>"

section \<open>Subscribers\<close>

definition bindToOnMessage :: "string \<Rightarrow> MQConsumerMessage \<Rightarrow> mock_world \<Rightarrow> (mock_world \<times> MQPublishMessage option) option" where
  "bindToOnMessage name msg w =
     (case mockInstances w name of
        None \<Rightarrow> Some (w, None)
      | Some worker \<Rightarrow>
          if name \<in> m1_held w then None
          else (case consumerRegisters worker (cm_ConsumerTag msg) of
                  None \<Rightarrow> Some (w, None)
                | Some consumer \<Rightarrow> Some (w, consumer msg)))"

text \<open>The goroutine that sends on the channel is the entry it leaves in \<open>pending\<close>.\<close>

definition bindToReplyMessage :: "string \<Rightarrow> MQConsumerMessage \<Rightarrow> mock_world \<Rightarrow> (mock_world \<times> MQPublishMessage option) option" where
  "bindToReplyMessage name msg w =
     (case mockInstances w name of
        None \<Rightarrow> Some (w, None)
      | Some worker \<Rightarrow>
          (case waitingResponseMessages worker of
             None \<Rightarrow> Some (w, None)
           | Some waiting \<Rightarrow>
               if name \<in> m2_held w then None
               else (case waiting (cm_CorrelationID msg) of
                       None \<Rightarrow> Some (w, None)
                     | Some waiter \<Rightarrow>
                         Some (w\<lparr>mockInstances := (mockInstances w)(name \<mapsto>
                                    worker\<lparr>waitingResponseMessages := Some (waiting(cm_CorrelationID msg := None))\<rparr>),
                                  pending := pending w @ [(waiter, msg)]\<rparr>, None))))"

fun call_subscriber :: "subscriber \<Rightarrow> MQConsumerMessage \<Rightarrow> mock_world \<Rightarrow> (mock_world \<times> MQPublishMessage option) option" where
  "call_subscriber (OnMessage name) = bindToOnMessage name"
| "call_subscriber (OnReply name) = bindToReplyMessage name"

section \<open>Queues and topics\<close>

type_synonym publisher = "string \<Rightarrow> MQPublishMessage \<Rightarrow> mock_world \<Rightarrow> mock_world option"

definition mockDoCallback :: "publisher \<Rightarrow> subscriber \<Rightarrow> MQConsumerMessage \<Rightarrow> mock_world \<Rightarrow> mock_world option" where
  "mockDoCallback pub cb msg w =
     (case call_subscriber cb msg w of
        None \<Rightarrow> None
      | Some (w', resp) \<Rightarrow>
          (case resp of
             None \<Rightarrow> Some w'
           | Some r \<Rightarrow> if cm_ReplyTo msg \<noteq> [] then pub (cm_ReplyTo msg) r w' else Some w'))"

primrec deliver :: "publisher \<Rightarrow> subscriber list \<Rightarrow> MQConsumerMessage \<Rightarrow> mock_world \<Rightarrow> mock_world option" where
  "deliver pub [] cm w = Some w"
| "deliver pub (cb # cbs) cm w =
     (case mockDoCallback pub cb cm w of None \<Rightarrow> None | Some w' \<Rightarrow> deliver pub cbs cm w')"

definition q_publish :: "publisher \<Rightarrow> int \<Rightarrow> string \<Rightarrow> mockQueue \<Rightarrow> MQPublishMessage \<Rightarrow> mock_world \<Rightarrow> mock_world option" where
  "q_publish pub now t q msg w =
     (if length (q_subscribes q) < 1
      then Some (w\<lparr>topicQueues := (topicQueues w)(t \<mapsto> q\<lparr>q_messages := q_messages q @ [msg]\<rparr>)\<rparr>)
      else deliver pub (q_subscribes q)
             ((NewConsumerMessageFromPublishMessage now msg)\<lparr>cm_ConsumerTag := q_topic q\<rparr>) w)"

primrec qm_publish :: "nat \<Rightarrow> int \<Rightarrow> publisher" where
  "qm_publish 0 now t msg w = None"
| "qm_publish (Suc n) now t msg w =
     (case topicQueues w t of
        None \<Rightarrow> Some w
      | Some q \<Rightarrow> q_publish (qm_publish n now) now t q msg w)"

primrec redeliver :: "publisher \<Rightarrow> int \<Rightarrow> string \<Rightarrow> subscriber \<Rightarrow> MQPublishMessage list \<Rightarrow> mock_world \<Rightarrow> mock_world option" where
  "redeliver pub now t cb [] w = Some w"
| "redeliver pub now t cb (msg # msgs) w =
     (case mockDoCallback pub cb ((NewConsumerMessageFromPublishMessage now msg)\<lparr>cm_ConsumerTag := t\<rparr>) w of
        None \<Rightarrow> None
      | Some w' \<Rightarrow> redeliver pub now t cb msgs w')"

definition q_subscribe :: "publisher \<Rightarrow> int \<Rightarrow> string \<Rightarrow> mockQueue \<Rightarrow> subscriber \<Rightarrow> mock_world \<Rightarrow> mock_world option" where
  "q_subscribe pub now t q cb w =
     (if code_pointer cb \<in> set (map code_pointer (q_subscribes q)) then Some w
      else redeliver pub now (q_topic q) cb (q_messages q)
             (w\<lparr>topicQueues := (topicQueues w)(t \<mapsto> q\<lparr>q_subscribes := q_subscribes q @ [cb]\<rparr>)\<rparr>))"

definition qm_subscribe :: "nat \<Rightarrow> int \<Rightarrow> string \<Rightarrow> subscriber \<Rightarrow> mock_world \<Rightarrow> mock_world option" where
  "qm_subscribe n now t cb w =
     (case topicQueues w t of
        Some q \<Rightarrow> q_subscribe (qm_publish n now) now t q cb w
      | None \<Rightarrow>
          let q = \<lparr>q_topic = t, q_messages = [], q_subscribes = []\<rparr>
          in q_subscribe (qm_publish n now) now t q cb (w\<lparr>topicQueues := (topicQueues w)(t \<mapsto> q)\<rparr>))"

section \<open>Workers\<close>

definition set_worker :: "string \<Rightarrow> MockMQ \<Rightarrow> mock_world \<Rightarrow> mock_world" where
  "set_worker name worker w = w\<lparr>mockInstances := (mockInstances w)(name \<mapsto> worker)\<rparr>"

definition registerWaitingResponseTopic :: "nat \<Rightarrow> int \<Rightarrow> string \<Rightarrow> string \<Rightarrow> MockMQ \<Rightarrow> mock_world \<Rightarrow> mock_world option" where
  "registerWaitingResponseTopic n now uuid name worker w =
     (let worker = (if waitingResponseTopic worker = []
                    then worker\<lparr>waitingResponseTopic := ''rpc-'' @ uuid\<rparr> else worker)
      in if waitingResponseMessages worker = None \<and> name \<in> m2_held w then None
         else let worker = (if waitingResponseMessages worker = None
                            then worker\<lparr>waitingResponseMessages := Some Map.empty\<rparr> else worker)
              in qm_subscribe n now (waitingResponseTopic worker) (OnReply name) (set_worker name worker w))"

definition InitMockMQ :: "nat \<Rightarrow> int \<Rightarrow> string \<Rightarrow> string \<Rightarrow> mock_world \<Rightarrow> mock_world option" where
  "InitMockMQ n now uuid mqConnName w =
     (case mockInstances w mqConnName of
        Some _ \<Rightarrow> Some w
      | None \<Rightarrow>
          registerWaitingResponseTopic n now uuid mqConnName
            \<lparr>w_Name = mqConnName, consumerRegisters = Map.empty, waitingResponseMessages = None,
             waitingResponseTopic = []\<rparr> w)"

definition GetMockMQ :: "string \<Rightarrow> mock_world \<Rightarrow> MockMQ option" where
  "GetMockMQ mqConnName w = mockInstances w mqConnName"

text \<open>\<open>Subscribe\<close> holds \<open>m1\<close> while it subscribes to the topic.\<close>

definition Subscribe :: "nat \<Rightarrow> int \<Rightarrow> string \<Rightarrow> string \<Rightarrow> callback \<Rightarrow> mock_world \<Rightarrow> mock_world option" where
  "Subscribe n now name t consumeProxy w =
     (case mockInstances w name of
        None \<Rightarrow> None
      | Some worker \<Rightarrow>
          if name \<in> m1_held w then None
          else if consumerRegisters worker t = None then
            (case qm_subscribe n now t (OnMessage name) (w\<lparr>m1_held := insert name (m1_held w)\<rparr>) of
               None \<Rightarrow> None
             | Some w' \<Rightarrow>
                 Some (w'\<lparr>mockInstances := (mockInstances w')(name :=
                           map_option (\<lambda>wk. wk\<lparr>consumerRegisters := (consumerRegisters wk)(t \<mapsto> consumeProxy)\<rparr>)
                             (mockInstances w' name)),
                          m1_held := m1_held w' - {name}\<rparr>))
          else Some w)"

definition prepareRepliable :: "nat \<Rightarrow> int \<Rightarrow> string \<Rightarrow> string \<Rightarrow> MQPublishMessage \<Rightarrow> mock_world \<Rightarrow> (mock_world \<times> MQPublishMessage \<times> nat) option" where
  "prepareRepliable n now uuid name msg w =
     (case mockInstances w name of
        None \<Rightarrow> None
      | Some worker \<Rightarrow>
          let msg = msg\<lparr>pm_ReplyTo := waitingResponseTopic worker\<rparr>;
              msg = (if pm_CorrelationID msg = [] then msg\<lparr>pm_CorrelationID := uuid\<rparr> else msg);
              waiter = next_chan w
          in if name \<in> m2_held w then None
             else (case (if waitingResponseMessages worker = None
                         then registerWaitingResponseTopic n now uuid name worker
                                (w\<lparr>m2_held := insert name (m2_held w), next_chan := Suc waiter\<rparr>)
                         else Some (w\<lparr>m2_held := insert name (m2_held w), next_chan := Suc waiter\<rparr>)) of
                     None \<Rightarrow> None
                   | Some w' \<Rightarrow>
                       Some (w'\<lparr>mockInstances := (mockInstances w')(name :=
                                 map_option (\<lambda>wk. wk\<lparr>waitingResponseMessages :=
                                     map_option (\<lambda>ws. ws(pm_CorrelationID msg \<mapsto> waiter)) (waitingResponseMessages wk)\<rparr>)
                                   (mockInstances w' name)),
                               m2_held := m2_held w' - {name}\<rparr>, msg, waiter)))"

text \<open>
  \<open>Send\<close> up to its \<open>select\<close>: the message it published and the channel it waits on.  Then it
  either receives from the channel or times out.
\<close>

definition Send :: "nat \<Rightarrow> int \<Rightarrow> string \<Rightarrow> string \<Rightarrow> string \<Rightarrow> MQPublishMessage \<Rightarrow> bool \<Rightarrow> mock_world \<Rightarrow>
    (mock_world \<times> MQPublishMessage \<times> nat option) option" where
  "Send n now uuid name t pm withReply w =
     (if withReply then
        (case prepareRepliable n now uuid name pm w of
           None \<Rightarrow> None
         | Some (w', pm', waiter) \<Rightarrow>
             map_option (\<lambda>w''. (w'', pm', Some waiter)) (qm_publish n now t pm' w'))
      else map_option (\<lambda>w'. (w', pm, None)) (qm_publish n now t pm w))"

definition Send_receive :: "nat \<Rightarrow> mock_world \<Rightarrow> (MQConsumerMessage \<times> mock_world) option" where
  "Send_receive waiter w =
     (case map_of (pending w) waiter of
        None \<Rightarrow> None
      | Some res \<Rightarrow> Some (res, w\<lparr>pending := remove1 (waiter, res) (pending w)\<rparr>))"

definition Send_timeout :: "MQPublishMessage \<Rightarrow> MQPublishMessage" where
  "Send_timeout pm = OnClosed pm"

definition Send_timeout_seconds :: "MQPublishMessage \<Rightarrow> int" where
  "Send_timeout_seconds pm = (if 0 < pm_TimeoutSeconds pm then pm_TimeoutSeconds pm else 30)"

section \<open>What publishing keeps\<close>

definition waiter_of :: "mock_world \<Rightarrow> string \<Rightarrow> string \<Rightarrow> nat option" where
  "waiter_of w n k =
     (case mockInstances w n of
        None \<Rightarrow> None
      | Some wk \<Rightarrow> (case waitingResponseMessages wk of None \<Rightarrow> None | Some ws \<Rightarrow> ws k))"

definition static :: "MockMQ \<Rightarrow> string \<times> (string \<rightharpoonup> callback) \<times> string \<times> bool" where
  "static wk = (w_Name wk, consumerRegisters wk, waitingResponseTopic wk, waitingResponseMessages wk = None)"

definition same_frame :: "mock_world \<Rightarrow> mock_world \<Rightarrow> bool" where
  "same_frame v w \<longleftrightarrow> topicQueues w = topicQueues v \<and> m1_held w = m1_held v \<and> m2_held w = m2_held v
     \<and> next_chan w = next_chan v
     \<and> (\<forall>n. map_option static (mockInstances w n) = map_option static (mockInstances v n))"

definition chan_inv :: "mock_world \<Rightarrow> bool" where
  "chan_inv w \<longleftrightarrow> distinct (map fst (pending w)) \<and> (\<forall>c \<in> fst ` set (pending w). c < next_chan w)
     \<and> (\<forall>n k c. waiter_of w n k = Some c \<longrightarrow> c < next_chan w \<and> c \<notin> fst ` set (pending w))
     \<and> (\<forall>n k n' k' c. waiter_of w n k = Some c \<longrightarrow> waiter_of w n' k' = Some c \<longrightarrow> n = n' \<and> k = k')"

text \<open>A call of a subscriber changes at most one waiting entry, which becomes a pending message.\<close>

lemma call_subscriber_cases:
  assumes "call_subscriber cb msg w = Some (w', r)"
  obtains "w' = w"
  | n c where "cb = OnReply n" and "waiter_of w n (cm_CorrelationID msg) = Some c"
      and "same_frame w w'" and "pending w' = pending w @ [(c, msg)]"
      and "waiter_of w' = (\<lambda>n' k'. if n' = n \<and> k' = cm_CorrelationID msg then None else waiter_of w n' k')"
proof (cases cb)
  case (OnMessage name)
  with assms that(1) show ?thesis by (auto simp: bindToOnMessage_def split: option.splits if_splits)
next
  case (OnReply name)
  show ?thesis
  proof (cases "w' = w")
    case False
    then obtain wk ws c where w: "mockInstances w name = Some wk" "waitingResponseMessages wk = Some ws"
        "ws (cm_CorrelationID msg) = Some c"
      and w': "w' = w\<lparr>mockInstances := (mockInstances w)(name \<mapsto>
          wk\<lparr>waitingResponseMessages := Some (ws(cm_CorrelationID msg := None))\<rparr>), pending := pending w @ [(c, msg)]\<rparr>"
      using assms OnReply by (auto simp: bindToReplyMessage_def split: option.splits if_splits)
    have "waiter_of w' = (\<lambda>n' k'. if n' = name \<and> k' = cm_CorrelationID msg then None else waiter_of w n' k')"
      using w by (auto simp: w' waiter_of_def fun_eq_iff split: option.splits)
    moreover have "same_frame w w'" using w by (auto simp: w' same_frame_def static_def)
    ultimately show ?thesis using that(2) [of name c] OnReply w by (simp add: w' waiter_of_def)
  qed (rule that(1))
qed

lemma same_frame_refl [simp]: "same_frame w w"
  by (simp add: same_frame_def)

lemma same_frame_trans: "same_frame u v \<Longrightarrow> same_frame v w \<Longrightarrow> same_frame u w"
  by (simp add: same_frame_def)

lemma chan_inv_call:
  assumes inv: "chan_inv w" and call: "call_subscriber cb msg w = Some (w', r)"
  shows "chan_inv w' \<and> same_frame w w'"
  using call
proof (cases rule: call_subscriber_cases)
  case (2 n c)
  have "next_chan w' = next_chan w" using 2(3) by (simp add: same_frame_def)
  moreover have "c < next_chan w" "c \<notin> fst ` set (pending w)"
    using inv 2(2) unfolding chan_inv_def by blast+
  moreover have "waiter_of w n' k' = Some c \<Longrightarrow> n' = n \<and> k' = cm_CorrelationID msg" for n' k'
    using inv 2(2) unfolding chan_inv_def by blast
  ultimately have "chan_inv w'"
    using inv unfolding chan_inv_def by (auto simp: 2(4,5))
  with 2(3) show ?thesis by simp
qed (use inv in simp)

text \<open>
  A predicate that every subscriber call and the retention of a message keep is kept by the
  whole recursion of publishing.
\<close>

locale mock_preserved =
  fixes P :: "mock_world \<Rightarrow> bool"
  assumes call: "P w \<Longrightarrow> call_subscriber cb msg w = Some (w', r) \<Longrightarrow> P w'"
    and retain: "P w \<Longrightarrow> topicQueues w t = Some q \<Longrightarrow> q_subscribes q = [] \<Longrightarrow>
      P (w\<lparr>topicQueues := (topicQueues w)(t \<mapsto> q\<lparr>q_messages := q_messages q @ [m]\<rparr>)\<rparr>)"
begin

lemma callback:
  assumes "\<And>t m v v'. P v \<Longrightarrow> pub t m v = Some v' \<Longrightarrow> P v'" and "P w" and "mockDoCallback pub cb msg w = Some w'"
  shows "P w'"
proof -
  obtain v r where v: "call_subscriber cb msg w = Some (v, r)"
      and w': "w' = v \<or> (\<exists>m. pub (cm_ReplyTo msg) m v = Some w')"
    using assms(3) by (simp add: mockDoCallback_def split: option.splits prod.splits if_splits) blast+
  from w' assms(1) call [OF assms(2) v] show ?thesis by blast
qed

lemma deliver:
  assumes "\<And>t m v v'. P v \<Longrightarrow> pub t m v = Some v' \<Longrightarrow> P v'" and "P w" and "deliver pub cbs cm w = Some w'"
  shows "P w'"
  using assms(2,3)
proof (induction cbs arbitrary: w)
  case (Cons cb cbs)
  obtain v where v: "mockDoCallback pub cb cm w = Some v" "deliver pub cbs cm v = Some w'"
    using Cons.prems(2) by (auto split: option.splits)
  have "P v" by (rule callback [OF _ Cons.prems(1) v(1)]) (rule assms(1))
  then show ?case using v(2) by (rule Cons.IH)
qed simp

lemma publish: "P w \<Longrightarrow> qm_publish n now t msg w = Some w' \<Longrightarrow> P w'"
proof (induction n arbitrary: t msg w w')
  case (Suc n)
  then show ?case
    by (auto simp: q_publish_def intro: retain deliver [of "qm_publish n now"] split: option.splits if_splits)
qed simp

end

definition settled :: "mock_world \<Rightarrow> mock_world \<Rightarrow> bool" where
  "settled v w \<longleftrightarrow> chan_inv w \<and> same_frame v w \<and> (\<forall>t q. topicQueues v t = Some q \<longrightarrow> q_subscribes q \<noteq> [])"

interpretation settled: mock_preserved "settled v" for v
  by unfold_locales
    (auto simp: settled_def same_frame_def dest: chan_inv_call)

section \<open>The invariant of a world\<close>

definition queue_inv :: "mock_world \<Rightarrow> bool" where
  "queue_inv w \<longleftrightarrow> (\<forall>t q. topicQueues w t = Some q \<longrightarrow>
     q_topic q = t \<and> q_messages q = [] \<and> q_subscribes q \<noteq> [] \<and> distinct (map code_pointer (q_subscribes q)))"

definition worker_inv :: "mock_world \<Rightarrow> bool" where
  "worker_inv w \<longleftrightarrow> (\<forall>n wk. mockInstances w n = Some wk \<longrightarrow>
     w_Name wk = n \<and> waitingResponseMessages wk \<noteq> None \<and> waitingResponseTopic wk \<noteq> []
     \<and> (\<exists>q. topicQueues w (waitingResponseTopic wk) = Some q \<and> OnReply n \<in> set (q_subscribes q)))"

definition mock_inv :: "mock_world \<Rightarrow> bool" where
  "mock_inv w \<longleftrightarrow> queue_inv w \<and> worker_inv w \<and> chan_inv w \<and> m1_held w = {} \<and> m2_held w = {}"

lemma queue_invD:
  "queue_inv w \<Longrightarrow> topicQueues w t = Some q \<Longrightarrow>
   q_topic q = t \<and> q_messages q = [] \<and> q_subscribes q \<noteq> [] \<and> distinct (map code_pointer (q_subscribes q))"
  by (simp add: queue_inv_def)

lemma worker_invD:
  "worker_inv w \<Longrightarrow> mockInstances w n = Some wk \<Longrightarrow>
   w_Name wk = n \<and> waitingResponseMessages wk \<noteq> None \<and> waitingResponseTopic wk \<noteq> []
   \<and> (\<exists>q. topicQueues w (waitingResponseTopic wk) = Some q \<and> OnReply n \<in> set (q_subscribes q))"
  by (simp add: worker_inv_def)

lemma static_eq:
  "map_option static x = map_option static y \<Longrightarrow> x = Some wk \<Longrightarrow>
   \<exists>wk'. y = Some wk' \<and> w_Name wk' = w_Name wk \<and> consumerRegisters wk' = consumerRegisters wk
     \<and> waitingResponseTopic wk' = waitingResponseTopic wk
     \<and> (waitingResponseMessages wk' = None) = (waitingResponseMessages wk = None)"
  by (cases y) (auto simp: static_def)

lemma worker_inv_frame:
  assumes "worker_inv v" and "same_frame v w"
  shows "worker_inv w"
  unfolding worker_inv_def
proof (intro allI impI)
  fix n wk
  assume "mockInstances w n = Some wk"
  moreover have "map_option static (mockInstances w n) = map_option static (mockInstances v n)"
    and q: "topicQueues w = topicQueues v"
    using assms(2) by (simp_all add: same_frame_def)
  ultimately obtain wk' where wk': "mockInstances v n = Some wk'" "w_Name wk' = w_Name wk"
      "waitingResponseTopic wk' = waitingResponseTopic wk"
      "(waitingResponseMessages wk' = None) = (waitingResponseMessages wk = None)"
    using static_eq by metis
  from worker_invD [OF assms(1) wk'(1)] show "w_Name wk = n \<and> waitingResponseMessages wk \<noteq> None
      \<and> waitingResponseTopic wk \<noteq> []
      \<and> (\<exists>q. topicQueues w (waitingResponseTopic wk) = Some q \<and> OnReply n \<in> set (q_subscribes q))"
    by (simp add: q wk'(2-4))
qed

lemma publish_frame:
  assumes "mock_inv w" and "qm_publish n now t msg w = Some w'"
  shows "mock_inv w' \<and> same_frame w w'"
proof -
  have "settled w w" using assms(1) by (auto simp: settled_def mock_inv_def dest: queue_invD)
  then have "settled w w'" using assms(2) by (rule settled.publish)
  then show ?thesis
    using assms(1) worker_inv_frame [of w w'] by (simp add: settled_def mock_inv_def same_frame_def queue_inv_def)
qed

text \<open>In such a world a subscription delivers nothing, and needs no fuel.\<close>

definition subscribed :: "mock_world \<Rightarrow> string \<Rightarrow> subscriber \<Rightarrow> mockQueue" where
  "subscribed w t cb =
     (case topicQueues w t of
        None \<Rightarrow> \<lparr>q_topic = t, q_messages = [], q_subscribes = [cb]\<rparr>
      | Some q \<Rightarrow> if code_pointer cb \<in> set (map code_pointer (q_subscribes q)) then q
                   else q\<lparr>q_subscribes := q_subscribes q @ [cb]\<rparr>)"

lemma qm_subscribe_eq:
  "queue_inv w \<Longrightarrow>
   qm_subscribe n now t cb w = Some (w\<lparr>topicQueues := (topicQueues w)(t \<mapsto> subscribed w t cb)\<rparr>)"
  by (auto simp: qm_subscribe_def q_subscribe_def subscribed_def Let_def map_upd_triv
      dest: queue_invD split: option.splits)

lemma subscribed_queue:
  assumes "queue_inv w"
  shows "queue_inv (w\<lparr>topicQueues := (topicQueues w)(t \<mapsto> subscribed w t cb)\<rparr>)"
  using assms by (auto simp: queue_inv_def subscribed_def split: option.splits)

lemma subscribed_keeps:
  "topicQueues w t = Some q \<Longrightarrow> set (q_subscribes q) \<subseteq> set (q_subscribes (subscribed w t cb))"
  by (auto simp: subscribed_def)

lemma queue_inv_cong: "topicQueues w' = topicQueues w \<Longrightarrow> queue_inv w' = queue_inv w"
  by (simp add: queue_inv_def)

lemma chan_inv_cong:
  "pending w' = pending w \<Longrightarrow> next_chan w' = next_chan w \<Longrightarrow> waiter_of w' = waiter_of w \<Longrightarrow>
   chan_inv w' = chan_inv w"
  by (simp add: chan_inv_def)

lemma chan_inv_less:
  assumes "chan_inv w" and "distinct (map fst (pending w'))" and "fst ` set (pending w') \<subseteq> fst ` set (pending w)"
    and "next_chan w' = next_chan w" and "waiter_of w' = waiter_of w"
  shows "chan_inv w'"
proof -
  have "\<forall>c \<in> fst ` set (pending w). c < next_chan w"
    and "\<forall>n k c. waiter_of w n k = Some c \<longrightarrow> c < next_chan w \<and> c \<notin> fst ` set (pending w)"
    and "\<forall>n k n' k' c. waiter_of w n k = Some c \<longrightarrow> waiter_of w n' k' = Some c \<longrightarrow> n = n' \<and> k = k'"
    using assms(1) [unfolded chan_inv_def] by - (elim conjE, assumption)+
  with assms(2) subsetD [OF assms(3)] show ?thesis
    unfolding chan_inv_def assms(4,5) by (intro conjI) blast+
qed

lemma InitMockMQ_eq:
  assumes "mock_inv w" and "mockInstances w name = None" and "topicQueues w (''rpc-'' @ uuid) = None"
  shows "InitMockMQ n now uuid name w = Some (w\<lparr>
      mockInstances := (mockInstances w)(name \<mapsto> \<lparr>w_Name = name, consumerRegisters = Map.empty,
        waitingResponseMessages = Some Map.empty, waitingResponseTopic = ''rpc-'' @ uuid\<rparr>),
      topicQueues := (topicQueues w)(''rpc-'' @ uuid \<mapsto>
        \<lparr>q_topic = ''rpc-'' @ uuid, q_messages = [], q_subscribes = [OnReply name]\<rparr>)\<rparr>)"
proof -
  have "queue_inv (set_worker name wk w)" for wk
    using assms(1) by (simp add: mock_inv_def queue_inv_def set_worker_def)
  then show ?thesis
    using assms by (simp add: InitMockMQ_def registerWaitingResponseTopic_def qm_subscribe_eq mock_inv_def)
      (simp add: set_worker_def subscribed_def)
qed

definition same_channels :: "mock_world \<Rightarrow> mock_world \<Rightarrow> bool" where
  "same_channels v w \<longleftrightarrow> pending w = pending v \<and> next_chan w = next_chan v \<and> waiter_of w = waiter_of v"

lemma InitMockMQ_channels:
  assumes "mock_inv w" and "topicQueues w (''rpc-'' @ uuid) = None" and "InitMockMQ n now uuid name w = Some w'"
  shows "same_channels w w'"
proof (cases "mockInstances w name")
  case None
  note w' = assms(3) [unfolded InitMockMQ_eq [OF assms(1) None assms(2)], THEN sym, simplified]
  show ?thesis using None by (auto simp: w' same_channels_def waiter_of_def fun_eq_iff)
qed (use assms in \<open>simp add: InitMockMQ_def same_channels_def\<close>)

lemma InitMockMQ_inv:
  assumes "mock_inv w" and "topicQueues w (''rpc-'' @ uuid) = None" and "InitMockMQ n now uuid name w = Some w'"
  shows "mock_inv w'"
proof (cases "mockInstances w name")
  case None
  note w' = assms(3) [unfolded InitMockMQ_eq [OF assms(1) None assms(2)], THEN sym, simplified]
  have "chan_inv w'"
    using InitMockMQ_channels [OF assms] assms(1) chan_inv_cong [of w' w]
    by (simp add: same_channels_def mock_inv_def)
  moreover have "queue_inv w'" using assms(1,2) by (simp add: w' mock_inv_def queue_inv_def)
  moreover have "worker_inv w'"
    using assms(1,2) unfolding w' mock_inv_def worker_inv_def by (auto split: if_splits) force
  ultimately show ?thesis using assms(1) by (simp add: mock_inv_def w')
qed (use assms in \<open>simp add: InitMockMQ_def\<close>)

lemma Subscribe_eq:
  assumes "mock_inv w" and "mockInstances w name = Some wk" and "consumerRegisters wk t = None"
  shows "Subscribe n now name t p w = Some (w\<lparr>
      mockInstances := (mockInstances w)(name \<mapsto> wk\<lparr>consumerRegisters := (consumerRegisters wk)(t \<mapsto> p)\<rparr>),
      topicQueues := (topicQueues w)(t \<mapsto> subscribed w t (OnMessage name))\<rparr>)"
proof -
  have "queue_inv (w\<lparr>m1_held := insert name (m1_held w)\<rparr>)"
    using assms(1) by (simp add: mock_inv_def queue_inv_def)
  then show ?thesis
    using assms by (simp add: Subscribe_def qm_subscribe_eq mock_inv_def subscribed_def)
qed

lemma Subscribe_channels:
  assumes "mock_inv w" and "Subscribe n now name t p w = Some w'"
  shows "same_channels w w'"
proof (cases "mockInstances w name")
  case (Some wk)
  show ?thesis
  proof (cases "consumerRegisters wk t")
    case None
    note w' = assms(2) [unfolded Subscribe_eq [OF assms(1) Some None], THEN sym, simplified]
    show ?thesis using Some by (auto simp: w' same_channels_def waiter_of_def fun_eq_iff)
  qed (use assms Some in \<open>simp add: Subscribe_def mock_inv_def same_channels_def\<close>)
qed (use assms in \<open>simp add: Subscribe_def\<close>)

lemma Subscribe_inv:
  assumes "mock_inv w" and "Subscribe n now name t p w = Some w'"
  shows "mock_inv w'"
proof (cases "mockInstances w name")
  case (Some wk)
  show ?thesis
  proof (cases "consumerRegisters wk t")
    case None
    note w' = assms(2) [unfolded Subscribe_eq [OF assms(1) Some None], THEN sym, simplified]
    have "chan_inv w'"
      using Subscribe_channels [OF assms] assms(1) chan_inv_cong [of w' w]
      by (simp add: same_channels_def mock_inv_def)
    moreover have "queue_inv w'"
      using subscribed_queue [of w t "OnMessage name"] assms(1)
        queue_inv_cong [of w' "w\<lparr>topicQueues := (topicQueues w)(t \<mapsto> subscribed w t (OnMessage name))\<rparr>"]
      by (simp add: w' mock_inv_def)
    moreover have "worker_inv w'"
      unfolding worker_inv_def
    proof (intro allI impI)
      fix m wm
      assume "mockInstances w' m = Some wm"
      then obtain wo where wo: "mockInstances w m = Some wo" and same: "w_Name wm = w_Name wo"
          "waitingResponseMessages wm = waitingResponseMessages wo" "waitingResponseTopic wm = waitingResponseTopic wo"
        using Some by (auto simp: w' split: if_splits)
      have wi: "worker_inv w" using assms(1) by (simp add: mock_inv_def)
      obtain q where q: "topicQueues w (waitingResponseTopic wo) = Some q" "OnReply m \<in> set (q_subscribes q)"
        using worker_invD [OF wi wo] by blast
      have "\<exists>q. topicQueues w' (waitingResponseTopic wo) = Some q \<and> OnReply m \<in> set (q_subscribes q)"
      proof (cases "waitingResponseTopic wo = t")
        case True
        then show ?thesis using q subscribed_keeps [of w t q "OnMessage name"] by (auto simp: w')
      qed (use q in \<open>simp add: w'\<close>)
      then show "w_Name wm = m \<and> waitingResponseMessages wm \<noteq> None \<and> waitingResponseTopic wm \<noteq> []
          \<and> (\<exists>q. topicQueues w' (waitingResponseTopic wm) = Some q \<and> OnReply m \<in> set (q_subscribes q))"
        using worker_invD [OF wi wo] by (simp add: same)
    qed
    ultimately show ?thesis using assms(1) by (simp add: mock_inv_def w')
  qed (use assms Some in \<open>simp add: Subscribe_def mock_inv_def\<close>)
qed (use assms in \<open>simp add: Subscribe_def\<close>)

definition request :: "string \<Rightarrow> MockMQ \<Rightarrow> MQPublishMessage \<Rightarrow> MQPublishMessage" where
  "request uuid wk pm = pm\<lparr>pm_ReplyTo := waitingResponseTopic wk,
     pm_CorrelationID := (if pm_CorrelationID pm = [] then uuid else pm_CorrelationID pm)\<rparr>"

lemma prepareRepliable_eq:
  assumes "mock_inv w" and "mockInstances w name = Some wk" and "waitingResponseMessages wk = Some ws"
  shows "prepareRepliable n now uuid name pm w = Some (w\<lparr>
      mockInstances := (mockInstances w)(name \<mapsto>
        wk\<lparr>waitingResponseMessages := Some (ws(pm_CorrelationID (request uuid wk pm) \<mapsto> next_chan w))\<rparr>),
      next_chan := Suc (next_chan w)\<rparr>, request uuid wk pm, next_chan w)"
  using assms by (simp add: prepareRepliable_def mock_inv_def Let_def request_def)

lemma prepareRepliable_inv:
  assumes inv: "mock_inv w" and "prepareRepliable n now uuid name pm w = Some (w', pm', c)"
  shows "mock_inv w'"
proof (cases "mockInstances w name")
  case (Some wk)
  then obtain ws where ws: "waitingResponseMessages wk = Some ws"
    using worker_invD [of w name wk] inv by (auto simp: mock_inv_def)
  define k where "k = pm_CorrelationID (request uuid wk pm)"
  have w': "w' = w\<lparr>mockInstances := (mockInstances w)(name \<mapsto>
        wk\<lparr>waitingResponseMessages := Some (ws(k \<mapsto> next_chan w))\<rparr>), next_chan := Suc (next_chan w)\<rparr>"
    using assms(2) unfolding prepareRepliable_eq [OF inv Some ws] k_def
    by (auto simp only: option.inject prod.inject)
  have waiter: "waiter_of w' = (\<lambda>n' k'. if n' = name \<and> k' = k then Some (next_chan w) else waiter_of w n' k')"
    using Some ws by (auto simp: w' waiter_of_def fun_eq_iff)
  have c: "chan_inv w" using inv by (simp add: mock_inv_def)
  have fresh: "waiter_of w m l \<noteq> Some (next_chan w)" "next_chan w \<notin> fst ` set (pending w)" for m l
    using c unfolding chan_inv_def by (metis less_irrefl)+
  have "chan_inv w'"
    using c fresh unfolding chan_inv_def waiter by (auto simp: w' less_SucI)
  moreover have "queue_inv w'" using inv queue_inv_cong [of w' w] by (simp add: w' mock_inv_def)
  moreover have "worker_inv w'"
    using inv Some unfolding w' mock_inv_def worker_inv_def by auto
  ultimately show ?thesis using inv by (simp add: mock_inv_def w')
qed (use assms in \<open>simp add: prepareRepliable_def\<close>)

lemma Send_inv:
  assumes "mock_inv w" and "Send n now uuid name t pm withReply w = Some (w', pm', c)"
  shows "mock_inv w'"
proof (cases withReply)
  case True
  then obtain v pv cv where "prepareRepliable n now uuid name pm w = Some (v, pv, cv)"
      "qm_publish n now t pv v = Some w'"
    using assms(2) by (auto simp: Send_def split: option.splits)
  then show ?thesis using prepareRepliable_inv [OF assms(1)] publish_frame by blast
next
  case False
  then show ?thesis using assms publish_frame by (auto simp: Send_def)
qed

lemma Send_receive_inv:
  assumes inv: "mock_inv w" and "Send_receive c w = Some (res, w')"
  shows "mock_inv w' \<and> c \<notin> fst ` set (pending w') \<and> waiter_of w' = waiter_of w"
proof -
  have w': "w' = w\<lparr>pending := remove1 (c, res) (pending w)\<rparr>" and mem: "(c, res) \<in> set (pending w)"
    using assms(2) by (auto simp: Send_receive_def split: option.splits dest: map_of_SomeD)
  have c: "chan_inv w" using inv by (simp add: mock_inv_def)
  then have d: "distinct (map fst (pending w))" by (simp add: chan_inv_def)
  then have dp: "distinct (pending w)" by (simp add: distinct_map)
  have set: "set (remove1 (c, res) (pending w)) = set (pending w) - {(c, res)}"
    using dp by (simp add: set_remove1_eq)
  have "distinct (map fst (remove1 (c, res) (pending w)))"
    using d dp by (auto simp: distinct_map intro: inj_on_subset distinct_remove1)
  moreover have waiter: "waiter_of w' = waiter_of w" by (simp add: w' waiter_of_def fun_eq_iff)
  moreover have "fst ` set (pending w') \<subseteq> fst ` set (pending w)"
    by (auto simp: w' set)
  ultimately have "chan_inv w'"
    using chan_inv_less [OF c, of w'] by (simp add: w')
  moreover have "c \<notin> fst ` set (pending w')"
    using d mem eq_key_imp_eq_value [of "pending w" c] by (auto simp: w' set)
  ultimately show ?thesis
    using inv waiter by (simp add: mock_inv_def w' queue_inv_def worker_inv_def)
qed

section \<open>Steps\<close>

text \<open>
  A step is one call of the broker, or the receipt of a pending response.  A new instance draws
  a fresh topic for its responses, as UUIDs promise.
\<close>

inductive mock_step :: "mock_world \<Rightarrow> mock_world \<Rightarrow> bool" where
  init: "topicQueues w (''rpc-'' @ uuid) = None \<Longrightarrow> InitMockMQ n now uuid name w = Some w' \<Longrightarrow> mock_step w w'"
| subscribe: "Subscribe n now name t p w = Some w' \<Longrightarrow> mock_step w w'"
| send: "Send n now uuid name t pm withReply w = Some (w', pm', c) \<Longrightarrow> mock_step w w'"
| receive: "Send_receive c w = Some (res, w') \<Longrightarrow> mock_step w w'"

inductive mock_reachable :: "mock_world \<Rightarrow> bool" where
  start: "mock_reachable init_world"
| step: "mock_reachable w \<Longrightarrow> mock_step w w' \<Longrightarrow> mock_reachable w'"

inductive_cases mock_stepE: "mock_step w w'"

lemma init_world_inv: "mock_inv init_world"
  by (simp add: mock_inv_def init_world_def queue_inv_def worker_inv_def chan_inv_def waiter_of_def)

lemma mock_step_inv: "mock_step w w' \<Longrightarrow> mock_inv w \<Longrightarrow> mock_inv w'"
  by (auto elim!: mock_stepE intro: InitMockMQ_inv Subscribe_inv Send_inv dest: Send_receive_inv)

lemma reachable_inv: "mock_reachable w \<Longrightarrow> mock_inv w"
  by (induction rule: mock_reachable.induct) (auto intro: init_world_inv mock_step_inv)

section \<open>Spent channels\<close>

text \<open>A channel that was handed out, waits for nothing and holds nothing stays so.\<close>

definition spent :: "nat \<Rightarrow> mock_world \<Rightarrow> bool" where
  "spent c w \<longleftrightarrow> c < next_chan w \<and> c \<notin> fst ` set (pending w) \<and> (\<forall>n k. waiter_of w n k \<noteq> Some c)"

lemma spent_call:
  assumes s: "spent c w" and call: "call_subscriber cb msg w = Some (w', r)"
  shows "spent c w'"
  using call
proof (cases rule: call_subscriber_cases)
  case (2 n d)
  have "d \<noteq> c" using s 2(2) by (auto simp: spent_def)
  then show ?thesis using s 2(3) by (auto simp: spent_def 2(4,5) same_frame_def)
qed (use s in simp)

lemma spent_cong: "same_channels v w \<Longrightarrow> spent c w = spent c v"
  by (simp add: spent_def same_channels_def)

interpretation spent: mock_preserved "spent c" for c
proof unfold_locales
  fix w t q m
  assume "spent c w"
  moreover have "same_channels w (w\<lparr>topicQueues := (topicQueues w)(t \<mapsto> q\<lparr>q_messages := q_messages q @ [m]\<rparr>)\<rparr>)"
    by (simp add: same_channels_def waiter_of_def fun_eq_iff)
  ultimately show "spent c (w\<lparr>topicQueues := (topicQueues w)(t \<mapsto> q\<lparr>q_messages := q_messages q @ [m]\<rparr>)\<rparr>)"
    by (simp add: spent_cong)
qed (rule spent_call)

lemma spent_prepare:
  assumes inv: "mock_inv w" and s: "spent d w" and "prepareRepliable n now uuid name pm w = Some (w', pm', c)"
  shows "spent d w'"
proof (cases "mockInstances w name")
  case (Some wk)
  then obtain ws where ws: "waitingResponseMessages wk = Some ws"
    using worker_invD [of w name wk] inv by (auto simp: mock_inv_def)
  note w' = assms(3) [unfolded prepareRepliable_eq [OF inv Some ws], THEN sym, simplified]
  have "waiter_of w' = (\<lambda>n' k'. if n' = name \<and> k' = pm_CorrelationID (request uuid wk pm)
      then Some (next_chan w) else waiter_of w n' k')"
    using Some ws by (auto simp: w' waiter_of_def fun_eq_iff)
  then show ?thesis using s by (auto simp: spent_def w')
qed (use assms in \<open>simp add: prepareRepliable_def\<close>)

lemma spent_step:
  assumes inv: "mock_inv w" and s: "spent d w" and "mock_step w w'"
  shows "spent d w'"
  using assms(3)
proof (cases rule: mock_step.cases)
  case (init uuid n now name)
  then show ?thesis using InitMockMQ_channels [OF inv] spent_cong s by blast
next
  case (subscribe n now name t p)
  then show ?thesis using Subscribe_channels [OF inv] spent_cong s by blast
next
  case (send n now uuid name t pm withReply pm' c)
  show ?thesis
  proof (cases withReply)
    case True
    then obtain v pv b where v: "prepareRepliable n now uuid name pm w = Some (v, pv, b)"
        and pub: "qm_publish n now t pv v = Some w'"
      using send by (auto simp: Send_def split: option.splits)
    from spent_prepare [OF inv s v] pub show ?thesis by (rule spent.publish)
  next
    case False
    then have "qm_publish n now t pm w = Some w'" using send by (auto simp: Send_def)
    with s show ?thesis by (rule spent.publish)
  qed
next
  case (receive c res)
  then show ?thesis using s Send_receive_inv [OF inv receive]
    by (auto simp: spent_def Send_receive_def split: option.splits dest!: subsetD [OF set_remove1_subset])
qed

lemma spent_steps:
  assumes "mock_step\<^sup>*\<^sup>* w w'" and "mock_inv w" and "spent d w"
  shows "mock_inv w' \<and> spent d w'"
  using assms
proof (induction rule: rtranclp_induct)
  case (step v v')
  then show ?case using mock_step_inv spent_step by blast
qed simp

lemma received_spent:
  assumes "mock_inv w" and "Send_receive c w = Some (res, w')"
  shows "spent c w'"
proof -
  have mem: "(c, res) \<in> set (pending w)" and "next_chan w' = next_chan w"
    using assms(2) by (auto simp: Send_receive_def split: option.splits dest: map_of_SomeD)
  moreover have "chan_inv w" using assms(1) by (simp add: mock_inv_def)
  ultimately show ?thesis
    using Send_receive_inv [OF assms] unfolding spent_def chan_inv_def by (metis fst_conv image_eqI)
qed

lemma spent_receive:
  assumes "spent c w"
  shows "Send_receive c w = None"
proof -
  have "map_of (pending w) c = None" using assms by (simp add: spent_def map_of_eq_None_iff)
  then show ?thesis by (simp add: Send_receive_def)
qed

section \<open>Properties\<close>

text \<open>
  C36. In every reachable world each topic queue is filed under its topic, has a subscriber,
  retains no message and holds each kind of subscriber at most once; every worker is filed under
  its name and its response topic is served by its own reply subscriber; the channels of
  waiting calls and of pending responses are distinct; and no lock is left held.
\<close>

theorem mock_reachable_invariant:
  assumes "mock_reachable w"
  shows "queue_inv w \<and> worker_inv w \<and> chan_inv w \<and> m1_held w = {} \<and> m2_held w = {}"
  using reachable_inv [OF assms] by (simp add: mock_inv_def)

lemma mock_reachable_invariant_witness:
  "\<exists>w. InitMockMQ 0 0 ''1'' ''a'' init_world = Some w \<and> worker_inv w \<and> waiter_of w ''a'' ''k'' = None"
proof -
  obtain w where w: "InitMockMQ 0 0 ''1'' ''a'' init_world = Some w"
    using InitMockMQ_eq [OF init_world_inv, of "''a''" "''1''" 0 0] by (simp add: init_world_def)
  have fresh: "topicQueues init_world (''rpc-'' @ ''1'') = None" by (simp add: init_world_def)
  have "mock_reachable w"
    by (rule mock_reachable.step [OF mock_reachable.start mock_step.init [OF fresh w]])
  then have "worker_inv w" using mock_reachable_invariant by blast
  moreover have "same_channels init_world w" using InitMockMQ_channels [OF init_world_inv fresh w] .
  ultimately show ?thesis using w by (simp add: same_channels_def) (simp add: waiter_of_def init_world_def)
qed

text \<open>
  A response channel is received from at most once: after a call has received its response,
  no run of the broker puts another message on its channel.
\<close>

theorem mock_reply_once:
  assumes "mock_reachable w" and "Send_receive c w = Some (res, w')" and "mock_step\<^sup>*\<^sup>* w' w''"
  shows "Send_receive c w'' = None"
proof -
  have "mock_inv w'" and "spent c w'"
    using Send_receive_inv received_spent reachable_inv [OF assms(1)] assms(2) by blast+
  then show ?thesis using spent_steps [OF assms(3)] spent_receive by blast
qed

lemma publish_single:
  "topicQueues w t = Some q \<Longrightarrow> q_subscribes q = [cb] \<Longrightarrow>
   qm_publish (Suc n) now t msg w = mockDoCallback (qm_publish n now) cb
     ((NewConsumerMessageFromPublishMessage now msg)\<lparr>cm_ConsumerTag := q_topic q\<rparr>) w"
  by (simp add: q_publish_def split: option.splits)

lemma rpc_run:
  assumes inv: "mock_inv w" and n: "mockInstances w n = Some wk" and v: "mockInstances w v = Some wv"
    and cb: "consumerRegisters wv t = Some (\<lambda>cm. Some (NewMQResponseMessage (f cm) (Some cm)))"
    and q: "topicQueues w t = Some q" "q_subscribes q = [OnMessage v]"
    and rq: "topicQueues w (waitingResponseTopic wk) = Some rq" "q_subscribes rq = [OnReply n]"
    and cm: "cm = (NewConsumerMessageFromPublishMessage now (request uuid wk pm))\<lparr>cm_ConsumerTag := t\<rparr>"
    and k: "k = pm_CorrelationID (request uuid wk pm)"
  shows "\<exists>w' w'' r. Send (Suc (Suc m)) now uuid n t pm True w = Some (w', request uuid wk pm, Some (next_chan w))
    \<and> Send_receive (next_chan w) w' = Some (r, w'') \<and> cm_Body r = f cm \<and> cm_CorrelationID r = k
    \<and> waiter_of w'' n k = None"
proof -
  obtain ws where ws: "waitingResponseMessages wk = Some ws" and rt: "waitingResponseTopic wk \<noteq> []"
    using worker_invD [of w n wk] inv n by (auto simp: mock_inv_def)
  have qt: "q_topic q = t" and held: "m1_held w = {}" "m2_held w = {}"
    using queue_invD q(1) inv by (auto simp: mock_inv_def)
  define wk1 where "wk1 = wk\<lparr>waitingResponseMessages := Some (ws(k \<mapsto> next_chan w))\<rparr>"
  define w1 where "w1 = w\<lparr>mockInstances := (mockInstances w)(n \<mapsto> wk1), next_chan := Suc (next_chan w)\<rparr>"
  define resp where "resp = NewMQResponseMessage (f cm) (Some cm)"
  define r where "r = (NewConsumerMessageFromPublishMessage now resp)\<lparr>cm_ConsumerTag := q_topic rq\<rparr>"
  define w2 where "w2 = w1\<lparr>mockInstances := (mockInstances w1)(n \<mapsto> wk1\<lparr>waitingResponseMessages :=
      Some ((ws(k \<mapsto> next_chan w))(k := None))\<rparr>), pending := pending w1 @ [(next_chan w, r)]\<rparr>"
  have r: "cm_Body r = f cm" "cm_CorrelationID r = k" and cm': "cm_ReplyTo cm = waitingResponseTopic wk"
    by (simp_all add: r_def resp_def cm k) (simp add: request_def)
  have "prepareRepliable (Suc (Suc m)) now uuid n pm w = Some (w1, request uuid wk pm, next_chan w)"
    using prepareRepliable_eq [OF inv n ws] by (simp add: w1_def wk1_def k)
  moreover obtain wv1 where "mockInstances w1 v = Some wv1" "consumerRegisters wv1 = consumerRegisters wv"
    using n v by (cases "v = n") (auto simp: w1_def wk1_def)
  then have "bindToOnMessage v cm w1 = Some (w1, Some resp)"
    using cb held by (simp add: bindToOnMessage_def cm w1_def resp_def)
  moreover have "bindToReplyMessage n r w1 = Some (w2, None)"
    using held by (simp add: bindToReplyMessage_def r w1_def wk1_def w2_def)
  then have "qm_publish (Suc m) now (waitingResponseTopic wk) resp w1 = Some w2"
    using publish_single [of w1 "waitingResponseTopic wk" rq "OnReply n" m now resp] rq
    by (simp add: w1_def r_def mockDoCallback_def)
  ultimately have "Send (Suc (Suc m)) now uuid n t pm True w = Some (w2, request uuid wk pm, Some (next_chan w))"
    using publish_single [of w1 t q "OnMessage v" "Suc m" now "request uuid wk pm"] q qt rt cm'
    by (simp add: Send_def w1_def mockDoCallback_def cm del: qm_publish.simps)
  moreover have "map_of (pending w) (next_chan w) = None"
    using inv by (auto simp: mock_inv_def chan_inv_def map_of_eq_None_iff)
  then have "Send_receive (next_chan w) w2 = Some (r, w2\<lparr>pending := remove1 (next_chan w, r) (pending w2)\<rparr>)"
    by (simp add: Send_receive_def w2_def w1_def map_add_def)
  moreover have "waiter_of w2 n k = None" by (simp add: waiter_of_def w2_def)
  ultimately show ?thesis using r by (auto simp: waiter_of_def)
qed

text \<open>A world for the witnesses: worker \<open>a\<close> serves topic \<open>t\<close> by echoing the body.\<close>

definition echo :: callback where
  "echo = (\<lambda>cm. Some (NewMQResponseMessage (cm_Body cm) (Some cm)))"

definition demo_worker :: MockMQ where
  "demo_worker = \<lparr>w_Name = ''a'', consumerRegisters = Map.empty, waitingResponseMessages = Some Map.empty,
     waitingResponseTopic = ''rpc-1''\<rparr>"

definition started_world :: mock_world where
  "started_world = init_world\<lparr>mockInstances := [''a'' \<mapsto> demo_worker],
     topicQueues := [''rpc-1'' \<mapsto> \<lparr>q_topic = ''rpc-1'', q_messages = [], q_subscribes = [OnReply ''a'']\<rparr>]\<rparr>"

definition demo_world :: mock_world where
  "demo_world = init_world\<lparr>
     mockInstances := [''a'' \<mapsto> demo_worker\<lparr>consumerRegisters := [''t'' \<mapsto> echo]\<rparr>],
     topicQueues := [''rpc-1'' \<mapsto> \<lparr>q_topic = ''rpc-1'', q_messages = [], q_subscribes = [OnReply ''a'']\<rparr>,
       ''t'' \<mapsto> \<lparr>q_topic = ''t'', q_messages = [], q_subscribes = [OnMessage ''a'']\<rparr>]\<rparr>"

lemma started_reachable: "mock_reachable started_world"
proof -
  have fresh: "topicQueues init_world (''rpc-'' @ ''1'') = None" by (simp add: init_world_def)
  have "InitMockMQ 0 0 ''1'' ''a'' init_world = Some started_world"
    using InitMockMQ_eq [OF init_world_inv _ fresh, of "''a''" 0 0]
    by (simp add: started_world_def demo_worker_def init_world_def)
  with fresh show ?thesis by (metis mock_reachable.intros mock_step.init)
qed

lemma demo_reachable: "mock_reachable demo_world"
proof -
  have "Subscribe 0 0 ''a'' ''t'' echo started_world = Some demo_world"
    using Subscribe_eq [OF reachable_inv [OF started_reachable], of "''a''" demo_worker "''t''" 0 0 echo]
    by (simp add: started_world_def demo_world_def demo_worker_def init_world_def subscribed_def)
  then show ?thesis using started_reachable by (metis mock_reachable.step mock_step.subscribe)
qed

text \<open>
  C35. A remote call through the broker works: in a reachable world where worker \<open>v\<close> is
  the one subscriber of the topic and answers what it consumes, a call by worker \<open>n\<close> returns
  with a response waiting for it on the channel it drew; the response carries the answer and
  the correlation id of the call, and the waiting entry is gone.
\<close>

theorem mock_rpc_roundtrip:
  assumes "mock_reachable w" and "mockInstances w n = Some wk" and "mockInstances w v = Some wv"
    and "consumerRegisters wv t = Some (\<lambda>cm. Some (NewMQResponseMessage (f cm) (Some cm)))"
    and "topicQueues w t = Some q" and "q_subscribes q = [OnMessage v]"
    and "topicQueues w (waitingResponseTopic wk) = Some rq" and "q_subscribes rq = [OnReply n]"
  shows "\<exists>w' w'' pm' r. Send (Suc (Suc m)) now uuid n t pm True w = Some (w', pm', Some (next_chan w))
    \<and> Send_receive (next_chan w) w' = Some (r, w'')
    \<and> cm_Body r = f ((NewConsumerMessageFromPublishMessage now pm')\<lparr>cm_ConsumerTag := t\<rparr>)
    \<and> cm_CorrelationID r = (if pm_CorrelationID pm = [] then uuid else pm_CorrelationID pm)
    \<and> waiter_of w'' n (cm_CorrelationID r) = None"
proof -
  let ?k = "pm_CorrelationID (request uuid wk pm)"
  have k: "?k = (if pm_CorrelationID pm = [] then uuid else pm_CorrelationID pm)" by (simp add: request_def)
  obtain w' w'' r where "Send (Suc (Suc m)) now uuid n t pm True w = Some (w', request uuid wk pm, Some (next_chan w))"
      and "Send_receive (next_chan w) w' = Some (r, w'')" and c: "cm_CorrelationID r = ?k"
      and "cm_Body r = f ((NewConsumerMessageFromPublishMessage now (request uuid wk pm))\<lparr>cm_ConsumerTag := t\<rparr>)"
      and "waiter_of w'' n ?k = None"
    using rpc_run [OF reachable_inv [OF assms(1)] assms(2-8) refl refl] by blast
  then show ?thesis using k by metis
qed

lemma demo_served:
  "mockInstances demo_world ''a'' = Some (demo_worker\<lparr>consumerRegisters := [''t'' \<mapsto> echo]\<rparr>)"
  "consumerRegisters (demo_worker\<lparr>consumerRegisters := [''t'' \<mapsto> echo]\<rparr>) ''t''
     = Some (\<lambda>cm. Some (NewMQResponseMessage (cm_Body cm) (Some cm)))"
  "topicQueues demo_world ''t'' = Some \<lparr>q_topic = ''t'', q_messages = [], q_subscribes = [OnMessage ''a'']\<rparr>"
  "q_subscribes \<lparr>q_topic = ''t'', q_messages = [], q_subscribes = [OnMessage ''a'']\<rparr> = [OnMessage ''a'']"
  "topicQueues demo_world (waitingResponseTopic (demo_worker\<lparr>consumerRegisters := [''t'' \<mapsto> echo]\<rparr>))
     = Some \<lparr>q_topic = ''rpc-1'', q_messages = [], q_subscribes = [OnReply ''a'']\<rparr>"
  "q_subscribes \<lparr>q_topic = ''rpc-1'', q_messages = [], q_subscribes = [OnReply ''a'']\<rparr> = [OnReply ''a'']"
  "next_chan demo_world = 0"
  by (simp_all add: demo_world_def init_world_def demo_worker_def echo_def)

lemma mock_rpc_roundtrip_witness:
  "\<exists>w' w'' pm' r. Send (Suc (Suc 0)) 0 ''c1'' ''a'' ''t'' zero_publish True demo_world
      = Some (w', pm', Some 0) \<and> Send_receive 0 w' = Some (r, w'') \<and> cm_CorrelationID r = ''c1''"
proof -
  have "pm_CorrelationID zero_publish = []" by (simp add: zero_publish_def)
  then show ?thesis
    using mock_rpc_roundtrip [OF demo_reachable demo_served(1,1-6), of 0 0 "''c1''" zero_publish]
    unfolding demo_served(7) by metis
qed

lemma mock_reply_once_witness:
  "\<exists>w r w'. mock_reachable w \<and> Send_receive 0 w = Some (r, w') \<and> Send_receive 0 w' = None"
proof -
  obtain w w' r pm' where "Send (Suc (Suc 0)) 0 ''c1'' ''a'' ''t'' zero_publish True demo_world = Some (w, pm', Some 0)"
      and r: "Send_receive 0 w = Some (r, w')"
    using rpc_run [OF reachable_inv [OF demo_reachable] demo_served(1,1-6) refl refl, of 0 0 "''c1''" zero_publish]
    unfolding demo_served(7) by metis
  then have "mock_reachable w" by (metis mock_reachable.step mock_step.send demo_reachable)
  then show ?thesis using mock_reply_once [of w 0 r w' w'] r by blast
qed

text \<open>
  A message published to a topic that nobody has subscribed to yet is lost: the world does
  not change, and the worker that subscribes next finds an empty queue and is called with
  nothing.
\<close>

theorem mock_early_message_lost:
  assumes "mock_reachable w" and "topicQueues w t = None" and "mockInstances w n = Some wk"
    and "consumerRegisters wk t = None"
  shows "qm_publish (Suc m) now t pm w = Some w \<and>
    (\<exists>w'. Subscribe m now n t p w = Some w' \<and> pending w' = pending w
      \<and> topicQueues w' t = Some \<lparr>q_topic = t, q_messages = [], q_subscribes = [OnMessage n]\<rparr>)"
  using assms Subscribe_eq [OF reachable_inv [OF assms(1)] assms(3,4)] by (simp add: subscribed_def)

lemma mock_early_message_lost_witness:
  "qm_publish 1 0 ''t'' zero_publish started_world = Some started_world"
  using mock_early_message_lost [OF started_reachable, of "''t''" "''a''" demo_worker 0 0 zero_publish]
  by (simp add: started_world_def demo_worker_def init_world_def)

text \<open>
  A topic has one consuming worker: when a worker already consumes a topic, the
  subscription of a second worker is recorded in that worker but not in the queue, so the
  messages of the topic never reach it.
\<close>

theorem mock_one_worker_per_topic:
  assumes "mock_reachable w" and "topicQueues w t = Some q" and "OnMessage v \<in> set (q_subscribes q)"
    and "mockInstances w n = Some wk" and "consumerRegisters wk t = None" and "n \<noteq> v"
  shows "OnMessage n \<notin> set (q_subscribes q) \<and>
    (\<exists>w'. Subscribe m now n t p w = Some w' \<and> topicQueues w' = topicQueues w
      \<and> map_option (\<lambda>wk. consumerRegisters wk t) (mockInstances w' n) = Some (Some p))"
proof -
  have inv: "mock_inv w" by (rule reachable_inv [OF assms(1)])
  then have "inj_on code_pointer (set (q_subscribes q))"
    using queue_invD [OF _ assms(2)] by (simp add: mock_inv_def distinct_map)
  then have "OnMessage n \<notin> set (q_subscribes q)"
    using assms(3,6) by (auto dest: inj_onD [where x = "OnMessage n" and y = "OnMessage v"])
  moreover have "code_pointer (OnMessage v) \<in> code_pointer ` set (q_subscribes q)"
    using assms(3) by (rule imageI)
  then have "subscribed w t (OnMessage n) = q"
    using assms(2) by (simp add: subscribed_def)
  ultimately show ?thesis
    using Subscribe_eq [OF inv assms(4,5)] assms(2) by (simp add: map_upd_triv)
qed

lemma mock_one_worker_per_topic_witness:
  "\<exists>w w'. mock_reachable w \<and> Subscribe 0 0 ''b'' ''t'' echo w = Some w' \<and> topicQueues w' = topicQueues w"
proof -
  have inv: "mock_inv demo_world" by (rule reachable_inv [OF demo_reachable])
  have none: "mockInstances demo_world ''b'' = None" and fresh: "topicQueues demo_world (''rpc-'' @ ''2'') = None"
    by (simp_all add: demo_world_def init_world_def)
  obtain w where w: "InitMockMQ 0 0 ''2'' ''b'' demo_world = Some w"
      and q: "topicQueues w ''t'' = Some \<lparr>q_topic = ''t'', q_messages = [], q_subscribes = [OnMessage ''a'']\<rparr>"
      and b: "\<exists>wk. mockInstances w ''b'' = Some wk \<and> consumerRegisters wk ''t'' = None"
    using InitMockMQ_eq [OF inv none fresh, of 0 0] demo_served(3) by simp
  have "mock_reachable w" by (rule mock_reachable.step [OF demo_reachable mock_step.init [OF fresh w]])
  moreover obtain wk where "mockInstances w ''b'' = Some wk" "consumerRegisters wk ''t'' = None" using b by blast
  ultimately show ?thesis
    using mock_one_worker_per_topic [of w "''t''" _ "''a''" "''b''" wk 0 0 echo] q by fastforce
qed

lemma self_reply_diverges:
  assumes "mockInstances w v = Some wv" and "v \<notin> m1_held w"
    and "consumerRegisters wv t = Some (\<lambda>cm. Some (NewMQResponseMessage (f cm) (Some cm)))"
    and "topicQueues w t = Some q" and "q_topic q = t" and "q_subscribes q = [OnMessage v]" and "t \<noteq> []"
  shows "pm_ReplyTo pm = t \<Longrightarrow> qm_publish m now t pm w = None"
proof (induction m arbitrary: pm)
  case (Suc m)
  then show ?case
    using assms publish_single [of w t q "OnMessage v" m now pm]
    by (simp add: mockDoCallback_def bindToOnMessage_def del: qm_publish.simps)
qed simp

lemma reply_returns: "m2_held v = {} \<Longrightarrow> \<exists>v'. bindToReplyMessage n cm v = Some (v', None)"
  by (auto simp: bindToReplyMessage_def split: option.split)

lemma call_returns: "m1_held v = {} \<Longrightarrow> m2_held v = {} \<Longrightarrow> \<exists>v' r. call_subscriber cb cm v = Some (v', r)"
  by (cases cb) (auto simp: bindToOnMessage_def bindToReplyMessage_def split: option.split)

lemma reply_only_returns:
  assumes "mock_inv w" and "topicQueues w t = Some q" and "list_all (\<lambda>cb. \<exists>n. cb = OnReply n) (q_subscribes q)"
  shows "\<exists>w'. qm_publish (Suc m) now t msg w = Some w'"
proof -
  have "\<exists>w'. deliver pub cbs cm v = Some w'"
    if "mock_inv v" and "list_all (\<lambda>cb. \<exists>n. cb = OnReply n) cbs" for pub cbs cm v
    using that
  proof (induction cbs arbitrary: v)
    case (Cons cb cbs)
    then obtain n where cb: "cb = OnReply n" by auto
    have held: "m2_held v = {}" using Cons.prems by (simp add: mock_inv_def)
    then obtain v' where v': "bindToReplyMessage n cm v = Some (v', None)"
      using reply_returns by blast
    then have "chan_inv v'" and f: "same_frame v v'"
      using chan_inv_call [of v cb cm v' None] Cons.prems(1) cb by (auto simp: mock_inv_def)
    then have "mock_inv v'"
      using Cons.prems(1) worker_inv_frame [OF _ f] queue_inv_cong [of v' v] by (simp add: mock_inv_def same_frame_def)
    then show ?case using Cons v' cb by (simp add: mockDoCallback_def)
  qed simp
  then show ?thesis using assms by (simp add: q_publish_def)
qed

lemma publish_returns:
  assumes inv: "mock_inv w"
    and reply: "\<And>q. topicQueues w (pm_ReplyTo pm) = Some q \<Longrightarrow> list_all (\<lambda>cb. \<exists>n. cb = OnReply n) (q_subscribes q)"
  shows "\<exists>w'. qm_publish (Suc (Suc m)) now t pm w = Some w'"
proof -
  have pub: "\<exists>v'. qm_publish (Suc m) now (pm_ReplyTo pm) r v = Some v'" if "mock_inv v" and "same_frame w v" for r v
  proof (cases "topicQueues v (pm_ReplyTo pm)")
    case (Some q)
    then show ?thesis using reply_only_returns [OF that(1) Some] reply that(2) by (simp add: same_frame_def)
  qed simp
  have "\<exists>w'. deliver (qm_publish (Suc m) now) cbs cm v = Some w'"
    if "mock_inv v" and "same_frame w v" and "cm_ReplyTo cm = pm_ReplyTo pm" for cbs cm v
    using that
  proof (induction cbs arbitrary: v)
    case (Cons cb cbs)
    have "m1_held v = {}" "m2_held v = {}" using Cons.prems by (simp_all add: mock_inv_def)
    then obtain v1 r where v1: "call_subscriber cb cm v = Some (v1, r)"
      using call_returns by blast
    then have "chan_inv v1" and f: "same_frame v v1"
      using chan_inv_call Cons.prems(1) by (auto simp: mock_inv_def)
    then have i1: "mock_inv v1"
      using Cons.prems(1) worker_inv_frame [OF _ f] queue_inv_cong [of v1 v] by (simp add: mock_inv_def same_frame_def)
    have f1: "same_frame w v1" using Cons.prems(2) f by (rule same_frame_trans)
    have "\<exists>v2. mockDoCallback (qm_publish (Suc m) now) cb cm v = Some v2
        \<and> (v2 = v1 \<or> (\<exists>r. qm_publish (Suc m) now (pm_ReplyTo pm) r v1 = Some v2))"
    proof (cases r)
      case (Some a)
      then show ?thesis using v1 pub [OF i1 f1, of a] Cons.prems(3)
        by (auto simp: mockDoCallback_def simp del: qm_publish.simps)
    qed (use v1 in \<open>simp add: mockDoCallback_def\<close>)
    then obtain v2 where v2: "mockDoCallback (qm_publish (Suc m) now) cb cm v = Some v2"
        and "v2 = v1 \<or> (\<exists>r. qm_publish (Suc m) now (pm_ReplyTo pm) r v1 = Some v2)"
      by blast
    then have "mock_inv v2 \<and> same_frame w v2"
      using publish_frame [OF i1] i1 f1 same_frame_trans by blast
    then show ?case using Cons.IH Cons.prems(3) v2 by (simp del: qm_publish.simps)
  qed simp
  then show ?thesis
    using inv unfolding qm_publish.simps(2) [of "Suc m" now t]
    by (simp add: q_publish_def del: qm_publish.simps split: option.split)
qed

text \<open>
  C37. Publishing returns, with fuel two, when the reply topic of the message is served by
  waiting calls only; it never returns when a consumer answers a message whose reply topic is
  its own topic.
\<close>

theorem mock_publish_termination:
  assumes "mock_reachable w"
    and "\<And>q. topicQueues w (pm_ReplyTo pm) = Some q \<Longrightarrow> list_all (\<lambda>cb. \<exists>n. cb = OnReply n) (q_subscribes q)"
    and "mockInstances w v = Some wv"
    and "consumerRegisters wv s = Some (\<lambda>cm. Some (NewMQResponseMessage (f cm) (Some cm)))"
    and "topicQueues w s = Some qs" and "q_subscribes qs = [OnMessage v]" and "s \<noteq> []"
  shows "(\<exists>w'. qm_publish (Suc (Suc m)) now t pm w = Some w') \<and>
    qm_publish k now s (pm\<lparr>pm_ReplyTo := s\<rparr>) w = None"
proof -
  have inv: "mock_inv w" by (rule reachable_inv [OF assms(1)])
  then have "q_topic qs = s" and "v \<notin> m1_held w"
    using queue_invD [OF _ assms(5)] by (simp_all add: mock_inv_def)
  then have "qm_publish k now s (pm\<lparr>pm_ReplyTo := s\<rparr>) w = None"
    using self_reply_diverges [OF assms(3) _ assms(4,5) _ assms(6,7)] by simp
  then show ?thesis using publish_returns [OF inv assms(2)] by blast
qed

lemma mock_publish_termination_witness:
  "(\<exists>w'. qm_publish (Suc (Suc 0)) 0 ''t'' zero_publish demo_world = Some w') \<and>
   qm_publish 100 0 ''t'' (zero_publish\<lparr>pm_ReplyTo := ''t''\<rparr>) demo_world = None"
proof (rule mock_publish_termination [OF demo_reachable _ demo_served(1,2,3,4)])
  show "list_all (\<lambda>cb. \<exists>n. cb = OnReply n) (q_subscribes q)"
    if "topicQueues demo_world (pm_ReplyTo zero_publish) = Some q" for q
    using that by (simp add: demo_world_def zero_publish_def)
qed simp

end
