(* ===== verification/Go_Strings.thy ===== *)
theory Go_Strings
  imports Go_Prelude
begin

text \<open>
  Further functions of the package \<open>strings\<close>: \<open>Split\<close> at a one-byte separator, inverse to
  \<open>Join\<close>, and \<open>TrimSpace\<close>.  White space is that of ASCII.
\<close>

section \<open>Splitting\<close>

fun go_split :: "char \<Rightarrow> string \<Rightarrow> string list" where
  "go_split sep [] = [[]]"
| "go_split sep (x # s) =
     (if x = sep then [] # go_split sep s
      else (case go_split sep s of [] \<Rightarrow> [[x]] | p # ps \<Rightarrow> (x # p) # ps))"

lemma go_split_nonempty [simp]: "go_split sep s \<noteq> []"
  by (induction s) (auto split: list.split)

lemma go_split_parts: "p \<in> set (go_split sep s) \<Longrightarrow> sep \<notin> set p"
  by (induction s arbitrary: p) (auto split: list.splits if_splits)

lemma go_split_append_sep:
  "sep \<notin> set p \<Longrightarrow> go_split sep (p @ sep # s) = p # go_split sep s"
  by (induction p) auto

lemma go_split_no_sep: "sep \<notin> set p \<Longrightarrow> go_split sep p = [p]"
  by (induction p) auto

lemma go_join_Cons: "ps \<noteq> [] \<Longrightarrow> go_join (p # ps) sep = p @ sep @ go_join ps sep"
  by (cases ps) auto

lemma split_join:
  assumes "ps \<noteq> []" and "\<And>p. p \<in> set ps \<Longrightarrow> sep \<notin> set p"
  shows "go_split sep (go_join ps [sep]) = ps"
  using assms
proof (induction ps)
  case (Cons p ps)
  then show ?case
    by (cases "ps = []") (auto simp: go_split_no_sep go_join_Cons go_split_append_sep)
qed simp

lemma join_split [simp]: "go_join (go_split sep s) [sep] = s"
proof (induction s)
  case (Cons x s)
  then show ?case
    by (cases "go_split sep s") (auto simp: go_join_Cons, (metis append_Cons go_join.simps(2) go_join_Cons)+)
qed simp

lemma length_go_split: "length (go_split sep s) = Suc (count_list s sep)"
  by (induction s) (auto split: list.splits)

lemma go_split_short: "length (go_split sep s) < 2 \<longleftrightarrow> sep \<notin> set s"
proof -
  have "count_list s sep = 0 \<longleftrightarrow> sep \<notin> set s" by (induction s) auto
  then show ?thesis by (simp add: length_go_split)
qed

section \<open>White space\<close>

definition is_space :: "char \<Rightarrow> bool" where
  "is_space c \<longleftrightarrow> c \<in> {CHR 0x09, CHR 0x0A, CHR 0x0B, CHR 0x0C, CHR 0x0D, CHR '' ''}"

definition trim_space :: "string \<Rightarrow> string" where
  "trim_space s = rev (dropWhile is_space (rev (dropWhile is_space s)))"

lemma set_dropWhile_iff: "\<not> P x \<Longrightarrow> x \<in> set (dropWhile P xs) \<longleftrightarrow> x \<in> set xs"
  by (induction xs) auto

lemma set_trim_space: "x \<in> set (trim_space s) \<Longrightarrow> x \<in> set s"
  by (auto simp: trim_space_def dest!: set_dropWhileD)

lemma trim_space_keeps: "\<not> is_space x \<Longrightarrow> x \<in> set (trim_space s) \<longleftrightarrow> x \<in> set s"
  by (simp add: trim_space_def set_dropWhile_iff)

lemma dropWhile_hd: "dropWhile P xs = x # ys \<Longrightarrow> \<not> P x"
  by (induction xs) (auto split: if_splits)

lemma trim_space_idem [simp]: "trim_space (trim_space s) = trim_space s"
proof -
  define a where "a = dropWhile is_space s"
  define b where "b = rev (dropWhile is_space (rev a))"
  have s: "trim_space s = b" by (simp add: trim_space_def a_def b_def)
  obtain t where t: "a = b @ t"
    by (metis b_def rev_append rev_rev_ident takeWhile_dropWhile_id)
  have "dropWhile is_space b = b"
  proof (cases b)
    case (Cons x ys)
    then have "\<not> is_space x" using t dropWhile_hd [of is_space s x "ys @ t"] by (simp add: a_def)
    then show ?thesis using Cons by simp
  qed simp
  moreover have "dropWhile is_space (rev b) = rev b" by (simp add: b_def dropWhile_idem)
  ultimately show ?thesis by (simp add: s) (simp add: trim_space_def)
qed

end
