(* ===== verification/Mq_Routes.thy ===== *)
theory Mq_Routes
  imports Go_Strings Keyed_Store Mq_Messages "HOL-Library.Multiset"
begin

text \<open>
  \<open>mq/mqroutes.go\<close> and \<open>mq/index.go\<close>: the registry that maps a topic category to its
  configuration and its driver, the start of a driver for a category, and the dispatch of
  consume, publish and query calls.  The drivers are the four broker clients; what reaches them
  is a value: \<open>driver_start\<close> for a client that is started and \<open>backend_call\<close> for a call on a
  started one.  Whether a start fails, and whether an instance is running, are parameters.  Each
  map of the package is behind a mutex and each access is one step.
\<close>

section \<open>Configuration\<close>

record Exchange =
  ex_Type :: string
  ex_Name :: string
  ex_Durable :: bool

record Config =
  cfg_Instance :: string
  cfg_Queue :: string
  cfg_Exchange :: Exchange
  cfg_BindingKey :: string
  cfg_RoutingKeys :: "(string \<rightharpoonup> string) option"
  cfg_Durable :: bool
  cfg_AutoDelete :: bool
  cfg_RPCEnabled :: bool
  cfg_Topic :: string
  cfg_GroupID :: string
  cfg_Partition :: int
  cfg_MaxPollIntervalMS :: int
  cfg_MessageType :: string
  cfg_UseOriginalContent :: bool

definition zero_config :: Config where
  "zero_config = \<lparr>cfg_Instance = [], cfg_Queue = [], cfg_Exchange = \<lparr>ex_Type = [], ex_Name = [], ex_Durable = False\<rparr>,
     cfg_BindingKey = [], cfg_RoutingKeys = None, cfg_Durable = False, cfg_AutoDelete = False,
     cfg_RPCEnabled = False, cfg_Topic = [], cfg_GroupID = [], cfg_Partition = 0, cfg_MaxPollIntervalMS = 0,
     cfg_MessageType = [], cfg_UseOriginalContent = False\<rparr>"

record MQConnectorConfig =
  conn_Driver :: string
  conn_Host :: string
  conn_Port :: int
  conn_Path :: string
  conn_User :: string
  conn_Password :: string
  conn_Timeout :: int
  conn_Heartbeat :: int
  conn_Disabled :: bool
  conn_SSHTunnelDSN :: string

record AMQPConfig =
  amqp_ConnConfigName :: string
  amqp_Queue :: string
  amqp_QueueDurable :: bool
  amqp_BindingExchange :: bool
  amqp_ExchangeName :: string
  amqp_ExchangeType :: string
  amqp_BindingKey :: string
  amqp_QueueAutoDelete :: bool

record KafkaConfig =
  kafka_Hosts :: string
  kafka_Partition :: int
  kafka_GroupID :: string
  kafka_MaxPollIntervalMS :: int
  kafka_SaslUsername :: string
  kafka_SaslPassword :: string
  kafka_MessageType :: string
  kafka_UseOriginalContent :: bool

record PulsarConfig =
  pulsar_Topic :: string
  pulsar_ConnConfigName :: string
  pulsar_MessageType :: string

definition DriverTypeAMQP :: string where "DriverTypeAMQP = ''rabbitmq''"
definition DriverTypeKafka :: string where "DriverTypeKafka = ''kafka''"
definition DriverTypePulsar :: string where "DriverTypePulsar = ''pulsar''"

lemmas driver_names = DriverTypeAMQP_def DriverTypeKafka_def DriverTypePulsar_def DriverTypeMock_def

datatype driver_start =
    StartAMQP string MQConnectorConfig AMQPConfig
  | StartRPC string int MQConnectorConfig AMQPConfig
  | StartKafka string KafkaConfig
  | StartPulsar string MQConnectorConfig PulsarConfig
  | StartMock string MQConnectorConfig

datatype mq_error =
    NilTopicConfig
  | InstanceNotConfigured
  | UnknownDriver string
  | StartFailed driver_start
  | InvalidRPCConfig
  | RPCDriverUnsupported
  | InvalidCategory
  | InstanceNotRunning

section \<open>The registry\<close>

record mq_state =
  MQs :: "string \<rightharpoonup> Config"
  mqCategoryDrivers :: "string \<rightharpoonup> string"
  mqCategoriesByInstance :: "string \<rightharpoonup> (string \<rightharpoonup> bool)"
  mqConnConfigs :: "string \<rightharpoonup> MQConnectorConfig"
  started :: "driver_start list"

definition init_mq :: mq_state where
  "init_mq = \<lparr>MQs = Map.empty, mqCategoryDrivers = Map.empty, mqCategoriesByInstance = Map.empty,
     mqConnConfigs = Map.empty, started = []\<rparr>"

definition GetMQConfig :: "mq_state \<Rightarrow> string \<Rightarrow> Config option" where
  "GetMQConfig st category = MQs st category"

definition SetMQConfig :: "mq_state \<Rightarrow> string \<Rightarrow> Config \<Rightarrow> mq_state" where
  "SetMQConfig st category cnf = st\<lparr>MQs := (MQs st)(category \<mapsto> cnf)\<rparr>"

definition GetMQRoutes :: "mq_state \<Rightarrow> string \<rightharpoonup> Config" where
  "GetMQRoutes st = Map.empty ++ MQs st"

definition driver_of :: "mq_state \<Rightarrow> string \<Rightarrow> string" where
  "driver_of st category = (case mqCategoryDrivers st category of None \<Rightarrow> [] | Some d \<Rightarrow> d)"

definition HasConnections :: "mq_state \<Rightarrow> bool" where
  "HasConnections st \<longleftrightarrow> mqConnConfigs st \<noteq> Map.empty"

definition GetAllMQDriverConfigs :: "mq_state \<Rightarrow> string \<rightharpoonup> MQConnectorConfig" where
  "GetAllMQDriverConfigs st = Map.empty ++ mqConnConfigs st"

definition add_category :: "string \<Rightarrow> string \<Rightarrow> mq_state \<Rightarrow> mq_state" where
  "add_category inst category st =
     (let cats = (case mqCategoriesByInstance st inst of None \<Rightarrow> Map.empty | Some m \<Rightarrow> m)
      in st\<lparr>mqCategoriesByInstance := (mqCategoriesByInstance st)(inst \<mapsto> cats(category \<mapsto> True))\<rparr>)"

text \<open>Range over a map visits its keys in some order, which is an argument.\<close>

definition GetAllCategoryNamesByInstance :: "string list \<Rightarrow> mq_state \<Rightarrow> string \<Rightarrow> string list" where
  "GetAllCategoryNamesByInstance order st inst =
     (case mqCategoriesByInstance st inst of
        None \<Rightarrow> []
      | Some cats \<Rightarrow> filter (\<lambda>k. cats k \<noteq> None) order)"

definition FindOneCategoryNameByInstance :: "string list \<Rightarrow> mq_state \<Rightarrow> string \<Rightarrow> string" where
  "FindOneCategoryNameByInstance order st inst =
     (case GetAllCategoryNamesByInstance order st inst of [] \<Rightarrow> [] | k # _ \<Rightarrow> k)"

section \<open>Starting a driver\<close>

text \<open>The host list of Kafka: every host without a port gets the port of the connection.\<close>

definition kafka_host :: "int \<Rightarrow> string \<Rightarrow> string" where
  "kafka_host port hostPart =
     (let hostElems = go_split CHR '':'' (trim_space hostPart)
      in if length hostElems < 2 then trim_space (hostElems ! 0) @ '':'' @ itoa port else hostPart)"

definition kafka_hosts :: "string \<Rightarrow> int \<Rightarrow> string" where
  "kafka_hosts hosts port =
     (if 0 < port then go_join (map (kafka_host port) (go_split CHR '','' hosts)) '','' else hosts)"

definition start_of :: "string \<Rightarrow> Config \<Rightarrow> MQConnectorConfig \<Rightarrow> driver_start option" where
  "start_of topicCategory cfg inst =
     (if conn_Driver inst = DriverTypeAMQP then
        Some (StartAMQP topicCategory inst
          \<lparr>amqp_ConnConfigName = cfg_Instance cfg, amqp_Queue = cfg_Queue cfg, amqp_QueueDurable = cfg_Durable cfg,
           amqp_BindingExchange = (ex_Name (cfg_Exchange cfg) \<noteq> []), amqp_ExchangeName = ex_Name (cfg_Exchange cfg),
           amqp_ExchangeType = ex_Type (cfg_Exchange cfg), amqp_BindingKey = cfg_BindingKey cfg,
           amqp_QueueAutoDelete = cfg_AutoDelete cfg\<rparr>)
      else if conn_Driver inst = DriverTypeKafka then
        Some (StartKafka topicCategory
          \<lparr>kafka_Hosts = kafka_hosts (conn_Host inst) (conn_Port inst), kafka_Partition = cfg_Partition cfg,
           kafka_GroupID = cfg_GroupID cfg, kafka_MaxPollIntervalMS = cfg_MaxPollIntervalMS cfg,
           kafka_SaslUsername = conn_User inst, kafka_SaslPassword = conn_Password inst,
           kafka_MessageType = cfg_MessageType cfg, kafka_UseOriginalContent = cfg_UseOriginalContent cfg\<rparr>)
      else if conn_Driver inst = DriverTypePulsar then
        Some (StartPulsar topicCategory inst
          \<lparr>pulsar_Topic = (if cfg_Topic cfg = [] \<and> cfg_Queue cfg \<noteq> [] then cfg_Queue cfg else cfg_Topic cfg),
           pulsar_ConnConfigName = cfg_Instance cfg, pulsar_MessageType = cfg_MessageType cfg\<rparr>)
      else if conn_Driver inst = DriverTypeMock then Some (StartMock topicCategory inst)
      else None)"

definition run_start :: "(driver_start \<Rightarrow> bool) \<Rightarrow> driver_start \<Rightarrow> mq_state \<Rightarrow> mq_state \<times> mq_error option" where
  "run_start fails d st =
     (st\<lparr>started := started st @ [d]\<rparr>, if fails d then Some (StartFailed d) else None)"

text \<open>An AMQP topic with RPC enabled registers and starts nothing.\<close>

definition InitMQTopic :: "(driver_start \<Rightarrow> bool) \<Rightarrow> string \<Rightarrow> Config option \<Rightarrow> (string \<rightharpoonup> MQConnectorConfig) \<Rightarrow> mq_state
    \<Rightarrow> mq_state \<times> mq_error option" where
  "InitMQTopic fails topicCategory topicConfig mqDriverConfigs st =
     (case topicConfig of
        None \<Rightarrow> (st, Some NilTopicConfig)
      | Some cfg \<Rightarrow>
          (case (case mqDriverConfigs (cfg_Instance cfg) of
                   None \<Rightarrow> mqConnConfigs st (cfg_Instance cfg)
                 | Some c \<Rightarrow> Some c) of
             None \<Rightarrow> (st, Some InstanceNotConfigured)
           | Some instCnf \<Rightarrow>
               let st = (if mqDriverConfigs (cfg_Instance cfg) \<noteq> None \<and> mqConnConfigs st (cfg_Instance cfg) = None
                         then st\<lparr>mqConnConfigs := (mqConnConfigs st)(cfg_Instance cfg \<mapsto> instCnf)\<rparr> else st);
                   st = (if GetMQConfig st topicCategory = None then SetMQConfig st topicCategory cfg else st);
                   st = st\<lparr>mqCategoryDrivers := (mqCategoryDrivers st)(topicCategory \<mapsto> conn_Driver instCnf)\<rparr>;
                   st = add_category (cfg_Instance cfg) topicCategory st
               in (case start_of topicCategory cfg instCnf of
                     None \<Rightarrow> (st, Some (UnknownDriver (conn_Driver instCnf)))
                   | Some d \<Rightarrow>
                       if conn_Driver instCnf = DriverTypeAMQP \<and> cfg_RPCEnabled cfg then (st, None)
                       else run_start fails d st)))"

primrec init_topics :: "(driver_start \<Rightarrow> bool) \<Rightarrow> (string \<times> Config) list \<Rightarrow> (string \<rightharpoonup> MQConnectorConfig) \<Rightarrow>
    mq_state \<times> mq_error option \<Rightarrow> mq_state \<times> mq_error option" where
  "init_topics fails [] drivers r = r"
| "init_topics fails (t # ts) drivers r =
     (case InitMQTopic fails (fst t) (Some (snd t)) drivers (fst r) of
        (st, err) \<Rightarrow> init_topics fails ts drivers (st, if err \<noteq> None then err else snd r))"

definition InitWithMQRoutes :: "(driver_start \<Rightarrow> bool) \<Rightarrow> (string \<times> Config) list \<Rightarrow> (string \<rightharpoonup> MQConnectorConfig) \<Rightarrow>
    mq_state \<Rightarrow> mq_state \<times> mq_error option" where
  "InitWithMQRoutes fails mqRoutes mqDriverConfigs st = init_topics fails mqRoutes mqDriverConfigs (st, None)"

text \<open>
  \<open>Init\<close> once the route file is read: the connections of the argument are recorded unless
  they are disabled or already known, then every topic is started.  \<open>order\<close> and \<open>names\<close> are
  the iteration orders of the two maps.
\<close>

fun record_connections :: "string list \<Rightarrow> (string \<rightharpoonup> MQConnectorConfig) \<Rightarrow> mq_state \<Rightarrow> mq_state" where
  "record_connections [] configs st = st"
| "record_connections (name # names) configs st =
     record_connections names configs
       (case configs name of
          None \<Rightarrow> st
        | Some cfg \<Rightarrow>
            if conn_Disabled cfg then st
            else if mqConnConfigs st name = None
            then st\<lparr>mqConnConfigs := (mqConnConfigs st)(name \<mapsto> cfg)\<rparr> else st)"

definition Init_mq :: "(driver_start \<Rightarrow> bool) \<Rightarrow> (string \<times> Config) list \<Rightarrow> string list \<Rightarrow> (string \<rightharpoonup> MQConnectorConfig) \<Rightarrow>
    mq_state \<Rightarrow> mq_state \<times> mq_error option" where
  "Init_mq fails routes names mqDriverConfigs st =
     InitWithMQRoutes fails routes mqDriverConfigs (record_connections names mqDriverConfigs st)"

definition InitMQWithRPC :: "(driver_start \<Rightarrow> bool) \<Rightarrow> string \<Rightarrow> int \<Rightarrow> MQConnectorConfig option \<Rightarrow> Config option \<Rightarrow>
    mq_state \<Rightarrow> mq_state \<times> mq_error option" where
  "InitMQWithRPC fails topicCategory rpcType connCfg mqCfg st =
     (case (mqCfg, connCfg) of
        (Some cfg, Some conn) \<Rightarrow>
          let st = (if GetMQConfig st topicCategory = None then SetMQConfig st topicCategory cfg else st)
          in if conn_Driver conn = DriverTypeAMQP then
               let st = (if driver_of st topicCategory = []
                         then st\<lparr>mqCategoryDrivers := (mqCategoryDrivers st)(topicCategory \<mapsto> conn_Driver conn)\<rparr> else st);
                   st = add_category (cfg_Instance cfg) topicCategory st
               in run_start fails
                    (StartRPC topicCategory rpcType conn
                      \<lparr>amqp_ConnConfigName = [], amqp_Queue = cfg_Queue cfg, amqp_QueueDurable = cfg_Durable cfg,
                       amqp_BindingExchange = (ex_Name (cfg_Exchange cfg) \<noteq> []), amqp_ExchangeName = ex_Name (cfg_Exchange cfg),
                       amqp_ExchangeType = ex_Type (cfg_Exchange cfg), amqp_BindingKey = cfg_BindingKey cfg,
                       amqp_QueueAutoDelete = cfg_AutoDelete cfg\<rparr>) st
             else (st, Some RPCDriverUnsupported)
      | _ \<Rightarrow> (st, Some InvalidRPCConfig))"

section \<open>Dispatch\<close>

datatype backend = RabbitMQ | RPCRabbitMQ | Kafka | Pulsar | Mock

datatype backend_call =
    Consume backend string "string option"
  | Publish backend string MQPublishMessage
  | SendTopic backend string string MQPublishMessage bool
  | QueryRPC backend string MQPublishMessage

definition with_instance :: "(backend \<Rightarrow> string \<Rightarrow> bool) \<Rightarrow> backend \<Rightarrow> string \<Rightarrow> backend_call \<Rightarrow> mq_error + backend_call" where
  "with_instance running b category c = (if running b category then Inr c else Inl InstanceNotRunning)"

definition ConsumeMQ :: "(backend \<Rightarrow> string \<Rightarrow> bool) \<Rightarrow> mq_state \<Rightarrow> string \<Rightarrow> string \<Rightarrow> mq_error + backend_call" where
  "ConsumeMQ running st category queue =
     (case GetMQConfig st category of
        None \<Rightarrow> Inl InvalidCategory
      | Some cfg \<Rightarrow>
          let mqDriver = driver_of st category in
          if mqDriver = DriverTypeAMQP then
            (if cfg_RPCEnabled cfg
             then with_instance running RPCRabbitMQ category (Consume RPCRabbitMQ category (Some (ex_Name (cfg_Exchange cfg))))
             else with_instance running RabbitMQ category (Consume RabbitMQ category (Some (ex_Name (cfg_Exchange cfg)))))
          else if mqDriver = DriverTypeKafka then with_instance running Kafka category (Consume Kafka category (Some queue))
          else if mqDriver = DriverTypePulsar then with_instance running Pulsar category (Consume Pulsar category None)
          else if mqDriver = DriverTypeMock then with_instance running Mock category (Consume Mock category (Some queue))
          else Inl (UnknownDriver mqDriver))"

definition PublishMQ :: "(backend \<Rightarrow> string \<Rightarrow> bool) \<Rightarrow> mq_state \<Rightarrow> string \<Rightarrow> MQPublishMessage \<Rightarrow> mq_error + backend_call" where
  "PublishMQ running st category pm =
     (case GetMQConfig st category of
        None \<Rightarrow> Inl InvalidCategory
      | Some cfg \<Rightarrow>
          let mqDriver = driver_of st category in
          if mqDriver = DriverTypeAMQP then
            (if cfg_RPCEnabled cfg then with_instance running RPCRabbitMQ category (Publish RPCRabbitMQ category pm)
             else with_instance running RabbitMQ category (Publish RabbitMQ category pm))
          else if mqDriver = DriverTypeKafka
          then with_instance running Kafka category (SendTopic Kafka category (pm_Exchange pm) pm False)
          else if mqDriver = DriverTypePulsar then with_instance running Pulsar category (Publish Pulsar category pm)
          else if mqDriver = DriverTypeMock
          then with_instance running Mock category (SendTopic Mock category (cfg_Topic cfg) pm False)
          else Inl (UnknownDriver mqDriver))"

definition QueryMQ :: "(backend \<Rightarrow> string \<Rightarrow> bool) \<Rightarrow> mq_state \<Rightarrow> string \<Rightarrow> MQPublishMessage \<Rightarrow> mq_error + backend_call" where
  "QueryMQ running st category pm =
     (case GetMQConfig st category of
        None \<Rightarrow> Inl InvalidCategory
      | Some cfg \<Rightarrow>
          let mqDriver = driver_of st category in
          if mqDriver = DriverTypeAMQP then with_instance running RabbitMQ category (QueryRPC RabbitMQ category pm)
          else if mqDriver = DriverTypeKafka
          then with_instance running Kafka category (SendTopic Kafka category (pm_Exchange pm) pm True)
          else if mqDriver = DriverTypePulsar then with_instance running Pulsar category (QueryRPC Pulsar category pm)
          else if mqDriver = DriverTypeMock
          then with_instance running Mock category (SendTopic Mock category (cfg_Topic cfg) pm True)
          else Inl (UnknownDriver mqDriver))"

definition QueryMQRPC :: "(backend \<Rightarrow> string \<Rightarrow> bool) \<Rightarrow> mq_state \<Rightarrow> string \<Rightarrow> MQPublishMessage \<Rightarrow> mq_error + backend_call" where
  "QueryMQRPC running st category pm = QueryMQ running st category pm"

definition InitMockMQTopic :: "(driver_start \<Rightarrow> bool) \<Rightarrow> string \<Rightarrow> string \<Rightarrow> mq_state \<Rightarrow> mq_state" where
  "InitMockMQTopic fails category topic st =
     (let conn = \<lparr>conn_Driver = DriverTypeMock, conn_Host = [], conn_Port = 0, conn_Path = [], conn_User = [],
                  conn_Password = [], conn_Timeout = 0, conn_Heartbeat = 0, conn_Disabled = False, conn_SSHTunnelDSN = []\<rparr>
      in fst (InitMQTopic fails category (Some (zero_config\<lparr>cfg_Instance := category, cfg_Topic := topic\<rparr>))
                [category \<mapsto> conn] st))"

section \<open>The route table is a keyed store\<close>

interpretation routes: keyed_store GetMQConfig SetMQConfig "\<lambda>st k. st\<lparr>MQs := (MQs st)(k := None)\<rparr>"
  by unfold_locales (auto simp: GetMQConfig_def SetMQConfig_def fun_eq_iff)

section \<open>Kafka hosts\<close>

lemma itoa_no_char:
  assumes "\<not> is_digit_char c" and "c \<noteq> CHR ''-''"
  shows "c \<notin> set (itoa i)"
  using itoa_chars assms by blast

lemma kafka_host_no_comma:
  assumes "CHR '','' \<notin> set h"
  shows "CHR '','' \<notin> set (kafka_host port h)"
proof (cases "length (go_split CHR '':'' (trim_space h)) < 2")
  case True
  then have "go_split CHR '':'' (trim_space h) = [trim_space h]"
    by (simp add: go_split_short go_split_no_sep)
  then show ?thesis
    using assms itoa_no_char [of "CHR '',''" port] set_trim_space [of "CHR '',''" h]
    by (auto simp: kafka_host_def is_digit_char_def)
qed (use assms in \<open>simp add: kafka_host_def Let_def\<close>)

lemma kafka_host_has_port: "CHR '':'' \<in> set (kafka_host port h)"
proof (cases "length (go_split CHR '':'' (trim_space h)) < 2")
  case False
  then have "CHR '':'' \<in> set (trim_space h)" by (simp add: go_split_short)
  with False show ?thesis by (simp add: kafka_host_def Let_def set_trim_space)
qed (simp add: kafka_host_def Let_def)

lemma kafka_host_done: "CHR '':'' \<in> set h \<Longrightarrow> kafka_host port h = h"
  using trim_space_keeps [of "CHR '':''" h] go_split_short [of "CHR '':''" "trim_space h"]
  by (simp add: kafka_host_def Let_def is_space_def)

lemma split_kafka_hosts:
  assumes "0 < port"
  shows "go_split CHR '','' (kafka_hosts hosts port) = map (kafka_host port) (go_split CHR '','' hosts)"
proof -
  have "CHR '','' \<notin> set p" if "p \<in> set (map (kafka_host port) (go_split CHR '','' hosts))" for p
    using that kafka_host_no_comma [OF go_split_parts] by auto
  then have "go_split CHR '','' (go_join (map (kafka_host port) (go_split CHR '','' hosts)) '','')
      = map (kafka_host port) (go_split CHR '','' hosts)"
    by (intro split_join) simp_all
  then show ?thesis using assms by (simp add: kafka_hosts_def)
qed

text \<open>
  Completing the host list of a Kafka connection keeps the number and the order of the
  hosts, gives every host a port, leaves a host that had one as it was, and is idempotent,
  whatever the second port.
\<close>

theorem kafka_hosts_complete:
  assumes "0 < port"
  shows "go_split CHR '','' (kafka_hosts hosts port) = map (kafka_host port) (go_split CHR '','' hosts)
    \<and> list_all (\<lambda>h. CHR '':'' \<in> set h) (go_split CHR '','' (kafka_hosts hosts port))
    \<and> kafka_host port h = (if CHR '':'' \<in> set h then h else trim_space h @ '':'' @ itoa port)
    \<and> kafka_hosts (kafka_hosts hosts port) port' = kafka_hosts hosts port"
proof -
  have "kafka_host port h = trim_space h @ '':'' @ itoa port" if "CHR '':'' \<notin> set h"
  proof -
    have no: "CHR '':'' \<notin> set (trim_space h)" using that set_trim_space by metis
    then have "go_split CHR '':'' (trim_space h) = [trim_space h]" by (rule go_split_no_sep)
    then show ?thesis by (simp add: kafka_host_def)
  qed
  then have "kafka_host port h = (if CHR '':'' \<in> set h then h else trim_space h @ '':'' @ itoa port)"
    using kafka_host_done [of h port] by simp
  moreover have "list_all (\<lambda>h. CHR '':'' \<in> set h) (go_split CHR '','' (kafka_hosts hosts port))"
    unfolding split_kafka_hosts [OF assms] by (simp add: list_all_iff kafka_host_has_port)
  moreover have "kafka_hosts (kafka_hosts hosts port) port' = kafka_hosts hosts port"
  proof (cases "0 < port'")
    case True
    have "map (kafka_host port') (go_split CHR '','' (kafka_hosts hosts port)) = go_split CHR '','' (kafka_hosts hosts port)"
      unfolding split_kafka_hosts [OF assms] by (simp add: kafka_host_has_port kafka_host_done)
    with True show ?thesis by (simp add: kafka_hosts_def [of _ port'])
  qed (simp add: kafka_hosts_def)
  ultimately show ?thesis using split_kafka_hosts [OF assms, of hosts] by blast
qed

lemma kafka_hosts_complete_witness:
  "kafka_hosts (kafka_hosts ''k1, k2:9093'' 80) 1 = kafka_hosts ''k1, k2:9093'' 80
   \<and> kafka_hosts ''k1, k2:9093'' 80 = ''k1:80, k2:9093''"
proof -
  have "itoa 80 = ''80''" by code_simp
  then have "kafka_hosts ''k1, k2:9093'' 80 = ''k1:80, k2:9093''"
    by (simp add: kafka_hosts_def kafka_host_def trim_space_def is_space_def)
  then show ?thesis using kafka_hosts_complete [of 80 "''k1, k2:9093''" "[]" 1] by simp
qed

section \<open>Starting and dispatching\<close>

definition resolve :: "(string \<rightharpoonup> MQConnectorConfig) \<Rightarrow> mq_state \<Rightarrow> Config \<Rightarrow> MQConnectorConfig option" where
  "resolve drivers st cfg =
     (case drivers (cfg_Instance cfg) of None \<Rightarrow> mqConnConfigs st (cfg_Instance cfg) | Some c \<Rightarrow> Some c)"

definition registered :: "string \<Rightarrow> Config \<Rightarrow> (string \<rightharpoonup> MQConnectorConfig) \<Rightarrow> MQConnectorConfig \<Rightarrow> mq_state \<Rightarrow> mq_state" where
  "registered category cfg drivers inst st =
     (let st = (if drivers (cfg_Instance cfg) \<noteq> None \<and> mqConnConfigs st (cfg_Instance cfg) = None
                then st\<lparr>mqConnConfigs := (mqConnConfigs st)(cfg_Instance cfg \<mapsto> inst)\<rparr> else st);
          st = (if GetMQConfig st category = None then SetMQConfig st category cfg else st);
          st = st\<lparr>mqCategoryDrivers := (mqCategoryDrivers st)(category \<mapsto> conn_Driver inst)\<rparr>
      in add_category (cfg_Instance cfg) category st)"

lemma InitMQTopic_eq:
  "InitMQTopic fails category (Some cfg) drivers st =
     (case resolve drivers st cfg of
        None \<Rightarrow> (st, Some InstanceNotConfigured)
      | Some inst \<Rightarrow>
          (case start_of category cfg inst of
             None \<Rightarrow> (registered category cfg drivers inst st, Some (UnknownDriver (conn_Driver inst)))
           | Some d \<Rightarrow>
               if conn_Driver inst = DriverTypeAMQP \<and> cfg_RPCEnabled cfg
               then (registered category cfg drivers inst st, None)
               else run_start fails d (registered category cfg drivers inst st)))"
  unfolding InitMQTopic_def resolve_def registered_def Let_def option.case by (rule refl)

lemma registered_fields [simp]:
  "MQs (registered category cfg drivers inst st) =
     (case MQs st category of None \<Rightarrow> (MQs st)(category \<mapsto> cfg) | Some _ \<Rightarrow> MQs st)"
  "mqCategoryDrivers (registered category cfg drivers inst st) = (mqCategoryDrivers st)(category \<mapsto> conn_Driver inst)"
  "started (registered category cfg drivers inst st) = started st"
  "mqConnConfigs (registered category cfg drivers inst st) =
     (if drivers (cfg_Instance cfg) \<noteq> None \<and> mqConnConfigs st (cfg_Instance cfg) = None
      then (mqConnConfigs st)(cfg_Instance cfg \<mapsto> inst) else mqConnConfigs st)"
  by (simp_all add: registered_def add_category_def Let_def SetMQConfig_def GetMQConfig_def split: option.split)

lemma run_start_fields [simp]:
  "MQs (fst (run_start fails d st)) = MQs st"
  "mqCategoryDrivers (fst (run_start fails d st)) = mqCategoryDrivers st"
  "mqConnConfigs (fst (run_start fails d st)) = mqConnConfigs st"
  "started (fst (run_start fails d st)) = started st @ [d]"
  "snd (run_start fails d st) = (if fails d then Some (StartFailed d) else None)"
  by (simp_all add: run_start_def)

text \<open>The client that serves a driver; with RPC the AMQP driver has a client of its own.\<close>

definition backend_of :: "string \<Rightarrow> bool \<Rightarrow> backend option" where
  "backend_of driver rpc =
     (if driver = DriverTypeAMQP then Some (if rpc then RPCRabbitMQ else RabbitMQ)
      else if driver = DriverTypeKafka then Some Kafka
      else if driver = DriverTypePulsar then Some Pulsar
      else if driver = DriverTypeMock then Some Mock
      else None)"

fun call_backend :: "backend_call \<Rightarrow> backend" where
  "call_backend (Consume b _ _) = b"
| "call_backend (Publish b _ _) = b"
| "call_backend (SendTopic b _ _ _ _) = b"
| "call_backend (QueryRPC b _ _) = b"

lemma start_of_iff: "start_of category cfg inst = None \<longleftrightarrow> backend_of (conn_Driver inst) rpc = None"
  by (simp add: start_of_def backend_of_def)

lemma dispatch_known:
  assumes "MQs st category = Some cfg"
  shows "(case backend_of (driver_of st category) (cfg_RPCEnabled cfg) of
      None \<Rightarrow> PublishMQ running st category pm = Inl (UnknownDriver (driver_of st category))
        \<and> ConsumeMQ running st category queue = Inl (UnknownDriver (driver_of st category))
    | Some b \<Rightarrow>
        (if running b category
         then (\<exists>c. PublishMQ running st category pm = Inr c \<and> call_backend c = b)
           \<and> (\<exists>c. ConsumeMQ running st category queue = Inr c \<and> call_backend c = b)
         else PublishMQ running st category pm = Inl InstanceNotRunning
           \<and> ConsumeMQ running st category queue = Inl InstanceNotRunning))"
  using assms
  by (simp add: PublishMQ_def ConsumeMQ_def backend_of_def with_instance_def GetMQConfig_def Let_def driver_names)

text \<open>
  A topic that was initialised without an error, under a category not configured before,
  is served: its configuration and driver are registered, and publish and consume calls reach
  the client of that driver, the RPC client when the topic enables RPC.  A query reaches the
  ordinary client also then, which initialising an RPC topic does not start.
\<close>

theorem mq_topic_dispatch:
  assumes "InitMQTopic fails category (Some cfg) drivers st = (st', None)" and "MQs st category = None"
  shows "\<exists>inst b qb. resolve drivers st cfg = Some inst \<and> GetMQConfig st' category = Some cfg
    \<and> driver_of st' category = conn_Driver inst
    \<and> backend_of (conn_Driver inst) (cfg_RPCEnabled cfg) = Some b \<and> backend_of (conn_Driver inst) False = Some qb
    \<and> (if running b category
       then (\<exists>c. PublishMQ running st' category pm = Inr c \<and> call_backend c = b)
         \<and> (\<exists>c. ConsumeMQ running st' category queue = Inr c \<and> call_backend c = b)
       else PublishMQ running st' category pm = Inl InstanceNotRunning
         \<and> ConsumeMQ running st' category queue = Inl InstanceNotRunning)
    \<and> (if running qb category then (\<exists>c. QueryMQ running st' category pm = Inr c \<and> call_backend c = qb)
       else QueryMQ running st' category pm = Inl InstanceNotRunning)"
proof -
  obtain inst where inst: "resolve drivers st cfg = Some inst"
    using assms(1) by (auto simp: InitMQTopic_eq split: option.splits)
  obtain d where d: "start_of category cfg inst = Some d"
    using assms(1) inst by (auto simp: InitMQTopic_eq split: option.splits)
  have st': "MQs st' category = Some cfg" "mqCategoryDrivers st' category = Some (conn_Driver inst)"
    using assms inst d
    by (auto simp: InitMQTopic_eq run_start_def split: if_splits)
  then have drv: "driver_of st' category = conn_Driver inst" by (simp add: driver_of_def)
  obtain b where b: "backend_of (conn_Driver inst) (cfg_RPCEnabled cfg) = Some b"
    using d start_of_iff [of category cfg inst "cfg_RPCEnabled cfg"] by auto
  obtain qb where qb: "backend_of (conn_Driver inst) False = Some qb"
    using d start_of_iff [of category cfg inst False] by auto
  have "if running qb category then (\<exists>c. QueryMQ running st' category pm = Inr c \<and> call_backend c = qb)
      else QueryMQ running st' category pm = Inl InstanceNotRunning"
    using st' drv qb
    by (auto simp: QueryMQ_def backend_of_def with_instance_def GetMQConfig_def Let_def driver_names split: if_splits)
  then show ?thesis
    using dispatch_known [OF st'(1), of running pm queue] inst st' drv b qb
    by (intro exI [of _ inst] exI [of _ b] exI [of _ qb]) (simp add: GetMQConfig_def)
qed

definition demo_conn :: "string \<Rightarrow> MQConnectorConfig" where
  "demo_conn driver = \<lparr>conn_Driver = driver, conn_Host = ''h'', conn_Port = 0, conn_Path = [], conn_User = [],
     conn_Password = [], conn_Timeout = 0, conn_Heartbeat = 0, conn_Disabled = False, conn_SSHTunnelDSN = []\<rparr>"

lemma mq_topic_dispatch_witness:
  "let cfg = zero_config\<lparr>cfg_Instance := ''r'', cfg_RPCEnabled := True\<rparr>;
       st = fst (InitMQTopic (\<lambda>_. False) ''c'' (Some cfg) [''r'' \<mapsto> demo_conn ''rabbitmq''] init_mq)
   in QueryMQ (\<lambda>b _. b = RPCRabbitMQ) st ''c'' zero_publish = Inl InstanceNotRunning
     \<and> PublishMQ (\<lambda>b _. b = RPCRabbitMQ) st ''c'' zero_publish \<noteq> Inl InstanceNotRunning"
proof -
  define cfg where "cfg = zero_config\<lparr>cfg_Instance := ''r'', cfg_RPCEnabled := True\<rparr>"
  define st where "st = fst (InitMQTopic (\<lambda>_. False) ''c'' (Some cfg) [''r'' \<mapsto> demo_conn ''rabbitmq''] init_mq)"
  have "InitMQTopic (\<lambda>_. False) ''c'' (Some cfg) [''r'' \<mapsto> demo_conn ''rabbitmq''] init_mq = (st, None)"
    by (simp add: st_def InitMQTopic_eq resolve_def cfg_def demo_conn_def start_of_def driver_names)
  from mq_topic_dispatch [OF this, of "\<lambda>b _. b = RPCRabbitMQ" zero_publish "[]"]
  have "QueryMQ (\<lambda>b _. b = RPCRabbitMQ) st ''c'' zero_publish = Inl InstanceNotRunning
     \<and> PublishMQ (\<lambda>b _. b = RPCRabbitMQ) st ''c'' zero_publish \<noteq> Inl InstanceNotRunning"
    by (auto simp: init_mq_def resolve_def cfg_def demo_conn_def backend_of_def driver_names)
  then show ?thesis by (simp add: cfg_def st_def)
qed

text \<open>
  Disabling a connection does not keep it from being used: the connection is left out of
  the table when the table is filled, but a topic that refers to it starts its driver, and
  records it in the table.
\<close>

theorem disabled_connection_started:
  assumes "drivers (cfg_Instance cfg) = Some inst" and "conn_Disabled inst"
    and "start_of category cfg inst = Some d" and "\<not> cfg_RPCEnabled cfg"
  shows "mqConnConfigs (record_connections names drivers init_mq) (cfg_Instance cfg) = None
    \<and> started (fst (Init_mq fails [(category, cfg)] names drivers init_mq)) = [d]
    \<and> mqConnConfigs (fst (Init_mq fails [(category, cfg)] names drivers init_mq)) (cfg_Instance cfg) = Some inst"
proof -
  have rec: "mqConnConfigs st (cfg_Instance cfg) = None \<Longrightarrow> started st = [] \<Longrightarrow>
      mqConnConfigs (record_connections names drivers st) (cfg_Instance cfg) = None
      \<and> started (record_connections names drivers st) = []" for st
  proof (induction names arbitrary: st)
    case (Cons name names)
    show ?case using Cons.prems assms(1,2) by (auto intro!: Cons.IH split: option.split)
  qed simp
  have init: "mqConnConfigs init_mq (cfg_Instance cfg) = None" "started init_mq = []" by (simp_all add: init_mq_def)
  show ?thesis
    using rec [OF init] assms
    by (simp add: Init_mq_def InitWithMQRoutes_def InitMQTopic_eq resolve_def split: prod.split)
      (auto simp: run_start_def)
qed

lemma disabled_connection_started_witness:
  "started (fst (Init_mq (\<lambda>_. False) [(''c'', zero_config\<lparr>cfg_Instance := ''m''\<rparr>)] [''m'']
     [''m'' \<mapsto> (demo_conn ''mock'')\<lparr>conn_Disabled := True\<rparr>] init_mq))
   = [StartMock ''c'' ((demo_conn ''mock'')\<lparr>conn_Disabled := True\<rparr>)]"
  using disabled_connection_started [of "[''m'' \<mapsto> (demo_conn ''mock'')\<lparr>conn_Disabled := True\<rparr>]"
      "zero_config\<lparr>cfg_Instance := ''m''\<rparr>" "(demo_conn ''mock'')\<lparr>conn_Disabled := True\<rparr>" "''c''"
      "StartMock ''c'' ((demo_conn ''mock'')\<lparr>conn_Disabled := True\<rparr>)" "[''m'']" "\<lambda>_. False"]
  by (simp add: zero_config_def demo_conn_def start_of_def driver_names)

lemma resolve_step:
  "resolve drivers (fst (InitMQTopic fails category (Some cfg) drivers st)) cfg' = resolve drivers st cfg'"
  by (auto simp: InitMQTopic_eq resolve_def run_start_def split: option.splits if_splits)

lemma topic_error:
  "resolve drivers st' cfg = resolve drivers st cfg \<Longrightarrow>
   snd (InitMQTopic fails category (Some cfg) drivers st') = snd (InitMQTopic fails category (Some cfg) drivers st)"
  by (auto simp: InitMQTopic_eq split: option.split)

lemma topic_drivers:
  "mqCategoryDrivers (fst (InitMQTopic fails category (Some cfg) drivers st)) =
     (case resolve drivers st cfg of None \<Rightarrow> mqCategoryDrivers st
      | Some inst \<Rightarrow> (mqCategoryDrivers st)(category \<mapsto> conn_Driver inst))"
  by (simp add: InitMQTopic_eq split: option.split)

lemma topic_configs:
  "MQs (fst (InitMQTopic fails category (Some cfg) drivers st)) =
     (if resolve drivers st cfg \<noteq> None \<and> MQs st category = None then (MQs st)(category \<mapsto> cfg) else MQs st)"
  by (auto simp: InitMQTopic_eq split: option.split)

lemma init_topics_spec:
  assumes "distinct (map fst ts)"
  shows "mqCategoryDrivers (fst (init_topics fails ts drivers r)) c =
      (case map_of ts c of None \<Rightarrow> mqCategoryDrivers (fst r) c
       | Some cfg \<Rightarrow> (case resolve drivers (fst r) cfg of None \<Rightarrow> mqCategoryDrivers (fst r) c
                     | Some inst \<Rightarrow> Some (conn_Driver inst)))
    \<and> MQs (fst (init_topics fails ts drivers r)) c =
      (case map_of ts c of None \<Rightarrow> MQs (fst r) c
       | Some cfg \<Rightarrow> if resolve drivers (fst r) cfg \<noteq> None \<and> MQs (fst r) c = None then Some cfg else MQs (fst r) c)
    \<and> (snd (init_topics fails ts drivers r) = None) =
      (snd r = None \<and> list_all (\<lambda>t. snd (InitMQTopic fails (fst t) (Some (snd t)) drivers (fst r)) = None) ts)"
  using assms
proof (induction ts arbitrary: r)
  case (Cons t ts)
  obtain k cfg where t: "t = (k, cfg)" by (cases t)
  obtain st err where st: "InitMQTopic fails k (Some cfg) drivers (fst r) = (st, err)" by fastforce
  have res: "resolve drivers st cfg' = resolve drivers (fst r) cfg'" for cfg'
    using resolve_step [of drivers fails k cfg "fst r"] st by simp
  have drv: "mqCategoryDrivers st = (case resolve drivers (fst r) cfg of None \<Rightarrow> mqCategoryDrivers (fst r)
      | Some inst \<Rightarrow> (mqCategoryDrivers (fst r))(k \<mapsto> conn_Driver inst))"
    using topic_drivers [of fails k cfg drivers "fst r"] st by simp
  have cfgs: "MQs st = (if resolve drivers (fst r) cfg \<noteq> None \<and> MQs (fst r) k = None
      then (MQs (fst r))(k \<mapsto> cfg) else MQs (fst r))"
    using topic_configs [of fails k cfg drivers "fst r"] st by simp
  have errs: "snd (InitMQTopic fails c (Some cfg') drivers st) = snd (InitMQTopic fails c (Some cfg') drivers (fst r))" for c cfg'
    by (rule topic_error) (rule res)
  have IH: "distinct (map fst ts)" and fresh: "map_of ts k = None"
    using Cons.prems by (auto simp: t map_of_eq_None_iff)
  show ?case
    using Cons.IH [OF IH, of "(st, if err \<noteq> None then err else snd r)"] fresh
    by (auto simp: t st res drv cfgs errs split: option.split)
qed simp

text \<open>The driver that a topic starts, the categories whose connection is known, and the errors, each in the state before.\<close>

definition started_by :: "(string \<rightharpoonup> MQConnectorConfig) \<Rightarrow> mq_state \<Rightarrow> string \<times> Config \<Rightarrow> driver_start list" where
  "started_by drivers st = (\<lambda>(category, cfg).
     case resolve drivers st cfg of
       None \<Rightarrow> []
     | Some inst \<Rightarrow>
         if conn_Driver inst = DriverTypeAMQP \<and> cfg_RPCEnabled cfg then []
         else (case start_of category cfg inst of None \<Rightarrow> [] | Some d \<Rightarrow> [d]))"

definition categories_of ::
    "(string \<rightharpoonup> MQConnectorConfig) \<Rightarrow> mq_state \<Rightarrow> (string \<times> Config) list \<Rightarrow> string \<Rightarrow> string set" where
  "categories_of drivers st ts i =
     fst ` set (filter (\<lambda>(_, cfg). cfg_Instance cfg = i \<and> resolve drivers st cfg \<noteq> None) ts)"

definition topic_errors ::
    "(driver_start \<Rightarrow> bool) \<Rightarrow> (string \<rightharpoonup> MQConnectorConfig) \<Rightarrow> mq_state \<Rightarrow> (string \<times> Config) list \<Rightarrow> mq_error list" where
  "topic_errors fails drivers st ts =
     List.map_filter (\<lambda>(category, cfg). snd (InitMQTopic fails category (Some cfg) drivers st)) ts"

lemma topic_connections:
  "mqConnConfigs (fst (InitMQTopic fails category (Some cfg) drivers st)) i =
     (case mqConnConfigs st i of Some x \<Rightarrow> Some x | None \<Rightarrow> if cfg_Instance cfg = i then drivers i else None)"
  by (auto simp: InitMQTopic_eq resolve_def split: option.split)

lemma registered_categories:
  "mqCategoriesByInstance (registered category cfg drivers inst st) =
     (mqCategoriesByInstance st)(cfg_Instance cfg \<mapsto>
        (case mqCategoriesByInstance st (cfg_Instance cfg) of None \<Rightarrow> Map.empty | Some m \<Rightarrow> m)(category \<mapsto> True))"
  by (simp add: registered_def add_category_def Let_def SetMQConfig_def)

lemma topic_categories:
  "mqCategoriesByInstance (fst (InitMQTopic fails category (Some cfg) drivers st)) i =
     (if cfg_Instance cfg = i \<and> resolve drivers st cfg \<noteq> None
      then Some ((case mqCategoriesByInstance st i of None \<Rightarrow> Map.empty | Some m \<Rightarrow> m)(category \<mapsto> True))
      else mqCategoriesByInstance st i)"
  by (auto simp: InitMQTopic_eq registered_categories run_start_def split: option.split)

lemma topic_started:
  "started (fst (InitMQTopic fails category (Some cfg) drivers st)) = started st @ started_by drivers st (category, cfg)"
  by (auto simp: InitMQTopic_eq started_by_def start_of_def driver_names split: option.split)

lemma init_topics_connections:
  "mqConnConfigs (fst (init_topics fails ts drivers r)) i =
     (case mqConnConfigs (fst r) i of
        Some x \<Rightarrow> Some x
      | None \<Rightarrow> if list_ex (\<lambda>t. cfg_Instance (snd t) = i) ts then drivers i else None)"
proof (induction ts arbitrary: r)
  case (Cons t ts)
  show ?case by (cases t) (auto simp: Cons.IH case_prod_beta topic_connections split: option.split)
qed (simp split: option.split)

lemma init_topics_categories:
  "mqCategoriesByInstance (fst (init_topics fails ts drivers r)) i =
     (if categories_of drivers (fst r) ts i = {} then mqCategoriesByInstance (fst r) i
      else Some (\<lambda>c. if c \<in> categories_of drivers (fst r) ts i then Some True
                     else Option.bind (mqCategoriesByInstance (fst r) i) (\<lambda>m. m c)))"
proof (induction ts arbitrary: r)
  case (Cons t ts)
  obtain k cfg where t: "t = (k, cfg)" by (cases t)
  let ?st = "fst (InitMQTopic fails k (Some cfg) drivers (fst r))"
  have cats: "categories_of drivers ?st ts i = categories_of drivers (fst r) ts i"
    by (simp add: categories_of_def resolve_step)
  have "categories_of drivers (fst r) (t # ts) i =
      (if cfg_Instance cfg = i \<and> resolve drivers (fst r) cfg \<noteq> None then insert k (categories_of drivers (fst r) ts i)
       else categories_of drivers (fst r) ts i)"
    by (auto simp: categories_of_def t)
  moreover have "mqCategoriesByInstance (fst (init_topics fails (t # ts) drivers r)) i =
     (if categories_of drivers (fst r) ts i = {} then mqCategoriesByInstance ?st i
      else Some (\<lambda>c. if c \<in> categories_of drivers (fst r) ts i then Some True
                     else Option.bind (mqCategoriesByInstance ?st i) (\<lambda>m. m c)))"
    unfolding init_topics.simps t fst_conv snd_conv case_prod_beta Cons.IH cats by (rule refl)
  ultimately show ?case
    by (cases "mqCategoriesByInstance (fst r) i") (auto simp: topic_categories fun_eq_iff)
qed (simp add: categories_of_def)

lemma init_topics_started:
  "started (fst (init_topics fails ts drivers r)) = started (fst r) @ concat (map (started_by drivers (fst r)) ts)"
proof (induction ts arbitrary: r)
  case (Cons t ts)
  have "started_by drivers (fst (InitMQTopic fails k (Some cfg) drivers (fst r))) = started_by drivers (fst r)" for k cfg
    by (simp add: started_by_def resolve_step fun_eq_iff)
  then show ?case by (cases t) (simp add: Cons.IH case_prod_beta topic_started)
qed simp

lemma init_topics_error:
  "snd (init_topics fails ts drivers r) =
     (if topic_errors fails drivers (fst r) ts = [] then snd r else Some (last (topic_errors fails drivers (fst r) ts)))"
proof (induction ts arbitrary: r)
  case (Cons t ts)
  have "topic_errors fails drivers (fst (InitMQTopic fails k (Some cfg) drivers (fst r))) = topic_errors fails drivers (fst r)" for k cfg
    by (simp add: topic_errors_def fun_eq_iff topic_error [OF resolve_step])
  then show ?case
    by (cases t) (auto simp: Cons.IH case_prod_beta topic_errors_def List.map_filter_simps split: option.split)
qed (simp add: topic_errors_def List.map_filter_simps)

text \<open>
  C39. Initialising the routes of distinct categories leaves the same registry whatever the order in which
  the map is ranged over: every category whose connection is known gets its driver, its configuration unless
  it had one, and a place among the categories of its instance; the connections that the topics name are
  recorded unless they were known; all other entries stay; and there is an error exactly when some topic on
  its own has one.  What the order does decide is the order in which the drivers are started and, when
  several topics fail, which error is returned: that of the last one.
\<close>

theorem init_routes_order_independent:
  assumes "distinct (map fst ts)" and "mset ts' = mset ts"
  shows "mqCategoryDrivers (fst (InitWithMQRoutes fails ts' drivers st)) c =
      (case map_of ts c of None \<Rightarrow> mqCategoryDrivers st c
       | Some cfg \<Rightarrow> (case resolve drivers st cfg of None \<Rightarrow> mqCategoryDrivers st c
                     | Some inst \<Rightarrow> Some (conn_Driver inst)))
    \<and> GetMQConfig (fst (InitWithMQRoutes fails ts' drivers st)) c =
      (case map_of ts c of None \<Rightarrow> MQs st c
       | Some cfg \<Rightarrow> if resolve drivers st cfg \<noteq> None \<and> MQs st c = None then Some cfg else MQs st c)
    \<and> mqConnConfigs (fst (InitWithMQRoutes fails ts' drivers st)) i =
      (case mqConnConfigs st i of Some x \<Rightarrow> Some x
       | None \<Rightarrow> if list_ex (\<lambda>t. cfg_Instance (snd t) = i) ts then drivers i else None)
    \<and> mqCategoriesByInstance (fst (InitWithMQRoutes fails ts' drivers st)) i =
      (if categories_of drivers st ts i = {} then mqCategoriesByInstance st i
       else Some (\<lambda>c. if c \<in> categories_of drivers st ts i then Some True
                      else Option.bind (mqCategoriesByInstance st i) (\<lambda>m. m c)))
    \<and> (snd (InitWithMQRoutes fails ts' drivers st) = None) =
      list_all (\<lambda>t. snd (InitMQTopic fails (fst t) (Some (snd t)) drivers st) = None) ts
    \<and> started (fst (InitWithMQRoutes fails ts' drivers st)) = started st @ concat (map (started_by drivers st) ts')
    \<and> snd (InitWithMQRoutes fails ts' drivers st) =
      (if topic_errors fails drivers st ts' = [] then None else Some (last (topic_errors fails drivers st ts')))"
proof -
  have set: "set ts' = set ts" using assms(2) by (rule mset_eq_setD)
  have "mset (map fst ts') = mset (map fst ts)" using assms(2) by simp
  then have d: "distinct (map fst ts')" using assms(1) by (metis mset_eq_imp_distinct_iff)
  have "map_of ts' = map_of ts"
    using map_of_eqI [of ts' ts] map_of_inject_set [OF d assms(1)] set by blast
  moreover have "categories_of drivers st ts' = categories_of drivers st ts" "list_ex f ts' = list_ex f ts" "list_all f ts' = list_all f ts" for f
    by (simp_all add: categories_of_def fun_eq_iff list_ex_iff list_all_iff set)
  ultimately show ?thesis
    using init_topics_spec [OF d, of fails drivers "(st, None)" c, unfolded fst_conv snd_conv]
      init_topics_connections [of fails ts' drivers "(st, None)" i, unfolded fst_conv snd_conv] init_topics_categories [of fails ts' drivers "(st, None)" i, unfolded fst_conv snd_conv]
      init_topics_started [of fails ts' drivers "(st, None)", unfolded fst_conv snd_conv] init_topics_error [of fails ts' drivers "(st, None)", unfolded fst_conv snd_conv]
    by (simp add: InitWithMQRoutes_def GetMQConfig_def)
qed

lemma init_routes_order_independent_witness:
  "let a = (''a'', zero_config\<lparr>cfg_Instance := ''m''\<rparr>); b = (''b'', zero_config\<lparr>cfg_Instance := ''k''\<rparr>);
       r = InitWithMQRoutes (\<lambda>_. False) [b, a] [''m'' \<mapsto> demo_conn ''mock''] init_mq
   in mqCategoryDrivers (fst r) ''a'' = Some ''mock'' \<and> mqConnConfigs (fst r) ''m'' = Some (demo_conn ''mock'')
     \<and> started (fst r) = [StartMock ''a'' (demo_conn ''mock'')] \<and> snd r = Some InstanceNotConfigured"
proof -
  let ?a = "(''a'', zero_config\<lparr>cfg_Instance := ''m''\<rparr>)" and ?b = "(''b'', zero_config\<lparr>cfg_Instance := ''k''\<rparr>)"
  have "distinct (map fst [?a, ?b])" "mset [?b, ?a] = mset [?a, ?b]" by simp_all
  from init_routes_order_independent [OF this, of "\<lambda>_. False" "[''m'' \<mapsto> demo_conn ''mock'']" init_mq "''a''" "''m''"]
  show ?thesis
    by (simp add: Let_def resolve_def init_mq_def demo_conn_def InitMQTopic_eq started_by_def topic_errors_def start_of_def
        driver_names List.map_filter_simps)
qed

end
