(* ===== verification/Widgets.thy ===== *)
theory Widgets
  imports Go_Prelude "HOL-Library.Multiset"
begin

text \<open>
  \<open>microsvc/widgets/strategywidets.go\<close>: the container of pattern widgets that the visitor,
  observer and delegate chains embed.  It keeps the widgets by name and, for each strategy that
  was loaded, the names of the widgets that apply to it.  A widget is an extensible record, so
  a chain adds its own action.  The regular expression engine is the parameter \<open>compile\<close>:
  \<open>compile p\<close> is \<open>None\<close> when \<open>regexp.Compile\<close> fails and the matcher otherwise.  An order
  argument is the iteration order of a map.
\<close>

section \<open>State\<close>

record PatternWidget =
  GetName :: string
  MatchPattern :: string

type_synonym compiler = "string \<Rightarrow> (string \<Rightarrow> bool) option"

record 'x WidgetsStrategyWrapper =
  widgetsByName :: "(string \<rightharpoonup> 'x PatternWidget_scheme) option"
  strategies :: "(string \<rightharpoonup> string list) option"

definition zero_wrapper :: "'x WidgetsStrategyWrapper" where
  "zero_wrapper = \<lparr>widgetsByName = None, strategies = None\<rparr>"

definition widget_map :: "'x WidgetsStrategyWrapper \<Rightarrow> string \<rightharpoonup> 'x PatternWidget_scheme" where
  "widget_map w = (case widgetsByName w of None \<Rightarrow> Map.empty | Some m \<Rightarrow> m)"

section \<open>Operations\<close>

text \<open>The test of \<open>loadStrategy\<close> and \<open>removeStrategy\<close>: the pattern is matched against itself.\<close>

definition strategy_matched :: "compiler \<Rightarrow> string \<Rightarrow> string \<Rightarrow> bool" where
  "strategy_matched compile p strategy =
     (if ''*'' = p \<or> ''#'' = p then True
      else (case compile p of None \<Rightarrow> False | Some r \<Rightarrow> r p))"

lemma strategy_matched_iff:
  "strategy_matched compile p strategy \<longleftrightarrow>
   p = ''*'' \<or> p = ''#'' \<or> (case compile p of None \<Rightarrow> False | Some r \<Rightarrow> r p)"
  by (auto simp: strategy_matched_def)

definition loadStrategy :: "compiler \<Rightarrow> 'x PatternWidget_scheme \<Rightarrow> 'x WidgetsStrategyWrapper \<Rightarrow> 'x WidgetsStrategyWrapper" where
  "loadStrategy compile widget w =
     (case strategies w of
        None \<Rightarrow> w
      | Some ss \<Rightarrow>
          w\<lparr>strategies := Some (\<lambda>strategy. map_option
              (\<lambda>carrier. if strategy_matched compile (MatchPattern widget) strategy \<and> GetName widget \<notin> set carrier
                         then carrier @ [GetName widget] else carrier) (ss strategy))\<rparr>)"

definition removeStrategy :: "compiler \<Rightarrow> 'x PatternWidget_scheme \<Rightarrow> 'x WidgetsStrategyWrapper \<Rightarrow> 'x WidgetsStrategyWrapper" where
  "removeStrategy compile widget w =
     (case strategies w of
        None \<Rightarrow> w
      | Some ss \<Rightarrow>
          w\<lparr>strategies := Some (\<lambda>strategy. map_option
              (\<lambda>carrier. if strategy_matched compile (MatchPattern widget) strategy
                         then remove1 (GetName widget) carrier else carrier) (ss strategy))\<rparr>)"

text \<open>Adding nil panics while the message for the log is built.\<close>

definition wrapper_Add :: "compiler \<Rightarrow> 'x PatternWidget_scheme option \<Rightarrow> 'x WidgetsStrategyWrapper \<Rightarrow> 'x WidgetsStrategyWrapper go" where
  "wrapper_Add compile widget w =
     (case widget of
        None \<Rightarrow> Inl NilDereference
      | Some wd \<Rightarrow>
          (case widget_map w (GetName wd) of
             Some _ \<Rightarrow> Inr (w\<lparr>widgetsByName := Some (widget_map w)\<rparr>)
           | None \<Rightarrow> Inr (loadStrategy compile wd (w\<lparr>widgetsByName := Some ((widget_map w)(GetName wd \<mapsto> wd))\<rparr>))))"

definition wrapper_Get :: "string \<Rightarrow> 'x WidgetsStrategyWrapper \<Rightarrow> 'x PatternWidget_scheme option" where
  "wrapper_Get name w = widget_map w name"

definition wrapper_Remove :: "compiler \<Rightarrow> string \<Rightarrow> 'x WidgetsStrategyWrapper \<Rightarrow> 'x WidgetsStrategyWrapper \<times> bool" where
  "wrapper_Remove compile name w =
     (case widget_map w name of
        None \<Rightarrow> (w, False)
      | Some wd \<Rightarrow>
          (removeStrategy compile wd (w\<lparr>widgetsByName := map_option (\<lambda>m. m(name := None)) (widgetsByName w)\<rparr>), True))"

definition wrapper_IsEmpty :: "'x WidgetsStrategyWrapper \<Rightarrow> bool" where
  "wrapper_IsEmpty w \<longleftrightarrow> widgetsByName w = None \<or> widget_map w = Map.empty"

definition GetWidgetsByStrategy :: "string \<Rightarrow> 'x WidgetsStrategyWrapper \<Rightarrow> 'x PatternWidget_scheme list" where
  "GetWidgetsByStrategy strategy w =
     (case (case strategies w of None \<Rightarrow> None | Some ss \<Rightarrow> ss strategy) of
        None \<Rightarrow> []
      | Some carrier \<Rightarrow> List.map_filter (widget_map w) carrier)"

primrec load_patterns :: "string list \<Rightarrow> (string \<rightharpoonup> string list) \<Rightarrow> string \<rightharpoonup> string list" where
  "load_patterns [] ss = ss"
| "load_patterns (p # ps) ss =
     load_patterns ps
       (case ss p of
          Some v \<Rightarrow> if 0 < length v then ss else ss(p \<mapsto> [])
        | None \<Rightarrow> ss(p \<mapsto> []))"

primrec load_widgets :: "compiler \<Rightarrow> string list \<Rightarrow> (string \<rightharpoonup> 'x PatternWidget_scheme) \<Rightarrow> 'x WidgetsStrategyWrapper \<Rightarrow> 'x WidgetsStrategyWrapper" where
  "load_widgets compile [] widgets w = w"
| "load_widgets compile (name # names) widgets w =
     load_widgets compile names widgets
       (case widgets name of None \<Rightarrow> w | Some wd \<Rightarrow> loadStrategy compile wd w)"

definition LoadStrategies :: "compiler \<Rightarrow> string list \<Rightarrow> string list option \<Rightarrow> 'x WidgetsStrategyWrapper \<Rightarrow> 'x WidgetsStrategyWrapper" where
  "LoadStrategies compile order patterns w =
     (case patterns of
        None \<Rightarrow> w
      | Some ps \<Rightarrow>
          let ss = (case strategies w of None \<Rightarrow> Map.empty | Some ss \<Rightarrow> ss)
          in load_widgets compile order (widget_map w) (w\<lparr>strategies := Some (load_patterns ps ss)\<rparr>))"

section \<open>The factory\<close>

record 'x AbstractStrategyWidgetFactory =
  factory_widgets :: "(string \<rightharpoonup> 'x PatternWidget_scheme) option"

definition factory_Get :: "string \<Rightarrow> 'x AbstractStrategyWidgetFactory \<Rightarrow> 'x PatternWidget_scheme option" where
  "factory_Get name f = (case factory_widgets f of None \<Rightarrow> None | Some m \<Rightarrow> m name)"

definition factory_Set :: "'x PatternWidget_scheme option \<Rightarrow> 'x AbstractStrategyWidgetFactory \<Rightarrow> 'x AbstractStrategyWidgetFactory go" where
  "factory_Set widget f =
     (case widget of
        None \<Rightarrow> Inl NilDereference
      | Some wd \<Rightarrow>
          if GetName wd = [] then Inr f
          else let m = (case factory_widgets f of None \<Rightarrow> Map.empty | Some m \<Rightarrow> m)
               in Inr (f\<lparr>factory_widgets := Some (m(GetName wd \<mapsto> wd))\<rparr>))"

definition factory_GetAll :: "string list \<Rightarrow> 'x AbstractStrategyWidgetFactory \<Rightarrow> 'x PatternWidget_scheme list" where
  "factory_GetAll order f =
     (case factory_widgets f of None \<Rightarrow> [] | Some m \<Rightarrow> List.map_filter m order)"

primrec factory_Set_all :: "'x PatternWidget_scheme option list \<Rightarrow> 'x AbstractStrategyWidgetFactory \<Rightarrow> 'x AbstractStrategyWidgetFactory go" where
  "factory_Set_all [] f = Inr f"
| "factory_Set_all (wd # wds) f = go_bind (factory_Set wd f) (factory_Set_all wds)"

definition NewAbstractStrategyWidgetFactory :: "'x PatternWidget_scheme option list \<Rightarrow> 'x AbstractStrategyWidgetFactory go" where
  "NewAbstractStrategyWidgetFactory widgets = factory_Set_all widgets \<lparr>factory_widgets = Some Map.empty\<rparr>"

section \<open>The invariant of a wrapper\<close>

definition strategy_inv :: "compiler \<Rightarrow> 'x WidgetsStrategyWrapper \<Rightarrow> bool" where
  "strategy_inv compile w \<longleftrightarrow>
     (\<forall>k wd. widget_map w k = Some wd \<longrightarrow> GetName wd = k)
     \<and> (\<forall>ss s carrier. strategies w = Some ss \<longrightarrow> ss s = Some carrier \<longrightarrow>
          distinct carrier
          \<and> set carrier = {k. \<exists>wd. widget_map w k = Some wd \<and> strategy_matched compile (MatchPattern wd) s})"

text \<open>While the strategies are loaded, the widgets \<open>todo\<close> may be missing.\<close>

definition loading_inv :: "compiler \<Rightarrow> string set \<Rightarrow> 'x WidgetsStrategyWrapper \<Rightarrow> bool" where
  "loading_inv compile todo w \<longleftrightarrow>
     (\<forall>k wd. widget_map w k = Some wd \<longrightarrow> GetName wd = k)
     \<and> (\<forall>ss s carrier. strategies w = Some ss \<longrightarrow> ss s = Some carrier \<longrightarrow>
          distinct carrier
          \<and> set carrier \<subseteq> {k. \<exists>wd. widget_map w k = Some wd \<and> strategy_matched compile (MatchPattern wd) s}
          \<and> {k. \<exists>wd. widget_map w k = Some wd \<and> strategy_matched compile (MatchPattern wd) s} - todo \<subseteq> set carrier)"

lemma loading_done: "loading_inv compile {} w = strategy_inv compile w"
  by (simp add: loading_inv_def strategy_inv_def set_eq_subset)

lemma widget_map_load [simp]: "widget_map (loadStrategy compile wd w) = widget_map w"
  by (simp add: loadStrategy_def widget_map_def split: option.split)

lemma widget_map_remove [simp]: "widget_map (removeStrategy compile wd w) = widget_map w"
  by (simp add: removeStrategy_def widget_map_def split: option.split)

lemma loading_step:
  assumes "loading_inv compile todo w" and "widget_map w k = Some wd"
  shows "loading_inv compile (todo - {k}) (loadStrategy compile wd w)"
proof -
  have k: "GetName wd = k" using assms by (simp add: loading_inv_def)
  show ?thesis
  proof (cases "strategies w")
    case None
    then show ?thesis using assms by (simp add: loadStrategy_def loading_inv_def)
  next
    case (Some ss)
    then have st: "strategies (loadStrategy compile wd w) = Some (\<lambda>s. map_option
        (\<lambda>carrier. if strategy_matched compile (MatchPattern wd) s \<and> k \<notin> set carrier
                   then carrier @ [k] else carrier) (ss s))"
      by (simp add: loadStrategy_def k cong: if_cong)
    show ?thesis
      unfolding loading_inv_def widget_map_load st
    proof (intro conjI allI impI)
      fix s carrier ss'
      assume "Some (\<lambda>s. map_option (\<lambda>carrier. if strategy_matched compile (MatchPattern wd) s \<and> k \<notin> set carrier
          then carrier @ [k] else carrier) (ss s)) = Some ss'" and "ss' s = Some carrier"
      then obtain c where c: "ss s = Some c" and carrier: "carrier =
          (if strategy_matched compile (MatchPattern wd) s \<and> k \<notin> set c then c @ [k] else c)"
        by auto
      have old: "distinct c"
          "set c \<subseteq> {k. \<exists>wd. widget_map w k = Some wd \<and> strategy_matched compile (MatchPattern wd) s}"
          "{k. \<exists>wd. widget_map w k = Some wd \<and> strategy_matched compile (MatchPattern wd) s} - todo \<subseteq> set c"
        using assms(1) Some c unfolding loading_inv_def by blast+
      show "distinct carrier" using old(1) by (simp add: carrier)
      show "set carrier \<subseteq> {k. \<exists>wd. widget_map w k = Some wd \<and> strategy_matched compile (MatchPattern wd) s}"
        using old(2) assms(2) by (auto simp: carrier)
      show "{k. \<exists>wd. widget_map w k = Some wd \<and> strategy_matched compile (MatchPattern wd) s} - (todo - {k}) \<subseteq> set carrier"
        using old(3) assms(2) by (auto simp: carrier)
    qed (use assms in \<open>simp add: loading_inv_def\<close>)
  qed
qed

lemma loading_skip:
  assumes "loading_inv compile todo w" and "widget_map w k = None"
  shows "loading_inv compile (todo - {k}) w"
proof -
  have "{k. \<exists>wd. widget_map w k = Some wd \<and> strategy_matched compile (MatchPattern wd) s} - (todo - {k})
      = {k. \<exists>wd. widget_map w k = Some wd \<and> strategy_matched compile (MatchPattern wd) s} - todo" for s
    using assms(2) by auto
  then show ?thesis using assms(1) unfolding loading_inv_def by simp
qed

lemma load_widgets_inv:
  "loading_inv compile todo w \<Longrightarrow> widgets = widget_map w \<Longrightarrow>
   loading_inv compile (todo - set names) (load_widgets compile names widgets w)
   \<and> widget_map (load_widgets compile names widgets w) = widgets"
proof (induction names arbitrary: todo w)
  case (Cons k names)
  show ?case
  proof (cases "widgets k")
    case None
    have "loading_inv compile (todo - {k}) w"
      by (rule loading_skip [OF Cons.prems(1)]) (simp add: Cons.prems(2) [symmetric] None)
    from Cons.IH [OF this Cons.prems(2)] None show ?thesis by (simp add: Diff_insert2 [of todo k "set names"])
  next
    case (Some wd)
    have 1: "loading_inv compile (todo - {k}) (loadStrategy compile wd w)"
      by (rule loading_step [OF Cons.prems(1)]) (simp add: Cons.prems(2) [symmetric] Some)
    have 2: "widgets = widget_map (loadStrategy compile wd w)" by (simp add: Cons.prems(2))
    from Cons.IH [OF 1 2] Some show ?thesis by (simp add: Diff_insert2 [of todo k "set names"])
  qed
qed simp

lemma load_patterns_cases:
  "load_patterns ps ss s = Some c \<Longrightarrow> ss s = Some c \<or> c = []"
proof (induction ps arbitrary: ss)
  case (Cons p ps)
  then have "(case ss p of Some v \<Rightarrow> if 0 < length v then ss else ss(p \<mapsto> []) | None \<Rightarrow> ss(p \<mapsto> [])) s = Some c \<or> c = []"
    by simp
  then show ?case by (auto split: option.splits if_splits)
qed simp

lemma load_patterns_dom: "load_patterns ps ss s \<noteq> None \<longleftrightarrow> s \<in> set ps \<or> ss s \<noteq> None"
proof (induction ps arbitrary: ss)
  case (Cons p ps)
  have "load_patterns (p # ps) ss s \<noteq> None \<longleftrightarrow> s \<in> set ps \<or>
      (case ss p of Some v \<Rightarrow> if 0 < length v then ss else ss(p \<mapsto> []) | None \<Rightarrow> ss(p \<mapsto> [])) s \<noteq> None"
    using Cons.IH by simp
  then show ?case by (auto split: option.splits if_splits)
qed simp

lemma LoadStrategies_inv:
  assumes inv: "strategy_inv compile w" and order: "dom (widget_map w) \<subseteq> set order"
  shows "strategy_inv compile (LoadStrategies compile order patterns w)
    \<and> widget_map (LoadStrategies compile order patterns w) = widget_map w"
proof (cases patterns)
  case (Some ps)
  define ss where "ss = (case strategies w of None \<Rightarrow> Map.empty | Some ss \<Rightarrow> ss)"
  define w1 where "w1 = w\<lparr>strategies := Some (load_patterns ps ss)\<rparr>"
  have map: "widget_map w1 = widget_map w" by (simp add: w1_def widget_map_def)
  have "loading_inv compile (set order) w1"
    unfolding loading_inv_def map
  proof (intro conjI allI impI)
    fix ss' s c
    assume "strategies w1 = Some ss'" and "ss' s = Some c"
    then have "ss s = Some c \<or> c = []" by (auto simp: w1_def dest: load_patterns_cases)
    then have old: "(distinct c \<and> set c = {k. \<exists>wd. widget_map w k = Some wd \<and> strategy_matched compile (MatchPattern wd) s}) \<or> c = []"
      using inv by (auto simp: ss_def strategy_inv_def split: option.splits)
    show "distinct c" using old by auto
    show "set c \<subseteq> {k. \<exists>wd. widget_map w k = Some wd \<and> strategy_matched compile (MatchPattern wd) s}"
      using old by auto
    show "{k. \<exists>wd. widget_map w k = Some wd \<and> strategy_matched compile (MatchPattern wd) s} - set order \<subseteq> set c"
      using order by auto
  qed (use inv in \<open>simp add: strategy_inv_def\<close>)
  from load_widgets_inv [OF this refl, of order]
  have "strategy_inv compile (load_widgets compile order (widget_map w) w1)
      \<and> widget_map (load_widgets compile order (widget_map w) w1) = widget_map w"
    by (simp add: map loading_done)
  then show ?thesis by (simp add: LoadStrategies_def Some w1_def ss_def)
qed (use inv in \<open>simp add: LoadStrategies_def\<close>)

lemma Add_inv:
  assumes inv: "strategy_inv compile w" and add: "wrapper_Add compile (Some wd) w = Inr w'"
  shows "strategy_inv compile w'
    \<and> widget_map w' = (if widget_map w (GetName wd) = None then (widget_map w)(GetName wd \<mapsto> wd) else widget_map w)"
proof (cases "widget_map w (GetName wd)")
  case (Some old)
  then have "w' = w\<lparr>widgetsByName := Some (widget_map w)\<rparr>" using add by (simp add: wrapper_Add_def)
  moreover then have "widget_map w' = widget_map w" by (simp add: widget_map_def)
  ultimately show ?thesis using inv Some by (simp add: strategy_inv_def)
next
  case None
  define w1 where "w1 = w\<lparr>widgetsByName := Some ((widget_map w)(GetName wd \<mapsto> wd))\<rparr>"
  have map: "widget_map w1 = (widget_map w)(GetName wd \<mapsto> wd)" by (simp add: w1_def widget_map_def)
  have w': "w' = loadStrategy compile wd w1" using add None by (simp add: wrapper_Add_def w1_def)
  have "loading_inv compile {GetName wd} w1"
    unfolding loading_inv_def map
  proof (intro conjI allI impI)
    fix ss s c
    assume "strategies w1 = Some ss" and "ss s = Some c"
    then have old: "distinct c \<and> set c = {k. \<exists>wd. widget_map w k = Some wd \<and> strategy_matched compile (MatchPattern wd) s}"
      using inv by (simp add: w1_def strategy_inv_def)
    show "distinct c" using old by simp
    show "set c \<subseteq> {k. \<exists>wd'. ((widget_map w)(GetName wd \<mapsto> wd)) k = Some wd' \<and> strategy_matched compile (MatchPattern wd') s}"
      using old None by auto
    show "{k. \<exists>wd'. ((widget_map w)(GetName wd \<mapsto> wd)) k = Some wd' \<and> strategy_matched compile (MatchPattern wd') s}
        - {GetName wd} \<subseteq> set c"
      using old by (auto split: if_splits)
  qed (use inv in \<open>auto simp: strategy_inv_def split: if_splits\<close>)
  from loading_step [OF this, of "GetName wd" wd] show ?thesis
    using None by (simp add: w' map loading_done)
qed

lemma Remove_inv:
  assumes inv: "strategy_inv compile w"
  shows "strategy_inv compile (fst (wrapper_Remove compile name w))
    \<and> widget_map (fst (wrapper_Remove compile name w)) = (widget_map w)(name := None)"
proof (cases "widget_map w name")
  case None
  moreover then have "(widget_map w)(name := None) = widget_map w" by auto
  ultimately show ?thesis using inv by (simp add: wrapper_Remove_def)
next
  case (Some wd)
  then have name: "GetName wd = name" using inv by (simp add: strategy_inv_def)
  define w1 where "w1 = w\<lparr>widgetsByName := map_option (\<lambda>m. m(name := None)) (widgetsByName w)\<rparr>"
  have map: "widget_map w1 = (widget_map w)(name := None)"
    by (simp add: w1_def widget_map_def split: option.split)
  have w': "fst (wrapper_Remove compile name w) = removeStrategy compile wd w1"
    by (simp add: wrapper_Remove_def Some w1_def)
  have "strategy_inv compile (removeStrategy compile wd w1)"
    unfolding strategy_inv_def widget_map_remove map
  proof (intro conjI allI impI)
    fix ss' s c'
    assume a: "strategies (removeStrategy compile wd w1) = Some ss'" "ss' s = Some c'"
    then obtain ss c where ss: "strategies w = Some ss" "ss s = Some c"
        and c': "c' = (if strategy_matched compile (MatchPattern wd) s then remove1 name c else c)"
      by (auto simp: removeStrategy_def w1_def name split: option.splits)
    then have old: "distinct c" "set c = {k. \<exists>wd. widget_map w k = Some wd \<and> strategy_matched compile (MatchPattern wd) s}"
      using inv by (simp_all add: strategy_inv_def)
    show "distinct c'" using old(1) by (simp add: c')
    show "set c' = {k. \<exists>wd'. ((widget_map w)(name := None)) k = Some wd' \<and> strategy_matched compile (MatchPattern wd') s}"
      using old Some by (auto simp: c' split: if_splits)
  qed (use inv in \<open>auto simp: strategy_inv_def split: if_splits\<close>)
  then show ?thesis by (simp add: w' map)
qed

section \<open>Runs of a wrapper\<close>

inductive wrapper_reachable :: "compiler \<Rightarrow> 'x WidgetsStrategyWrapper \<Rightarrow> bool" for compile where
  zero: "wrapper_reachable compile zero_wrapper"
| add: "wrapper_reachable compile w \<Longrightarrow> wrapper_Add compile (Some wd) w = Inr w' \<Longrightarrow> wrapper_reachable compile w'"
| remove: "wrapper_reachable compile w \<Longrightarrow> wrapper_reachable compile (fst (wrapper_Remove compile name w))"
| load: "wrapper_reachable compile w \<Longrightarrow> set order = dom (widget_map w) \<Longrightarrow>
    wrapper_reachable compile (LoadStrategies compile order patterns w)"

lemma zero_strategy_inv: "strategy_inv compile zero_wrapper"
  by (simp add: strategy_inv_def zero_wrapper_def widget_map_def)

lemma strategy_reachable_inv: "wrapper_reachable compile w \<Longrightarrow> strategy_inv compile w"
proof (induction rule: wrapper_reachable.induct)
  case (add w wd w')
  then show ?case using Add_inv by blast
next
  case (remove w name)
  then show ?case using Remove_inv by blast
next
  case (load w order patterns)
  then show ?case using LoadStrategies_inv [of compile w order patterns] by simp
qed (rule zero_strategy_inv)

lemma map_filter_carrier:
  assumes "distinct c" and "\<And>k wd. m k = Some wd \<Longrightarrow> GetName wd = k" and "set c \<subseteq> dom m"
  shows "map GetName (List.map_filter m c) = c \<and> set (List.map_filter m c) = {wd. m (GetName wd) = Some wd \<and> GetName wd \<in> set c}"
  using assms
proof (induction c)
  case (Cons k c)
  then obtain wd where wd: "m k = Some wd" by auto
  have name: "GetName wd = k" using Cons.prems(2) wd .
  have "{x. m (GetName x) = Some x \<and> GetName x \<in> set (k # c)} = insert wd {x. m (GetName x) = Some x \<and> GetName x \<in> set c}"
    using wd name by auto
  then show ?case using Cons wd name by (simp add: List.map_filter_simps)
qed (simp add: List.map_filter_simps)

lemma widgets_of_strategy:
  assumes inv: "strategy_inv compile w" and ss: "strategies w = Some ss" "ss s = Some c"
  shows "map GetName (GetWidgetsByStrategy s w) = c
    \<and> set (GetWidgetsByStrategy s w) = {wd. widget_map w (GetName wd) = Some wd \<and> strategy_matched compile (MatchPattern wd) s}"
proof -
  have names: "widget_map w k = Some wd \<Longrightarrow> GetName wd = k" for k wd using inv by (simp add: strategy_inv_def)
  have c: "distinct c" "set c = {k. \<exists>wd. widget_map w k = Some wd \<and> strategy_matched compile (MatchPattern wd) s}"
    using inv ss by (simp_all add: strategy_inv_def)
  then have "set c \<subseteq> dom (widget_map w)" by auto
  from map_filter_carrier [OF c(1) names this] show ?thesis
    using ss c(2) by (auto simp: GetWidgetsByStrategy_def)
qed

section \<open>Properties\<close>

text \<open>
  However widgets were added and removed and strategies loaded, the widgets that a loaded
  strategy selects are the registered widgets whose pattern is a wildcard or matches itself,
  each once.  The strategy plays no part: any two loaded strategies select the same widgets.
\<close>

theorem strategy_selects_self_matching:
  assumes "wrapper_reachable compile w" and "strategies w = Some ss" and "ss s = Some c" and "ss t = Some d"
  shows "set (GetWidgetsByStrategy s w) = {wd. widget_map w (GetName wd) = Some wd \<and>
      (MatchPattern wd = ''*'' \<or> MatchPattern wd = ''#'' \<or>
       (case compile (MatchPattern wd) of None \<Rightarrow> False | Some r \<Rightarrow> r (MatchPattern wd)))}
    \<and> distinct (map GetName (GetWidgetsByStrategy s w))
    \<and> mset (GetWidgetsByStrategy s w) = mset (GetWidgetsByStrategy t w)"
proof -
  have inv: "strategy_inv compile w" by (rule strategy_reachable_inv [OF assms(1)])
  note s = widgets_of_strategy [OF inv assms(2,3)] and t = widgets_of_strategy [OF inv assms(2,4)]
  have "distinct c" "distinct d" using inv assms(2-4) by (auto simp: strategy_inv_def)
  then have d: "distinct (map GetName (GetWidgetsByStrategy s w))" "distinct (map GetName (GetWidgetsByStrategy t w))"
    using s t by simp_all
  moreover have "set (GetWidgetsByStrategy s w) = set (GetWidgetsByStrategy t w)"
    using s t by (simp add: strategy_matched_def)
  ultimately have "mset (GetWidgetsByStrategy s w) = mset (GetWidgetsByStrategy t w)"
    by (simp add: set_eq_iff_mset_eq_distinct distinct_map)
  then show ?thesis using s d(1) by (simp add: strategy_matched_iff)
qed

text \<open>A literal pattern matches the strings that contain it.\<close>

definition literal :: compiler where
  "literal p = Some (\<lambda>s. go_contains s p)"

lemma strategy_selects_self_matching_witness:
  "\<exists>w :: unit WidgetsStrategyWrapper. GetWidgetsByStrategy ''/admin'' w = [\<lparr>GetName = ''a'', MatchPattern = ''/user''\<rparr>]
     \<and> mset (GetWidgetsByStrategy ''/admin'' w) = mset (GetWidgetsByStrategy ''/user'' w)"
proof -
  define wd :: PatternWidget where "wd = \<lparr>GetName = ''a'', MatchPattern = ''/user''\<rparr>"
  define w1 :: "unit WidgetsStrategyWrapper" where "w1 = \<lparr>widgetsByName = Some [''a'' \<mapsto> wd], strategies = None\<rparr>"
  define w where "w = LoadStrategies literal [''a''] (Some [''/admin'', ''/user'']) w1"
  have "wrapper_Add literal (Some wd) zero_wrapper = Inr w1"
    by (simp add: wrapper_Add_def zero_wrapper_def widget_map_def loadStrategy_def w1_def wd_def)
  then have r1: "wrapper_reachable literal w1" by (rule wrapper_reachable.add [OF wrapper_reachable.zero])
  have r: "wrapper_reachable literal w"
    unfolding w_def by (rule wrapper_reachable.load [OF r1]) (simp add: w1_def widget_map_def)
  have ss: "strategies w = Some (\<lambda>s. if s = ''/user'' \<or> s = ''/admin'' then Some [''a''] else None)"
    by (auto simp: w_def LoadStrategies_def w1_def widget_map_def loadStrategy_def wd_def strategy_matched_def
        literal_def go_contains_iff fun_eq_iff)
  have map: "widget_map w = [''a'' \<mapsto> wd]"
    by (simp add: w_def LoadStrategies_def) (simp add: w1_def widget_map_def loadStrategy_def)
  have "GetWidgetsByStrategy ''/admin'' w = [wd]"
    using ss map by (simp add: GetWidgetsByStrategy_def List.map_filter_simps)
  moreover have "mset (GetWidgetsByStrategy ''/admin'' w) = mset (GetWidgetsByStrategy ''/user'' w)"
    using strategy_selects_self_matching [OF r ss, of "''/admin''" _ "''/user''"] by simp
  ultimately show ?thesis unfolding wd_def by blast
qed

end
