(* ===== verification/Utils_Strings.thy ===== *)
theory Utils_Strings
  imports Go_Strings
begin

text \<open>
  The string and list helpers of \<open>utils/index.go\<close>: conversions between naming conventions,
  the joining of URL paths, counting in a customised digit alphabet, substrings of UTF-8 text,
  and the removal of an item from a slice, with the sharing of the slice's array written out.
  Letters are those of ASCII.
\<close>

section \<open>Letters\<close>

definition is_upper :: "char \<Rightarrow> bool" where
  "is_upper c \<longleftrightarrow> 65 \<le> (of_char c :: nat) \<and> (of_char c :: nat) \<le> 90"

definition is_lower :: "char \<Rightarrow> bool" where
  "is_lower c \<longleftrightarrow> 97 \<le> (of_char c :: nat) \<and> (of_char c :: nat) \<le> 122"

definition upcase :: "char \<Rightarrow> char" where
  "upcase c = char_of ((of_char c :: nat) - 32)"

definition to_lower :: "string \<Rightarrow> string" where
  "to_lower s = map (\<lambda>c. if is_upper c then char_of ((of_char c :: nat) + 32) else c) s"

lemma upcase_is_upper:
  assumes "is_lower c"
  shows "is_upper (upcase c)"
proof -
  have c: "97 \<le> (of_char c :: nat)" "(of_char c :: nat) \<le> 122" using assms by (simp_all add: is_lower_def)
  then have "((of_char c :: nat) - 32) mod 256 = of_char c - 32" by (intro mod_less) linarith
  with c show ?thesis by (simp add: is_upper_def upcase_def, linarith)
qed

lemma upper_not_lower: "is_upper c \<Longrightarrow> \<not> is_lower c"
  by (simp add: is_upper_def is_lower_def)

lemma underscore [simp]: "\<not> is_upper CHR ''_''" "\<not> is_lower CHR ''_''"
  by (simp_all add: is_upper_def is_lower_def)

section \<open>Naming conventions\<close>

fun pascal_loop :: "bool \<Rightarrow> bool \<Rightarrow> string \<Rightarrow> string" where
  "pascal_loop j k [] = []"
| "pascal_loop j k (d # s) =
     (let k = (if k = False \<and> is_upper d then True else k);
          cap = (is_lower d \<and> (j \<or> k = False));
          d = (if cap then upcase d else d);
          j = (if cap then False else j);
          k = (if cap then True else k)
      in if k \<and> d = CHR ''_'' \<and> s \<noteq> [] \<and> is_lower (hd s) then pascal_loop True k s
         else d # pascal_loop j k s)"

definition PascalCaseString :: "string \<Rightarrow> string" where
  "PascalCaseString s = pascal_loop False False s"

definition CamelCaseString :: "string \<Rightarrow> string go" where
  "CamelCaseString s =
     (let s = (if has_prefix s ''ID'' then ''id'' @ drop 2 s else s);
          s = PascalCaseString s
      in if s = [] then Inl SliceBounds else Inr (to_lower [hd s] @ tl s))"

fun snake_loop :: "bool \<Rightarrow> bool \<Rightarrow> string \<Rightarrow> string" where
  "snake_loop later j [] = []"
| "snake_loop later j (d # s) =
     (if later \<and> is_upper d \<and> j then [CHR ''_''] else []) @
     d # snake_loop True (if d \<noteq> CHR ''_'' then True else j) s"

definition SnakeCaseString :: "string \<Rightarrow> string" where
  "SnakeCaseString s = to_lower (snake_loop False False s)"

fun kebab_loop :: "bool \<Rightarrow> bool \<Rightarrow> string \<Rightarrow> string" where
  "kebab_loop later j [] = []"
| "kebab_loop later j (d # s) =
     (if later \<and> is_upper d \<and> j then [CHR ''-''] else []) @
     (if d = CHR ''_'' then CHR ''-'' # kebab_loop True j s
      else d # kebab_loop True (if d \<noteq> CHR ''-'' then True else j) s)"

definition KebabCaseString :: "string \<Rightarrow> string" where
  "KebabCaseString s = to_lower (kebab_loop False False s)"

text \<open>The slice under construction is the second argument.\<close>

fun slices_loop :: "bool \<Rightarrow> string \<Rightarrow> bool \<Rightarrow> string \<Rightarrow> string list" where
  "slices_loop later cur jj [] = (if cur \<noteq> [] then [cur] else [])"
| "slices_loop later cur jj (d # s) =
     (if later \<and> is_upper d \<and> jj then cur # slices_loop True [d] False s
      else slices_loop True (cur @ [d]) True s)"

definition CamelCaseSlices :: "string \<Rightarrow> string list" where
  "CamelCaseSlices s = slices_loop False [] False s"

definition IsCapital :: "string \<Rightarrow> bool" where
  "IsCapital s = (if length s \<le> 0 then False else is_upper (hd s))"

definition GetLastPartString :: "string \<Rightarrow> string" where
  "GetLastPartString text =
     (let slices = go_split CHR ''.'' text; l = length slices
      in if 1 < l then slices ! (l - 1) else text)"

section \<open>Paths and addresses\<close>

text \<open>One round of the loop: the parts collected so far and \<open>endsWithSep\<close>.\<close>

definition join_step :: "string list \<times> bool \<Rightarrow> string \<Rightarrow> string list \<times> bool" where
  "join_step st p =
     (let p = trim_spaces p in
      if p = [] \<or> p = ''/'' then st
      else
        (fst st @ [if hd p = CHR ''/'' then (if snd st then tl p else p)
                   else if snd st then p
                   else if 0 < length (fst st) then CHR ''/'' # p else p],
         CHR ''/'' = last p))"

definition URLPathJoin :: "string \<Rightarrow> string list \<Rightarrow> string" where
  "URLPathJoin path paths =
     (let path = trim_spaces path;
          st = (if 0 < length path then ([path], CHR ''/'' = last path) else ([], False))
      in go_join (fst (foldl join_step st paths)) [])"

definition ParseRemoteIP :: "string \<Rightarrow> string" where
  "ParseRemoteIP v =
     (if CHR '':'' \<in> set v then rev (tl (dropWhile (\<lambda>c. c \<noteq> CHR '':'') (rev v))) else v)"

section \<open>Customised digits\<close>

text \<open>The last position of the byte in the alphabet, or -1; the cache of these tables is not observable.\<close>

fun digit_index :: "int \<Rightarrow> string \<Rightarrow> char \<Rightarrow> int" where
  "digit_index i [] c = - 1"
| "digit_index i (d # ds) c =
     (let r = digit_index (i + 1) ds c in if r \<noteq> - 1 then r else if d = c then i else - 1)"

definition GetDigistIndex :: "string \<Rightarrow> char \<Rightarrow> int" where
  "GetDigistIndex digists c = digit_index 0 digists c"

text \<open>
  The loop runs from the last byte; its argument is the value reversed.  The bytes that it
  passes are reset to the first digit.
\<close>

fun increase_loop :: "string \<Rightarrow> string \<Rightarrow> string go" where
  "increase_loop digists [] = Inr []"
| "increase_loop digists (c # cs) =
     (let idx = GetDigistIndex digists c; maxidx = int (length digists) - 1 in
      if 0 \<le> idx \<and> maxidx > idx then Inr (digists ! nat (idx + 1) # cs)
      else go_bind (increase_loop digists cs)
             (\<lambda>r. go_bind (go_index digists 0) (\<lambda>z. Inr (z # r))))"

definition IncreaseValueCustomizedDigist :: "string \<Rightarrow> string \<Rightarrow> string go" where
  "IncreaseValueCustomizedDigist v digists = go_bind (increase_loop digists (rev v)) (\<lambda>r. Inr (rev r))"

section \<open>Lists and maps\<close>

text \<open>
  \<open>arr\<close> is the array behind the argument slice and \<open>len\<close> the length of the current slice of
  it.  The range loop reads the array at every index of the argument slice, while the removals
  shift its elements.
\<close>

primrec remove_loop :: "string \<Rightarrow> nat list \<Rightarrow> string list \<Rightarrow> nat \<Rightarrow> string list go" where
  "remove_loop v [] arr len = Inr (take len arr)"
| "remove_loop v (i # is) arr len =
     (if v = arr ! i then
        (if Suc i \<le> len
         then remove_loop v is (take i arr @ drop (Suc i) (take len arr) @ drop (len - 1) arr) (len - 1)
         else Inl SliceBounds)
      else remove_loop v is arr len)"

definition RemoveItemFromList :: "string \<Rightarrow> string list \<Rightarrow> string list go" where
  "RemoveItemFromList v l = remove_loop v [0..<length l] l (length l)"

definition IsInList :: "int \<Rightarrow> int list \<Rightarrow> bool" where
  "IsInList key l = list_ex (\<lambda>v. v = key) l"

text \<open>A map is its list of entries, with distinct keys, in iteration order; nil is \<open>None\<close>.\<close>

definition IsStringMapEquals :: "(string \<times> string) list option \<Rightarrow> (string \<times> string) list option \<Rightarrow> bool" where
  "IsStringMapEquals src dst =
     (case (src, dst) of
        (Some s, Some d) \<Rightarrow>
          if length s \<noteq> length d then False
          else list_all (\<lambda>(k, v). v = (case map_of d k of None \<Rightarrow> [] | Some x \<Rightarrow> x)) s
      | _ \<Rightarrow> False)"

section \<open>Substrings of UTF-8 text\<close>

text \<open>
  Range over a string visits the first byte of every rune; in valid UTF-8 these are the bytes
  that are not continuation bytes.
\<close>

definition is_continuation :: "char \<Rightarrow> bool" where
  "is_continuation c \<longleftrightarrow> 128 \<le> (of_char c :: nat) \<and> (of_char c :: nat) < 192"

definition rune_starts :: "string \<Rightarrow> nat list" where
  "rune_starts s = filter (\<lambda>i. \<not> is_continuation (s ! i)) [0..<length s]"

fun substring_loop :: "int \<Rightarrow> int \<Rightarrow> nat list \<Rightarrow> int \<Rightarrow> nat \<Rightarrow> nat \<Rightarrow> nat \<times> nat \<times> bool" where
  "substring_loop start len [] n startpos endpos = (startpos, endpos, False)"
| "substring_loop start len (e # es) n startpos endpos =
     (if n = start then substring_loop start len es (n + 1) e e
      else if n \<ge> len then (startpos, e, True)
      else substring_loop start len es (n + 1) startpos e)"

definition SubStringFromUTF8 :: "string \<Rightarrow> int \<Rightarrow> int \<Rightarrow> bool \<Rightarrow> string go" where
  "SubStringFromUTF8 s length' start markDots =
     (case substring_loop start (length' + start) (rune_starts s) 0 0 0 of
        (startpos, endpos, cutted) \<Rightarrow>
          if cutted \<and> markDots
          then go_bind (go_slice s (int startpos) (int endpos)) (\<lambda>r. Inr (r @ ''...''))
          else go_slice s (int startpos) (int endpos))"

definition SubStringUTF8 :: "string \<Rightarrow> int \<Rightarrow> int list \<Rightarrow> string go" where
  "SubStringUTF8 s length' start = SubStringFromUTF8 s length' (case start of [] \<Rightarrow> 0 | o' # _ \<Rightarrow> o') False"

section \<open>Laws of the naming conventions\<close>

text \<open>No underscore is followed by a lower-case letter.\<close>

fun pascal_ok :: "string \<Rightarrow> bool" where
  "pascal_ok (c # d # s) \<longleftrightarrow> (if c = CHR ''_'' \<and> is_lower d then False else pascal_ok (d # s))"
| "pascal_ok _ \<longleftrightarrow> True"

lemma pascal_ok_Cons:
  "pascal_ok (c # s) \<longleftrightarrow> (if c = CHR ''_'' \<and> s \<noteq> [] \<and> is_lower (hd s) then False else pascal_ok s)"
  by (cases s) auto

lemma pascal_fixed: "pascal_ok s \<Longrightarrow> pascal_loop False True s = s"
  by (induction s) (auto simp: pascal_ok_Cons Let_def split: if_splits)

lemma pascal_head:
  "s \<noteq> [] \<Longrightarrow> (j \<Longrightarrow> is_lower (hd s)) \<Longrightarrow> j \<or> \<not> k \<or> \<not> is_lower (hd s) \<Longrightarrow>
   pascal_loop j k s \<noteq> [] \<and> \<not> is_lower (hd (pascal_loop j k s))"
proof (induction s arbitrary: j k)
  case (Cons d s)
  show ?case
  proof (cases "is_lower d")
    case True
    then have "\<not> is_lower (upcase d)" "upcase d \<noteq> CHR ''_''" "j \<or> \<not> k" "\<not> is_upper d"
      using Cons.prems(3) upcase_is_upper [of d] upper_not_lower by auto
    then show ?thesis using True by (auto simp: Let_def)
  next
    case False
    then have j: "\<not> j" using Cons.prems(2) by auto
    show ?thesis
    proof (cases "k \<and> d = CHR ''_'' \<and> s \<noteq> [] \<and> is_lower (hd s)")
      case True
      then show ?thesis using Cons.IH [of True k] False j by (simp add: Let_def)
    next
      case skip: False
      then show ?thesis using False j by (auto simp: Let_def)
    qed
  qed
qed simp

lemma pascal_loop_ok: "(j \<Longrightarrow> s \<noteq> [] \<and> is_lower (hd s)) \<Longrightarrow> pascal_ok (pascal_loop j k s)"
proof (induction s arbitrary: j k)
  case (Cons d s)
  show ?case
  proof (cases "d = CHR ''_''")
    case True
    then have j: "\<not> j" using Cons.prems by auto
    show ?thesis
    proof (cases "k \<and> s \<noteq> [] \<and> is_lower (hd s)")
      case skip: True
      then show ?thesis using True j Cons.IH [of True k] by (simp add: Let_def)
    next
      case keep: False
      have "pascal_ok (pascal_loop False k s)" by (rule Cons.IH) simp
      moreover have "s \<noteq> [] \<Longrightarrow> \<not> is_lower (hd (pascal_loop False k s))"
        using pascal_head [of s False k] keep by auto
      ultimately show ?thesis using True j keep
        by (cases "s = []") (auto simp: Let_def pascal_ok_Cons)
    qed
  next
    case False
    have up: "is_lower d \<Longrightarrow> upcase d \<noteq> CHR ''_''" using upcase_is_upper [of d] by auto
    have IH: "pascal_ok (pascal_loop False k' s)" for k' by (rule Cons.IH) simp
    have "\<not> (j \<and> \<not> is_lower d)" using Cons.prems by auto
    then show ?thesis using False up IH by (auto simp: Let_def pascal_ok_Cons)
  qed
qed simp

text \<open>The first letter of the result is a capital, or there is none.\<close>

lemma pascal_leading: "pascal_loop False k (pascal_loop j True s) = pascal_loop j True s"
  if "j \<Longrightarrow> s \<noteq> [] \<and> is_lower (hd s)" and "k"
  using that pascal_fixed pascal_loop_ok [of j s True] by simp

lemma pascal_idem: "pascal_loop False False (pascal_loop False False s) = pascal_loop False False s"
proof (induction s)
  case (Cons d s)
  have fixed: "pascal_loop False True (pascal_loop False True s) = pascal_loop False True s"
    by (rule pascal_fixed) (rule pascal_loop_ok, simp)
  consider "is_lower d" | "is_upper d" | "\<not> is_lower d" "\<not> is_upper d" by blast
  then show ?case
  proof cases
    case 1
    then have "is_upper (upcase d)" "\<not> is_lower (upcase d)" "upcase d \<noteq> CHR ''_''" "\<not> is_upper d"
      using upcase_is_upper [of d] upper_not_lower by auto
    then show ?thesis using 1 fixed by (simp add: Let_def)
  next
    case 2
    then have "\<not> is_lower d" "d \<noteq> CHR ''_''" using upper_not_lower by auto
    then show ?thesis using 2 fixed by (simp add: Let_def)
  next
    case 3
    then show ?thesis using Cons by (simp add: Let_def)
  qed
qed simp

lemma slices_concat: "concat (slices_loop later cur jj s) = cur @ s"
  by (induction later cur jj s rule: slices_loop.induct) auto

lemma slices_nonempty: "(later \<Longrightarrow> cur \<noteq> []) \<Longrightarrow> [] \<notin> set (slices_loop later cur jj s)"
  by (induction later cur jj s rule: slices_loop.induct) auto

section \<open>Counting\<close>

lemma digit_index_range:
  "digit_index i ds c = - 1 \<or> (i \<le> digit_index i ds c \<and> digit_index i ds c < i + int (length ds))"
  by (induction ds arbitrary: i) (auto simp: Let_def split: if_splits, fastforce+)

lemma digit_index_nth:
  "distinct ds \<Longrightarrow> n < length ds \<Longrightarrow> 0 \<le> i \<Longrightarrow> digit_index i ds (ds ! n) = i + int n"
proof (induction ds arbitrary: i n)
  case (Cons d ds)
  have absent: "c \<notin> set ds \<Longrightarrow> digit_index i ds c = - 1" for c i
    by (induction ds arbitrary: i) auto
  show ?case
  proof (cases n)
    case 0
    then show ?thesis using Cons.prems absent by (simp add: Let_def)
  next
    case (Suc m)
    then show ?thesis using Cons.IH [of m "i + 1"] Cons.prems by (simp add: Let_def)
  qed
qed simp

text \<open>A reversed numeral and the number it denotes, in the base of the alphabet.\<close>

fun numeral_value :: "string \<Rightarrow> string \<Rightarrow> int" where
  "numeral_value digists [] = 0"
| "numeral_value digists (c # cs) = GetDigistIndex digists c + int (length digists) * numeral_value digists cs"

lemma numeral_value_bounds:
  assumes "set cs \<subseteq> set digists" and "distinct digists"
  shows "0 \<le> numeral_value digists cs \<and> numeral_value digists cs < int (length digists) ^ length cs"
  using assms(1)
proof (induction cs)
  case (Cons c cs)
  then obtain n where n: "n < length digists" "c = digists ! n" by (auto simp: in_set_conv_nth)
  then have i: "GetDigistIndex digists c = int n"
    using digit_index_nth [OF assms(2)] by (simp add: GetDigistIndex_def)
  let ?b = "int (length digists)" and ?v = "numeral_value digists cs" and ?p = "int (length digists) ^ length cs"
  have v: "0 \<le> ?v" "?v + 1 \<le> ?p" using Cons by auto
  have "?b * (?v + 1) \<le> ?b * ?p" using v by (intro mult_left_mono) auto
  then show ?case using v n(1) i by (simp add: distrib_left)
qed simp

lemma increase_loop_value:
  assumes "distinct digists" and "digists \<noteq> []" and "set cs \<subseteq> set digists"
  shows "\<exists>r. increase_loop digists cs = Inr r \<and> length r = length cs \<and> set r \<subseteq> set digists
    \<and> numeral_value digists r = (numeral_value digists cs + 1) mod int (length digists) ^ length cs"
  using assms(3)
proof (induction cs)
  case (Cons c cs)
  let ?b = "int (length digists)" and ?p = "int (length digists) ^ length cs"
  obtain n where n: "n < length digists" "c = digists ! n" using Cons.prems by (auto simp: in_set_conv_nth)
  have index: "m < length digists \<Longrightarrow> GetDigistIndex digists (digists ! m) = int m" for m
    using digit_index_nth [OF assms(1), of m 0] by (simp add: GetDigistIndex_def)
  have i: "GetDigistIndex digists c = int n" using n index by simp
  show ?case
  proof (cases "Suc n < length digists")
    case True
    let ?r = "digists ! Suc n # cs"
    have "increase_loop digists (c # cs) = Inr ?r" using True i by (simp add: Let_def nat_add_distrib)
    moreover have sub: "set ?r \<subseteq> set digists" using True Cons.prems by auto
    moreover have "numeral_value digists ?r = numeral_value digists (c # cs) + 1"
      using index [OF True] i by simp
    ultimately show ?thesis
      using numeral_value_bounds [OF sub assms(1)] by (intro exI [of _ ?r]) (simp add: mod_pos_pos_trivial)
  next
    case False
    then have n': "int n + 1 = ?b" using n(1) by linarith
    obtain r where r: "increase_loop digists cs = Inr r" "length r = length cs" "set r \<subseteq> set digists"
        "numeral_value digists r = (numeral_value digists cs + 1) mod ?p"
      using Cons by auto
    have "go_index digists 0 = Inr (digists ! 0)" using assms(2) by (simp add: go_index_def)
    then have "increase_loop digists (c # cs) = Inr (digists ! 0 # r)"
      using i n' r(1) by (simp add: Let_def)
    moreover have "numeral_value digists (digists ! 0 # r) = ?b * ((numeral_value digists cs + 1) mod ?p)"
      using index [of 0] assms(2) r(4) by simp
    moreover have "numeral_value digists (c # cs) + 1 = ?b * (numeral_value digists cs + 1)"
      using i n' by (simp add: distrib_left)
    then have "(numeral_value digists (c # cs) + 1) mod ?b ^ length (c # cs)
        = ?b * ((numeral_value digists cs + 1) mod ?p)"
      by (simp only: length_Cons power_Suc mult_mod_right)
    ultimately show ?thesis using r(2,3) assms(2) by (intro exI [of _ "digists ! 0 # r"]) simp
  qed
qed simp

section \<open>Segments of a path\<close>

definition segments :: "string \<Rightarrow> string list" where
  "segments s = filter (\<lambda>p. p \<noteq> []) (go_split CHR ''/'' s)"

lemma go_split_append: "go_split sep (a @ sep # b) = go_split sep a @ go_split sep b"
  by (induction a) (auto split: list.split)

lemma segments_simps [simp]:
  "segments [] = []" "segments (CHR ''/'' # s) = segments s" "segments (a @ CHR ''/'' # b) = segments a @ segments b"
  by (simp_all add: segments_def go_split_append)

lemma segments_last: "a \<noteq> [] \<Longrightarrow> last a = CHR ''/'' \<Longrightarrow> segments (a @ b) = segments a @ segments b"
  using segments_simps(3) [of "butlast a"] by (metis append.assoc append_Cons append_Nil append_butlast_last_id segments_simps(1,3) append_Nil2)

lemma go_join_empty: "go_join ps [] = concat ps"
  by (induction ps "[] :: string" rule: go_join.induct) auto

definition joined :: "string list \<times> bool \<Rightarrow> bool" where
  "joined st \<longleftrightarrow> (fst st = [] \<longleftrightarrow> concat (fst st) = []) \<and> (snd st \<longleftrightarrow> concat (fst st) \<noteq> [] \<and> last (concat (fst st)) = CHR ''/'')"

lemma join_step_spec:
  assumes "joined st"
  shows "joined (join_step st p)
    \<and> segments (concat (fst (join_step st p))) = segments (concat (fst st)) @ segments (trim_spaces p)"
proof (cases "trim_spaces p = [] \<or> trim_spaces p = ''/''")
  case True
  then show ?thesis using assms by (auto simp: join_step_def Let_def)
next
  case False
  then obtain c q where q: "trim_spaces p = c # q" "c = CHR ''/'' \<Longrightarrow> q \<noteq> []" by (cases "trim_spaces p") auto
  show ?thesis
    using assms q False
    by (cases "snd st") (auto simp: joined_def join_step_def Let_def segments_last)
qed

lemma join_steps_spec:
  "joined st \<Longrightarrow> segments (concat (fst (foldl join_step st ps)))
     = segments (concat (fst st)) @ concat (map (\<lambda>p. segments (trim_spaces p)) ps)"
proof (induction ps arbitrary: st)
  case (Cons p ps)
  then show ?case using join_step_spec [OF Cons.prems, of p] by simp
qed simp

section \<open>Removal from a shared array\<close>

lemma remove_loop_skip:
  "(\<And>i. i \<in> set is \<Longrightarrow> arr ! i \<noteq> v) \<Longrightarrow> remove_loop v (is @ js) arr len = remove_loop v js arr len"
proof (induction "is")
  case (Cons i "is")
  then have "arr ! i \<noteq> v" by simp
  with Cons show ?case by (auto simp: eq_commute [of v])
qed simp

lemma remove_loop_absent:
  "(\<And>i. i \<in> set is \<Longrightarrow> arr ! i \<noteq> v) \<Longrightarrow> remove_loop v is arr len = Inr (take len arr)"
  using remove_loop_skip [of "is" arr v "[]" len] by simp

lemma remove_once:
  assumes "v \<notin> set xs" and "v \<notin> set ys"
  shows "RemoveItemFromList v (xs @ v # ys) = Inr (xs @ ys)"
proof -
  define n where "n = length (xs @ v # ys)"
  define arr where "arr = xs @ ys @ [last (v # ys)]"
  have idx: "[0..<n] = [0..<length xs] @ length xs # [Suc (length xs)..<n]"
    using upt_add_eq_append [of 0 "length xs" "Suc (length ys)"] upt_conv_Cons [of "length xs" n]
    by (simp add: n_def del: upt_Suc)
  have "drop (n - 1) (xs @ v # ys) = [last (v # ys)]"
    by (cases ys rule: rev_cases) (auto simp: n_def)
  then have "remove_loop v [0..<n] (xs @ v # ys) n = remove_loop v [Suc (length xs)..<n] arr (n - 1)"
    unfolding idx by (subst remove_loop_skip) (use assms(1) in \<open>auto simp: nth_append n_def arr_def\<close>)
  also have "arr ! i \<noteq> v" if i: "i \<in> set [Suc (length xs)..<n]" for i
  proof -
    have "ys \<noteq> []" using that by (auto simp: n_def)
    then have "last (v # ys) \<in> set ys" by simp
    then have "set (ys @ [last (v # ys)]) \<subseteq> set ys" by auto
    moreover obtain m where "i = length xs + m" and "m < length (ys @ [last (v # ys)])"
    proof
      show "i = length xs + (i - length xs)" and "i - length xs < length (ys @ [last (v # ys)])"
        using i by (auto simp: n_def)
    qed
    then have "arr ! i \<in> set (ys @ [last (v # ys)])"
      unfolding arr_def by (metis nth_append_length_plus nth_mem)
    ultimately show ?thesis using assms(2) by blast
  qed
  then have "remove_loop v [Suc (length xs)..<n] arr (n - 1) = Inr (take (n - 1) arr)"
    by (rule remove_loop_absent)
  finally show ?thesis by (simp add: RemoveItemFromList_def n_def arr_def)
qed

lemma remove_panics:
  assumes "arr ! m = v" and "length arr = Suc m" and "len \<le> m" and "\<And>i. i \<in> set is \<Longrightarrow> i < m"
  shows "remove_loop v (is @ [m]) arr len = Inl SliceBounds"
  using assms
proof (induction "is" arbitrary: arr len)
  case (Cons i "is")
  define arr' where "arr' = take i arr @ drop (Suc i) (take len arr) @ drop (len - 1) arr"
  have "remove_loop v (is @ [m]) arr' (len - 1) = Inl SliceBounds" if "Suc i \<le> len"
  proof (rule Cons.IH)
    show l: "length arr' = Suc m" using that Cons.prems(2,3) by (simp add: arr'_def)
    have "arr' ! m = last arr'" using l by (metis diff_Suc_1 last_conv_nth length_0_conv nat.distinct(1))
    also have "last arr' = last (drop (len - 1) arr)" using that Cons.prems(2,3) by (simp add: arr'_def)
    also have "\<dots> = arr ! m" using that Cons.prems(2,3) by (simp add: last_conv_nth)
    finally show "arr' ! m = v" using Cons.prems(1) by simp
  qed (use that Cons.prems in auto)
  then show ?case using Cons.IH [OF Cons.prems(1-3)] Cons.prems(4) by (auto simp: arr'_def)
qed auto

section \<open>ASCII substrings\<close>

lemma rune_starts_ascii: "list_all (\<lambda>c. (of_char c :: nat) < 128) s \<Longrightarrow> rune_starts s = [0..<length s]"
  unfolding rune_starts_def by (rule filter_True) (fastforce simp: list_all_length is_continuation_def)

lemma substring_loop_count:
  "0 < m \<Longrightarrow> m \<le> n \<Longrightarrow> m \<le> len \<Longrightarrow>
   substring_loop 0 (int len) [m..<n] (int m) 0 (m - 1) = (if len < n then (0, len, True) else (0, n - 1, False))"
proof (induction "n - m" arbitrary: m)
  case (Suc k)
  then have idx: "[m..<n] = m # [Suc m..<n]" by (simp add: upt_conv_Cons)
  show ?case
  proof (cases "len = m")
    case True
    then show ?thesis using Suc.prems Suc.hyps(2) by (simp add: idx)
  next
    case False
    then have "substring_loop 0 (int len) [Suc m..<n] (int (Suc m)) 0 (Suc m - 1)
        = (if len < n then (0, len, True) else (0, n - 1, False))"
      using Suc.prems Suc.hyps(2) by (intro Suc.hyps(1)) auto
    then show ?thesis using Suc.prems(1,3) False by (simp add: idx add.commute)
  qed
qed simp

section \<open>Properties\<close>

text \<open>
  Over an alphabet of distinct digits, increasing a value adds one to the number it denotes,
  wrapping around at the largest number of its length: the length stays and every byte of the
  result is a digit.
\<close>

theorem increase_counts:
  assumes "distinct digists" and "digists \<noteq> []" and "set v \<subseteq> set digists"
  shows "\<exists>r. IncreaseValueCustomizedDigist v digists = Inr r \<and> length r = length v \<and> set r \<subseteq> set digists
    \<and> numeral_value digists (rev r) = (numeral_value digists (rev v) + 1) mod int (length digists) ^ length v"
  using increase_loop_value [OF assms(1,2), of "rev v"] assms(3)
  by (auto simp: IncreaseValueCustomizedDigist_def)

lemma increase_counts_witness:
  "IncreaseValueCustomizedDigist ''199'' ''0123456789'' = Inr ''200'' \<and>
   numeral_value ''0123456789'' (rev ''200'') = (numeral_value ''0123456789'' (rev ''199'') + 1) mod 1000"
proof -
  have "IncreaseValueCustomizedDigist ''199'' ''0123456789'' = Inr ''200''"
    by (simp add: IncreaseValueCustomizedDigist_def GetDigistIndex_def go_index_def Let_def)
  then show ?thesis using increase_counts [of "''0123456789''" "''199''"] by simp
qed

text \<open>
  Joining URL paths keeps the segments: the non-empty segments of the joined path are those
  of the trimmed parts, in order, however the parts begin and end.
\<close>

theorem URLPathJoin_segments:
  "segments (URLPathJoin path paths) = concat (map (\<lambda>p. segments (trim_spaces p)) (path # paths))"
proof -
  have j: "joined (if 0 < length q then ([q], CHR ''/'' = last q) else ([], False))" for q
    by (auto simp: joined_def)
  show ?thesis
    using join_steps_spec [OF j, of "trim_spaces path" paths] by (auto simp: URLPathJoin_def Let_def go_join_empty)
qed

text \<open>
  Removing an item that occurs once removes it, and nothing else.  Removing one that also
  occurs at the end of the list panics, because the loop reads what its own removal shifted.
\<close>

theorem RemoveItemFromList_cases:
  assumes "v \<notin> set xs" and "v \<notin> set ys"
  shows "RemoveItemFromList v (xs @ v # ys) = Inr (xs @ ys) \<and> RemoveItemFromList v (xs @ ys) = Inr (xs @ ys)
    \<and> RemoveItemFromList v (v # zs @ [v]) = Inl SliceBounds"
proof -
  have "RemoveItemFromList v (xs @ ys) = Inr (xs @ ys)"
    using assms remove_loop_absent [of "[0..<length (xs @ ys)]" "xs @ ys" v "length (xs @ ys)"] nth_mem [of _ "xs @ ys"]
    by (fastforce simp: RemoveItemFromList_def simp del: nth_append)
  moreover have "RemoveItemFromList v (v # zs @ [v]) = Inl SliceBounds"
  proof -
    let ?m = "Suc (length zs)"
    have idx: "[0..<length (v # zs @ [v])] = 0 # [Suc 0..<?m] @ [?m]"
      using upt_conv_Cons [of 0 "Suc (Suc (length zs))"] by (simp add: upt_Suc_append del: upt_Suc)
    have "remove_loop v ([Suc 0..<?m] @ [?m]) (zs @ [v, v]) ?m = Inl SliceBounds"
      by (rule remove_panics) (auto simp: nth_append)
    then show ?thesis unfolding RemoveItemFromList_def idx by simp
  qed
  ultimately show ?thesis using remove_once [OF assms] by blast
qed

lemma RemoveItemFromList_cases_witness:
  "RemoveItemFromList ''b'' [''a'', ''b'', ''c''] = Inr [''a'', ''c''] \<and>
   RemoveItemFromList ''b'' [''b'', ''a'', ''b''] = Inl SliceBounds"
  using RemoveItemFromList_cases [of "''b''" "[''a'']" "[''c'']" "[''a'']"] by simp

text \<open>
  A substring of ASCII text from its start stops one character early when the text is not
  longer than the requested length: it is never the whole text.
\<close>

theorem SubStringUTF8_ascii:
  assumes "list_all (\<lambda>c. (of_char c :: nat) < 128) s" and "s \<noteq> []" and "0 < len"
  shows "SubStringUTF8 s (int len) [] = Inr (if len < length s then take len s else butlast s)"
proof -
  have idx: "[0..<length s] = 0 # [Suc 0..<length s]" using assms(2) by (simp add: upt_conv_Cons)
  have "substring_loop 0 (int len) [0..<length s] 0 0 0 = substring_loop 0 (int len) [1..<length s] (int 1) 0 (1 - 1)"
    by (simp add: idx)
  also have "\<dots> = (if len < length s then (0, len, True) else (0, length s - 1, False))"
    using assms(2,3) by (intro substring_loop_count) (auto simp: Suc_le_eq)
  finally show ?thesis
    using assms(2) go_slice_prefix [of len s] go_slice_prefix [of "length s - 1" s]
    by (simp add: SubStringUTF8_def SubStringFromUTF8_def rune_starts_ascii [OF assms(1)] butlast_conv_take)
qed

lemma SubStringUTF8_ascii_witness: "SubStringUTF8 ''abc'' 3 [] = Inr ''ab''"
  using SubStringUTF8_ascii [of "''abc''" 3] by simp

text \<open>
  Pascal case is a normal form, camel-case slices put back together are the string and
  none of them is empty, and camel case of the empty string panics.
\<close>

theorem case_conversions:
  "PascalCaseString (PascalCaseString s) = PascalCaseString s
   \<and> concat (CamelCaseSlices s) = s \<and> [] \<notin> set (CamelCaseSlices s)
   \<and> CamelCaseString [] = Inl SliceBounds"
  using slices_nonempty [of False "[]" False s]
  by (simp add: PascalCaseString_def pascal_idem CamelCaseSlices_def slices_concat CamelCaseString_def has_prefix_def)

text \<open>
  Two equal non-nil maps compare equal, and maps that compare equal agree on every key
  with a non-empty value; yet a key with an empty value counts as present everywhere.
\<close>

theorem IsStringMapEquals_spec:
  assumes "distinct (map fst s)" and "distinct (map fst d)"
  shows "(if map_of s = map_of d then IsStringMapEquals (Some s) (Some d)
      else if [] \<in> snd ` set s then True else IsStringMapEquals (Some s) (Some d) = False)
    \<and> IsStringMapEquals (Some [(''a'', [])]) (Some [(''b'', x)])"
proof -
  have eq: "IsStringMapEquals (Some s) (Some d)" if "map_of s = map_of d"
  proof -
    have "set s = set d" using that assms map_of_inject_set by blast
    then have "length s = length d"
      using assms by (metis distinct_card distinct_map)
    moreover have "map_of d k = Some v" if "(k, v) \<in> set s" for k v
      using that assms(1) \<open>map_of s = map_of d\<close> by (metis map_of_is_SomeI)
    ultimately show ?thesis by (auto simp: IsStringMapEquals_def list_all_iff)
  qed
  have ne: "map_of s = map_of d" if e: "IsStringMapEquals (Some s) (Some d)" and v: "[] \<notin> snd ` set s"
  proof -
    have len: "length s = length d" using e by (auto simp: IsStringMapEquals_def split: if_splits)
    have "map_of d k = Some x" if "(k, x) \<in> set s" for k x
    proof -
      have "x = (case map_of d k of None \<Rightarrow> [] | Some x \<Rightarrow> x)"
        using e that by (auto simp: IsStringMapEquals_def list_all_iff split: if_splits)
      moreover have "x \<noteq> []" using v that by force
      ultimately show ?thesis by (auto split: option.splits)
    qed
    then have sub: "set s \<subseteq> set d" by (auto dest: map_of_SomeD)
    have "card (set s) = card (set d)" using assms len by (metis distinct_card distinct_map)
    then have "set s = set d" using sub by (simp add: card_subset_eq)
    then show ?thesis using assms map_of_inject_set by blast
  qed
  show ?thesis using eq ne by (auto simp: IsStringMapEquals_def)
qed

lemma IsStringMapEquals_spec_witness:
  "IsStringMapEquals (Some [(''k'', ''v'')]) (Some [(''k'', ''w'')]) = False"
  using IsStringMapEquals_spec [of "[(''k'', ''v'')]" "[(''k'', ''w'')]" "[]"]
  by (auto simp: fun_eq_iff split: if_splits)

end
