(* ===== verification/Strategy_Chains.thy ===== *)
theory Strategy_Chains
  imports Widgets Utils_Strings
begin

text \<open>
  \<open>microsvc/observers/observers.go\<close>, \<open>microsvc/visitors/visitors.go\<close> and
  \<open>microsvc/delegates/delegates.go\<close>: the three chains of widgets that a controller runs around
  its handlers, each with the factory of the default widgets it starts from.  The three packages
  repeat one design, so their contract is one locale, interpreted on each of them.
\<close>

text \<open>Adding or attaching one after the other, as the constructors do.\<close>

primrec add_all :: "compiler \<Rightarrow> 'x PatternWidget_scheme option list \<Rightarrow> 'x WidgetsStrategyWrapper \<Rightarrow> 'x WidgetsStrategyWrapper go" where
  "add_all compile [] w = Inr w"
| "add_all compile (wd # wds) w = go_bind (wrapper_Add compile wd w) (add_all compile wds)"

section \<open>Observers\<close>

record 'x ObserversChain =
  observers_name :: string
  observers_matchPattern :: string
  observers :: "'x WidgetsStrategyWrapper"

definition GetObserver :: "string \<Rightarrow> 'x AbstractStrategyWidgetFactory \<Rightarrow> 'x PatternWidget_scheme option" where
  "GetObserver name f = factory_Get name f"

definition SetObserver :: "'x PatternWidget_scheme option \<Rightarrow> 'x AbstractStrategyWidgetFactory \<Rightarrow> 'x AbstractStrategyWidgetFactory go" where
  "SetObserver observer f = factory_Set observer f"

definition newObserverResponsibilityChain :: "compiler \<Rightarrow> string \<Rightarrow> string \<Rightarrow> 'x PatternWidget_scheme option list \<Rightarrow> 'x ObserversChain go" where
  "newObserverResponsibilityChain compile name matchPattern wds =
     go_bind (add_all compile wds zero_wrapper)
       (\<lambda>w. Inr \<lparr>observers_name = name, observers_matchPattern = matchPattern, observers = w\<rparr>)"

definition getAllObservers :: "string list \<Rightarrow> 'x AbstractStrategyWidgetFactory \<Rightarrow> 'x PatternWidget_scheme list" where
  "getAllObservers order f = factory_GetAll order f"

definition NewObserversChain :: "compiler \<Rightarrow> string list \<Rightarrow> 'x AbstractStrategyWidgetFactory \<Rightarrow> string \<Rightarrow> string \<Rightarrow> 'x ObserversChain go" where
  "NewObserversChain compile order defaults name matchPattern =
     newObserverResponsibilityChain compile name matchPattern (map Some (getAllObservers order defaults))"

definition AttachObserver :: "compiler \<Rightarrow> 'x PatternWidget_scheme option \<Rightarrow> 'x ObserversChain \<Rightarrow> ('x ObserversChain \<times> bool) go" where
  "AttachObserver compile observer c =
     (case observer of
        None \<Rightarrow> Inl NilDereference
      | Some o' \<Rightarrow>
          (case wrapper_Get (GetName o') (observers c) of
             Some _ \<Rightarrow> Inr (c, False)
           | None \<Rightarrow> go_bind (wrapper_Add compile (Some o') (observers c)) (\<lambda>w. Inr (c\<lparr>observers := w\<rparr>, True))))"

definition RemoveObserver :: "compiler \<Rightarrow> string \<Rightarrow> 'x ObserversChain \<Rightarrow> 'x ObserversChain \<times> bool" where
  "RemoveObserver compile name c = (c\<lparr>observers := fst (wrapper_Remove compile name (observers c))\<rparr>, True)"

definition GetObservers :: "string \<Rightarrow> 'x ObserversChain \<Rightarrow> 'x PatternWidget_scheme list" where
  "GetObservers pattern c = GetWidgetsByStrategy pattern (observers c)"

primrec attach_observers :: "compiler \<Rightarrow> 'x PatternWidget_scheme list \<Rightarrow> 'x ObserversChain \<Rightarrow> 'x ObserversChain go" where
  "attach_observers compile [] c = Inr c"
| "attach_observers compile (wd # wds) c =
     go_bind (AttachObserver compile (Some wd) c) (\<lambda>r. attach_observers compile wds (fst r))"

definition InitializeObservers :: "compiler \<Rightarrow> string list \<Rightarrow> 'x AbstractStrategyWidgetFactory \<Rightarrow> string \<Rightarrow> 'x ObserversChain \<Rightarrow> 'x ObserversChain go" where
  "InitializeObservers compile order defaults from c =
     go_bind (if observers_name c = []
              then go_bind (CamelCaseString from)
                     (\<lambda>s. Inr (c\<lparr>observers_name := s @ ''ObserversChain'', observers_matchPattern := ''*''\<rparr>))
              else Inr c)
       (\<lambda>c. if wrapper_IsEmpty (observers c) then attach_observers compile (getAllObservers order defaults) c else Inr c)"

definition loadObserverStrategies :: "compiler \<Rightarrow> string list \<Rightarrow> string list option \<Rightarrow> 'x ObserversChain \<Rightarrow> 'x ObserversChain" where
  "loadObserverStrategies compile order patterns c = c\<lparr>observers := LoadStrategies compile order patterns (observers c)\<rparr>"

section \<open>Visitors\<close>

record 'x VisitorsChain =
  visitors_name :: string
  visitors_matchPattern :: string
  visitors :: "'x WidgetsStrategyWrapper"

definition GetVisitor :: "string \<Rightarrow> 'x AbstractStrategyWidgetFactory \<Rightarrow> 'x PatternWidget_scheme option" where
  "GetVisitor name f = factory_Get name f"

definition SetVisitor :: "'x PatternWidget_scheme option \<Rightarrow> 'x AbstractStrategyWidgetFactory \<Rightarrow> 'x AbstractStrategyWidgetFactory go" where
  "SetVisitor visitor f = factory_Set visitor f"

definition newVisitorResponsibilityChain :: "compiler \<Rightarrow> string \<Rightarrow> string \<Rightarrow> 'x PatternWidget_scheme option list \<Rightarrow> 'x VisitorsChain go" where
  "newVisitorResponsibilityChain compile name matchPattern wds =
     go_bind (add_all compile wds zero_wrapper)
       (\<lambda>w. Inr \<lparr>visitors_name = name, visitors_matchPattern = matchPattern, visitors = w\<rparr>)"

definition getAllVisitors :: "string list \<Rightarrow> 'x AbstractStrategyWidgetFactory \<Rightarrow> 'x PatternWidget_scheme list" where
  "getAllVisitors order f = factory_GetAll order f"

definition NewVisitorsChain :: "compiler \<Rightarrow> string list \<Rightarrow> 'x AbstractStrategyWidgetFactory \<Rightarrow> string \<Rightarrow> string \<Rightarrow> 'x VisitorsChain go" where
  "NewVisitorsChain compile order defaults name matchPattern =
     newVisitorResponsibilityChain compile name matchPattern (map Some (getAllVisitors order defaults))"

definition AttachVisitor :: "compiler \<Rightarrow> 'x PatternWidget_scheme option \<Rightarrow> 'x VisitorsChain \<Rightarrow> ('x VisitorsChain \<times> bool) go" where
  "AttachVisitor compile visitor c =
     (case visitor of
        None \<Rightarrow> Inl NilDereference
      | Some o' \<Rightarrow>
          (case wrapper_Get (GetName o') (visitors c) of
             Some _ \<Rightarrow> Inr (c, False)
           | None \<Rightarrow> go_bind (wrapper_Add compile (Some o') (visitors c)) (\<lambda>w. Inr (c\<lparr>visitors := w\<rparr>, True))))"

definition RemoveVisitor :: "compiler \<Rightarrow> string \<Rightarrow> 'x VisitorsChain \<Rightarrow> 'x VisitorsChain \<times> bool" where
  "RemoveVisitor compile name c = (c\<lparr>visitors := fst (wrapper_Remove compile name (visitors c))\<rparr>, True)"

definition GetVisitors :: "string \<Rightarrow> 'x VisitorsChain \<Rightarrow> 'x PatternWidget_scheme list" where
  "GetVisitors pattern c = GetWidgetsByStrategy pattern (visitors c)"

primrec attach_visitors :: "compiler \<Rightarrow> 'x PatternWidget_scheme list \<Rightarrow> 'x VisitorsChain \<Rightarrow> 'x VisitorsChain go" where
  "attach_visitors compile [] c = Inr c"
| "attach_visitors compile (wd # wds) c =
     go_bind (AttachVisitor compile (Some wd) c) (\<lambda>r. attach_visitors compile wds (fst r))"

definition InitializeVisitors :: "compiler \<Rightarrow> string list \<Rightarrow> 'x AbstractStrategyWidgetFactory \<Rightarrow> string \<Rightarrow> 'x VisitorsChain \<Rightarrow> 'x VisitorsChain go" where
  "InitializeVisitors compile order defaults from c =
     go_bind (if visitors_name c = []
              then go_bind (CamelCaseString from)
                     (\<lambda>s. Inr (c\<lparr>visitors_name := s @ ''VisitorsChain'', visitors_matchPattern := ''*''\<rparr>))
              else Inr c)
       (\<lambda>c. if wrapper_IsEmpty (visitors c) then attach_visitors compile (getAllVisitors order defaults) c else Inr c)"

definition loadVisitorStrategies :: "compiler \<Rightarrow> string list \<Rightarrow> string list option \<Rightarrow> 'x VisitorsChain \<Rightarrow> 'x VisitorsChain" where
  "loadVisitorStrategies compile order patterns c = c\<lparr>visitors := LoadStrategies compile order patterns (visitors c)\<rparr>"

section \<open>Delegates\<close>

record 'x DelegatesChain =
  delegates_name :: string
  delegates_matchPattern :: string
  delegates :: "'x WidgetsStrategyWrapper"

definition GetDelegate :: "string \<Rightarrow> 'x AbstractStrategyWidgetFactory \<Rightarrow> 'x PatternWidget_scheme option" where
  "GetDelegate name f = factory_Get name f"

definition SetDelegate :: "'x PatternWidget_scheme option \<Rightarrow> 'x AbstractStrategyWidgetFactory \<Rightarrow> 'x AbstractStrategyWidgetFactory go" where
  "SetDelegate delegate f = factory_Set delegate f"

definition newDelegateResponsibilityChain :: "compiler \<Rightarrow> string \<Rightarrow> string \<Rightarrow> 'x PatternWidget_scheme option list \<Rightarrow> 'x DelegatesChain go" where
  "newDelegateResponsibilityChain compile name matchPattern wds =
     go_bind (add_all compile wds zero_wrapper)
       (\<lambda>w. Inr \<lparr>delegates_name = name, delegates_matchPattern = matchPattern, delegates = w\<rparr>)"

definition getAllDelegates :: "string list \<Rightarrow> 'x AbstractStrategyWidgetFactory \<Rightarrow> 'x PatternWidget_scheme list" where
  "getAllDelegates order f = factory_GetAll order f"

definition NewDelegatesChain :: "compiler \<Rightarrow> string list \<Rightarrow> 'x AbstractStrategyWidgetFactory \<Rightarrow> string \<Rightarrow> string \<Rightarrow> 'x DelegatesChain go" where
  "NewDelegatesChain compile order defaults name matchPattern =
     newDelegateResponsibilityChain compile name matchPattern (map Some (getAllDelegates order defaults))"

definition AttachDelegate :: "compiler \<Rightarrow> 'x PatternWidget_scheme option \<Rightarrow> 'x DelegatesChain \<Rightarrow> ('x DelegatesChain \<times> bool) go" where
  "AttachDelegate compile delegate c =
     (case delegate of
        None \<Rightarrow> Inl NilDereference
      | Some o' \<Rightarrow>
          (case wrapper_Get (GetName o') (delegates c) of
             Some _ \<Rightarrow> Inr (c, False)
           | None \<Rightarrow> go_bind (wrapper_Add compile (Some o') (delegates c)) (\<lambda>w. Inr (c\<lparr>delegates := w\<rparr>, True))))"

definition RemoveDelegate :: "compiler \<Rightarrow> string \<Rightarrow> 'x DelegatesChain \<Rightarrow> 'x DelegatesChain \<times> bool" where
  "RemoveDelegate compile name c = (c\<lparr>delegates := fst (wrapper_Remove compile name (delegates c))\<rparr>, True)"

definition GetDelegates :: "string \<Rightarrow> 'x DelegatesChain \<Rightarrow> 'x PatternWidget_scheme list" where
  "GetDelegates pattern c = GetWidgetsByStrategy pattern (delegates c)"

primrec attach_delegates :: "compiler \<Rightarrow> 'x PatternWidget_scheme list \<Rightarrow> 'x DelegatesChain \<Rightarrow> 'x DelegatesChain go" where
  "attach_delegates compile [] c = Inr c"
| "attach_delegates compile (wd # wds) c =
     go_bind (AttachDelegate compile (Some wd) c) (\<lambda>r. attach_delegates compile wds (fst r))"

definition InitializeDelegates :: "compiler \<Rightarrow> string list \<Rightarrow> 'x AbstractStrategyWidgetFactory \<Rightarrow> string \<Rightarrow> 'x DelegatesChain \<Rightarrow> 'x DelegatesChain go" where
  "InitializeDelegates compile order defaults from c =
     go_bind (if delegates_name c = []
              then go_bind (CamelCaseString from)
                     (\<lambda>s. Inr (c\<lparr>delegates_name := s @ ''DelegatesChain'', delegates_matchPattern := ''*''\<rparr>))
              else Inr c)
       (\<lambda>c. if wrapper_IsEmpty (delegates c) then attach_delegates compile (getAllDelegates order defaults) c else Inr c)"

definition loadDelegateStrategies :: "compiler \<Rightarrow> string list \<Rightarrow> string list option \<Rightarrow> 'x DelegatesChain \<Rightarrow> 'x DelegatesChain" where
  "loadDelegateStrategies compile order patterns c = c\<lparr>delegates := LoadStrategies compile order patterns (delegates c)\<rparr>"

section \<open>The contract of a chain\<close>

text \<open>
  \<open>members\<close> is the table of the attached widgets, \<open>loaded\<close> the strategies in use and
  \<open>applies\<close> the test on a widget; the laws are those of attaching, removing and selecting.
\<close>

locale strategy_chain =
  fixes good :: "'c \<Rightarrow> bool"
    and members :: "'c \<Rightarrow> string \<Rightarrow> 'x PatternWidget_scheme option"
    and loaded :: "'c \<Rightarrow> string \<Rightarrow> bool"
    and applies :: "'x PatternWidget_scheme \<Rightarrow> bool"
    and attach :: "'x PatternWidget_scheme \<Rightarrow> 'c \<Rightarrow> ('c \<times> bool) go"
    and remove :: "string \<Rightarrow> 'c \<Rightarrow> 'c \<times> bool"
    and select :: "string \<Rightarrow> 'c \<Rightarrow> 'x PatternWidget_scheme list"
  assumes attach_known: "members c (GetName wd) \<noteq> None \<Longrightarrow> attach wd c = Inr (c, False)"
    and attach_new: "good c \<Longrightarrow> members c (GetName wd) = None \<Longrightarrow>
      \<exists>c'. attach wd c = Inr (c', True) \<and> good c' \<and> members c' = (members c)(GetName wd \<mapsto> wd) \<and> loaded c' = loaded c"
    and remove_members: "good c \<Longrightarrow> good (fst (remove k c)) \<and> members (fst (remove k c)) = (members c)(k := None)
      \<and> loaded (fst (remove k c)) = loaded c"
    and select_set: "good c \<Longrightarrow> loaded c s \<Longrightarrow>
      set (select s c) = {wd. members c (GetName wd) = Some wd \<and> applies wd}"
begin

lemma attach_then_selected:
  assumes "good c" and "members c (GetName wd) = None" and "applies wd" and "loaded c s"
  shows "\<exists>c'. attach wd c = Inr (c', True) \<and> wd \<in> set (select s c') \<and> attach wd c' = Inr (c', False)"
proof -
  obtain c' where c': "attach wd c = Inr (c', True)" "good c'" "members c' = (members c)(GetName wd \<mapsto> wd)"
      "loaded c' = loaded c"
    using attach_new [OF assms(1,2)] by blast
  have "wd \<in> set (select s c')" using select_set [OF c'(2), of s] c'(3,4) assms(3,4) by simp
  moreover have "attach wd c' = Inr (c', False)" by (rule attach_known) (simp add: c'(3))
  ultimately show ?thesis using c'(1) by blast
qed

lemma removed_not_selected:
  assumes "good c" and "loaded c s" and "wd \<in> set (select s (fst (remove k c)))"
  shows "GetName wd \<noteq> k \<and> wd \<in> set (select s c)"
  using assms remove_members [OF assms(1), of k] select_set [of c s] select_set [of "fst (remove k c)" s]
  by (auto split: if_splits)

lemma attach_remove_selects:
  assumes "good c" and "members c (GetName wd) = None" and "loaded c s"
  shows "\<exists>c'. attach wd c = Inr (c', True) \<and> set (select s (fst (remove (GetName wd) c'))) = set (select s c)"
proof -
  obtain c' where c': "attach wd c = Inr (c', True)" "good c'" "members c' = (members c)(GetName wd \<mapsto> wd)"
      "loaded c' = loaded c"
    using attach_new [OF assms(1,2)] by blast
  have m: "members (fst (remove (GetName wd) c')) = members c"
    using remove_members [OF c'(2), of "GetName wd"] c'(3) assms(2) by (simp add: fun_upd_idem)
  have "good (fst (remove (GetName wd) c'))" and l: "loaded (fst (remove (GetName wd) c')) s"
    using remove_members [OF c'(2), of "GetName wd"] c'(4) assms(3) by simp_all
  from select_set [OF this] select_set [OF assms(1,3)] m show ?thesis using c'(1) by auto
qed

end

text \<open>The facts of a wrapper that the interpretations share.\<close>

definition strategy_loaded :: "'x WidgetsStrategyWrapper \<Rightarrow> string \<Rightarrow> bool" where
  "strategy_loaded w s \<longleftrightarrow> (case strategies w of None \<Rightarrow> False | Some ss \<Rightarrow> ss s \<noteq> None)"

definition self_matching :: "compiler \<Rightarrow> 'x PatternWidget_scheme \<Rightarrow> bool" where
  "self_matching compile wd \<longleftrightarrow> strategy_matched compile (MatchPattern wd) []"

lemma Add_new:
  assumes "strategy_inv compile w" and "widget_map w (GetName wd) = None"
  shows "\<exists>w'. wrapper_Add compile (Some wd) w = Inr w' \<and> strategy_inv compile w'
    \<and> widget_map w' = (widget_map w)(GetName wd \<mapsto> wd) \<and> strategy_loaded w' = strategy_loaded w"
proof -
  define w' where "w' = loadStrategy compile wd (w\<lparr>widgetsByName := Some ((widget_map w)(GetName wd \<mapsto> wd))\<rparr>)"
  have add: "wrapper_Add compile (Some wd) w = Inr w'" using assms(2) by (simp add: wrapper_Add_def w'_def)
  moreover have "strategy_loaded w' = strategy_loaded w"
    by (auto simp: w'_def strategy_loaded_def loadStrategy_def fun_eq_iff split: option.split)
  ultimately show ?thesis using Add_inv [OF assms(1) add] assms(2) by auto
qed

lemma Remove_loaded: "strategy_loaded (fst (wrapper_Remove compile k w)) = strategy_loaded w"
  by (auto simp: strategy_loaded_def wrapper_Remove_def removeStrategy_def fun_eq_iff split: option.split)

lemma select_widgets:
  assumes "strategy_inv compile w" and "strategy_loaded w s"
  shows "set (GetWidgetsByStrategy s w) = {wd. widget_map w (GetName wd) = Some wd \<and> self_matching compile wd}"
proof -
  obtain ss c where "strategies w = Some ss" "ss s = Some c"
    using assms(2) by (auto simp: strategy_loaded_def split: option.splits)
  then show ?thesis using widgets_of_strategy [OF assms(1)] by (simp add: self_matching_def strategy_matched_def)
qed

interpretation observers: strategy_chain "\<lambda>c. strategy_inv compile (observers c)" "\<lambda>c. widget_map (observers c)"
    "\<lambda>c. strategy_loaded (observers c)" "self_matching compile" "\<lambda>wd. AttachObserver compile (Some wd)"
    "RemoveObserver compile" "GetObservers" for compile
proof unfold_locales
  show "\<exists>c'. AttachObserver compile (Some wd) c = Inr (c', True) \<and> strategy_inv compile (observers c')
      \<and> widget_map (observers c') = (widget_map (observers c))(GetName wd \<mapsto> wd)
      \<and> strategy_loaded (observers c') = strategy_loaded (observers c)"
    if "strategy_inv compile (observers c)" and "widget_map (observers c) (GetName wd) = None"
    for c and wd :: "'x PatternWidget_scheme"
    using Add_new [OF that] that(2) by (auto simp: AttachObserver_def wrapper_Get_def)
qed (auto simp: AttachObserver_def RemoveObserver_def GetObservers_def wrapper_Get_def Remove_inv Remove_loaded select_widgets)

interpretation visitors: strategy_chain "\<lambda>c. strategy_inv compile (visitors c)" "\<lambda>c. widget_map (visitors c)"
    "\<lambda>c. strategy_loaded (visitors c)" "self_matching compile" "\<lambda>wd. AttachVisitor compile (Some wd)"
    "RemoveVisitor compile" "GetVisitors" for compile
proof unfold_locales
  show "\<exists>c'. AttachVisitor compile (Some wd) c = Inr (c', True) \<and> strategy_inv compile (visitors c')
      \<and> widget_map (visitors c') = (widget_map (visitors c))(GetName wd \<mapsto> wd)
      \<and> strategy_loaded (visitors c') = strategy_loaded (visitors c)"
    if "strategy_inv compile (visitors c)" and "widget_map (visitors c) (GetName wd) = None"
    for c and wd :: "'x PatternWidget_scheme"
    using Add_new [OF that] that(2) by (auto simp: AttachVisitor_def wrapper_Get_def)
qed (auto simp: AttachVisitor_def RemoveVisitor_def GetVisitors_def wrapper_Get_def Remove_inv Remove_loaded select_widgets)

interpretation delegates: strategy_chain "\<lambda>c. strategy_inv compile (delegates c)" "\<lambda>c. widget_map (delegates c)"
    "\<lambda>c. strategy_loaded (delegates c)" "self_matching compile" "\<lambda>wd. AttachDelegate compile (Some wd)"
    "RemoveDelegate compile" "GetDelegates" for compile
proof unfold_locales
  show "\<exists>c'. AttachDelegate compile (Some wd) c = Inr (c', True) \<and> strategy_inv compile (delegates c')
      \<and> widget_map (delegates c') = (widget_map (delegates c))(GetName wd \<mapsto> wd)
      \<and> strategy_loaded (delegates c') = strategy_loaded (delegates c)"
    if "strategy_inv compile (delegates c)" and "widget_map (delegates c) (GetName wd) = None"
    for c and wd :: "'x PatternWidget_scheme"
    using Add_new [OF that] that(2) by (auto simp: AttachDelegate_def wrapper_Get_def)
qed (auto simp: AttachDelegate_def RemoveDelegate_def GetDelegates_def wrapper_Get_def Remove_inv Remove_loaded select_widgets)

section \<open>Properties\<close>

text \<open>
  An observer attached under a new name, with a pattern that is a wildcard or matches itself,
  is selected by every loaded strategy; attaching it again is refused and changes nothing; after
  its removal every strategy selects what it selected before.
\<close>

theorem observer_attach_remove:
  assumes "strategy_inv compile (observers c)" and "widget_map (observers c) (GetName wd) = None"
    and "self_matching compile wd" and "strategy_loaded (observers c) s"
  shows "\<exists>c'. AttachObserver compile (Some wd) c = Inr (c', True) \<and> wd \<in> set (GetObservers s c')
    \<and> AttachObserver compile (Some wd) c' = Inr (c', False)
    \<and> set (GetObservers s (fst (RemoveObserver compile (GetName wd) c'))) = set (GetObservers s c)"
  using observers.attach_then_selected [OF assms] observers.attach_remove_selects [OF assms(1,2,4)] by force

lemma observer_attach_remove_witness:
  "\<exists>c'. AttachObserver literal (Some \<lparr>GetName = ''o'', MatchPattern = ''#''\<rparr>)
      \<lparr>observers_name = ''c'', observers_matchPattern = ''*'',
       observers = \<lparr>widgetsByName = None, strategies = Some [''s'' \<mapsto> []]\<rparr>\<rparr> = Inr (c', True)
    \<and> GetObservers ''s'' c' \<noteq> []"
proof -
  let ?c = "\<lparr>observers_name = ''c'', observers_matchPattern = ''*'',
       observers = \<lparr>widgetsByName = None, strategies = Some [''s'' \<mapsto> []]\<rparr>\<rparr> :: unit ObserversChain"
  have "strategy_inv literal (observers ?c)" by (auto simp: strategy_inv_def widget_map_def split: if_splits)
  moreover have "widget_map (observers ?c) ''o'' = None" by (simp add: widget_map_def)
  moreover have "strategy_loaded (observers ?c) ''s''" by (simp add: strategy_loaded_def)
  ultimately show ?thesis
    using observer_attach_remove [of literal ?c "\<lparr>GetName = ''o'', MatchPattern = ''#''\<rparr>" "''s''"]
    by (force simp: self_matching_def strategy_matched_def)
qed

end
