(* ===== verification/Filters.thy ===== *)
theory Filters
  imports Utils_Strings
begin

text \<open>
  \<open>microsvc/filters/filters.go\<close>: the responsibility chain of filters that every event passes
  before it is handled.  A chain is itself a filter, and chains refer to one another by pointer
  (every chain holds the default chain), so chains live in a heap and a filter is a leaf or a
  reference.  What a leaf answers is the parameter \<open>run\<close>, by the name of the filter.  The
  recursions over nested chains take fuel; \<open>None\<close> is a call that does not return.
\<close>

section \<open>State\<close>

datatype filter_ref = Leaf string | ChainRef nat

record FiltersChain =
  chain_name :: string
  chain_filters :: "filter_ref list option"

type_synonym filter_heap = "nat \<Rightarrow> FiltersChain option"

type_synonym 'e leaf_filters = "string \<Rightarrow> 'e \<Rightarrow> bool \<times> string option"

definition filter_name :: "filter_heap \<Rightarrow> filter_ref \<Rightarrow> string" where
  "filter_name h f =
     (case f of Leaf n \<Rightarrow> n
      | ChainRef i \<Rightarrow> (case h i of None \<Rightarrow> [] | Some c \<Rightarrow> chain_name c))"

section \<open>Operations\<close>

primrec match_any :: "(filter_ref \<Rightarrow> bool option) \<Rightarrow> filter_ref list \<Rightarrow> bool option" where
  "match_any m [] = Some False"
| "match_any m (f # fs) =
     (case m f of None \<Rightarrow> None | Some b \<Rightarrow> if b then Some True else match_any m fs)"

primrec MatchFilter :: "nat \<Rightarrow> filter_heap \<Rightarrow> string \<Rightarrow> filter_ref \<Rightarrow> bool option" where
  "MatchFilter 0 h name f = None"
| "MatchFilter (Suc n) h name f =
     (case f of
        Leaf m \<Rightarrow> Some (name = m)
      | ChainRef i \<Rightarrow>
          (case h i of
             None \<Rightarrow> None
           | Some c \<Rightarrow>
               if name = chain_name c then Some True
               else (case chain_filters c of
                       None \<Rightarrow> Some False
                     | Some fs \<Rightarrow> match_any (MatchFilter n h name) fs)))"

text \<open>The loop over the filters of a chain, from the values of \<open>ok\<close> and \<open>err\<close> so far.\<close>

primrec filter_loop :: "(filter_ref \<Rightarrow> (bool \<times> string option) option) \<Rightarrow> filter_ref list \<Rightarrow> bool \<times> string option
    \<Rightarrow> (bool \<times> string option) option" where
  "filter_loop r [] res = Some res"
| "filter_loop r (f # fs) res =
     (case r f of
        None \<Rightarrow> None
      | Some (ok, err) \<Rightarrow> if False = ok then Some (ok, err) else filter_loop r fs (ok, err))"

primrec FilterEvent :: "nat \<Rightarrow> filter_heap \<Rightarrow> 'e leaf_filters \<Rightarrow> 'e \<Rightarrow> filter_ref \<Rightarrow> (bool \<times> string option) option" where
  "FilterEvent 0 h run ev f = None"
| "FilterEvent (Suc n) h run ev f =
     (case f of
        Leaf m \<Rightarrow> Some (run m ev)
      | ChainRef i \<Rightarrow>
          (case h i of
             None \<Rightarrow> None
           | Some c \<Rightarrow>
               (case chain_filters c of
                  None \<Rightarrow> Some (True, None)
                | Some fs \<Rightarrow> filter_loop (FilterEvent n h run ev) fs (True, None))))"

text \<open>
  \<open>AttachFilter\<close> on the chain \<open>i\<close>; \<open>dflt\<close> is the default chain, which an uninitialised chain
  takes in first.
\<close>

definition AttachFilter :: "nat \<Rightarrow> nat \<Rightarrow> nat \<Rightarrow> filter_ref \<Rightarrow> filter_heap \<Rightarrow> filter_heap option" where
  "AttachFilter n dflt i f h =
     (case h i of
        None \<Rightarrow> None
      | Some c \<Rightarrow>
          (case MatchFilter n h (filter_name h f) (ChainRef i) of
             None \<Rightarrow> None
           | Some True \<Rightarrow> Some h
           | Some False \<Rightarrow>
               let fs = (case chain_filters c of
                           Some fs \<Rightarrow> fs
                         | None \<Rightarrow> if filter_name h f \<noteq> filter_name h (ChainRef dflt) then [ChainRef dflt] else []);
                   notFound = (filter_name h f \<notin> set (map (filter_name h) fs));
                   fs = (if notFound then fs @ [f] else fs)
               in Some (h(i \<mapsto> c\<lparr>chain_filters := Some fs\<rparr>))))"

definition newFilterResponsibilityChain :: "string \<Rightarrow> filter_ref list \<Rightarrow> FiltersChain" where
  "newFilterResponsibilityChain name filters = \<lparr>chain_name = name, chain_filters = Some filters\<rparr>"

definition NewFilterChain :: "nat \<Rightarrow> nat \<Rightarrow> nat \<Rightarrow> string \<Rightarrow> filter_heap \<Rightarrow> filter_heap option" where
  "NewFilterChain n dflt i name h =
     AttachFilter n dflt i (ChainRef dflt) (h(i \<mapsto> newFilterResponsibilityChain name []))"

definition GetFilters :: "FiltersChain \<Rightarrow> filter_ref list" where
  "GetFilters c = (case chain_filters c of None \<Rightarrow> [] | Some fs \<Rightarrow> fs)"

definition InitializeFilters :: "nat \<Rightarrow> nat \<Rightarrow> string \<Rightarrow> nat \<Rightarrow> filter_heap \<Rightarrow> filter_heap option go" where
  "InitializeFilters n dflt from i h =
     (case h i of
        None \<Rightarrow> Inl NilDereference
      | Some c \<Rightarrow>
          go_bind (if chain_name c = []
                   then go_bind (CamelCaseString from) (\<lambda>s. Inr (c\<lparr>chain_name := s @ ''FiltersChain''\<rparr>))
                   else Inr c)
            (\<lambda>c. Inr (if length (GetFilters c) \<le> 0 then AttachFilter n dflt i (ChainRef dflt) (h(i \<mapsto> c))
                      else Some (h(i \<mapsto> c)))))"

section \<open>The factory of named filters\<close>

type_synonym filter_factory = "string \<rightharpoonup> filter_ref"

definition GetFilter :: "string \<Rightarrow> filter_factory \<Rightarrow> filter_ref option" where
  "GetFilter name f = f name"

definition factory_put :: "string \<Rightarrow> filter_ref option \<Rightarrow> filter_factory \<Rightarrow> filter_factory" where
  "factory_put name flt f = (case flt of None \<Rightarrow> f | Some x \<Rightarrow> f(name \<mapsto> x))"

definition SetFilter :: "filter_heap \<Rightarrow> filter_ref option \<Rightarrow> filter_factory \<Rightarrow> filter_factory" where
  "SetFilter h flt f =
     (case flt of
        None \<Rightarrow> f
      | Some x \<Rightarrow> if [] = filter_name h x then f else factory_put (filter_name h x) (Some x) f)"

section \<open>What a chain decides\<close>

text \<open>The leaves that a filter visits, in order.\<close>

primrec collect :: "(filter_ref \<Rightarrow> string list option) \<Rightarrow> filter_ref list \<Rightarrow> string list option" where
  "collect r [] = Some []"
| "collect r (f # fs) =
     (case r f of None \<Rightarrow> None
      | Some ls \<Rightarrow> (case collect r fs of None \<Rightarrow> None | Some ms \<Rightarrow> Some (ls @ ms)))"

primrec leaves :: "nat \<Rightarrow> filter_heap \<Rightarrow> filter_ref \<Rightarrow> string list option" where
  "leaves 0 h f = None"
| "leaves (Suc n) h f =
     (case f of
        Leaf m \<Rightarrow> Some [m]
      | ChainRef i \<Rightarrow>
          (case h i of
             None \<Rightarrow> None
           | Some c \<Rightarrow> (case chain_filters c of None \<Rightarrow> Some [] | Some fs \<Rightarrow> collect (leaves n h) fs)))"

definition decides :: "'e leaf_filters \<Rightarrow> 'e \<Rightarrow> string list \<Rightarrow> (bool \<times> string option) option \<Rightarrow> bool" where
  "decides run ev ls res \<longleftrightarrow>
     (\<exists>err. res = Some (list_all (\<lambda>l. fst (run l ev)) ls, err)
        \<and> (case find (\<lambda>l. \<not> fst (run l ev)) ls of None \<Rightarrow> True | Some l \<Rightarrow> err = snd (run l ev)))"

lemma find_append: "find P (xs @ ys) = (case find P xs of None \<Rightarrow> find P ys | Some x \<Rightarrow> Some x)"
  by (induction xs) auto

lemma find_None_all: "find (\<lambda>l. \<not> P l) xs = None \<longleftrightarrow> list_all P xs"
  by (auto simp: find_None_iff list_all_iff)

lemma filter_loop_decides:
  assumes "\<And>f ls. r' f = Some ls \<Longrightarrow> decides run ev ls (r f)"
  shows "collect r' fs = Some ls \<Longrightarrow> decides run ev ls (filter_loop r fs (True, e))"
proof (induction fs arbitrary: ls e)
  case (Cons f fs)
  then obtain l1 l2 where l: "r' f = Some l1" "collect r' fs = Some l2" "ls = l1 @ l2"
    by (auto split: option.splits)
  obtain err where r: "r f = Some (list_all (\<lambda>l. fst (run l ev)) l1, err)"
      and e: "case find (\<lambda>l. \<not> fst (run l ev)) l1 of None \<Rightarrow> True | Some l \<Rightarrow> err = snd (run l ev)"
    using assms [OF l(1)] by (auto simp: decides_def)
  show ?case
  proof (cases "list_all (\<lambda>l. fst (run l ev)) l1")
    case True
    then show ?thesis using Cons.IH [OF l(2), of err] r
      by (simp add: decides_def l(3) find_append find_None_all [THEN iffD2])
  next
    case False
    then obtain x where "find (\<lambda>l. \<not> fst (run l ev)) l1 = Some x"
      using find_None_all [of "\<lambda>l. fst (run l ev)" l1] by auto
    then show ?thesis using False r e by (simp add: decides_def l(3) find_append)
  qed
qed (simp add: decides_def)

lemma FilterEvent_decides: "leaves n h f = Some ls \<Longrightarrow> decides run ev ls (FilterEvent n h run ev f)"
proof (induction n arbitrary: f ls)
  case (Suc n)
  show ?case
  proof (cases f)
    case (Leaf m)
    then show ?thesis using Suc.prems by (auto simp: decides_def prod_eq_iff)
  next
    case (ChainRef i)
    then obtain c where c: "h i = Some c" using Suc.prems by (auto split: option.splits)
    show ?thesis
    proof (cases "chain_filters c")
      case None
      then show ?thesis using Suc.prems ChainRef c by (simp add: decides_def)
    next
      case (Some fs)
      then have "collect (leaves n h) fs = Some ls" using Suc.prems ChainRef c by simp
      from filter_loop_decides [OF Suc.IH this] show ?thesis using Some ChainRef c by simp
    qed
  qed
qed simp

section \<open>Properties\<close>

text \<open>
  C38. Whenever the leaves of a filter can be collected, filtering an event returns, with the
  same fuel; the event passes exactly when every leaf lets it pass, nested chains included, and
  the error of a rejected event is that of the first leaf that rejects it.
\<close>

theorem filters_conjunction:
  assumes "leaves n h f = Some ls"
  shows "\<exists>err. FilterEvent n h run ev f = Some (list_all (\<lambda>l. fst (run l ev)) ls, err)
    \<and> (case find (\<lambda>l. \<not> fst (run l ev)) ls of None \<Rightarrow> True | Some l \<Rightarrow> err = snd (run l ev))"
  using FilterEvent_decides [OF assms, of run ev] by (simp add: decides_def)

definition demo_filters :: filter_heap where
  "demo_filters = [0 \<mapsto> \<lparr>chain_name = ''DefaultFiltersChain'', chain_filters = Some [Leaf ''ValidateFilter'']\<rparr>,
     1 \<mapsto> \<lparr>chain_name = ''c'', chain_filters = Some [ChainRef 0, Leaf ''x'']\<rparr>]"

lemma filters_conjunction_witness:
  "\<exists>err. FilterEvent 3 demo_filters (\<lambda>l ev. (l \<noteq> ev, Some l)) ''x'' (ChainRef 1) = Some (False, err) \<and> err = Some ''x''"
proof -
  have "leaves 3 demo_filters (ChainRef 1) = Some [''ValidateFilter'', ''x'']"
    by (simp add: demo_filters_def eval_nat_numeral)
  from filters_conjunction [OF this, of "\<lambda>l ev. (l \<noteq> ev, Some l)" "''x''"] show ?thesis by auto
qed

text \<open>
  Two chains can be attached to each other, for the test by name sees only what a chain
  contains already; filtering an event through either of them then never returns.
\<close>

theorem filter_cycle_diverges:
  assumes "i \<noteq> j" and "a \<noteq> b"
  shows "(let h = [i \<mapsto> newFilterResponsibilityChain a [], j \<mapsto> newFilterResponsibilityChain b []] in
    \<exists>h1 h2. AttachFilter (Suc (Suc 0)) d i (ChainRef j) h = Some h1 \<and> AttachFilter (Suc (Suc 0)) d j (ChainRef i) h1 = Some h2
      \<and> FilterEvent n h2 run ev (ChainRef i) = None \<and> FilterEvent n h2 run ev (ChainRef j) = None)"
proof -
  let ?h2 = "[i \<mapsto> newFilterResponsibilityChain a [ChainRef j], j \<mapsto> newFilterResponsibilityChain b [ChainRef i]]"
  have "FilterEvent n ?h2 run ev (ChainRef i) = None \<and> FilterEvent n ?h2 run ev (ChainRef j) = None" for n
    using assms(1) by (induction n) (auto simp: newFilterResponsibilityChain_def)
  moreover have "AttachFilter (Suc (Suc 0)) d i (ChainRef j) [i \<mapsto> newFilterResponsibilityChain a [], j \<mapsto> newFilterResponsibilityChain b []]
      = Some [i \<mapsto> newFilterResponsibilityChain a [ChainRef j], j \<mapsto> newFilterResponsibilityChain b []]"
    using assms by (auto simp: AttachFilter_def newFilterResponsibilityChain_def filter_name_def fun_eq_iff)
  moreover have "AttachFilter (Suc (Suc 0)) d j (ChainRef i) [i \<mapsto> newFilterResponsibilityChain a [ChainRef j], j \<mapsto> newFilterResponsibilityChain b []]
      = Some ?h2"
    using assms by (auto simp: AttachFilter_def newFilterResponsibilityChain_def filter_name_def fun_eq_iff)
  ultimately show ?thesis unfolding Let_def by blast
qed

lemma filter_cycle_diverges_witness:
  "\<exists>h :: filter_heap. h 0 \<noteq> None \<and> FilterEvent 1000 h (\<lambda>_ _. (True, None)) () (ChainRef 0) = None"
proof -
  obtain h2 where "AttachFilter (Suc (Suc 0)) 9 0 (ChainRef 1)
      [0 \<mapsto> newFilterResponsibilityChain ''a'' [], 1 \<mapsto> newFilterResponsibilityChain ''b'' []] \<noteq> None"
      and "FilterEvent 1000 h2 (\<lambda>_ _. (True, None)) () (ChainRef 0) = None \<and> h2 0 \<noteq> None"
  proof -
    let ?h = "[0 \<mapsto> newFilterResponsibilityChain ''a'' [], 1 \<mapsto> newFilterResponsibilityChain ''b'' []]"
    obtain h1 h2 where h: "AttachFilter (Suc (Suc 0)) 9 0 (ChainRef 1) ?h = Some h1"
        "AttachFilter (Suc (Suc 0)) 9 1 (ChainRef 0) h1 = Some h2"
        "FilterEvent 1000 h2 (\<lambda>_ _. (True, None)) () (ChainRef 0) = None"
      using filter_cycle_diverges [of 0 1 "''a''" "''b''" 9 1000 "\<lambda>_ _. (True, None)" "()"] by (auto simp: Let_def)
    have "h1 0 \<noteq> None"
      using h(1) by (auto simp: AttachFilter_def newFilterResponsibilityChain_def filter_name_def)
    then have "h2 0 \<noteq> None"
      using h(2) by (auto simp: AttachFilter_def Let_def split: option.splits bool.splits)
    then show ?thesis using that [of h2] h(1,3) by simp
  qed
  then show ?thesis by blast
qed

end
