(* ===== verification/Js_Prelude.thy ===== *)
theory Js_Prelude
  imports Main
begin

text \<open>
  The vocabulary of the browser-side theories: JavaScript strings, the objects that serve as
  string-keyed tables, and the functions of the language that the Swagger UI scripts call.  A
  JavaScript string is a sequence of 16-bit UTF-16 code units and is modelled as a list of
  naturals (\<open>js_string\<close>); \<open>js ''abc''\<close> is the literal.  A call that may throw returns an
  \<open>option\<close>, \<open>None\<close> being the exception.
\<close>

named_theorems js_simps
  \<open>equations that evaluate literals and tables\<close>

section \<open>Strings\<close>

type_synonym code_unit = nat
type_synonym js_string = "code_unit list"

definition js :: "string \<Rightarrow> js_string" where
  "js s = map of_char s"

lemma js_simps_nil [js_simps]: "js [] = []"
  by (simp add: js_def)

lemma js_simps_cons [js_simps]: "js (c # s) = of_char c # js s"
  by (simp add: js_def)

lemma inj_js: "js s = js t \<longleftrightarrow> s = t"
  by (auto simp: js_def inj_map_eq_map inj_on_def)

text \<open>\<open>String.prototype.split\<close> at a one-unit separator and \<open>Array.prototype.join\<close>.\<close>

fun split_on :: "'a \<Rightarrow> 'a list \<Rightarrow> 'a list list" where
  "split_on sep [] = [[]]"
| "split_on sep (x # s) =
     (if x = sep then [] # split_on sep s
      else (case split_on sep s of [] \<Rightarrow> [[x]] | p # ps \<Rightarrow> (x # p) # ps))"

fun join_with :: "'a list \<Rightarrow> 'a list list \<Rightarrow> 'a list" where
  "join_with sep [] = []"
| "join_with sep [p] = p"
| "join_with sep (p # q # ps) = p @ sep @ join_with sep (q # ps)"

lemma split_on_append_sep:
  "sep \<notin> set p \<Longrightarrow> split_on sep (p @ sep # s) = p # split_on sep s"
  by (induction p) auto

lemma split_on_no_sep [simp]: "sep \<notin> set p \<Longrightarrow> split_on sep p = [p]"
  by (induction p) auto

lemma split_on_nonempty [simp]: "split_on sep s \<noteq> []"
  by (induction s) (auto split: list.split)

lemma split_on_parts: "p \<in> set (split_on sep s) \<Longrightarrow> set p \<subseteq> set s - {sep}"
proof (induction s arbitrary: p)
  case (Cons x s)
  obtain q qs where "split_on sep s = q # qs" by (cases "split_on sep s") auto
  with Cons show ?case by (fastforce split: if_splits)
qed simp

lemma split_on_join:
  "ps \<noteq> [] \<Longrightarrow> (\<And>p. p \<in> set ps \<Longrightarrow> sep \<notin> set p) \<Longrightarrow> split_on sep (join_with [sep] ps) = ps"
  by (induction "[sep]" ps rule: join_with.induct) (auto simp: split_on_append_sep)

lemma join_with_eq_Nil: "[] \<notin> set ps \<Longrightarrow> join_with sep ps = [] \<longleftrightarrow> ps = []"
  by (induction sep ps rule: join_with.induct) auto

lemma set_join_with: "set (join_with sep ps) \<subseteq> set sep \<union> \<Union> (set ` set ps)"
  by (induction sep ps rule: join_with.induct) auto

text \<open>\<open>a || b\<close> on strings: the empty string is falsy.\<close>

definition str_or :: "js_string \<Rightarrow> js_string \<Rightarrow> js_string" where
  "str_or a b = (if a = [] then b else a)"

text \<open>\<open>indexOf(t) > -1\<close>, and \<open>replace\<close> of every occurrence of one code unit.\<close>

fun starts_with :: "'a list \<Rightarrow> 'a list \<Rightarrow> bool" where
  "starts_with s [] = True"
| "starts_with [] (y # t) = False"
| "starts_with (x # s) (y # t) = (x = y \<and> starts_with s t)"

fun contains :: "'a list \<Rightarrow> 'a list \<Rightarrow> bool" where
  "contains [] t = (t = [])"
| "contains (x # s) t = (starts_with (x # s) t \<or> contains s t)"

lemma starts_with_iff: "starts_with s t \<longleftrightarrow> (\<exists>r. s = t @ r)"
  by (induction s t rule: starts_with.induct) auto

lemma contains_iff: "contains s t \<longleftrightarrow> (\<exists>l r. s = l @ t @ r)"
proof (induction s)
  case (Cons x s)
  have "(\<exists>l r. x # s = l @ t @ r) \<longleftrightarrow> (\<exists>r. x # s = t @ r) \<or> (\<exists>l r. s = l @ t @ r)"
    by (metis append_Cons append_Nil append_eq_Cons_conv)
  then show ?case by (simp add: Cons.IH starts_with_iff)
qed auto

definition replace_all :: "'a \<Rightarrow> 'a list \<Rightarrow> 'a list \<Rightarrow> 'a list" where
  "replace_all c r s = concat (map (\<lambda>x. if x = c then r else [x]) s)"

lemma replace_all_simps [simp]:
  "replace_all c r [] = []"
  "replace_all c r (x # s) = (if x = c then r else [x]) @ replace_all c r s"
  "replace_all c r (s @ t) = replace_all c r s @ replace_all c r t"
  by (simp_all add: replace_all_def)

text \<open>White space of \<open>trim\<close> and of the class \<open>\s\<close> of regular expressions.\<close>

definition js_space :: "code_unit \<Rightarrow> bool" where
  "js_space c \<longleftrightarrow> c \<in> {9, 10, 11, 12, 13, 32, 160, 0x1680, 0x2028, 0x2029, 0x202F, 0x205F, 0x3000, 0xFEFF}
     \<or> (0x2000 \<le> c \<and> c \<le> 0x200A)"

definition js_trim :: "js_string \<Rightarrow> js_string" where
  "js_trim s = rev (dropWhile js_space (rev (dropWhile js_space s)))"

section \<open>Objects as tables\<close>

text \<open>
  An object whose properties are enumerated is a list of pairs in the order of creation.
  Assigning to \<open>__proto__\<close> reaches the setter of \<open>Object.prototype\<close>, which ignores a string:
  no property arises.  \<open>Object.keys\<close> lists the array indices in ascending order first and
  the other keys in the order of creation.
\<close>

type_synonym 'v js_object = "(js_string \<times> 'v) list"

definition obj_get :: "'v js_object \<Rightarrow> js_string \<rightharpoonup> 'v" where
  "obj_get o' = map_of o'"

fun alist_put :: "'k \<Rightarrow> 'v \<Rightarrow> ('k \<times> 'v) list \<Rightarrow> ('k \<times> 'v) list" where
  "alist_put k v [] = [(k, v)]"
| "alist_put k v ((k', v') # o') = (if k = k' then (k, v) # o' else (k', v') # alist_put k v o')"

lemma map_of_alist_put [simp]: "map_of (alist_put k v o') = (map_of o')(k \<mapsto> v)"
  by (induction o') auto

lemma keys_alist_put [simp]: "set (map fst (alist_put k v o')) = insert k (set (map fst o'))"
  by (induction k v o' rule: alist_put.induct) auto

lemma distinct_alist_put: "distinct (map fst o') \<Longrightarrow> distinct (map fst (alist_put k v o'))"
proof (induction k v o' rule: alist_put.induct)
  case (2 k v k' v' o')
  then show ?case using keys_alist_put [of k v o'] by auto
qed simp

definition obj_put :: "js_string \<Rightarrow> 'v \<Rightarrow> 'v js_object \<Rightarrow> 'v js_object" where
  "obj_put k v o' = (if k = js ''__proto__'' then o' else alist_put k v o')"

lemma obj_get_put:
  "obj_get (obj_put k v o') = (if k = js ''__proto__'' then obj_get o' else (obj_get o')(k \<mapsto> v))"
  by (simp add: obj_get_def obj_put_def)

definition js_is_digit :: "code_unit \<Rightarrow> bool" where
  "js_is_digit c \<longleftrightarrow> 48 \<le> c \<and> c \<le> 57"

definition array_index :: "js_string \<Rightarrow> nat option" where
  "array_index s =
     (if s \<noteq> [] \<and> list_all js_is_digit s \<and> (hd s \<noteq> 48 \<or> length s = 1)
      then let n = foldl (\<lambda>a c. 10 * a + (c - 48)) 0 s in if n < 2 ^ 32 - 1 then Some n else None
      else None)"

definition object_keys :: "'v js_object \<Rightarrow> js_string list" where
  "object_keys o' = (let ks = map fst o' in
     sort_key (\<lambda>k. the (array_index k)) (filter (\<lambda>k. array_index k \<noteq> None) ks)
     @ filter (\<lambda>k. array_index k = None) ks)"

lemma set_object_keys [simp]: "set (object_keys o') = fst ` set o'"
  by (auto simp: object_keys_def Let_def)

lemma distinct_object_keys: "distinct (map fst o') \<Longrightarrow> distinct (object_keys o')"
  by (auto simp: object_keys_def Let_def)

end
