(* ===== verification/Js_Url.thy ===== *)
theory Js_Url
  imports Js_Prelude
begin

text \<open>
  \<open>encodeURIComponent\<close> and \<open>decodeURIComponent\<close> of ECMAScript, on UTF-16 code units:
  an unpaired surrogate makes the first throw, a malformed escape or an octet sequence that is
  not the UTF-8 form of a code point makes the second throw (\<open>None\<close>).  The main fact is the
  round trip on well-formed strings, in the form that a prefix of the input decodes alone.
\<close>

section \<open>Code points\<close>

definition is_scalar :: "nat \<Rightarrow> bool" where
  "is_scalar p \<longleftrightarrow> p < 0xD800 \<or> (0xE000 \<le> p \<and> p < 0x110000)"

definition utf16 :: "nat \<Rightarrow> js_string" where
  "utf16 p = (if p < 0x10000 then [p] else [0xD800 + (p - 0x10000) div 0x400, 0xDC00 + (p - 0x10000) mod 0x400])"

definition utf8 :: "nat \<Rightarrow> nat list" where
  "utf8 p =
     (if p < 0x80 then [p]
      else if p < 0x800 then [0xC0 + p div 0x40, 0x80 + p mod 0x40]
      else if p < 0x10000 then [0xE0 + p div 0x1000, 0x80 + p div 0x40 mod 0x40, 0x80 + p mod 0x40]
      else [0xF0 + p div 0x40000, 0x80 + p div 0x1000 mod 0x40, 0x80 + p div 0x40 mod 0x40, 0x80 + p mod 0x40])"

definition utf8_point :: "nat list \<Rightarrow> nat option" where
  "utf8_point bs =
     (if list_all (\<lambda>b. 0x80 \<le> b \<and> b < 0xC0) (tl bs) then
        (case bs of
           [a, b] \<Rightarrow>
             let p = (a - 0xC0) * 0x40 + (b - 0x80) in
             if 0x80 \<le> p then Some p else None
         | [a, b, c] \<Rightarrow>
             let p = (a - 0xE0) * 0x1000 + (b - 0x80) * 0x40 + (c - 0x80) in
             if 0x800 \<le> p \<and> is_scalar p then Some p else None
         | [a, b, c, d] \<Rightarrow>
             let p = (a - 0xF0) * 0x40000 + (b - 0x80) * 0x1000 + (c - 0x80) * 0x40 + (d - 0x80) in
             if 0x10000 \<le> p \<and> is_scalar p then Some p else None
         | _ \<Rightarrow> None)
      else None)"

definition is_high :: "code_unit \<Rightarrow> bool" where
  "is_high c \<longleftrightarrow> 0xD800 \<le> c \<and> c < 0xDC00"

definition is_low :: "code_unit \<Rightarrow> bool" where
  "is_low c \<longleftrightarrow> 0xDC00 \<le> c \<and> c < 0xE000"

text \<open>Well-formed strings are the UTF-16 forms of sequences of scalar values.\<close>

fun well_formed :: "js_string \<Rightarrow> bool" where
  "well_formed [] = True"
| "well_formed (c # s) =
     (if is_high c then (case s of [] \<Rightarrow> False | d # s' \<Rightarrow> is_low d \<and> well_formed s')
      else \<not> is_low c \<and> c < 0x10000 \<and> well_formed s)"

section \<open>Encoding\<close>

definition uri_unescaped :: "code_unit \<Rightarrow> bool" where
  "uri_unescaped c \<longleftrightarrow>
     (48 \<le> c \<and> c \<le> 57) \<or> (65 \<le> c \<and> c \<le> 90) \<or> (97 \<le> c \<and> c \<le> 122)
     \<or> c \<in> set (js ''-_.!~*'' @ [39, 40, 41])"

definition hex_digit :: "nat \<Rightarrow> code_unit" where
  "hex_digit n = (if n < 10 then 48 + n else 55 + n)"

definition percent :: "nat \<Rightarrow> js_string" where
  "percent b = [37, hex_digit (b div 16), hex_digit (b mod 16)]"

definition percent_point :: "nat \<Rightarrow> js_string" where
  "percent_point p = concat (map percent (utf8 p))"

fun encodeURIComponent :: "js_string \<Rightarrow> js_string option" where
  "encodeURIComponent [] = Some []"
| "encodeURIComponent (c # s) =
     (if uri_unescaped c then map_option (\<lambda>r. c # r) (encodeURIComponent s)
      else if is_low c then None
      else if is_high c then
        (case s of
           [] \<Rightarrow> None
         | d # s' \<Rightarrow>
             if is_low d
             then map_option (\<lambda>r. percent_point (0x10000 + (c - 0xD800) * 0x400 + (d - 0xDC00)) @ r)
                    (encodeURIComponent s')
             else None)
      else map_option (\<lambda>r. percent_point c @ r) (encodeURIComponent s))"

section \<open>Decoding\<close>

definition hex_value :: "code_unit \<Rightarrow> nat option" where
  "hex_value c =
     (if 48 \<le> c \<and> c \<le> 57 then Some (c - 48)
      else if 65 \<le> c \<and> c \<le> 70 then Some (c - 55)
      else if 97 \<le> c \<and> c \<le> 102 then Some (c - 87)
      else None)"

fun octet :: "js_string \<Rightarrow> (nat \<times> js_string) option" where
  "octet (p # h # l # s) =
     (if p = 37 then
        (case (hex_value h, hex_value l) of (Some a, Some b) \<Rightarrow> Some (16 * a + b, s) | _ \<Rightarrow> None)
      else None)"
| "octet _ = None"

fun octets :: "nat \<Rightarrow> js_string \<Rightarrow> (nat list \<times> js_string) option" where
  "octets 0 s = Some ([], s)"
| "octets (Suc n) s =
     (case octet s of
        None \<Rightarrow> None
      | Some (b, s1) \<Rightarrow> map_option (\<lambda>(bs, s2). (b # bs, s2)) (octets n s1))"

lemma octet_length: "octet s = Some (b, r) \<Longrightarrow> length r < length s"
  by (cases s rule: octet.cases) (auto split: if_splits option.splits)

lemma octets_length: "octets n s = Some (bs, r) \<Longrightarrow> length r \<le> length s"
proof (induction n s arbitrary: bs rule: octets.induct)
  case (2 n s)
  then obtain b s1 bs1 where "octet s = Some (b, s1)" "octets n s1 = Some (bs1, r)"
    by (auto split: option.splits)
  with 2(1) show ?case by (fastforce dest: octet_length)
qed simp

text \<open>The number of octets that follow a leading octet.\<close>

definition following :: "nat \<Rightarrow> nat option" where
  "following b =
     (if 0xC0 \<le> b \<and> b < 0xE0 then Some 1
      else if 0xE0 \<le> b \<and> b < 0xF0 then Some 2
      else if 0xF0 \<le> b \<and> b < 0xF8 then Some 3
      else None)"

definition decode_point :: "js_string \<Rightarrow> (nat \<times> js_string) option" where
  "decode_point s =
     (case octet s of
        None \<Rightarrow> None
      | Some (b, s1) \<Rightarrow>
          if b < 0x80 then Some (b, s1)
          else (case following b of
                  None \<Rightarrow> None
                | Some n \<Rightarrow>
                    (case octets n s1 of
                       None \<Rightarrow> None
                     | Some (bs, s2) \<Rightarrow> map_option (\<lambda>p. (p, s2)) (utf8_point (b # bs)))))"

lemma decode_point_length: "decode_point s = Some (p, r) \<Longrightarrow> length r < length s"
  by (auto simp: decode_point_def split: option.splits if_splits
      dest!: octet_length octets_length)

function decodeURIComponent :: "js_string \<Rightarrow> js_string option" where
  "decodeURIComponent [] = Some []"
| "decodeURIComponent (c # s) =
     (if c \<noteq> 37 then map_option (\<lambda>r. c # r) (decodeURIComponent s)
      else (case decode_point (c # s) of
              None \<Rightarrow> None
            | Some (p, s') \<Rightarrow> map_option (\<lambda>r. utf16 p @ r) (decodeURIComponent s')))"
  by pat_completeness auto
termination
  by (relation "measure length") (auto dest!: decode_point_length)

section \<open>The round trip\<close>

lemma hex_value_digit [simp]: "n < 16 \<Longrightarrow> hex_value (hex_digit n) = Some n"
  by (auto simp: hex_value_def hex_digit_def)

lemma octet_percent [simp]: "b < 256 \<Longrightarrow> octet (percent b @ s) = Some (b, s)"
  by (simp add: percent_def mult.commute)

lemma octets_percent:
  "list_all (\<lambda>b. b < 256) bs \<Longrightarrow> octets (length bs) (concat (map percent bs) @ s) = Some (bs, s)"
  by (induction bs) auto

lemma utf8_bytes: "p < 0x110000 \<Longrightarrow> list_all (\<lambda>b. b < 256) (utf8 p)"
  by (auto simp: utf8_def)

lemma recompose_step: "a * 64 + b = q \<Longrightarrow> q * 64 + c = p \<Longrightarrow> a * 4096 + b * 64 + c = (p::nat)"
  by simp

lemma recompose_steps:
  "a * 4096 + b * 64 + c = q \<Longrightarrow> q * 64 + d = p \<Longrightarrow> a * 262144 + b * 4096 + c * 64 + d = (p::nat)"
  by simp

lemma recompose2: "p div 64 * 64 + p mod 64 = (p::nat)"
  by (rule div_mult_mod_eq)

lemma recompose3: "p div 4096 * 4096 + p div 64 mod 64 * 64 + p mod 64 = (p::nat)"
proof -
  have "p div 64 div 64 = p div 4096" by (simp only: div_mult2_eq [symmetric]) simp
  from recompose_step [OF recompose2 [of "p div 64"] recompose2 [of p]] this show ?thesis by simp
qed

lemma recompose4:
  "p div 262144 * 262144 + p div 4096 mod 64 * 4096 + p div 64 mod 64 * 64 + p mod 64 = (p::nat)"
proof -
  have "p div 64 div 4096 = p div 262144" "p div 64 div 64 = p div 4096"
    by (simp_all only: div_mult2_eq [symmetric]) simp_all
  from recompose_steps [OF recompose3 [of "p div 64"] recompose2 [of p]] this show ?thesis by simp
qed

text \<open>What follows a leading octet, for each length.\<close>

definition leads :: "nat list \<Rightarrow> nat \<Rightarrow> bool" where
  "leads bs p \<longleftrightarrow> bs \<noteq> [] \<and> 0x80 \<le> hd bs \<and> following (hd bs) = Some (length (tl bs)) \<and> utf8_point bs = Some p"

lemma leads2: "a < 32 \<Longrightarrow> b < 64 \<Longrightarrow> a * 64 + b = p \<Longrightarrow> 0x80 \<le> p \<Longrightarrow> leads [0xC0 + a, 0x80 + b] p"
  by (simp add: leads_def following_def utf8_point_def)

lemma leads3:
  "a < 16 \<Longrightarrow> b < 64 \<Longrightarrow> c < 64 \<Longrightarrow> a * 4096 + b * 64 + c = p \<Longrightarrow> 0x800 \<le> p \<Longrightarrow> is_scalar p \<Longrightarrow>
   leads [0xE0 + a, 0x80 + b, 0x80 + c] p"
  by (simp add: leads_def following_def utf8_point_def)

lemma leads4:
  "a < 8 \<Longrightarrow> b < 64 \<Longrightarrow> c < 64 \<Longrightarrow> d < 64 \<Longrightarrow> a * 262144 + b * 4096 + c * 64 + d = p \<Longrightarrow>
   0x10000 \<le> p \<Longrightarrow> is_scalar p \<Longrightarrow> leads [0xF0 + a, 0x80 + b, 0x80 + c, 0x80 + d] p"
  by (simp add: leads_def following_def utf8_point_def)

lemma utf8_leads:
  assumes "is_scalar p" "0x80 \<le> p"
  shows "leads (utf8 p) p"
proof -
  consider "p < 0x800" | "0x800 \<le> p" "p < 0x10000" | "0x10000 \<le> p" by linarith
  then show ?thesis
  proof cases
    case 1
    then have "p div 0x40 < 32" by (simp add: less_mult_imp_div_less)
    with 1 assms show ?thesis using leads2 [OF _ _ recompose2 [of p]] by (simp add: utf8_def)
  next
    case 2
    then have "p div 0x1000 < 16" by (simp add: less_mult_imp_div_less)
    with 2 assms show ?thesis using leads3 [OF _ _ _ recompose3 [of p]] by (simp add: utf8_def)
  next
    case 3
    then have "p div 0x40000 < 8" using assms by (simp add: less_mult_imp_div_less is_scalar_def)
    with 3 assms show ?thesis using leads4 [OF _ _ _ _ recompose4 [of p]] by (simp add: utf8_def)
  qed
qed

lemma decode_point_percent: "is_scalar p \<Longrightarrow> decode_point (percent_point p @ s) = Some (p, s)"
proof (cases "p < 0x80")
  case True
  then show ?thesis by (simp add: decode_point_def percent_point_def utf8_def)
next
  case False
  assume p: "is_scalar p"
  with False have l: "leads (utf8 p) p" by (intro utf8_leads) auto
  then obtain b bs where u: "utf8 p = b # bs" by (cases "utf8 p") (auto simp: leads_def)
  have "list_all (\<lambda>b. b < 256) (b # bs)" using p utf8_bytes [of p] u by (auto simp: is_scalar_def)
  with l show ?thesis by (simp add: decode_point_def percent_point_def octets_percent u leads_def)
qed

lemma percent_point_Cons: "\<exists>r. percent_point p = 37 # r"
  by (auto simp: percent_point_def utf8_def percent_def)

lemma decode_percent_point:
  "is_scalar p \<Longrightarrow> decodeURIComponent (percent_point p @ s) = map_option (\<lambda>r. utf16 p @ r) (decodeURIComponent s)"
  using decode_point_percent [of p s] percent_point_Cons [of p] by (auto simp del: decode_point_percent)

lemma surrogate_pair:
  assumes "is_high c" "is_low d"
  defines "p \<equiv> 0x10000 + (c - 0xD800) * 0x400 + (d - 0xDC00)"
  shows "is_scalar p" "utf16 p = [c, d]" "p < 0x110000"
proof -
  obtain x y where xy: "c = 0xD800 + x" "d = 0xDC00 + y" "x < 0x400" "y < 0x400"
    using assms(1,2) by (auto simp: is_high_def is_low_def dest!: le_Suc_ex)
  then have "p = 0x10000 + (x * 0x400 + y)" by (simp add: p_def)
  with xy show "is_scalar p" "utf16 p = [c, d]" "p < 0x110000"
    by (simp_all add: is_scalar_def utf16_def)
qed

text \<open>Encoding a well-formed string returns, and decoding the result, also as a prefix, gives the string.\<close>

lemma encode_decode_prefix:
  "well_formed s \<Longrightarrow>
   \<exists>e. encodeURIComponent s = Some e
     \<and> (\<forall>t. decodeURIComponent (e @ t) = map_option (\<lambda>r. s @ r) (decodeURIComponent t))"
proof (induction s rule: encodeURIComponent.induct)
  case (2 c s)
  show ?case
  proof (cases "uri_unescaped c")
    case True
    then have "c \<noteq> 37" "\<not> is_high c" "\<not> is_low c"
      by (auto simp: uri_unescaped_def is_high_def is_low_def js_simps)
    with 2 True show ?thesis by (auto simp: option.map_comp comp_def)
  next
    case unesc: False
    show ?thesis
    proof (cases "is_high c")
      case True
      then obtain d s' where s: "s = d # s'" "is_low d" "well_formed s'"
        using 2(4) by (auto split: list.splits)
      let ?p = "0x10000 + (c - 0xD800) * 0x400 + (d - 0xDC00)"
      have p: "is_scalar ?p" "utf16 ?p = [c, d]"
        using surrogate_pair [OF True s(2)] by simp_all
      show ?thesis
        using 2(2)[OF unesc _ True s(1) s(2) s(3)] s True unesc p
        by (auto simp: is_high_def is_low_def decode_percent_point option.map_comp comp_def)
    next
      case False
      then have c: "\<not> is_low c" "c < 0x10000" "well_formed s" using 2(4) by auto
      then have "is_scalar c" "utf16 c = [c]"
        using False by (auto simp: is_scalar_def utf16_def is_high_def is_low_def)
      then show ?thesis
        using 2(3)[OF unesc c(1) False c(3)] c False unesc
        by (auto simp: decode_percent_point option.map_comp comp_def)
    qed
  qed
qed (simp add: map_option_case split: option.split)

lemma encode_decode:
  assumes "well_formed s"
  obtains e where "encodeURIComponent s = Some e" "decodeURIComponent e = Some s"
  using encode_decode_prefix [OF assms] by (metis append_Nil2 decodeURIComponent.simps(1) option.simps(9))

section \<open>The alphabet of the encoded form\<close>

definition uri_component_unit :: "code_unit \<Rightarrow> bool" where
  "uri_component_unit c \<longleftrightarrow> uri_unescaped c \<or> c = 37"

lemma hex_digit_unescaped [simp]: "n < 16 \<Longrightarrow> uri_unescaped (hex_digit n)"
  unfolding uri_unescaped_def hex_digit_def by simp

lemma percent_units: "b < 256 \<Longrightarrow> c \<in> set (percent b) \<Longrightarrow> uri_component_unit c"
  by (auto simp: percent_def uri_component_unit_def)

lemma percent_point_units: "c \<in> set (percent_point p) \<Longrightarrow> p < 0x110000 \<Longrightarrow> uri_component_unit c"
  using utf8_bytes [of p] by (auto simp: percent_point_def list_all_iff intro: percent_units)

lemma encode_units:
  "well_formed s \<Longrightarrow> encodeURIComponent s = Some e \<Longrightarrow> c \<in> set e \<Longrightarrow> uri_component_unit c"
proof (induction s arbitrary: e rule: encodeURIComponent.induct)
  case (2 x s)
  show ?case
  proof (cases "uri_unescaped x")
    case True
    then have "\<not> is_high x"
      by (auto simp: uri_unescaped_def is_high_def js_simps)
    with True 2(4) have w: "well_formed s" by simp
    from True 2(5) obtain e' where e': "e = x # e'" "encodeURIComponent s = Some e'" by auto
    with 2(1)[OF True w e'(2)] 2(6) True show ?thesis by (auto simp: uri_component_unit_def)
  next
    case unesc: False
    show ?thesis
    proof (cases "is_high x")
      case True
      then obtain d s' where s: "s = d # s'" "is_low d" "well_formed s'"
        using 2(4) by (auto split: list.splits)
      have nl: "\<not> is_low x" using True by (simp add: is_high_def is_low_def)
      with s True unesc 2(5) obtain e' where e':
        "e = percent_point (0x10000 + (x - 0xD800) * 0x400 + (d - 0xDC00)) @ e'" "encodeURIComponent s' = Some e'"
        by auto
      have "0x10000 + (x - 0xD800) * 0x400 + (d - 0xDC00) < 0x110000"
        by (rule surrogate_pair(3)[OF True s(2)])
      then show ?thesis
        using e' 2(6) 2(2)[OF unesc nl True s(1) s(2) s(3) e'(2)] by (auto intro: percent_point_units)
    next
      case False
      then have x: "\<not> is_low x" "x < 0x10000" "well_formed s" using 2(4) by auto
      with False unesc 2(5) obtain e' where e':
        "e = percent_point x @ e'" "encodeURIComponent s = Some e'"
        by auto
      show ?thesis
        using e' 2(6) x(2) 2(3)[OF unesc x(1) False x(3) e'(2)] by (auto intro: percent_point_units)
    qed
  qed
qed simp

lemma well_formed_units: "well_formed s \<Longrightarrow> list_all (\<lambda>c. c < 0x10000) s"
  by (induction s rule: well_formed.induct)
     (auto simp: is_high_def is_low_def split: if_splits list.splits)

section \<open>Decoding ASCII text gives a well-formed string\<close>

lemma well_formed_utf16 [simp]: "is_scalar p \<Longrightarrow> well_formed (utf16 p @ s) = well_formed s"
  by (auto simp: utf16_def is_scalar_def is_high_def is_low_def less_mult_imp_div_less)

lemma utf8_point_scalar: "utf8_point (b # bs) = Some p \<Longrightarrow> length bs = n \<Longrightarrow> following b = Some n \<Longrightarrow> is_scalar p"
proof -
  assume u: "utf8_point (b # bs) = Some p" and n: "length bs = n" "following b = Some n"
  consider c where "bs = [c]" "b < 0xE0" "c < 0xC0" "p = (b - 0xC0) * 0x40 + (c - 0x80)" | "is_scalar p"
    using u n
    by (cases bs rule: list.exhaust [case_names Nil Cons])
       (auto simp: utf8_point_def following_def Let_def split: list.splits if_splits)
  then show ?thesis by cases (auto simp: is_scalar_def)
qed

lemma octet_subset: "octet s = Some (b, r) \<Longrightarrow> set r \<subseteq> set s"
  by (cases s rule: octet.cases) (auto split: if_splits option.splits)

lemma octets_subset: "octets n s = Some (bs, r) \<Longrightarrow> set r \<subseteq> set s \<and> length bs = n"
proof (induction n s arbitrary: bs rule: octets.induct)
  case (2 n s)
  then obtain b s1 bs1 where "octet s = Some (b, s1)" "octets n s1 = Some (bs1, r)" "bs = b # bs1"
    by (auto split: option.splits)
  with 2(1) show ?case by (fastforce dest: octet_subset)
qed simp

lemma decode_point_scalar:
  assumes "decode_point s = Some (p, r)"
  shows "is_scalar p \<and> set r \<subseteq> set s"
  using assms octet_subset octets_subset
  by (fastforce simp: decode_point_def is_scalar_def split: option.splits if_splits
      dest: utf8_point_scalar)

lemma decode_ascii_well_formed:
  "decodeURIComponent s = Some t \<Longrightarrow> \<forall>c\<in>set s. c < 0x80 \<Longrightarrow> well_formed t"
proof (induction s arbitrary: t rule: decodeURIComponent.induct)
  case (2 c s)
  show ?case
  proof (cases "c = 37")
    case False
    with 2 show ?thesis by (auto simp: is_high_def is_low_def)
  next
    case True
    then obtain p s' where d: "decode_point (c # s) = Some (p, s')"
      using 2(3) by (auto split: option.splits)
    with True 2(3) obtain r where r: "decodeURIComponent s' = Some r" "t = utf16 p @ r" by auto
    have "is_scalar p" "\<forall>c\<in>set s'. c < 0x80"
      using decode_point_scalar [OF d] 2(4) by auto
    then show ?thesis using 2(2)[OF _ d] True r by auto
  qed
qed simp

section \<open>The codec as an interface\<close>

text \<open>
  What the query string and the deep links rely on: text satisfying \<open>ok\<close> encodes, the encoded
  text is free of the delimiters, and it decodes to the text.
\<close>

locale component_codec =
  fixes enc :: "js_string \<Rightarrow> js_string option"
    and dec :: "js_string \<Rightarrow> js_string option"
    and ok :: "js_string \<Rightarrow> bool"
    and delims :: "code_unit set"
  assumes enc_ok: "ok s \<Longrightarrow> \<exists>e. enc s = Some e"
    and dec_enc: "ok s \<Longrightarrow> enc s = Some e \<Longrightarrow> dec e = Some s"
    and enc_delims: "ok s \<Longrightarrow> enc s = Some e \<Longrightarrow> set e \<inter> delims = {}"
    and enc_nonempty: "ok s \<Longrightarrow> enc s = Some e \<Longrightarrow> e = [] \<longleftrightarrow> s = []"
begin

lemma enc_obtain:
  assumes "ok s"
  obtains e where "enc s = Some e" "dec e = Some s" "set e \<inter> delims = {}" "e = [] \<longleftrightarrow> s = []"
  using assms enc_ok dec_enc enc_delims enc_nonempty by blast

lemma split_pair:
  assumes "ok k" "ok v" "enc k = Some ek" "enc v = Some ev" "d \<in> delims"
  shows "split_on d (ek @ d # ev) = [ek, ev]"
proof -
  have "d \<notin> set ek" "d \<notin> set ev" using assms enc_delims [of k ek] enc_delims [of v ev] by auto
  then show ?thesis by (simp add: split_on_append_sep)
qed

lemma split_fields:
  assumes "d \<in> delims" "d' \<in> delims" "d \<noteq> d'" "ps \<noteq> []"
    and "\<And>p. p \<in> set ps \<Longrightarrow> \<exists>k v ek ev. ok k \<and> ok v \<and> enc k = Some ek \<and> enc v = Some ev \<and> p = ek @ d' # ev"
  shows "split_on d (join_with [d] ps) = ps"
proof (rule split_on_join [OF assms(4)])
  fix p assume "p \<in> set ps"
  from assms(5)[OF this] obtain k v ek ev
    where "ok k" "ok v" "enc k = Some ek" "enc v = Some ev" "p = ek @ d' # ev" by blast
  with enc_delims [of k ek] enc_delims [of v ev] assms(1,3) show "d \<notin> set p" by auto
qed

end

lemma not_component_units: "\<not> uri_component_unit 38" "\<not> uri_component_unit 61" "\<not> uri_component_unit 47" "\<not> uri_component_unit 35"
  by (simp_all add: uri_component_unit_def uri_unescaped_def js_simps)

lemma encode_empty_iff: "encodeURIComponent s = Some e \<Longrightarrow> e = [] \<longleftrightarrow> s = []"
proof (cases s)
  case (Cons c t)
  assume "encodeURIComponent s = Some e"
  moreover have "percent_point p \<noteq> []" for p using percent_point_Cons [of p] by auto
  ultimately show ?thesis using Cons by (auto split: if_splits list.splits)
qed auto

interpretation uri: component_codec encodeURIComponent decodeURIComponent well_formed "{38, 61, 47, 35}"
proof unfold_locales
  fix s e assume s: "well_formed s"
  show "\<exists>e. encodeURIComponent s = Some e" using encode_decode [OF s] by blast
  assume e: "encodeURIComponent s = Some e"
  show "decodeURIComponent e = Some s" using encode_decode [OF s] e by (metis option.sel)
  show "set e \<inter> {38, 61, 47, 35} = {}"
    using encode_units [OF s e] not_component_units by blast
  show "e = [] \<longleftrightarrow> s = []" by (rule encode_empty_iff [OF e])
qed

end
