(* ===== verification/Swagger_Topbar.thy ===== *)
theory Swagger_Topbar
  imports Js_Url
begin

text \<open>
  The stand-alone preset of the Swagger UI that serves the generated API description
  (\<open>swagger-ui-standalone-preset.js\<close>): the query-string helpers, the top bar with its
  selection of a definition, and the reducer of the configs plugin.  The effects of the top bar
  on the rest of the system are recorded in the order the code performs them.
\<close>

section \<open>The query string\<close>

text \<open>\<open>r[1] && decodeURIComponent(r[1]) || ""\<close>: a missing or empty value gives the empty string.\<close>

definition search_value :: "js_string list \<Rightarrow> js_string option" where
  "search_value r = (if length r > 1 \<and> r ! 1 \<noteq> [] then decodeURIComponent (r ! 1) else Some [])"

fun search_loop :: "js_string list \<Rightarrow> js_string js_object \<Rightarrow> js_string js_object option" where
  "search_loop [] e = Some e"
| "search_loop (p # n) e =
     (let r = split_on 61 p in
      case decodeURIComponent (r ! 0) of
        None \<Rightarrow> None
      | Some k \<Rightarrow>
          (case search_value r of
             None \<Rightarrow> None
           | Some v \<Rightarrow> search_loop n (obj_put k v e)))"

definition parseSearch :: "js_string \<Rightarrow> js_string js_object option" where
  "parseSearch search =
     (if search = [] then Some []
      else search_loop (split_on 38 (drop 1 search)) [])"

definition serialize_pair :: "js_string js_object \<Rightarrow> js_string \<Rightarrow> js_string option" where
  "serialize_pair t k =
     (case (encodeURIComponent k, encodeURIComponent (the (obj_get t k))) of
        (Some a, Some b) \<Rightarrow> Some (a @ [61] @ b)
      | _ \<Rightarrow> None)"

definition serializeSearch :: "js_string js_object \<Rightarrow> js_string option" where
  "serializeSearch t = map_option (join_with [38]) (those (map (serialize_pair t) (object_keys t)))"

section \<open>The page location\<close>

record location =
  protocol :: js_string
  host :: js_string
  pathname :: js_string
  search :: js_string

text \<open>
  \<open>history.replaceState\<close> with a URL of the same page: the query of the URL becomes
  \<open>location.search\<close>, which is empty when the query is empty.
\<close>

definition url_search :: "js_string \<Rightarrow> js_string" where
  "url_search url =
     (let q = drop 1 (dropWhile (\<lambda>c. c \<noteq> 63) (takeWhile (\<lambda>c. c \<noteq> 35) url)) in
      if q = [] then [] else 63 # q)"

definition replaceState :: "js_string \<Rightarrow> location \<Rightarrow> location" where
  "replaceState url loc = loc\<lparr>search := url_search url\<rparr>"

section \<open>The top bar\<close>

record api_url =
  url_name :: js_string
  url_url :: js_string

record topbar_configs =
  urls :: "api_url list option"
  primaryName :: "js_string option"
  persistAuthorization :: bool

datatype topbar_effect =
    RestoreAuthorizationEmpty
  | UpdateUrl js_string
  | Download js_string
  | UpdateFilter js_string

record topbar =
  state_url :: js_string
  selectedIndex :: nat
  page :: location
  effects :: "topbar_effect list"

definition emit :: "topbar_effect \<Rightarrow> topbar \<Rightarrow> topbar" where
  "emit x i = i\<lparr>effects := effects i @ [x]\<rparr>"

definition new_topbar :: "js_string \<Rightarrow> location \<Rightarrow> topbar" where
  "new_topbar url loc = \<lparr>state_url = url, selectedIndex = 0, page = loc, effects = []\<rparr>"

definition onUrlChange :: "js_string \<Rightarrow> topbar \<Rightarrow> topbar" where
  "onUrlChange e i = i\<lparr>state_url := e\<rparr>"

definition componentWillReceiveProps :: "js_string \<Rightarrow> topbar \<Rightarrow> topbar" where
  "componentWillReceiveProps spec_url i = i\<lparr>state_url := spec_url\<rparr>"

definition flushAuthData :: "topbar_configs \<Rightarrow> topbar \<Rightarrow> topbar" where
  "flushAuthData cfg i = (if persistAuthorization cfg then i else emit RestoreAuthorizationEmpty i)"

definition loadSpec :: "topbar_configs \<Rightarrow> js_string \<Rightarrow> topbar \<Rightarrow> topbar" where
  "loadSpec cfg t i = emit (Download t) (emit (UpdateUrl t) (flushAuthData cfg i))"

definition downloadUrl :: "topbar_configs \<Rightarrow> topbar \<Rightarrow> topbar" where
  "downloadUrl cfg i = loadSpec cfg (state_url i) i"

definition onFilterChange :: "js_string \<Rightarrow> topbar \<Rightarrow> topbar" where
  "onFilterChange e i = emit (UpdateFilter e) i"

definition setSearch :: "api_url \<Rightarrow> topbar \<Rightarrow> topbar option" where
  "setSearch spec i =
     (case parseSearch (search (page i)) of
        None \<Rightarrow> None
      | Some r \<Rightarrow>
          (let r = obj_put (js ''urls.primaryName'') (url_name spec) r;
               o' = protocol (page i) @ js ''//'' @ host (page i) @ pathname (page i)
           in case serializeSearch r of
                None \<Rightarrow> None
              | Some q \<Rightarrow> Some (i\<lparr>page := replaceState (o' @ js ''?'' @ q) (page i)\<rparr>)))"

text \<open>The loop over \<open>urls\<close>: every entry with the chosen URL is selected, in order.\<close>

fun select_loop :: "js_string \<Rightarrow> nat \<Rightarrow> api_url list \<Rightarrow> topbar \<Rightarrow> topbar option" where
  "select_loop t n [] i = Some i"
| "select_loop t n (e # es) i =
     (if url_url e = t
      then (case setSearch e (i\<lparr>selectedIndex := n\<rparr>) of
              None \<Rightarrow> None
            | Some i' \<Rightarrow> select_loop t (Suc n) es i')
      else select_loop t (Suc n) es i)"

definition setSelectedUrl :: "topbar_configs \<Rightarrow> js_string \<Rightarrow> topbar \<Rightarrow> topbar option" where
  "setSelectedUrl cfg t i =
     (case urls cfg of
        None \<Rightarrow> Some i
      | Some es \<Rightarrow> if es \<noteq> [] \<and> t \<noteq> [] then select_loop t 0 es i else Some i)"

definition onUrlSelect :: "topbar_configs \<Rightarrow> js_string \<Rightarrow> topbar \<Rightarrow> topbar option" where
  "onUrlSelect cfg e i = setSelectedUrl cfg e (loadSpec cfg e i)"

fun mount_loop :: "js_string \<Rightarrow> nat \<Rightarrow> api_url list \<Rightarrow> nat \<Rightarrow> nat" where
  "mount_loop name n [] r = r"
| "mount_loop name n (e # es) r = mount_loop name (Suc n) es (if url_name e = name then n else r)"

definition componentDidMount :: "topbar_configs \<Rightarrow> topbar \<Rightarrow> topbar" where
  "componentDidMount cfg i =
     (case urls cfg of
        None \<Rightarrow> i
      | Some n \<Rightarrow>
          if n = [] then i
          else (let r = (case primaryName cfg of
                           None \<Rightarrow> selectedIndex i
                         | Some nm \<Rightarrow> if nm = [] then selectedIndex i else mount_loop nm 0 n (selectedIndex i))
                in loadSpec cfg (url_url (n ! r)) (i\<lparr>selectedIndex := r\<rparr>)))"

section \<open>The reducer of the configs plugin\<close>

datatype config_value = CString js_string | CBool bool | CUndefined

definition truthy :: "config_value \<Rightarrow> bool" where
  "truthy v = (case v of CString s \<Rightarrow> s \<noteq> [] | CBool b \<Rightarrow> b | CUndefined \<Rightarrow> False)"

definition config_get :: "(js_string \<rightharpoonup> config_value) \<Rightarrow> js_string \<Rightarrow> config_value" where
  "config_get t k = (case t k of None \<Rightarrow> CUndefined | Some v \<Rightarrow> v)"

datatype config_action =
    UpdateConfigs "config_value js_object"
  | ToggleConfigs js_string

fun configs_reducer :: "(js_string \<rightharpoonup> config_value) \<Rightarrow> config_action \<Rightarrow> (js_string \<rightharpoonup> config_value)" where
  "configs_reducer t (UpdateConfigs payload) = t ++ obj_get payload"
| "configs_reducer t (ToggleConfigs n) = t(n \<mapsto> CBool (\<not> truthy (config_get t n)))"

section \<open>Serialising and parsing are inverse\<close>

definition search_ok :: "js_string js_object \<Rightarrow> bool" where
  "search_ok t \<longleftrightarrow> distinct (map fst t)
     \<and> list_all (\<lambda>(k, v). well_formed k \<and> well_formed v \<and> k \<noteq> js ''__proto__'') t"

lemma search_ok_Nil [simp]: "search_ok []"
  by (simp add: search_ok_def)

lemma search_ok_get:
  "search_ok t \<Longrightarrow> k \<in> set (object_keys t) \<Longrightarrow>
   well_formed k \<and> well_formed (the (obj_get t k)) \<and> k \<noteq> js ''__proto__''"
  by (force simp: search_ok_def list_all_iff obj_get_def)

lemma search_ok_put: "search_ok t \<Longrightarrow> well_formed k \<Longrightarrow> well_formed v \<Longrightarrow> search_ok (obj_put k v t)"
proof -
  assume t: "search_ok t" and kv: "well_formed k" "well_formed v"
  have "set (alist_put k v t) \<subseteq> insert (k, v) (set t)"
    by (induction k v t rule: alist_put.induct) auto
  with t kv distinct_alist_put [of t k v] show ?thesis
    by (auto simp: search_ok_def list_all_iff obj_put_def)
qed

lemma serialize_pair_ok:
  assumes "well_formed k" "well_formed (the (obj_get t k))"
  obtains a b where "encodeURIComponent k = Some a" "encodeURIComponent (the (obj_get t k)) = Some b"
    "serialize_pair t k = Some (a @ 61 # b)" "split_on 61 (a @ 61 # b) = [a, b]"
    "decodeURIComponent a = Some k" "search_value [a, b] = Some (the (obj_get t k))"
proof -
  obtain a where a: "encodeURIComponent k = Some a" "decodeURIComponent a = Some k"
    using uri.enc_obtain [OF assms(1)] by blast
  obtain b where b: "encodeURIComponent (the (obj_get t k)) = Some b"
    "decodeURIComponent b = Some (the (obj_get t k))" "b = [] \<longleftrightarrow> the (obj_get t k) = []"
    using uri.enc_obtain [OF assms(2)] by blast
  have "split_on 61 (a @ 61 # b) = [a, b]" by (rule uri.split_pair [OF assms a(1) b(1)]) simp
  with a b show ?thesis by (intro that [of a b]) (auto simp: serialize_pair_def search_value_def)
qed

lemma serialize_all:
  assumes "\<And>k. k \<in> set ks \<Longrightarrow> well_formed k \<and> well_formed (the (obj_get t k))"
  shows "\<exists>ps. those (map (serialize_pair t) ks) = Some ps \<and> (ps = [] \<longleftrightarrow> ks = [])
     \<and> (\<forall>p\<in>set ps. \<exists>k v a b. well_formed k \<and> well_formed v \<and> encodeURIComponent k = Some a
          \<and> encodeURIComponent v = Some b \<and> p = a @ 61 # b)
     \<and> (\<forall>e. search_loop ps e = Some (fold (\<lambda>k. obj_put k (the (obj_get t k))) ks e))"
  using assms
proof (induction ks)
  case (Cons k ks)
  then obtain ps where ps: "those (map (serialize_pair t) ks) = Some ps"
    "\<forall>p\<in>set ps. \<exists>k v a b. well_formed k \<and> well_formed v \<and> encodeURIComponent k = Some a
          \<and> encodeURIComponent v = Some b \<and> p = a @ 61 # b"
    "\<forall>e. search_loop ps e = Some (fold (\<lambda>k. obj_put k (the (obj_get t k))) ks e)"
    by auto
  have k: "well_formed k" "well_formed (the (obj_get t k))" using Cons.prems by auto
  obtain a b where ab: "encodeURIComponent k = Some a" "encodeURIComponent (the (obj_get t k)) = Some b"
    "serialize_pair t k = Some (a @ 61 # b)" "split_on 61 (a @ 61 # b) = [a, b]"
    "decodeURIComponent a = Some k" "search_value [a, b] = Some (the (obj_get t k))"
    by (rule serialize_pair_ok [OF k])
  show ?case
    by (rule exI [of _ "(a @ 61 # b) # ps"]) (use ps ab k in auto)
qed simp

lemma obj_get_fold_put:
  "\<forall>k\<in>set ks. k \<noteq> js ''__proto__'' \<Longrightarrow>
   obj_get (fold (\<lambda>k. obj_put k (f k)) ks e) x = (if x \<in> set ks then Some (f x) else obj_get e x)"
  by (induction ks arbitrary: e) (auto simp: obj_get_put)

lemma serialize_parse:
  assumes "search_ok t"
  obtains q t' where "serializeSearch t = Some q" "q = [] \<longleftrightarrow> t = []"
    "\<forall>c\<in>set q. uri_component_unit c \<or> c = 38 \<or> c = 61"
    "parseSearch (if q = [] then [] else 63 # q) = Some t'" "obj_get t' = obj_get t"
proof -
  let ?ks = "object_keys t"
  have ks: "well_formed k \<and> well_formed (the (obj_get t k))" if "k \<in> set ?ks" for k
    using search_ok_get [OF assms that] by blast
  obtain ps where ps: "those (map (serialize_pair t) ?ks) = Some ps" "ps = [] \<longleftrightarrow> ?ks = []"
    and form: "\<And>p. p \<in> set ps \<Longrightarrow> \<exists>k v a b. well_formed k \<and> well_formed v \<and> encodeURIComponent k = Some a
          \<and> encodeURIComponent v = Some b \<and> p = a @ 61 # b"
    and loop: "\<And>e. search_loop ps e = Some (fold (\<lambda>k. obj_put k (the (obj_get t k))) ?ks e)"
    using serialize_all [of ?ks t, OF ks] by auto
  have t: "?ks = [] \<longleftrightarrow> t = []" using set_object_keys [of t] by (metis image_is_empty set_empty)
  have get: "obj_get (fold (\<lambda>k. obj_put k (the (obj_get t k))) ?ks []) = obj_get t"
  proof
    fix x
    have "obj_get t x = None" if "x \<notin> set ?ks" using that by (simp add: obj_get_def map_of_eq_None_iff)
    moreover have "obj_get t x = Some (the (obj_get t x))" if "x \<in> set ?ks"
      using that by (auto simp: obj_get_def dest: weak_map_of_SomeI)
    moreover have "\<forall>k\<in>set ?ks. k \<noteq> js ''__proto__''" using search_ok_get [OF assms] by blast
    ultimately show "obj_get (fold (\<lambda>k. obj_put k (the (obj_get t k))) ?ks []) x = obj_get t x"
      by (subst obj_get_fold_put) (auto simp: obj_get_def)
  qed
  let ?q = "join_with [38] ps"
  have q: "?q = [] \<longleftrightarrow> ps = []" by (rule join_with_eq_Nil) (use form in fastforce)
  have units: "\<forall>c\<in>set ?q. uri_component_unit c \<or> c = 38 \<or> c = 61"
  proof -
    have "set ?q \<subseteq> insert 38 (\<Union> (set ` set ps))" using set_join_with [of "[38]" ps] by simp
    moreover have "uri_component_unit c \<or> c = 61" if "p \<in> set ps" "c \<in> set p" for p c
      using form [OF that(1)] that(2) by (auto dest: encode_units)
    ultimately show ?thesis by blast
  qed
  have "parseSearch (if ?q = [] then [] else 63 # ?q) = Some (fold (\<lambda>k. obj_put k (the (obj_get t k))) ?ks [])"
  proof (cases "ps = []")
    case True
    then show ?thesis using ps(2) by (simp add: parseSearch_def)
  next
    case False
    have "split_on 38 ?q = ps" by (rule uri.split_fields [where d' = 61]) (use False form in auto)
    with q False loop show ?thesis by (simp add: parseSearch_def)
  qed
  with ps q t units get show ?thesis 
    by (intro that [of ?q "fold (\<lambda>k. obj_put k (the (obj_get t k))) ?ks []"]) (auto simp: serializeSearch_def)
qed

section \<open>What the page remembers\<close>

text \<open>The page: its URL parts hold no query and no fragment, and its query is ASCII and decodes.\<close>

definition plain_part :: "js_string \<Rightarrow> bool" where
  "plain_part s \<longleftrightarrow> 63 \<notin> set s \<and> 35 \<notin> set s"

definition page_ok :: "location \<Rightarrow> bool" where
  "page_ok loc \<longleftrightarrow> plain_part (protocol loc) \<and> plain_part (host loc) \<and> plain_part (pathname loc)
     \<and> list_all (\<lambda>c. c < 0x80) (search loc) \<and> parseSearch (search loc) \<noteq> None"

lemma search_value_ok:
  "search_value r = Some v \<Longrightarrow> \<forall>p\<in>set r. \<forall>c\<in>set p. c < 0x80 \<Longrightarrow> well_formed v"
  by (auto simp: search_value_def split: if_splits intro!: decode_ascii_well_formed dest: nth_mem)

lemma search_loop_ok:
  "search_loop n e = Some t \<Longrightarrow> search_ok e \<Longrightarrow> \<forall>p\<in>set n. \<forall>c\<in>set p. c < 0x80 \<Longrightarrow> search_ok t"
proof (induction n e rule: search_loop.induct)
  case (2 p n e)
  let ?r = "split_on 61 p"
  from 2(2) obtain k v where kv: "decodeURIComponent (?r ! 0) = Some k" "search_value ?r = Some v"
    "search_loop n (obj_put k v e) = Some t"
    by (auto simp: Let_def split: option.splits)
  have ascii: "\<forall>q\<in>set ?r. \<forall>c\<in>set q. c < 0x80" using split_on_parts [of _ 61 p] 2(4) by fastforce
  have "?r ! 0 \<in> set ?r" by (rule nth_mem) simp
  then have "well_formed k" using kv(1) ascii decode_ascii_well_formed by blast
  moreover have "well_formed v" by (rule search_value_ok [OF kv(2) ascii])
  ultimately have "search_ok (obj_put k v e)" using 2(3) by (intro search_ok_put)
  then show ?case using 2(1)[OF refl kv(1,2)] kv(3) 2(4) by auto
qed auto

lemma parseSearch_ok:
  assumes "parseSearch s = Some t" "list_all (\<lambda>c. c < 0x80) s"
  shows "search_ok t"
proof (cases "s = []")
  case False
  have "\<forall>p\<in>set (split_on 38 (drop 1 s)). \<forall>c\<in>set p. c < 0x80"
    using assms(2) split_on_parts [of _ 38 "drop 1 s"] set_drop_subset [of 1 s]
    by (fastforce simp: list_all_iff)
  then show ?thesis using assms(1) False by (auto simp: parseSearch_def intro: search_loop_ok)
qed (use assms in \<open>simp add: parseSearch_def\<close>)

lemma takeWhile_append_none: "c \<notin> set a \<Longrightarrow> takeWhile (\<lambda>x. x \<noteq> c) (a @ b) = a @ takeWhile (\<lambda>x. x \<noteq> c) b"
  by (induction a) auto

lemma dropWhile_append_none: "c \<notin> set a \<Longrightarrow> dropWhile (\<lambda>x. x \<noteq> c) (a @ c # b) = c # b"
  by (induction a) auto

lemma url_search_query:
  assumes "plain_part a" "35 \<notin> set q"
  shows "url_search (a @ js ''?'' @ q) = (if q = [] then [] else 63 # q)"
proof -
  have "takeWhile (\<lambda>c. c \<noteq> 35) (a @ js ''?'' @ q) = a @ 63 # q"
    using assms by (auto simp: plain_part_def takeWhile_append_none js_simps takeWhile_eq_all_conv)
  then show ?thesis using assms by (simp add: url_search_def Let_def plain_part_def dropWhile_append_none)
qed

lemma component_ascii: "uri_component_unit c \<Longrightarrow> c < 0x80"
  by (auto simp: uri_component_unit_def uri_unescaped_def js_simps)

lemma setSearch_spec:
  assumes "page_ok (page i)" "well_formed (url_name spec)"
  obtains s r r' where "setSearch spec i = Some (i\<lparr>page := page i\<lparr>search := s\<rparr>\<rparr>)"
    "parseSearch (search (page i)) = Some r" "parseSearch s = Some r'"
    "obj_get r' = (obj_get r)(js ''urls.primaryName'' \<mapsto> url_name spec)"
    "page_ok (page i\<lparr>search := s\<rparr>)"
proof -
  let ?k = "js ''urls.primaryName''"
  from assms(1) obtain r where r: "parseSearch (search (page i)) = Some r" by (auto simp: page_ok_def)
  have k: "well_formed ?k" "?k \<noteq> js ''__proto__''"
    by (simp_all add: inj_js) (simp add: js_simps is_high_def is_low_def)
  have "search_ok r" using parseSearch_ok [OF r] assms(1) by (simp add: page_ok_def)
  then have "search_ok (obj_put ?k (url_name spec) r)" using k(1) assms(2) by (rule search_ok_put)
  then obtain q r' where q: "serializeSearch (obj_put ?k (url_name spec) r) = Some q"
      "\<forall>c\<in>set q. uri_component_unit c \<or> c = 38 \<or> c = 61"
      "parseSearch (if q = [] then [] else 63 # q) = Some r'" "obj_get r' = obj_get (obj_put ?k (url_name spec) r)"
    by (rule serialize_parse)
  have q35: "35 \<notin> set q" using q(2) not_component_units by auto
  let ?o = "protocol (page i) @ js ''//'' @ host (page i) @ pathname (page i)"
  have "plain_part ?o" using assms(1) by (auto simp: page_ok_def plain_part_def js_simps)
  then have s: "url_search (?o @ js ''?'' @ q) = (if q = [] then [] else 63 # q)"
    by (rule url_search_query [OF _ q35])
  have "list_all (\<lambda>c. c < 0x80) (if q = [] then [] else 63 # q)"
    using q(2) component_ascii by (fastforce simp: list_all_iff)
  with q(3) assms(1) have "page_ok (page i\<lparr>search := if q = [] then [] else 63 # q\<rparr>)"
    by (simp add: page_ok_def)
  then show ?thesis using r q k s
    by (intro that [of "if q = [] then [] else 63 # q" r r'])
       (simp_all add: setSearch_def Let_def replaceState_def obj_get_put)
qed

text \<open>Serialising a table of query parameters and parsing the resulting query of the page
  gives the same table, for every table of well-formed strings without a \<open>__proto__\<close> key.\<close>

theorem search_roundtrip:
  assumes "search_ok t" and "plain_part origin"
  shows "\<exists>q t'. serializeSearch t = Some q \<and> parseSearch (url_search (origin @ js ''?'' @ q)) = Some t'
     \<and> obj_get t' = obj_get t"
proof -
  obtain q t' where q: "serializeSearch t = Some q" "\<forall>c\<in>set q. uri_component_unit c \<or> c = 38 \<or> c = 61"
    "parseSearch (if q = [] then [] else 63 # q) = Some t'" "obj_get t' = obj_get t"
    by (rule serialize_parse [OF assms(1)])
  have "35 \<notin> set q" using q(2) not_component_units by auto
  with q show ?thesis using url_search_query [OF assms(2)] by auto
qed

theorem search_roundtrip_witness:
  "\<exists>q t'. serializeSearch [(js ''a&b'', js ''1=2''), (js ''7'', [0x20AC, 0xD83D, 0xDE00])] = Some q
     \<and> parseSearch (url_search (js ''http://h/'' @ js ''?'' @ q)) = Some t'
     \<and> obj_get t' = obj_get [(js ''a&b'', js ''1=2''), (js ''7'', [0x20AC, 0xD83D, 0xDE00])]"
  by (rule search_roundtrip)
     (simp_all add: search_ok_def plain_part_def js_simps is_high_def is_low_def)

section \<open>Selecting a definition and reloading the page\<close>

lemma select_loop_none: "t \<notin> url_url ` set es \<Longrightarrow> select_loop t n es i = Some i"
  by (induction es arbitrary: n) auto

lemma select_loop_app:
  "t \<notin> url_url ` set as \<Longrightarrow> select_loop t n (as @ bs) i = select_loop t (n + length as) bs i"
  by (induction as arbitrary: n) auto

lemma mount_loop_none: "nm \<notin> url_name ` set es \<Longrightarrow> mount_loop nm n es r = r"
  by (induction es arbitrary: n) auto

lemma mount_loop_app:
  "nm \<notin> url_name ` set as \<Longrightarrow> mount_loop nm n (as @ bs) r = mount_loop nm (n + length as) bs r"
  by (induction as arbitrary: n) auto

lemma loadSpec_page [simp]:
  "page (loadSpec cfg t i) = page i" "selectedIndex (loadSpec cfg t i) = selectedIndex i"
  by (simp_all add: loadSpec_def emit_def flushAuthData_def)

definition reloaded :: "topbar_configs \<Rightarrow> location \<Rightarrow> topbar_configs" where
  "reloaded cfg loc =
     cfg\<lparr>primaryName := (case parseSearch (search loc) of None \<Rightarrow> None
                           | Some r \<Rightarrow> obj_get r (js ''urls.primaryName''))\<rparr>"

text \<open>C24. Choosing a definition in the top bar loads it and writes its name into the query of the
  page; a reload of that page, whose configuration takes \<open>urls.primaryName\<close> from the query, shows
  and loads the same definition, whatever was selected before.\<close>

theorem selection_survives_reload:
  assumes "urls cfg = Some (as @ e # bs)"
    and "url_url e \<notin> url_url ` set (as @ bs)" and "url_name e \<notin> url_name ` set (as @ bs)"
    and "url_url e \<noteq> []" and "url_name e \<noteq> []" and "well_formed (url_name e)"
    and "page_ok (page i)"
  shows "\<exists>i'. onUrlSelect cfg (url_url e) i = Some i' \<and> page_ok (page i')
     \<and> selectedIndex i' = length as
     \<and> effects i' = effects (loadSpec cfg (url_url e) i)
     \<and> componentDidMount (reloaded cfg (page i')) (new_topbar u (page i'))
       = loadSpec cfg (url_url e) ((new_topbar u (page i'))\<lparr>selectedIndex := length as\<rparr>)"
proof -
  have apart: "url_url e \<notin> url_url ` set as" "url_url e \<notin> url_url ` set bs"
    "url_name e \<notin> url_name ` set as" "url_name e \<notin> url_name ` set bs"
    using assms(2,3) by auto
  let ?i = "(loadSpec cfg (url_url e) i)\<lparr>selectedIndex := length as\<rparr>"
  have "page_ok (page ?i)" using assms(7) by simp
  from setSearch_spec [OF this assms(6)] obtain s r r' where s:
    "setSearch e ?i = Some (?i\<lparr>page := page ?i\<lparr>search := s\<rparr>\<rparr>)" "parseSearch s = Some r'"
    "obj_get r' = (obj_get r)(js ''urls.primaryName'' \<mapsto> url_name e)" "page_ok (page ?i\<lparr>search := s\<rparr>)" .
  let ?i' = "?i\<lparr>page := page ?i\<lparr>search := s\<rparr>\<rparr>"
  have "onUrlSelect cfg (url_url e) i = Some ?i'"
    using assms(1,4) apart s(1) by (simp add: onUrlSelect_def setSelectedUrl_def select_loop_app select_loop_none)
  moreover have "componentDidMount (reloaded cfg (page ?i')) (new_topbar u (page ?i'))
       = loadSpec cfg (url_url e) ((new_topbar u (page ?i'))\<lparr>selectedIndex := length as\<rparr>)"
    using assms(1,5) apart s by (simp add: componentDidMount_def reloaded_def mount_loop_app mount_loop_none
        loadSpec_def flushAuthData_def)
  ultimately show ?thesis using s(4) by (intro exI [of _ ?i']) simp
qed

definition two_urls :: topbar_configs where
  "two_urls = \<lparr>urls = Some ([\<lparr>url_name = js ''A'', url_url = js ''/a''\<rparr>] @ \<lparr>url_name = js ''B'', url_url = js ''/b''\<rparr> # []),
     primaryName = None, persistAuthorization = False\<rparr>"

definition home_page :: location where
  "home_page = \<lparr>protocol = js ''http:'', host = js ''h'', pathname = js ''/'', search = []\<rparr>"

theorem selection_survives_reload_witness:
  "\<exists>i'. onUrlSelect two_urls (js ''/b'') (new_topbar (js ''/a'') home_page) = Some i' \<and> page_ok (page i')
     \<and> selectedIndex i' = 1
     \<and> effects i' = effects (loadSpec two_urls (js ''/b'') (new_topbar (js ''/a'') home_page))
     \<and> componentDidMount (reloaded two_urls (page i')) (new_topbar (js ''/a'') (page i'))
       = loadSpec two_urls (js ''/b'') ((new_topbar (js ''/a'') (page i'))\<lparr>selectedIndex := 1\<rparr>)"
  using selection_survives_reload [of two_urls "[\<lparr>url_name = js ''A'', url_url = js ''/a''\<rparr>]"
      "\<lparr>url_name = js ''B'', url_url = js ''/b''\<rparr>" "[]" "new_topbar (js ''/a'') home_page" "js ''/a''"]
  by (simp add: two_urls_def new_topbar_def home_page_def page_ok_def plain_part_def parseSearch_def
      js_simps is_high_def is_low_def)

end
