(* ===== verification/Js_Immutable.thy ===== *)
theory Js_Immutable
  imports Js_Prelude "HOL-Library.Sublist"
begin

text \<open>
  The nested maps in which the Swagger UI keeps its state, with the path operations of the
  bundled Immutable library (\<open>getIn\<close>, \<open>setIn\<close>, \<open>deleteIn\<close> over \<open>updateInDeepMap\<close>,
  \<open>swagger-ui-bundle.js\<close>).  A \<open>Leaf\<close> is any value that is not a map.  \<open>None\<close> stands for
  the library's \<open>NOT_SET\<close>; a path that runs through a leaf makes an update throw, which is the
  outer \<open>None\<close>.
\<close>

datatype 'v inode = Leaf 'v | Node "(js_string \<times> 'v inode) list"

definition empty_map :: "'v inode" where
  "empty_map = Node []"

fun entries :: "'v inode option \<Rightarrow> (js_string \<times> 'v inode) list" where
  "entries (Some (Node m)) = m"
| "entries _ = []"

fun is_leaf :: "'v inode option \<Rightarrow> bool" where
  "is_leaf (Some (Leaf v)) = True"
| "is_leaf _ = False"

definition child :: "'v inode option \<Rightarrow> js_string \<Rightarrow> 'v inode option" where
  "child n k = map_of (entries n) k"

definition alist_drop :: "'k \<Rightarrow> ('k \<times> 'v) list \<Rightarrow> ('k \<times> 'v) list" where
  "alist_drop k m = filter (\<lambda>(k', v). k' \<noteq> k) m"

lemma map_of_alist_drop [simp]: "map_of (alist_drop k m) = (map_of m)(k := None)"
  by (induction m) (auto simp: alist_drop_def)

text \<open>One step of the rebuild: put the updated child, or remove it when it is \<open>NOT_SET\<close>.\<close>

definition with_child :: "'v inode option \<Rightarrow> js_string \<Rightarrow> 'v inode option \<Rightarrow> 'v inode option" where
  "with_child n k c =
     (if c = child n k then n
      else case c of
             None \<Rightarrow> Some (Node (alist_drop k (entries n)))
           | Some x \<Rightarrow> Some (Node (alist_put k x (entries n))))"

fun updateInDeepMap ::
  "'v inode option \<Rightarrow> js_string list \<Rightarrow> 'v inode option \<Rightarrow> ('v inode option \<Rightarrow> 'v inode option)
   \<Rightarrow> 'v inode option option" where
  "updateInDeepMap e [] n r =
     (let i = (if e = None then n else e); s = r i in Some (if s = i then e else s))"
| "updateInDeepMap e (u # t) n r =
     (if is_leaf e then None
      else map_option (with_child e u) (updateInDeepMap (child e u) t n r))"

definition setIn :: "'v inode \<Rightarrow> js_string list \<Rightarrow> 'v inode \<Rightarrow> 'v inode option" where
  "setIn e ks t = (case updateInDeepMap (Some e) ks None (\<lambda>_. Some t) of Some r \<Rightarrow> r | None \<Rightarrow> None)"

definition deleteIn :: "'v inode \<Rightarrow> js_string list \<Rightarrow> 'v inode option" where
  "deleteIn e ks = (case updateInDeepMap (Some e) ks None (\<lambda>_. None) of Some r \<Rightarrow> r | None \<Rightarrow> None)"

definition updateIn ::
  "'v inode \<Rightarrow> js_string list \<Rightarrow> 'v inode \<Rightarrow> ('v inode \<Rightarrow> 'v inode) \<Rightarrow> 'v inode option" where
  "updateIn e ks d f =
     (case updateInDeepMap (Some e) ks (Some d) (map_option f) of Some r \<Rightarrow> r | None \<Rightarrow> None)"

fun get_from :: "'v inode option \<Rightarrow> js_string list \<Rightarrow> 'v inode option" where
  "get_from r [] = r"
| "get_from r (k # ks) = (case child r k of None \<Rightarrow> None | Some c \<Rightarrow> get_from (Some c) ks)"

definition getIn :: "'v inode \<Rightarrow> js_string list \<Rightarrow> 'v inode option" where
  "getIn e ks = get_from (Some e) ks"

section \<open>Laws of the path operations\<close>

lemma child_with_child [simp]: "child (with_child n k c) k' = (if k' = k then c else child n k')"
  by (auto simp: with_child_def child_def split: option.split)

lemma get_from_None [simp]: "get_from None ks = (None :: 'v inode option)"
  by (cases ks) (simp_all add: child_def)

lemma get_from_Cons [simp]: "get_from r (k # ks) = get_from (child r k) ks"
  by (cases "child r k") simp_all

declare get_from.simps(2) [simp del]

lemma update_same:
  "updateInDeepMap e ks n r = Some e' \<Longrightarrow>
   get_from e' ks = r (if get_from e ks = None then n else get_from e ks)
   \<or> (get_from e' ks = get_from e ks \<and> r (if get_from e ks = None then n else get_from e ks) = (if get_from e ks = None then n else get_from e ks))"
  by (induction e ks n r arbitrary: e' rule: updateInDeepMap.induct) (auto simp: Let_def split: if_splits)

lemma update_apart:
  "updateInDeepMap e ks n r = Some e' \<Longrightarrow> \<not> prefix ks qs \<Longrightarrow> \<not> prefix qs ks \<Longrightarrow> get_from e' qs = get_from e qs"
proof (induction e ks n r arbitrary: e' qs rule: updateInDeepMap.induct)
  case (2 e u t n r)
  then obtain q qs' where q: "qs = q # qs'" by (cases qs) auto
  from 2(2) obtain c where c: "updateInDeepMap (child e u) t n r = Some c" "e' = with_child e u c" "\<not> is_leaf e"
    by (auto split: if_splits)
  show ?case
  proof (cases "q = u")
    case True
    with 2(3,4) q have "\<not> prefix t qs'" "\<not> prefix qs' t" by auto
    with 2(1)[OF c(3,1)] True q c(2) show ?thesis by simp
  next
    case False
    with q c(2) show ?thesis by simp
  qed
qed simp

lemma set_get_same: "updateInDeepMap e ks None (\<lambda>_. Some t) = Some e' \<Longrightarrow> get_from e' ks = Some t"
  using update_same [of e ks None "\<lambda>_. Some t" e'] by auto

lemma setIn_same: "setIn e ks t = Some e' \<Longrightarrow> getIn e' ks = Some t"
  by (auto simp: setIn_def getIn_def set_get_same split: option.splits)

lemma setIn_apart: "setIn e ks t = Some e' \<Longrightarrow> \<not> prefix ks qs \<Longrightarrow> \<not> prefix qs ks \<Longrightarrow> getIn e' qs = getIn e qs"
  by (auto simp: setIn_def getIn_def update_apart split: option.splits)

lemma get_from_append: "get_from e (p @ q) = get_from (get_from e p) q"
  by (induction p arbitrary: e) simp_all

lemma getIn_append: "getIn e p = Some n \<Longrightarrow> getIn e (p @ q) = getIn n q"
  by (simp add: getIn_def get_from_append)

lemma getIn_empty [simp]: "getIn (Node []) (k # ks) = None"
  by (simp add: getIn_def child_def)

lemma getIn_append_None: "getIn e p = None \<Longrightarrow> getIn e (p @ q) = None"
  by (simp add: getIn_def get_from_append)

lemma setIn_below: "setIn e p t = Some e' \<Longrightarrow> getIn e' (p @ q) = getIn t q"
  by (rule getIn_append [OF setIn_same])

text \<open>A path is blocked when a proper prefix of it ends in a leaf.\<close>

fun blocked :: "'v inode option \<Rightarrow> js_string list \<Rightarrow> bool" where
  "blocked e [] = False"
| "blocked e (k # ks) = (is_leaf e \<or> blocked (child e k) ks)"

lemma blocked_None [simp]: "\<not> blocked None ks"
  by (induction ks) (simp_all add: child_def)

lemma with_child_Some: "\<exists>e'. with_child e k (Some x) = Some e'"
  by (cases e) (auto simp: with_child_def child_def)

lemma set_blocked: "blocked e ks \<Longrightarrow> updateInDeepMap e ks n r = None"
  by (induction ks arbitrary: e) auto

lemma set_unblocked: "\<not> blocked e ks \<Longrightarrow> \<exists>e'. updateInDeepMap e ks None (\<lambda>_. Some t) = Some (Some e')"
proof (induction ks arbitrary: e)
  case (Cons k ks)
  then obtain c where "updateInDeepMap (child e k) ks None (\<lambda>_. Some t) = Some (Some c)" by auto
  with Cons.prems with_child_Some [of e k c] show ?case by auto
qed simp

lemma setIn_defined: "setIn e ks t \<noteq> None \<longleftrightarrow> \<not> blocked (Some e) ks"
  using set_blocked [of "Some e" ks] set_unblocked [of "Some e" ks t]
  by (cases "blocked (Some e) ks") (auto simp: setIn_def)

section \<open>The store interface\<close>

text \<open>What the reducers rely on: a write is read back at its path and leaves the paths alone that
  neither extend it nor are extended by it.\<close>

locale path_store =
  fixes get :: "'s \<Rightarrow> 'k list \<Rightarrow> 'a option"
    and put :: "'s \<Rightarrow> 'k list \<Rightarrow> 'a \<Rightarrow> 's option"
  assumes get_put_same: "put s p v = Some s' \<Longrightarrow> get s' p = Some v"
    and get_put_apart: "put s p v = Some s' \<Longrightarrow> \<not> prefix p q \<Longrightarrow> \<not> prefix q p \<Longrightarrow> get s' q = get s q"
begin

lemma get_put_field: "put s (p @ [k]) v = Some s' \<Longrightarrow> k \<noteq> k' \<Longrightarrow> get s' (p @ [k']) = get s (p @ [k'])"
  by (erule get_put_apart) auto

lemma get_put_sibling:
  "put s (p @ k # r) v = Some s' \<Longrightarrow> k \<noteq> k' \<Longrightarrow> get s' (p @ k' # r') = get s (p @ k' # r')"
  by (erule get_put_apart) (auto simp: prefix_def append_eq_append_conv2 Cons_eq_append_conv)

lemma put_put_same: "put s p v = Some s1 \<Longrightarrow> put s1 p w = Some s2 \<Longrightarrow> get s2 p = Some w"
  by (rule get_put_same)

end

interpretation imm: path_store getIn setIn
  by unfold_locales (auto intro: setIn_same setIn_apart)

end
