(* ===== verification/Swagger_Layout.thy ===== *)
theory Swagger_Layout
  imports Js_Url Js_Immutable
begin

text \<open>
  The layout and deep-linking plugins of the Swagger UI (\<open>swagger-ui.js\<close>): the actions and the
  reducer of the layout state, its selectors, the URL fragment that names the expanded
  operation, and the tag filter.  Reducers return \<open>None\<close> where the code throws.
\<close>

section \<open>The layout state\<close>

datatype thing = One js_string | Many "js_string list"

fun normalizeArray :: "thing \<Rightarrow> js_string list" where
  "normalizeArray (One e) = [e]"
| "normalizeArray (Many e) = e"

datatype filter_value = FUndefined | FBool bool | FStr js_string

text \<open>
  \<open>shown\<close> is a map whose keys are immutable lists, compared by value.  \<open>modes\<close> is the root
  under which the nested map \<open>modes\<close> lives.
\<close>

record layout_state =
  layout :: "js_string option"
  filter_by :: filter_value
  shown :: "js_string list \<rightharpoonup> bool"
  modes :: "js_string inode"
  scrollToKey :: "js_string list option"

definition initial_layout :: "js_string \<Rightarrow> filter_value \<Rightarrow> layout_state" where
  "initial_layout l f = \<lparr>layout = Some l, filter_by = f, shown = Map.empty, modes = empty_map, scrollToKey = None\<rparr>"

datatype layout_action =
    UPDATE_LAYOUT js_string
  | UPDATE_FILTER filter_value
  | SHOW "js_string list" bool
  | UPDATE_MODE "js_string list" js_string
  | SCROLL_TO "js_string list"
  | CLEAR_SCROLL_TO

text \<open>The action creators, with their default arguments.\<close>

definition show_action :: "thing \<Rightarrow> bool option \<Rightarrow> layout_action" where
  "show_action e t = SHOW (normalizeArray e) (case t of None \<Rightarrow> True | Some b \<Rightarrow> b)"

definition changeMode :: "thing \<Rightarrow> js_string option \<Rightarrow> layout_action" where
  "changeMode e t = UPDATE_MODE (normalizeArray e) (case t of None \<Rightarrow> [] | Some m \<Rightarrow> m)"

definition scrollTo :: "thing \<Rightarrow> layout_action" where
  "scrollTo e = SCROLL_TO (normalizeArray e)"

fun layout_reducer :: "layout_state \<Rightarrow> layout_action \<Rightarrow> layout_state option" where
  "layout_reducer e (UPDATE_LAYOUT l) = Some (e\<lparr>layout := Some l\<rparr>)"
| "layout_reducer e (UPDATE_FILTER f) = Some (e\<lparr>filter_by := f\<rparr>)"
| "layout_reducer e (SHOW th b) = Some (e\<lparr>shown := (shown e)(th \<mapsto> b)\<rparr>)"
| "layout_reducer e (UPDATE_MODE th m) =
     (case setIn (modes e) (js ''modes'' # th) (Leaf m) of
        None \<Rightarrow> None
      | Some n \<Rightarrow> Some (e\<lparr>modes := n\<rparr>))"
| "layout_reducer e (SCROLL_TO p) = Some (e\<lparr>scrollToKey := Some p\<rparr>)"
| "layout_reducer e CLEAR_SCROLL_TO = Some (e\<lparr>scrollToKey := None\<rparr>)"

section \<open>Selectors\<close>

definition isShown :: "layout_state \<Rightarrow> thing \<Rightarrow> bool option \<Rightarrow> bool option" where
  "isShown e t n = (case shown e (normalizeArray t) of None \<Rightarrow> n | Some b \<Rightarrow> Some b)"

definition whatMode :: "layout_state \<Rightarrow> thing \<Rightarrow> js_string inode option \<Rightarrow> js_string inode option" where
  "whatMode e t r =
     (case getIn (modes e) (js ''modes'' # normalizeArray t) of
        None \<Rightarrow> (case r of None \<Rightarrow> Some (Leaf []) | Some d \<Rightarrow> Some d)
      | Some n \<Rightarrow> Some n)"

definition showSummary :: "layout_state \<Rightarrow> bool" where
  "showSummary e \<longleftrightarrow> isShown e (One (js ''editor'')) None \<noteq> Some True"

definition isShownKeyFromUrlHashArray :: "js_string list \<Rightarrow> js_string list" where
  "isShownKeyFromUrlHashArray t =
     (if length t > 1 \<and> t ! 1 \<noteq> [] then [js ''operations'', t ! 0, t ! 1]
      else if length t > 0 \<and> t ! 0 \<noteq> [] then [js ''operations-tag'', t ! 0]
      else [])"

text \<open>Destructuring past the end of an array gives \<open>undefined\<close> (\<open>None\<close>).\<close>

definition elem :: "'a list \<Rightarrow> nat \<Rightarrow> 'a option" where
  "elem t i = (if i < length t then Some (t ! i) else None)"

definition urlHashArrayFromIsShownKey :: "js_string list \<Rightarrow> js_string option list" where
  "urlHashArrayFromIsShownKey t =
     (if elem t 0 = Some (js ''operations'') then [elem t 1, elem t 2]
      else if elem t 0 = Some (js ''operations-tag'') then [elem t 1]
      else [])"

section \<open>Deep links\<close>

record ui =
  lay :: layout_state
  hash :: js_string
  deepLinking :: bool

definition dispatch :: "layout_action \<Rightarrow> ui \<Rightarrow> ui" where
  "dispatch a u = (case layout_reducer (lay u) a of None \<Rightarrow> u | Some s \<Rightarrow> u\<lparr>lay := s\<rparr>)"

definition setHash :: "js_string \<Rightarrow> ui \<Rightarrow> ui" where
  "setHash e u = (if e = [] then u\<lparr>hash := []\<rparr> else u\<lparr>hash := js ''#'' @ e\<rparr>)"

definition createDeepLinkPath :: "js_string \<Rightarrow> js_string" where
  "createDeepLinkPath e = concat (map (\<lambda>c. if js_space c then js ''%20'' else [c]) (js_trim e))"

text \<open>\<open>encodeURIComponent(undefined)\<close> is the text \<open>undefined\<close>.\<close>

definition encode_component :: "js_string option \<Rightarrow> js_string option" where
  "encode_component s = encodeURIComponent (case s of None \<Rightarrow> js ''undefined'' | Some t \<Rightarrow> t)"

text \<open>The action \<open>show\<close> as the deep-linking plugin wraps it; an exception is caught and logged.\<close>

definition show_linked :: "thing \<Rightarrow> bool option \<Rightarrow> ui \<Rightarrow> ui" where
  "show_linked i c u0 =
     (let u = dispatch (show_action i c) u0 in
      if \<not> deepLinking u then u
      else (let l = urlHashArrayFromIsShownKey (normalizeArray i) in
            if l = [] then u
            else if c \<noteq> Some True then setHash (js ''/'') u
            else if length l = 2 then
              (case (encode_component (l ! 0), encode_component (l ! 1)) of
                 (Some h, Some m) \<Rightarrow> setHash (createDeepLinkPath (js ''/'' @ h @ js ''/'' @ m)) u
               | _ \<Rightarrow> u)
            else (case encode_component (l ! 0) of
                    Some h \<Rightarrow> setHash (createDeepLinkPath (js ''/'' @ h)) u
                  | None \<Rightarrow> u)))"

definition drop_head :: "code_unit \<Rightarrow> js_string \<Rightarrow> js_string" where
  "drop_head c o' = (if elem o' 0 = Some c then drop 1 o' else o')"

definition underscores_to_spaces :: "js_string list \<Rightarrow> js_string list" where
  "underscores_to_spaces ks = map (replace_all 95 (js '' '')) ks"

definition parseDeepLinkHash :: "js_string \<Rightarrow> ui \<Rightarrow> ui" where
  "parseDeepLinkHash e u0 =
     (if \<not> deepLinking u0 \<or> e = [] then u0
      else
        (let i = split_on 47 (drop_head 47 (drop_head 33 (drop 1 e)));
             c = isShownKeyFromUrlHashArray i;
             f = (case elem c 1 of None \<Rightarrow> [] | Some x \<Rightarrow> x);
             v = (case elem c 2 of None \<Rightarrow> [] | Some x \<Rightarrow> x);
             u1 = (if elem c 0 = Some (js ''operations'')
                   then (let y = isShownKeyFromUrlHashArray [f];
                             u = (if 95 \<in> set f then show_linked (Many (underscores_to_spaces y)) (Some True) u0 else u0)
                         in show_linked (Many y) (Some True) u)
                   else u0);
             u2 = (if 95 \<in> set f \<or> 95 \<in> set v
                   then show_linked (Many (underscores_to_spaces c)) (Some True) u1 else u1);
             u3 = show_linked (Many c) (Some True) u2
         in dispatch (scrollTo (Many c)) u3))"

text \<open>When the configuration is loaded, the fragment of the page is decoded and followed.\<close>

definition configs_loaded :: "ui \<Rightarrow> ui option" where
  "configs_loaded u = (case decodeURIComponent (hash u) of None \<Rightarrow> None | Some h \<Rightarrow> Some (parseDeepLinkHash h u))"

definition readyToScroll :: "js_string list \<Rightarrow> ui \<Rightarrow> bool \<times> ui" where
  "readyToScroll e u =
     (if scrollToKey (lay u) = Some e then (True, dispatch CLEAR_SCROLL_TO u) else (False, u))"

section \<open>The tag filter\<close>

definition opsFilter :: "(js_string \<times> 'op) list \<Rightarrow> js_string \<Rightarrow> (js_string \<times> 'op) list" where
  "opsFilter e t = filter (\<lambda>(n, _). contains n t) e"

text \<open>\<open>maxDisplayedTags\<close> is a number or unset; zero is falsy, so it does not truncate.\<close>

definition taggedOperations ::
  "layout_state \<Rightarrow> int option \<Rightarrow> (js_string \<times> 'op) list \<Rightarrow> (js_string \<times> 'op) list" where
  "taggedOperations l m u =
     (let u = (case filter_by l of
                 FStr v \<Rightarrow> if v \<noteq> [] \<and> v \<noteq> js ''true'' \<and> v \<noteq> js ''false'' then opsFilter u v else u
               | _ \<Rightarrow> u)
      in case m of
           None \<Rightarrow> u
         | Some n \<Rightarrow> if n \<noteq> 0 \<and> n \<ge> 0 then take (nat n) u else u)"

section \<open>Lemmas on the fragment\<close>

lemma component_not_space: "uri_component_unit c \<Longrightarrow> \<not> js_space c"
  by (auto simp: uri_component_unit_def uri_unescaped_def js_space_def js_simps)

lemma createDeepLinkPath_id:
  assumes "\<forall>c\<in>set e. \<not> js_space c"
  shows "createDeepLinkPath e = e"
proof -
  have d: "dropWhile js_space x = x" if "\<forall>c\<in>set x. \<not> js_space c" for x
    using that by (cases x) auto
  have "concat (map (\<lambda>c. if js_space c then js ''%20'' else [c]) x) = x" if "\<forall>c\<in>set x. \<not> js_space c" for x
    using that by (induction x) auto
  then show ?thesis using assms d [of e] d [of "rev e"] by (simp add: createDeepLinkPath_def js_trim_def)
qed

lemma js_slash [js_simps]: "js ''/'' = [47]" "js ''#'' = [35]"
  by (simp_all add: js_simps)

lemma dispatch_show [simp]:
  "dispatch (show_action i c) u = u\<lparr>lay := (lay u)\<lparr>shown := (shown (lay u))(normalizeArray i \<mapsto> c \<noteq> Some False)\<rparr>\<rparr>"
  by (auto simp: dispatch_def show_action_def split: option.split)

lemma dispatch_scroll [simp]:
  "dispatch (scrollTo i) u = u\<lparr>lay := (lay u)\<lparr>scrollToKey := Some (normalizeArray i)\<rparr>\<rparr>"
  by (simp add: dispatch_def scrollTo_def)

lemma setHash_lay [simp]: "lay (setHash e u) = lay u" "deepLinking (setHash e u) = deepLinking u"
  by (simp_all add: setHash_def)

lemma show_linked_lay [simp]:
  "lay (show_linked i c u) = (lay u)\<lparr>shown := (shown (lay u))(normalizeArray i \<mapsto> c \<noteq> Some False)\<rparr>"
  "deepLinking (show_linked i c u) = deepLinking u"
  by (simp_all add: show_linked_def Let_def split: option.split)

text \<open>The fragment that showing an operation, or a tag, writes.\<close>

lemma show_operation_hash:
  assumes "deepLinking u" "well_formed tag" "well_formed op"
    and "encodeURIComponent tag = Some et" "encodeURIComponent op = Some eo"
  shows "hash (show_linked (Many [js ''operations'', tag, op]) (Some True) u) = [35, 47] @ et @ [47] @ eo"
proof -
  have "\<forall>c\<in>set (47 # et @ 47 # eo). \<not> js_space c"
    using encode_units [OF assms(2,4)] encode_units [OF assms(3,5)] component_not_space
    by (auto simp: js_space_def)
  then have "createDeepLinkPath (47 # et @ 47 # eo) = 47 # et @ 47 # eo" by (rule createDeepLinkPath_id)
  with assms show ?thesis
    by (simp add: show_linked_def Let_def urlHashArrayFromIsShownKey_def elem_def encode_component_def
        setHash_def js_slash)
qed

lemma decode_link:
  assumes "well_formed tag" "well_formed op"
    and "encodeURIComponent tag = Some et" "encodeURIComponent op = Some eo"
  shows "decodeURIComponent ([35, 47] @ et @ [47] @ eo) = Some ([35, 47] @ tag @ [47] @ op)"
proof -
  have "decodeURIComponent (et @ x) = map_option (\<lambda>r. tag @ r) (decodeURIComponent x)" for x
    using encode_decode_prefix [OF assms(1)] assms(3) by auto
  moreover have "decodeURIComponent eo = Some op" using uri.dec_enc [OF assms(2,4)] .
  ultimately show ?thesis by simp
qed

lemma elem_simps [simp]:
  "elem (x # xs) 0 = Some x" "elem (x # xs) (Suc n) = elem xs n" "elem [] n = None"
  by (simp_all add: elem_def)

lemma elem_numeral [simp]: "elem (x # xs) (numeral k) = elem xs (pred_numeral k)"
  by (simp add: numeral_eq_Suc)

text \<open>Following a decoded fragment of two segments.\<close>

lemma parse_operation_link:
  assumes "deepLinking u" "tag \<noteq> []" "op \<noteq> []" "47 \<notin> set tag" "47 \<notin> set op"
  defines "k \<equiv> [js ''operations'', tag, op]" and "y \<equiv> [js ''operations-tag'', tag]"
  shows "\<exists>u1. shown (lay u1) y = Some True
     \<and> parseDeepLinkHash ([35, 47] @ tag @ [47] @ op) u = dispatch (scrollTo (Many k)) (show_linked (Many k) (Some True) u1)
     \<and> deepLinking u1"
proof -
  have "split_on 47 (tag @ 47 # op) = [tag, op]" using assms by (simp add: split_on_append_sep)
  then have i: "split_on 47 (drop_head 47 (drop_head 33 (drop 1 ([35, 47] @ tag @ [47] @ op)))) = [tag, op]"
    by (simp add: drop_head_def)
  have c: "isShownKeyFromUrlHashArray [tag, op] = k" and t: "isShownKeyFromUrlHashArray [tag] = y"
    using assms by (simp_all add: isShownKeyFromUrlHashArray_def)
  let ?u = "if 95 \<in> set tag then show_linked (Many (underscores_to_spaces y)) (Some True) u else u"
  let ?u1 = "show_linked (Many y) (Some True) ?u"
  let ?u2 = "if 95 \<in> set tag \<or> 95 \<in> set op then show_linked (Many (underscores_to_spaces k)) (Some True) ?u1 else ?u1"
  have "underscores_to_spaces k \<noteq> y" by (simp add: underscores_to_spaces_def k_def y_def)
  then have "shown (lay ?u2) y = Some True" "deepLinking ?u2" using assms(1) by simp_all
  moreover have "parseDeepLinkHash ([35, 47] @ tag @ [47] @ op) u
      = dispatch (scrollTo (Many k)) (show_linked (Many k) (Some True) ?u2)"
    using assms(1) unfolding parseDeepLinkHash_def i c t Let_def
    by (simp add: k_def t cong: if_cong)
  ultimately show ?thesis by blast
qed

text \<open>C3. An expanded operation survives a reload of the page: the fragment that expanding it
  writes decodes, and following it on a fresh page expands the operation and its tag, scrolls to
  it and writes the same fragment again.  Deep linking is on, and the tag and the operation id are
  non-empty well-formed texts without a slash.\<close>

theorem deep_link_roundtrip:
  assumes "deepLinking u" and "deepLinking fresh"
    and "well_formed tag" and "well_formed op" and "tag \<noteq> []" and "op \<noteq> []"
    and "47 \<notin> set tag" and "47 \<notin> set op"
  shows "let h = hash (show_linked (Many [js ''operations'', tag, op]) (Some True) u) in
     \<exists>r. configs_loaded (fresh\<lparr>hash := h\<rparr>) = Some r
       \<and> isShown (lay r) (Many [js ''operations'', tag, op]) None = Some True
       \<and> isShown (lay r) (Many [js ''operations-tag'', tag]) None = Some True
       \<and> scrollToKey (lay r) = Some [js ''operations'', tag, op]
       \<and> hash r = h"
proof -
  obtain et where et: "encodeURIComponent tag = Some et" using uri.enc_obtain [OF assms(3)] by blast
  obtain eo where eo: "encodeURIComponent op = Some eo" using uri.enc_obtain [OF assms(4)] by blast
  let ?h = "[35, 47] @ et @ [47] @ eo"
  have h: "hash (show_linked (Many [js ''operations'', tag, op]) (Some True) w) = ?h" if "deepLinking w" for w
    by (rule show_operation_hash [OF that assms(3,4) et eo])
  obtain u1 where u1: "shown (lay u1) [js ''operations-tag'', tag] = Some True" "deepLinking u1"
    "parseDeepLinkHash ([35, 47] @ tag @ [47] @ op) (fresh\<lparr>hash := ?h\<rparr>)
      = dispatch (scrollTo (Many [js ''operations'', tag, op]))
          (show_linked (Many [js ''operations'', tag, op]) (Some True) u1)"
    using parse_operation_link [of "fresh\<lparr>hash := ?h\<rparr>", OF _ assms(5-8)] assms(2) by auto
  show ?thesis
    unfolding Let_def h [OF assms(1)] configs_loaded_def
    using decode_link [OF assms(3,4) et eo] u1 h [OF u1(2)]
    by (simp add: isShown_def)
qed

definition fresh_ui :: ui where
  "fresh_ui = \<lparr>lay = initial_layout (js ''BaseLayout'') FUndefined, hash = [], deepLinking = True\<rparr>"

theorem deep_link_roundtrip_witness:
  "let h = hash (show_linked (Many [js ''operations'', js ''my pets'', js ''add_100%'']) (Some True) fresh_ui) in
     \<exists>r. configs_loaded (fresh_ui\<lparr>hash := h\<rparr>) = Some r
       \<and> isShown (lay r) (Many [js ''operations'', js ''my pets'', js ''add_100%'']) None = Some True
       \<and> isShown (lay r) (Many [js ''operations-tag'', js ''my pets'']) None = Some True
       \<and> scrollToKey (lay r) = Some [js ''operations'', js ''my pets'', js ''add_100%'']
       \<and> hash r = h"
  by (rule deep_link_roundtrip)
     (simp_all add: fresh_ui_def js_simps is_high_def is_low_def)

text \<open>The fragment of a tag whose name contains a slash does not lead back to the tag: it is
  decoded before it is split, so the part after the slash is taken for an operation id.\<close>

theorem slash_tag_misread:
  assumes "deepLinking u" and "deepLinking fresh"
    and "well_formed a" and "well_formed b" and "a \<noteq> []" and "b \<noteq> []"
    and "47 \<notin> set a" and "47 \<notin> set b" and "well_formed (a @ [47] @ b)"
  shows "let h = hash (show_linked (Many [js ''operations-tag'', a @ [47] @ b]) (Some True) u) in
     \<exists>r. configs_loaded (fresh\<lparr>hash := h\<rparr>) = Some r
       \<and> scrollToKey (lay r) = Some [js ''operations'', a, b]"
proof -
  let ?t = "a @ [47] @ b"
  obtain et where et: "encodeURIComponent ?t = Some et" using uri.enc_obtain [OF assms(9)] by blast
  have "\<forall>c\<in>set (47 # et). \<not> js_space c"
    using encode_units [OF assms(9) et] component_not_space by (auto simp: js_space_def)
  then have h: "hash (show_linked (Many [js ''operations-tag'', ?t]) (Some True) u) = [35, 47] @ et"
    using assms(1) et createDeepLinkPath_id [of "47 # et"]
    by (simp add: show_linked_def Let_def urlHashArrayFromIsShownKey_def encode_component_def setHash_def
        js_slash inj_js)
  have d: "decodeURIComponent ([35, 47] @ et) = Some ([35, 47] @ a @ [47] @ b)"
    using uri.dec_enc [OF assms(9) et] by simp
  obtain u1 where "parseDeepLinkHash ([35, 47] @ a @ [47] @ b) (fresh\<lparr>hash := [35, 47] @ et\<rparr>)
      = dispatch (scrollTo (Many [js ''operations'', a, b]))
          (show_linked (Many [js ''operations'', a, b]) (Some True) u1)"
    using parse_operation_link [of "fresh\<lparr>hash := [35, 47] @ et\<rparr>", OF _ assms(5-8)] assms(2) by auto
  with d show ?thesis unfolding Let_def h configs_loaded_def by simp
qed

theorem slash_tag_misread_witness:
  "let h = hash (show_linked (Many [js ''operations-tag'', js ''a'' @ [47] @ js ''b'']) (Some True) fresh_ui) in
     \<exists>r. configs_loaded (fresh_ui\<lparr>hash := h\<rparr>) = Some r
       \<and> scrollToKey (lay r) = Some [js ''operations'', js ''a'', js ''b'']"
  by (rule slash_tag_misread)
     (simp_all add: fresh_ui_def js_simps is_high_def is_low_def)

section \<open>Modes\<close>

text \<open>Changing the mode of a thing either throws, exactly when its path runs through a thing that
  has a mode of its own, or stores the mode as a string that \<open>whatMode\<close> returns, and touches
  nothing else of the layout and no mode on an unrelated path.\<close>

theorem changeMode_whatMode:
  "(case layout_reducer e (changeMode t m) of
      None \<Rightarrow> blocked (Some (modes e)) (js ''modes'' # normalizeArray t)
    | Some e' \<Rightarrow> \<not> blocked (Some (modes e)) (js ''modes'' # normalizeArray t)
        \<and> whatMode e' t d = Some (Leaf (case m of None \<Rightarrow> [] | Some x \<Rightarrow> x))
        \<and> e'\<lparr>modes := modes e\<rparr> = e
        \<and> (prefix (normalizeArray t) (normalizeArray t') \<or> prefix (normalizeArray t') (normalizeArray t)
           \<or> whatMode e' t' d = whatMode e t' d))"
proof (cases "setIn (modes e) (js ''modes'' # normalizeArray t) (Leaf (case m of None \<Rightarrow> [] | Some x \<Rightarrow> x))")
  case None
  then have "blocked (Some (modes e)) (js ''modes'' # normalizeArray t)"
    using setIn_defined [of "modes e" "js ''modes'' # normalizeArray t"] by blast
  with None show ?thesis by (simp add: changeMode_def)
next
  case (Some n)
  then have "\<not> blocked (Some (modes e)) (js ''modes'' # normalizeArray t)"
    using setIn_defined [of "modes e" "js ''modes'' # normalizeArray t"] by blast
  moreover have "whatMode (e\<lparr>modes := n\<rparr>) t d = Some (Leaf (case m of None \<Rightarrow> [] | Some x \<Rightarrow> x))"
    using setIn_same [OF Some] by (simp add: whatMode_def)
  moreover have "whatMode (e\<lparr>modes := n\<rparr>) t' d = whatMode e t' d"
    if "\<not> prefix (normalizeArray t) (normalizeArray t')" "\<not> prefix (normalizeArray t') (normalizeArray t)"
    using setIn_apart [OF Some, of "js ''modes'' # normalizeArray t'"] that by (simp add: whatMode_def)
  ultimately show ?thesis using Some by (auto simp: changeMode_def)
qed

end
