(* ===== verification/Swagger_Curl.thy ===== *)
theory Swagger_Curl
  imports Js_Prelude
begin

text \<open>
  The request snippets of the Swagger UI (\<open>swagger-ui-es-bundle.js\<close>): the quoting functions for
  the three command shells and the generator of \<open>curl\<close> commands.  For the POSIX shell the
  generated text is read back by a model of the shell's word splitting; the theorem is that the
  words are exactly the intended arguments.
\<close>

section \<open>Quoting\<close>

text \<open>The test \<open>/^[_\/-]/\<close>.\<close>

definition bare_start :: "js_string \<Rightarrow> bool" where
  "bare_start e \<longleftrightarrow> (case e of [] \<Rightarrow> False | c # _ \<Rightarrow> c \<in> {95, 47, 45})"

definition escapeShell :: "js_string \<Rightarrow> js_string" where
  "escapeShell e =
     (if e = js ''-d '' \<or> bare_start e then e
      else [39] @ replace_all 39 [39, 92, 39, 39] e @ [39])"

text \<open>\<open>replace(/\\"/g, ...)\<close>: the pattern is a backslash followed by a double quote.\<close>

fun escape_backslash_quote :: "js_string \<Rightarrow> js_string" where
  "escape_backslash_quote (a # b # s) =
     (if a = 92 \<and> b = 34 then [92, 92, 34] @ escape_backslash_quote s
      else a # escape_backslash_quote (b # s))"
| "escape_backslash_quote s = s"

definition escapeCMD :: "js_string \<Rightarrow> js_string" where
  "escapeCMD e0 =
     (let e = replace_all 10 [94, 10] (replace_all 34 [34, 34]
                (escape_backslash_quote (replace_all 94 [94, 94] e0))) in
      if e = js ''-d '' then js ''-d ^'' @ [10]
      else if bare_start e then e
      else [34] @ e @ [34])"

text \<open>\<open>replace(/\$/, ...)\<close> without the flag \<open>g\<close> replaces the first occurrence only.\<close>

fun replace_first :: "'a \<Rightarrow> 'a list \<Rightarrow> 'a list \<Rightarrow> 'a list" where
  "replace_first c r [] = []"
| "replace_first c r (x # s) = (if x = c then r @ s else x # replace_first c r s)"

definition escapePowershell :: "js_string \<Rightarrow> js_string" where
  "escapePowershell e =
     (if e = js ''-d '' then e
      else if 10 \<in> set e then
        [64, 34, 10] @ replace_first 36 [96, 36] (replace_all 96 [96, 96] (replace_all 34 [92, 34] e)) @ [10, 34, 64]
      else if bare_start e then e
      else [39] @ replace_all 39 [39, 39] (replace_all 34 [34, 34] e) @ [39])"

section \<open>The request\<close>

datatype form_value =
    FileValue (file_name: js_string) (file_type: js_string)
  | TextValue js_string

text \<open>
  A body is absent, a string, a map of form fields, a list, or another value; for a list the number of its
  elements is kept, and for the last two the text that \<open>JSON.stringify\<close> gives for them.
\<close>

datatype body =
    NoBody
  | TextBody js_string
  | MapBody "(js_string \<times> form_value) list"
  | ListBody nat js_string
  | OtherBody js_string

record curl_request =
  req_method :: js_string
  req_url :: js_string
  headers :: "(js_string \<times> js_string) list"
  req_body :: body
  curlOptions :: "js_string list option"

fun body_truthy :: "body \<Rightarrow> bool" where
  "body_truthy NoBody = False"
| "body_truthy (TextBody s) = (s \<noteq> [])"
| "body_truthy _ = True"

text \<open>Form fields of the same name carry a suffix \<open>_**[]n\<close>, which is cut off again.\<close>

definition hash_idx :: js_string where
  "hash_idx = js ''_**[]''"

fun before :: "'a list \<Rightarrow> 'a list \<Rightarrow> 'a list" where
  "before t [] = []"
| "before t (x # s) = (if starts_with (x # s) t then [] else x # before t s)"

definition extractKey :: "js_string \<Rightarrow> js_string" where
  "extractKey e = (if contains e hash_idx then js_trim (before hash_idx e) else e)"

text \<open>\<open>JSON.stringify\<close> of a string.\<close>

definition lower_hex :: "nat \<Rightarrow> code_unit" where
  "lower_hex n = (if n < 10 then 48 + n else 87 + n)"

definition unicode_escape :: "code_unit \<Rightarrow> js_string" where
  "unicode_escape c = [92, 117, lower_hex (c div 4096), lower_hex (c div 256 mod 16), lower_hex (c div 16 mod 16), lower_hex (c mod 16)]"

definition json_unit :: "code_unit \<Rightarrow> js_string" where
  "json_unit c =
     (if c = 34 then [92, 34] else if c = 92 then [92, 92]
      else if c = 8 then [92, 98] else if c = 9 then [92, 116] else if c = 10 then [92, 110]
      else if c = 12 then [92, 102] else if c = 13 then [92, 114]
      else if c < 32 then unicode_escape c else [c])"

fun json_units :: "js_string \<Rightarrow> js_string" where
  "json_units [] = []"
| "json_units (c # s) =
     (if 0xD800 \<le> c \<and> c < 0xDC00 then
        (case s of
           [] \<Rightarrow> unicode_escape c
         | d # s' \<Rightarrow> if 0xDC00 \<le> d \<and> d < 0xE000 then [c, d] @ json_units s'
                    else unicode_escape c @ json_units s)
      else if 0xDC00 \<le> c \<and> c < 0xE000 then unicode_escape c @ json_units s
      else json_unit c @ json_units s)"

definition json_string :: "js_string \<Rightarrow> js_string" where
  "json_string s = [34] @ json_units s @ [34]"

text \<open>\<open>replace(/(\r\n|\r|\n)/g, "\n  ")\<close>.\<close>

fun indent_lines :: "js_string \<Rightarrow> js_string" where
  "indent_lines (c # d # s) =
     (if c = 13 \<and> d = 10 then [10, 32, 32] @ indent_lines s
      else (if c = 13 \<or> c = 10 then [10, 32, 32] else [c]) @ indent_lines (d # s))"
| "indent_lines [c] = (if c = 13 \<or> c = 10 then [10, 32, 32] else [c])"
| "indent_lines [] = []"

definition body_field :: "js_string \<times> form_value \<Rightarrow> js_string" where
  "body_field p =
     (let f = extractKey (fst p) in
      case snd p of
        FileValue n t \<Rightarrow>
          js ''  \"'' @ f @ js ''\": {'' @ [10] @ js ''    \"name\": \"'' @ n @ js ''\"''
          @ (if t \<noteq> [] then js '','' @ [10] @ js ''    \"type\": \"'' @ t @ js ''\"'' else [])
          @ [10] @ js ''  }''
      | TextValue v \<Rightarrow> js ''  \"'' @ f @ js ''\": '' @ indent_lines (json_string v))"

definition getStringBodyOfMap :: "(js_string \<times> form_value) list \<Rightarrow> js_string" where
  "getStringBodyOfMap b =
     js ''{'' @ [10] @ join_with (js '','' @ [10]) (map body_field b) @ [10] @ js ''}''"

section \<open>The generator\<close>

definition js_lower :: "code_unit \<Rightarrow> code_unit" where
  "js_lower c = (if 65 \<le> c \<and> c \<le> 90 then c + 32 else c)"

definition is_ignoring_case :: "js_string \<Rightarrow> js_string \<Rightarrow> bool" where
  "is_ignoring_case s t \<longleftrightarrow> map js_lower s = t"

definition multipart_header :: "js_string \<times> js_string \<Rightarrow> bool" where
  "multipart_header h \<longleftrightarrow> is_ignoring_case (fst h) (js ''content-type'')
     \<and> is_ignoring_case (snd h) (js ''multipart/form-data'')"

definition form_argument :: "js_string \<times> form_value \<Rightarrow> js_string" where
  "form_argument p =
     (let k = extractKey (fst p) in
      case snd p of
        FileValue n t \<Rightarrow> k @ js ''=@'' @ n @ (if t \<noteq> [] then js '';type='' @ t else [])
      | TextValue v \<Rightarrow> k @ js ''='' @ v)"

text \<open>The closures that append to the command: with and without a leading space, and a new line.\<close>

definition addWords :: "(js_string \<Rightarrow> js_string) \<Rightarrow> js_string list \<Rightarrow> js_string" where
  "addWords escape args = [32] @ join_with [32] (map escape args)"

definition addWordsWithoutLeadingSpace :: "(js_string \<Rightarrow> js_string) \<Rightarrow> js_string list \<Rightarrow> js_string" where
  "addWordsWithoutLeadingSpace escape args = join_with [32] (map escape args)"

definition addNewLine :: "js_string \<Rightarrow> js_string" where
  "addNewLine newLine = [32] @ newLine"

definition addIndent :: js_string where
  "addIndent = js ''  ''"

definition header_words :: "(js_string \<Rightarrow> js_string) \<Rightarrow> js_string \<Rightarrow> js_string \<times> js_string \<Rightarrow> js_string" where
  "header_words escape newLine h =
     addNewLine newLine @ addIndent
     @ addWordsWithoutLeadingSpace escape [js ''-H'', fst h @ js '': '' @ snd h]"

definition form_words :: "(js_string \<Rightarrow> js_string) \<Rightarrow> js_string \<Rightarrow> js_string \<times> form_value \<Rightarrow> js_string" where
  "form_words escape newLine p =
     addNewLine newLine @ addIndent
     @ addWordsWithoutLeadingSpace escape [js ''-F''] @ addWords escape [form_argument p]"

definition data_words :: "(js_string \<Rightarrow> js_string) \<Rightarrow> js_string \<Rightarrow> js_string \<Rightarrow> js_string" where
  "data_words escape newLine z =
     addNewLine newLine @ addIndent
     @ addWordsWithoutLeadingSpace escape [js ''-d ''] @ addWordsWithoutLeadingSpace escape [z]"

text \<open>
  The body part.  A multipart request iterates the entries of its body.  A value without entries makes the
  code throw (\<open>None\<close>), and so does the first entry of a list, whose number has no \<open>indexOf\<close>.
\<close>

definition body_words :: "(js_string \<Rightarrow> js_string) \<Rightarrow> js_string \<Rightarrow> curl_request \<Rightarrow> js_string option" where
  "body_words escape newLine r =
     (if body_truthy (req_body r) then
        (if list_ex multipart_header (headers r) \<and> req_method r \<in> {js ''POST'', js ''PUT'', js ''PATCH''} then
           (case req_body r of
              MapBody fs \<Rightarrow> Some (concat (map (form_words escape newLine) fs))
            | ListBody n z \<Rightarrow> if n = 0 then Some [] else None
            | _ \<Rightarrow> None)
         else
           (case req_body r of
              MapBody fs \<Rightarrow> Some (data_words escape newLine (getStringBodyOfMap fs))
            | TextBody z \<Rightarrow> Some (data_words escape newLine z)
            | ListBody n z \<Rightarrow> Some (data_words escape newLine z)
            | OtherBody z \<Rightarrow> Some (data_words escape newLine z)
            | NoBody \<Rightarrow> Some []))
      else if req_method r = js ''POST'' then
        Some (addNewLine newLine @ addIndent @ addWordsWithoutLeadingSpace escape [js ''-d '' @ [39, 39]])
      else Some [])"

definition curlify :: "curl_request \<Rightarrow> (js_string \<Rightarrow> js_string) \<Rightarrow> js_string \<Rightarrow> js_string \<Rightarrow> js_string option" where
  "curlify r escape newLine ext =
     (case body_words escape newLine r of
        None \<Rightarrow> None
      | Some b \<Rightarrow>
          Some (js ''curl'' @ ext
            @ (case curlOptions r of None \<Rightarrow> [] | Some os \<Rightarrow> addWords escape os)
            @ addWords escape [js ''-X'', req_method r]
            @ addNewLine newLine @ addIndent
            @ addWordsWithoutLeadingSpace escape [req_url r]
            @ concat (map (header_words escape newLine) (headers r))
            @ b))"

definition requestSnippetGenerator_curl_bash :: "curl_request \<Rightarrow> js_string option" where
  "requestSnippetGenerator_curl_bash r = curlify r escapeShell [92, 10] []"

definition requestSnippetGenerator_curl_cmd :: "curl_request \<Rightarrow> js_string option" where
  "requestSnippetGenerator_curl_cmd r = curlify r escapeCMD [94, 10] []"

definition requestSnippetGenerator_curl_powershell :: "curl_request \<Rightarrow> js_string option" where
  "requestSnippetGenerator_curl_powershell r = curlify r escapePowershell [96, 10] (js ''.exe'')"

section \<open>Words of the POSIX shell\<close>

text \<open>
  The word splitting of the POSIX shell on a simple command: blanks separate words, single quotes
  keep everything, a backslash keeps the next character and a backslash before a newline joins
  lines.  An unquoted character with another meaning to the shell, or an open quote, is \<open>None\<close>:
  the text is more than a simple command.
\<close>

definition sh_special :: "code_unit \<Rightarrow> bool" where
  "sh_special c \<longleftrightarrow> c = 10 \<or> c \<in> set (js ''|&;<>()$`*?[#~%!{}'' @ [34])"

definition started :: "js_string option \<Rightarrow> js_string" where
  "started w = (case w of None \<Rightarrow> [] | Some x \<Rightarrow> x)"

fun sh_scan :: "bool \<Rightarrow> js_string option \<Rightarrow> js_string \<Rightarrow> js_string list option" where
  "sh_scan True w [] = None"
| "sh_scan True w (c # s) =
     (if c = 39 then sh_scan False w s else sh_scan True (Some (started w @ [c])) s)"
| "sh_scan False w [] = Some (case w of None \<Rightarrow> [] | Some x \<Rightarrow> [x])"
| "sh_scan False w (c # s) =
     (if c = 39 then sh_scan True (Some (started w)) s
      else if c = 92 then
        (case s of [] \<Rightarrow> None
         | d # s' \<Rightarrow> if d = 10 then sh_scan False w s' else sh_scan False (Some (started w @ [d])) s')
      else if c = 32 \<or> c = 9 then
        (case w of None \<Rightarrow> sh_scan False None s | Some x \<Rightarrow> map_option (\<lambda>ws. x # ws) (sh_scan False None s))
      else if sh_special c then None
      else sh_scan False (Some (started w @ [c])) s)"

definition sh_words :: "js_string \<Rightarrow> js_string list option" where
  "sh_words s = sh_scan False None s"

text \<open>Text that the shell takes literally without quotes, and arguments that \<open>escapeShell\<close> treats well.\<close>

definition sh_plain :: "js_string \<Rightarrow> bool" where
  "sh_plain s \<longleftrightarrow> list_all (\<lambda>c. \<not> sh_special c \<and> c \<notin> {9, 32, 39, 92}) s"

definition sh_safe :: "js_string \<Rightarrow> bool" where
  "sh_safe s \<longleftrightarrow> (if bare_start s then sh_plain s else True)"

lemma started_simps [simp]: "started None = []" "started (Some x) = x"
  by (simp_all add: started_def)

lemma sh_scan_plain:
  "sh_plain s \<Longrightarrow> s \<noteq> [] \<Longrightarrow> sh_scan False w (s @ r) = sh_scan False (Some (started w @ s)) r"
proof (induction s arbitrary: w)
  case (Cons c s)
  then have c: "\<not> sh_special c" "c \<noteq> 9" "c \<noteq> 32" "c \<noteq> 39" "c \<noteq> 92" "sh_plain s" by (auto simp: sh_plain_def)
  show ?case
  proof (cases "s = []")
    case False
    with c Cons.IH [of "Some (started w @ [c])"] show ?thesis by simp
  qed (use c in simp)
qed simp

lemma sh_scan_quoted:
  "sh_scan True (Some x) (replace_all 39 [39, 92, 39, 39] s @ 39 # r) = sh_scan False (Some (x @ s)) r"
  by (induction s arbitrary: x) simp_all

lemma sh_scan_escape:
  assumes "sh_safe s"
  shows "sh_scan False w (escapeShell s @ r) = sh_scan False (Some (started w @ s)) r"
proof -
  consider "s = js ''-d ''" | "s \<noteq> js ''-d ''" "bare_start s" | "s \<noteq> js ''-d ''" "\<not> bare_start s" by blast
  then show ?thesis
  proof cases
    case 1
    with assms show ?thesis by (simp add: sh_safe_def bare_start_def sh_plain_def js_simps)
  next
    case 2
    moreover from 2 have "s \<noteq> []" by (auto simp: bare_start_def)
    ultimately show ?thesis using assms by (simp add: escapeShell_def sh_safe_def sh_scan_plain)
  next
    case 3
    then show ?thesis by (simp add: escapeShell_def sh_scan_quoted)
  qed
qed

section \<open>Text that continues a command\<close>

text \<open>
  \<open>emits t args\<close>: the text \<open>t\<close>, read after a word, ends that word and adds the words \<open>args\<close>,
  the last of which may still grow.
\<close>

definition emits :: "js_string \<Rightarrow> js_string list \<Rightarrow> bool" where
  "emits t args \<longleftrightarrow> (\<forall>x r. sh_scan False (Some x) (t @ r)
     = map_option (\<lambda>ws. butlast (x # args) @ ws) (sh_scan False (Some (last (x # args))) r))"

lemma emitsD: "emits t args \<Longrightarrow> sh_scan False (Some x) (t @ r)
     = map_option (\<lambda>ws. butlast (x # args) @ ws) (sh_scan False (Some (last (x # args))) r)"
  by (simp add: emits_def)

lemma emits_Nil [simp]: "emits [] []"
  by (simp add: emits_def map_option.id [unfolded id_def])

lemma butlast_last_append: "butlast (x # a @ b) = butlast (x # a) @ butlast (last (x # a) # b)"
  by (induction a arbitrary: x) auto

lemma last_last_append: "last (x # a @ b) = last (last (x # a) # b)"
  by (induction a arbitrary: x) auto

lemma emits_append:
  assumes "emits t a" "emits u b"
  shows "emits (t @ u) (a @ b)"
  unfolding emits_def butlast_last_append last_last_append append_assoc
    emitsD [OF assms(1)] emitsD [OF assms(2)] option.map_comp comp_def
  by simp

lemma emits_concat: "(\<And>x. x \<in> set xs \<Longrightarrow> emits (f x) (g x)) \<Longrightarrow> emits (concat (map f xs)) (concat (map g xs))"
  by (induction xs) (simp_all add: emits_append)

lemma emits_word: "sh_safe s \<Longrightarrow> emits (32 # escapeShell s) [s]"
  by (simp add: emits_def sh_scan_escape)

lemma emits_line: "sh_safe s \<Longrightarrow> emits (addNewLine [92, 10] @ addIndent @ escapeShell s) [s]"
  by (simp add: emits_def addNewLine_def addIndent_def js_simps sh_scan_escape)

lemma emits_words: "args \<noteq> [] \<Longrightarrow> list_all sh_safe args \<Longrightarrow> emits (addWords escapeShell args) args"
proof (induction args)
  case (Cons a args)
  show ?case
  proof (cases "args = []")
    case True
    with Cons.prems show ?thesis by (simp add: addWords_def emits_word)
  next
    case False
    then have "addWords escapeShell (a # args) = (32 # escapeShell a) @ addWords escapeShell args"
      by (cases args) (simp_all add: addWords_def)
    then show ?thesis using Cons False emits_append [OF emits_word [of a], of _ args] by simp
  qed
qed simp

lemma emits_option: "sh_plain f \<Longrightarrow> bare_start f \<Longrightarrow> sh_safe f"
  by (simp add: sh_safe_def)

lemma option_words: "sh_safe (js ''-X'')" "sh_safe (js ''-H'')" "sh_safe (js ''-F'')"
  by (simp_all add: sh_safe_def bare_start_def sh_plain_def sh_special_def js_simps)

lemma emits_header:
  assumes "sh_safe (fst h @ js '': '' @ snd h)"
  shows "emits (header_words escapeShell [92, 10] h) [js ''-H'', fst h @ js '': '' @ snd h]"
  using emits_append [OF emits_line [OF option_words(2)] emits_word [OF assms]]
  by (simp add: header_words_def addWordsWithoutLeadingSpace_def)

lemma emits_form:
  assumes "sh_safe (form_argument p)"
  shows "emits (form_words escapeShell [92, 10] p) [js ''-F'', form_argument p]"
  using emits_append [OF emits_line [OF option_words(3)] emits_word [OF assms]]
  by (simp add: form_words_def addWordsWithoutLeadingSpace_def addWords_def)

lemma emits_data:
  assumes "sh_safe z"
  shows "emits (data_words escapeShell [92, 10] z) [js ''-d'', z]"
proof -
  have "escapeShell [45, 100, 32] = [45, 100, 32]" by (simp add: escapeShell_def js_simps)
  with sh_scan_escape [OF assms] show ?thesis
    by (simp add: emits_def data_words_def addWordsWithoutLeadingSpace_def addNewLine_def addIndent_def
        js_simps sh_special_def option.map_comp comp_def)
qed

lemma emits_empty_data:
  "emits (addNewLine [92, 10] @ addIndent @ addWordsWithoutLeadingSpace escapeShell [js ''-d '' @ [39, 39]])
     [js ''-d'', []]"
  by (simp add: emits_def addWordsWithoutLeadingSpace_def addNewLine_def addIndent_def
      escapeShell_def bare_start_def js_simps sh_special_def option.map_comp comp_def)

section \<open>The command means the request\<close>

definition sends_form :: "curl_request \<Rightarrow> bool" where
  "sends_form r \<longleftrightarrow> body_truthy (req_body r) \<and> list_ex multipart_header (headers r)
     \<and> req_method r \<in> {js ''POST'', js ''PUT'', js ''PATCH''}"

fun body_text :: "body \<Rightarrow> js_string" where
  "body_text NoBody = []"
| "body_text (TextBody z) = z"
| "body_text (MapBody fs) = getStringBodyOfMap fs"
| "body_text (ListBody n z) = z"
| "body_text (OtherBody z) = z"

definition body_arguments :: "curl_request \<Rightarrow> js_string list" where
  "body_arguments r =
     (if sends_form r then
        (case req_body r of MapBody fs \<Rightarrow> concat (map (\<lambda>p. [js ''-F'', form_argument p]) fs) | _ \<Rightarrow> [])
      else if body_truthy (req_body r) \<or> req_method r = js ''POST'' then [js ''-d'', body_text (req_body r)]
      else [])"

definition curl_arguments :: "curl_request \<Rightarrow> js_string list" where
  "curl_arguments r =
     [js ''curl''] @ (case curlOptions r of None \<Rightarrow> [] | Some os \<Rightarrow> os)
     @ [js ''-X'', req_method r, req_url r]
     @ concat (map (\<lambda>h. [js ''-H'', fst h @ js '': '' @ snd h]) (headers r))
     @ body_arguments r"

definition request_safe :: "curl_request \<Rightarrow> bool" where
  "request_safe r \<longleftrightarrow> sh_safe (req_method r) \<and> sh_safe (req_url r)
     \<and> list_all (\<lambda>h. sh_safe (fst h @ js '': '' @ snd h)) (headers r)
     \<and> (case curlOptions r of None \<Rightarrow> True | Some os \<Rightarrow> os \<noteq> [] \<and> list_all sh_safe os)
     \<and> (case req_body r of
          MapBody fs \<Rightarrow> list_all (\<lambda>p. sh_safe (form_argument p)) fs
        | _ \<Rightarrow> sh_safe (body_text (req_body r)))"

lemma sh_safe_map_body: "sh_safe (getStringBodyOfMap fs)"
  by (simp add: sh_safe_def getStringBodyOfMap_def bare_start_def js_simps)

lemma body_words_spec:
  assumes "request_safe r"
  shows "if sends_form r \<and> (case req_body r of MapBody _ \<Rightarrow> False | ListBody n _ \<Rightarrow> n \<noteq> 0 | _ \<Rightarrow> True)
         then body_words escapeShell [92, 10] r = None
         else \<exists>t. body_words escapeShell [92, 10] r = Some t \<and> emits t (body_arguments r)"
proof (cases "req_body r")
  case (MapBody fs)
  then have "emits (concat (map (form_words escapeShell [92, 10]) fs))
      (concat (map (\<lambda>p. [js ''-F'', form_argument p]) fs))"
    using assms by (intro emits_concat emits_form) (auto simp: request_safe_def list_all_iff)
  with MapBody show ?thesis
    using emits_data [OF sh_safe_map_body [of fs]]
    by (auto simp: body_words_def body_arguments_def sends_form_def)
qed (use assms emits_data emits_empty_data in
    \<open>auto simp: body_words_def body_arguments_def sends_form_def request_safe_def\<close>)

text \<open>C4. The \<open>curl\<close> command generated for the POSIX shell is one simple command whose words are
  exactly the method, the URL, the headers and the body of the request, whatever quotes, blanks,
  newlines or shell characters they contain, as long as no argument starts with \<open>_\<close>, \<open>/\<close> or
  \<open>-\<close> and needs quoting; generating fails exactly for a multipart request whose body is a text, a list with
  elements or another value that is no map of form fields.\<close>

theorem curl_bash_words:
  assumes "request_safe r"
  shows "if sends_form r \<and> (case req_body r of MapBody _ \<Rightarrow> False | ListBody n _ \<Rightarrow> n \<noteq> 0 | _ \<Rightarrow> True)
     then requestSnippetGenerator_curl_bash r = None
     else \<exists>t. requestSnippetGenerator_curl_bash r = Some t \<and> sh_words t = Some (curl_arguments r)"
proof (cases "body_words escapeShell [92, 10] r")
  case None
  then show ?thesis
    using body_words_spec [OF assms] by (auto simp: requestSnippetGenerator_curl_bash_def curlify_def split: if_splits)
next
  case (Some b)
  then have b: "emits b (body_arguments r)" and nf: "\<not> (sends_form r \<and> (case req_body r of MapBody _ \<Rightarrow> False | ListBody n _ \<Rightarrow> n \<noteq> 0 | _ \<Rightarrow> True))"
    using body_words_spec [OF assms] by (auto split: if_splits)
  let ?os = "case curlOptions r of None \<Rightarrow> [] | Some os \<Rightarrow> os"
  let ?o = "case curlOptions r of None \<Rightarrow> [] | Some os \<Rightarrow> addWords escapeShell os"
  let ?m = "addWords escapeShell [js ''-X'', req_method r]"
  let ?u = "addNewLine [92, 10] @ addIndent @ addWordsWithoutLeadingSpace escapeShell [req_url r]"
  let ?h = "concat (map (header_words escapeShell [92, 10]) (headers r))"
  have "emits ?o ?os" using assms by (auto simp: request_safe_def emits_words split: option.split)
  moreover have "emits ?m [js ''-X'', req_method r]"
    using assms option_words(1) by (intro emits_words) (auto simp: request_safe_def)
  moreover have "emits ?u [req_url r]"
    using assms emits_line [of "req_url r"] by (simp add: request_safe_def addWordsWithoutLeadingSpace_def)
  moreover have "emits ?h (concat (map (\<lambda>h. [js ''-H'', fst h @ js '': '' @ snd h]) (headers r)))"
    using assms by (intro emits_concat emits_header) (auto simp: request_safe_def list_all_iff)
  ultimately have "emits (?o @ ?m @ ?u @ ?h @ b) (?os @ [js ''-X'', req_method r] @ [req_url r]
      @ concat (map (\<lambda>h. [js ''-H'', fst h @ js '': '' @ snd h]) (headers r)) @ body_arguments r)"
    by (intro emits_append b)
  from emitsD [OF this, of "js ''curl''" "[]"]
  have "sh_words (js ''curl'' @ ?o @ ?m @ ?u @ ?h @ b) = Some (curl_arguments r)"
    by (simp add: sh_words_def curl_arguments_def js_simps sh_special_def append_butlast_last_id del: butlast.simps last.simps)
  with Some nf show ?thesis
    by (simp add: requestSnippetGenerator_curl_bash_def curlify_def)
qed

definition sample_request :: curl_request where
  "sample_request = \<lparr>req_method = js ''POST'', req_url = js ''http://h/x y;z'',
     headers = [(js ''accept'', js ''*/*'')], req_body = TextBody (js ''{a: $(id)}''), curlOptions = None\<rparr>"

lemma sample_request_safe: "request_safe sample_request"
  by (simp add: request_safe_def sample_request_def sh_safe_def bare_start_def js_simps)

theorem curl_bash_words_witness:
  "\<exists>t. requestSnippetGenerator_curl_bash sample_request = Some t
     \<and> sh_words t = Some [js ''curl'', js ''-X'', js ''POST'', js ''http://h/x y;z'',
         js ''-H'', js ''accept: */*'', js ''-d'', js ''{a: $(id)}'']"
proof -
  have "\<not> sends_form sample_request"
    by (simp add: sends_form_def sample_request_def multipart_header_def is_ignoring_case_def js_lower_def js_simps)
  moreover from this have "curl_arguments sample_request = [js ''curl'', js ''-X'', js ''POST'', js ''http://h/x y;z'',
         js ''-H'', js ''accept: */*'', js ''-d'', js ''{a: $(id)}'']"
    by (simp add: curl_arguments_def body_arguments_def sample_request_def) (simp add: js_simps)
  ultimately show ?thesis using curl_bash_words [OF sample_request_safe] by simp
qed

text \<open>A text body that starts with \<open>_\<close>, \<open>/\<close> or \<open>-\<close> is appended to the generated command
  without any quoting, so the shell interprets it: the three escape functions take such a text for
  an option of \<open>curl\<close>.\<close>

theorem curl_bash_unquoted_body:
  assumes "req_body r = TextBody z" and "bare_start z" and "\<not> sends_form r"
  shows "\<exists>p. requestSnippetGenerator_curl_bash r = Some (p @ js ''-d '' @ z)"
proof -
  have "z \<noteq> []" using assms(2) by (auto simp: bare_start_def)
  then have "body_words escapeShell [92, 10] r = Some (data_words escapeShell [92, 10] z)"
    using assms by (simp add: body_words_def sends_form_def)
  moreover have "data_words escapeShell [92, 10] z = addNewLine [92, 10] @ addIndent @ js ''-d '' @ z"
    using assms(2) by (simp add: data_words_def addWordsWithoutLeadingSpace_def escapeShell_def)
  ultimately show ?thesis
    by (auto simp: requestSnippetGenerator_curl_bash_def curlify_def)
qed

theorem curl_bash_unquoted_body_witness:
  "\<exists>p. requestSnippetGenerator_curl_bash (sample_request\<lparr>req_body := TextBody (js ''_; id'')\<rparr>) = Some (p @ js ''-d '' @ js ''_; id'')"
  by (rule curl_bash_unquoted_body)
     (simp_all add: sample_request_def bare_start_def sends_form_def multipart_header_def is_ignoring_case_def
        js_lower_def js_simps)

end
