(* ===== verification/Swagger_Url.thy ===== *)
theory Swagger_Url
  imports Js_Url
begin

text \<open>
  The URL helpers of the Swagger UI (\<open>swagger-ui-bundle.js\<close>): the sanitiser that the links of a
  description pass through, and the test whether a description can be sent to the on-line validator.  For the sanitiser the standard is the way a
  browser finds the scheme of a URL.
\<close>

section \<open>Sanitising\<close>

text \<open>\<open>/[^\x20-\x7E\u00C0-\u017E]/\<close> deletes everything but printable ASCII and Latin letters.\<close>

definition kept_unit :: "code_unit \<Rightarrow> bool" where
  "kept_unit c \<longleftrightarrow> (0x20 \<le> c \<and> c \<le> 0x7E) \<or> (0xC0 \<le> c \<and> c \<le> 0x17E)"

definition ascii_lower :: "code_unit \<Rightarrow> code_unit" where
  "ascii_lower c = (if 65 \<le> c \<and> c \<le> 90 then c + 32 else c)"

text \<open>
  \<open>/^([^:]+):/\<close>: the text up to the first colon, if a character precedes it.  The deletion leaves
  no line terminator, so \<open>^\<close> is the start of the text.
\<close>

definition scheme_match :: "js_string \<Rightarrow> js_string option" where
  "scheme_match t =
     (let p = takeWhile (\<lambda>c. c \<noteq> 58) t in if p \<noteq> [] \<and> p \<noteq> t then Some (p @ [58]) else None)"

text \<open>\<open>/^(%20|\s)*(javascript|data|vbscript)/i\<close>.\<close>

fun skip_blanks :: "js_string \<Rightarrow> js_string" where
  "skip_blanks (a # b # c # s) =
     (if js_space a then skip_blanks (b # c # s)
      else if a = 37 \<and> b = 50 \<and> c = 48 then skip_blanks s else a # b # c # s)"
| "skip_blanks (a # s) = (if js_space a then skip_blanks s else a # s)"
| "skip_blanks [] = []"

definition dangerous_schemes :: "js_string list" where
  "dangerous_schemes = [js ''javascript'', js ''data'', js ''vbscript'']"

definition invalidPrototcolRegex :: "js_string \<Rightarrow> bool" where
  "invalidPrototcolRegex s =
     list_ex (\<lambda>k. starts_with (map ascii_lower (skip_blanks s)) k) dangerous_schemes"

definition isRelativeUrlWithoutProtocol :: "js_string \<Rightarrow> bool" where
  "isRelativeUrlWithoutProtocol t = (case t of [] \<Rightarrow> False | c # _ \<Rightarrow> c = 46 \<or> c = 47)"

definition about_blank :: js_string where
  "about_blank = js ''about:blank''"

definition sanitize :: "js_string \<Rightarrow> js_string" where
  "sanitize e =
     (if e = [] then about_blank
      else (let t = js_trim (filter kept_unit e) in
            if isRelativeUrlWithoutProtocol t then t
            else (case scheme_match t of
                    None \<Rightarrow> t
                  | Some s \<Rightarrow> if invalidPrototcolRegex s then about_blank else t)))"

text \<open>The wrapper in the utilities keeps the empty string, and gives it for a value of another type.\<close>

definition sanitizeUrl :: "js_string option \<Rightarrow> js_string" where
  "sanitizeUrl e = (case e of None \<Rightarrow> [] | Some u \<Rightarrow> if u = [] then [] else sanitize u)"

section \<open>The validator test\<close>

definition requiresValidationURL :: "js_string \<Rightarrow> bool" where
  "requiresValidationURL e =
     (\<not> (e = [] \<or> contains e (js ''localhost'') \<or> contains e (js ''127.0.0.1'') \<or> e = js ''none''))"

section \<open>The scheme a browser sees\<close>

text \<open>
  The URL parser drops leading control characters and blanks and all tabs and line breaks, and
  reads a letter followed by letters, digits and \<open>+ - .\<close> up to a colon, ignoring case.
\<close>

definition url_input :: "js_string \<Rightarrow> js_string" where
  "url_input u = filter (\<lambda>c. c \<notin> {9, 10, 13}) (dropWhile (\<lambda>c. c \<le> 32) u)"

definition ascii_letter :: "code_unit \<Rightarrow> bool" where
  "ascii_letter c \<longleftrightarrow> (65 \<le> c \<and> c \<le> 90) \<or> (97 \<le> c \<and> c \<le> 122)"

definition scheme_unit :: "code_unit \<Rightarrow> bool" where
  "scheme_unit c \<longleftrightarrow> ascii_letter c \<or> (48 \<le> c \<and> c \<le> 57) \<or> c \<in> {43, 45, 46}"

definition browser_scheme :: "js_string \<Rightarrow> js_string option" where
  "browser_scheme u =
     (let t = url_input u; p = takeWhile (\<lambda>c. c \<noteq> 58) t in
      if p \<noteq> t \<and> p \<noteq> [] \<and> ascii_letter (hd p) \<and> list_all scheme_unit p
      then Some (map ascii_lower p) else None)"

section \<open>The sanitiser is safe\<close>

lemma set_js_trim: "set (js_trim s) \<subseteq> set s"
  by (auto simp: js_trim_def dest!: set_dropWhileD)

lemma hd_js_trim: "js_trim s = c # t \<Longrightarrow> \<not> js_space c"
proof -
  assume t: "js_trim s = c # t"
  let ?d = "dropWhile js_space s"
  have "js_trim s = rev (dropWhile js_space (rev ?d))" by (simp add: js_trim_def)
  moreover obtain r where "rev ?d = r @ dropWhile js_space (rev ?d)"
    by (metis takeWhile_dropWhile_id)
  ultimately have "?d = js_trim s @ rev r" by (metis rev_append rev_rev_ident)
  with t show ?thesis using hd_dropWhile [of js_space s] by auto
qed

lemma kept_input:
  assumes "\<forall>c\<in>set t. kept_unit c" and "t = [] \<or> \<not> js_space (hd t)"
  shows "url_input t = t"
proof -
  have "dropWhile (\<lambda>c. c \<le> 32) t = t"
  proof (cases t)
    case (Cons a r)
    then have "0x20 \<le> a" "a \<noteq> 32" using assms by (auto simp: kept_unit_def js_space_def)
    with Cons show ?thesis by simp
  qed simp
  moreover have "filter (\<lambda>c. c \<notin> {9, 10, 13}) t = t"
    using assms(1) by (auto simp: filter_id_conv kept_unit_def)
  ultimately show ?thesis by (simp add: url_input_def)
qed

lemma skip_blanks_id: "s \<noteq> [] \<Longrightarrow> \<not> js_space (hd s) \<Longrightarrow> hd s \<noteq> 37 \<Longrightarrow> skip_blanks s = s"
  by (cases s rule: skip_blanks.cases) auto

lemma letter_plain: "ascii_letter c \<Longrightarrow> \<not> js_space c \<and> c \<noteq> 37 \<and> c \<noteq> 46 \<and> c \<noteq> 47"
  by (auto simp: ascii_letter_def js_space_def)

lemma starts_with_append: "starts_with (k @ r) k"
  by (simp add: starts_with_iff)

lemma dangerous_scheme_detected:
  assumes "p \<noteq> []" "ascii_letter (hd p)" "map ascii_lower p \<in> set dangerous_schemes"
  shows "invalidPrototcolRegex (p @ [58])"
proof -
  have "skip_blanks (p @ [58]) = p @ [58]"
    using assms(1,2) letter_plain [of "hd p"] by (intro skip_blanks_id) auto
  then have "starts_with (map ascii_lower (skip_blanks (p @ [58]))) (map ascii_lower p)"
    by (simp add: starts_with_append)
  with assms(3) show ?thesis unfolding invalidPrototcolRegex_def list_ex_iff by blast
qed

lemma browser_scheme_blank: "browser_scheme about_blank = Some (js ''about'')"
  by (simp add: browser_scheme_def url_input_def about_blank_def ascii_letter_def scheme_unit_def
      ascii_lower_def js_simps Let_def)

lemma sanitize_scheme:
  assumes "browser_scheme (sanitize e) = Some s"
  shows "s \<notin> set dangerous_schemes"
proof (cases "sanitize e = about_blank")
  case True
  with assms browser_scheme_blank show ?thesis by (auto simp: dangerous_schemes_def inj_js)
next
  case False
  let ?t = "js_trim (filter kept_unit e)"
  from False have t: "sanitize e = ?t" by (auto simp: sanitize_def Let_def split: if_splits option.splits)
  have "\<forall>c\<in>set ?t. kept_unit c" using set_js_trim [of "filter kept_unit e"] by auto
  moreover have "?t = [] \<or> \<not> js_space (hd ?t)" using hd_js_trim by (cases ?t) auto
  ultimately have "url_input ?t = ?t" by (rule kept_input)
  let ?p = "takeWhile (\<lambda>c. c \<noteq> 58) ?t"
  from assms \<open>url_input ?t = ?t\<close> have p: "?p \<noteq> ?t" "?p \<noteq> []" "ascii_letter (hd ?p)" "s = map ascii_lower ?p"
    by (auto simp: browser_scheme_def t Let_def split: if_splits)
  have "?t \<noteq> []" using p(2) by auto
  then have "hd ?p = hd ?t" using p(2) by (cases ?t) (auto split: if_splits)
  then have "\<not> isRelativeUrlWithoutProtocol ?t"
    using letter_plain [OF p(3)] \<open>?t \<noteq> []\<close> by (cases ?t) (auto simp: isRelativeUrlWithoutProtocol_def)
  moreover have "scheme_match ?t = Some (?p @ [58])" using p by (simp add: scheme_match_def Let_def)
  moreover have "e \<noteq> []" using \<open>?t \<noteq> []\<close> by (auto simp: js_trim_def)
  ultimately have "\<not> invalidPrototcolRegex (?p @ [58])" using False by (auto simp: sanitize_def Let_def)
  with dangerous_scheme_detected [OF p(2,3)] p(4) show ?thesis by auto
qed

text \<open>C5. No sanitised URL is a script or a data URL for the browser, whatever blanks, control
  characters, mixed case or \<open>%20\<close> the link contains.\<close>

theorem sanitizeUrl_safe:
  "(case browser_scheme (sanitizeUrl e) of
      None \<Rightarrow> True
    | Some s \<Rightarrow> s \<noteq> js ''javascript'' \<and> s \<noteq> js ''data'' \<and> s \<noteq> js ''vbscript'')"
proof (cases "browser_scheme (sanitizeUrl e)")
  case (Some s)
  have "browser_scheme [] = None" by (simp add: browser_scheme_def url_input_def)
  with Some obtain u where "sanitizeUrl e = sanitize u"
    by (auto simp: sanitizeUrl_def split: option.splits if_splits)
  with Some sanitize_scheme [of u s] show ?thesis by (simp add: dangerous_schemes_def)
qed simp

end
