(* ===== verification/Swagger_Err.thy ===== *)
theory Swagger_Err
  imports Js_Prelude "HOL-Library.Multiset"
begin

text \<open>
  The error plugin of the Swagger UI (\<open>swagger-ui-es-bundle-core.js\<close>): the reducer that collects
  parser, resolver and authorisation errors, its error transformers and its selectors.  An error
  is a map from field names to values.  The module variable that holds the default fields is part
  of the state, because the reducer writes to it.
\<close>

section \<open>Errors\<close>

datatype err_value =
    ENum int
  | EStr js_string
  | EList "js_string list"

type_synonym err = "js_string \<rightharpoonup> err_value"

fun err_truthy :: "err_value option \<Rightarrow> bool" where
  "err_truthy None = False"
| "err_truthy (Some (ENum n)) = (n \<noteq> 0)"
| "err_truthy (Some (EStr s)) = (s \<noteq> [])"
| "err_truthy (Some (EList _)) = True"

text \<open>The comparison \<open>===\<close>: two lists are never the same object.\<close>

fun strict_equal :: "err_value option \<Rightarrow> err_value option \<Rightarrow> bool" where
  "strict_equal (Some (EList _)) _ = False"
| "strict_equal a b = (a = b)"

definition DEFAULT_ERROR_STRUCTURE :: err where
  "DEFAULT_ERROR_STRUCTURE = [js ''line'' \<mapsto> ENum 0, js ''level'' \<mapsto> EStr (js ''error''),
     js ''message'' \<mapsto> EStr (js ''Unknown error'')]"

record err_state =
  errors :: "err list option"
  default_error :: err

definition initial_err :: err_state where
  "initial_err = \<lparr>errors = None, default_error = DEFAULT_ERROR_STRUCTURE\<rparr>"

definition errs :: "err_state \<Rightarrow> err list" where
  "errs e = (case errors e of None \<Rightarrow> [] | Some l \<Rightarrow> l)"

section \<open>Transformers\<close>

definition not_of_type :: js_string where
  "not_of_type = js ''is not of a type(s)''"

fun index_of :: "js_string \<Rightarrow> js_string \<Rightarrow> nat option" where
  "index_of [] t = (if t = [] then Some 0 else None)"
| "index_of (x # s) t = (if starts_with (x # s) t then Some 0 else map_option Suc (index_of s t))"

text \<open>The reduction over the type names; \<open>n\<close> is the index and \<open>r\<close> the whole array.\<close>

fun type_list_loop :: "js_string \<Rightarrow> nat \<Rightarrow> js_string list \<Rightarrow> js_string list \<Rightarrow> js_string" where
  "type_list_loop e n r [] = e"
| "type_list_loop e n r (t # ts) =
     (let next = (Suc n < length r \<and> r ! Suc n \<noteq> []) in
      type_list_loop
        (if Suc n = length r \<and> length r > 1 then e @ js ''or '' @ t
         else if next \<and> length r > 2 then e @ t @ js '', ''
         else if next then e @ t @ js '' ''
         else e @ t) (Suc n) r ts)"

definition makeNewMessage :: "js_string list \<Rightarrow> js_string" where
  "makeNewMessage e = type_list_loop (js ''should be a'') 0 e e"

definition transform_message :: "js_string \<Rightarrow> js_string" where
  "transform_message m =
     (case index_of m not_of_type of
        None \<Rightarrow> m
      | Some r \<Rightarrow> take r m @ makeNewMessage (split_on 44 (drop (r + length not_of_type) m)))"

text \<open>An error whose message is missing or a number makes the transformer throw.\<close>

definition transform_error :: "err \<Rightarrow> err option" where
  "transform_error e =
     (case e (js ''message'') of
        Some (EStr m) \<Rightarrow> (case index_of m not_of_type of
                            None \<Rightarrow> Some e
                          | Some _ \<Rightarrow> Some (e(js ''message'' \<mapsto> EStr (transform_message m))))
      | Some (EList _) \<Rightarrow> Some e
      | _ \<Rightarrow> None)"

text \<open>A transformer that throws is skipped; the second transformer is the identity.\<close>

definition transformErrors :: "err list \<Rightarrow> err list" where
  "transformErrors e = (case those (map transform_error e) of None \<Rightarrow> e | Some r \<Rightarrow> r)"

section \<open>The reducer\<close>

datatype err_action =
    NEW_THROWN_ERR err
  | NEW_THROWN_ERR_BATCH "err list"
  | NEW_SPEC_ERR err
  | NEW_SPEC_ERR_BATCH "err list"
  | NEW_AUTH_ERR err
  | CLEAR "err_value js_object"
  | CLEAR_BY "err \<Rightarrow> bool"

text \<open>\<open>Object.assign(defaults, payload, \{type\})\<close> writes into the defaults and returns them.\<close>

definition assign_type :: "err \<Rightarrow> err \<Rightarrow> js_string \<Rightarrow> err" where
  "assign_type d p t = (d ++ p)(js ''type'' \<mapsto> EStr t)"

fun assign_all :: "err \<Rightarrow> err list \<Rightarrow> js_string \<Rightarrow> err list \<times> err" where
  "assign_all d [] t = ([], d)"
| "assign_all d (p # ps) t =
     (let e = assign_type d p t; (es, d') = assign_all e ps t in (e # es, d'))"

text \<open>
  Sorting by line: stable on numbers.  When a line is missing the comparison is not an order, and
  the result is what the sorting routine \<open>engine\<close> of the browser makes of it.
\<close>

definition line_number :: "err \<Rightarrow> int option" where
  "line_number e = (case e (js ''line'') of Some (ENum n) \<Rightarrow> Some n | _ \<Rightarrow> None)"

definition sortBy_line :: "(err list \<Rightarrow> err list) \<Rightarrow> err list \<Rightarrow> err list" where
  "sortBy_line engine l =
     (if list_all (\<lambda>e. line_number e \<noteq> None) l then sort_key (\<lambda>e. the (line_number e)) l else engine l)"

definition matches_clear :: "err_value js_object \<Rightarrow> err \<Rightarrow> bool" where
  "matches_clear r e =
     list_ex (\<lambda>k. e k \<noteq> None \<and> err_truthy (obj_get r k) \<and> strict_equal (e k) (obj_get r k)) (object_keys r)"

definition set_errors :: "err list \<Rightarrow> err_state \<Rightarrow> err_state" where
  "set_errors l e = e\<lparr>errors := Some l\<rparr>"

fun err_reducer :: "(err list \<Rightarrow> err list) \<Rightarrow> err_state \<Rightarrow> err_action \<Rightarrow> err_state option" where
  "err_reducer engine e (NEW_THROWN_ERR p) =
     (let r = assign_type (default_error e) p (js ''thrown'') in
      Some (set_errors (transformErrors (errs e @ [r])) (e\<lparr>default_error := r\<rparr>)))"
| "err_reducer engine e (NEW_THROWN_ERR_BATCH ps) =
     (let (n, d) = assign_all (default_error e) ps (js ''thrown'') in
      Some (set_errors (transformErrors (errs e @ n)) (e\<lparr>default_error := d\<rparr>)))"
| "err_reducer engine e (NEW_SPEC_ERR p) =
     (let r = p(js ''type'' \<mapsto> EStr (js ''spec'')) in
      Some (set_errors (transformErrors (sortBy_line engine (errs e @ [r]))) e))"
| "err_reducer engine e (NEW_SPEC_ERR_BATCH ps) =
     (let (n, d) = assign_all (default_error e) ps (js ''spec'') in
      Some (set_errors (transformErrors (errs e @ n)) (e\<lparr>default_error := d\<rparr>)))"
| "err_reducer engine e (NEW_AUTH_ERR p) =
     (let r = p(js ''type'' \<mapsto> EStr (js ''auth'')) in
      Some (set_errors (transformErrors (errs e @ [r])) e))"
| "err_reducer engine e (CLEAR r) =
     (case errors e of None \<Rightarrow> Some e | Some l \<Rightarrow> Some (set_errors (filter (\<lambda>x. \<not> matches_clear r x) l) e))"
| "err_reducer engine e (CLEAR_BY r) =
     (case errors e of None \<Rightarrow> None | Some l \<Rightarrow> Some (set_errors (filter r l) e))"

definition allErrors :: "err_state \<Rightarrow> err list" where
  "allErrors e = errs e"

definition lastError :: "err_state \<Rightarrow> err option" where
  "lastError e = (if errs e = [] then None else Some (last (errs e)))"

section \<open>Parsing the specification\<close>

text \<open>
  The action \<open>parseToJson\<close>: the parser's errors of the previous attempt are cleared; a failure
  becomes one new error.  The outcome of the YAML parser is an argument: a failure with its reason
  and its zero-based line, or a document, of which only an object is passed on.
\<close>

datatype 'j parse_outcome =
    ParseFailed "err_value option" "nat option"
  | ParsedObject 'j
  | ParsedOther

definition parser_error :: "err_value option \<Rightarrow> nat option \<Rightarrow> err" where
  "parser_error reason mark =
     [js ''source'' \<mapsto> EStr (js ''parser''), js ''level'' \<mapsto> EStr (js ''error'')]
       (js ''message'' := reason,
        js ''line'' := (case mark of None \<Rightarrow> None
                        | Some n \<Rightarrow> if n = 0 then None else Some (ENum (int n + 1))))"

definition parseToJson ::
  "(err list \<Rightarrow> err list) \<Rightarrow> 'j parse_outcome \<Rightarrow> err_state \<Rightarrow> (err_state \<times> 'j option) option" where
  "parseToJson engine outcome e =
     (case err_reducer engine e (CLEAR [(js ''source'', EStr (js ''parser''))]) of
        None \<Rightarrow> None
      | Some e1 \<Rightarrow>
          (case outcome of
             ParseFailed reason mark \<Rightarrow>
               map_option (\<lambda>e2. (e2, None)) (err_reducer engine e1 (NEW_SPEC_ERR (parser_error reason mark)))
           | ParsedObject i \<Rightarrow> Some (e1, Some i)
           | ParsedOther \<Rightarrow> Some (e1, None)))"

section \<open>What the transformers keep\<close>

lemma transform_error_field: "transform_error e = Some e' \<Longrightarrow> k \<noteq> js ''message'' \<Longrightarrow> e' k = e k"
  by (auto simp: transform_error_def split: option.splits err_value.splits)

lemma those_SomeD: "those (map f xs) = Some ys \<Longrightarrow> list_all2 (\<lambda>x y. f x = Some y) xs ys"
  by (induction xs arbitrary: ys) (auto split: option.splits)

lemma transformErrors_fields:
  "list_all2 (\<lambda>e e'. \<forall>k. k \<noteq> js ''message'' \<longrightarrow> e' k = e k) l (transformErrors l)"
proof (cases "those (map transform_error l)")
  case None
  then show ?thesis by (simp add: transformErrors_def list.rel_refl)
next
  case (Some r)
  have "list_all2 (\<lambda>e e'. \<forall>k. k \<noteq> js ''message'' \<longrightarrow> e' k = e k) l r"
    by (rule list.rel_mono_strong [OF those_SomeD [OF Some]]) (blast intro: transform_error_field)
  with Some show ?thesis by (simp add: transformErrors_def)
qed

lemma length_transformErrors [simp]: "length (transformErrors l) = length l"
  using transformErrors_fields [of l] by (simp add: list_all2_lengthD)

lemma transformErrors_all:
  assumes "\<And>e e'. P e \<Longrightarrow> (\<And>k. k \<noteq> js ''message'' \<Longrightarrow> e' k = e k) \<Longrightarrow> P e'"
    and "\<forall>e\<in>set l. P e" and "e' \<in> set (transformErrors l)"
  shows "P e'"
proof -
  obtain i where i: "i < length l" "e' = transformErrors l ! i"
    using assms(3) by (auto simp: in_set_conv_nth list_all2_lengthD [OF transformErrors_fields, symmetric])
  then have "\<forall>k. k \<noteq> js ''message'' \<longrightarrow> e' k = (l ! i) k"
    using list_all2_nthD [OF transformErrors_fields i(1)] by simp
  with assms(1) [of "l ! i" e'] assms(2) i(1) show ?thesis by simp
qed

lemma transformErrors_count:
  assumes "\<And>e e'. (\<And>k. k \<noteq> js ''message'' \<Longrightarrow> e' k = e k) \<Longrightarrow> P e' = P e"
  shows "length (filter P (transformErrors l)) = length (filter P l)"
proof -
  have "list_all2 (\<lambda>e e'. P e' = P e) l (transformErrors l)"
    by (rule list.rel_mono_strong [OF transformErrors_fields]) (use assms in blast)
  then show ?thesis by (induction rule: list_all2_induct) auto
qed

lemma transformErrors_last:
  assumes "l \<noteq> []" "k \<noteq> js ''message''"
  shows "last (transformErrors l) k = last l k"
proof -
  have "transformErrors l \<noteq> []" using assms(1) length_transformErrors [of l] by (metis length_0_conv)
  with assms transformErrors_fields [of l] show ?thesis
    by (simp add: list_all2_conv_all_nth last_conv_nth)
qed

section \<open>Reachable states\<close>

inductive err_reachable :: "(err list \<Rightarrow> err list) \<Rightarrow> err_state \<Rightarrow> bool" for engine where
  start: "err_reachable engine initial_err"
| step: "err_reachable engine s \<Longrightarrow> err_reducer engine s a = Some s' \<Longrightarrow> err_reachable engine s'"

definition typed_error :: "err \<Rightarrow> bool" where
  "typed_error e \<longleftrightarrow> (\<exists>t\<in>{js ''thrown'', js ''spec'', js ''auth''}. e (js ''type'') = Some (EStr t))"

lemma typed_error_cong: "typed_error e \<Longrightarrow> (\<And>k. k \<noteq> js ''message'' \<Longrightarrow> e' k = e k) \<Longrightarrow> typed_error e'"
  by (auto simp: typed_error_def inj_js)

lemma typed_assign: "t \<in> {js ''thrown'', js ''spec'', js ''auth''} \<Longrightarrow> typed_error (assign_type d p t)"
  by (auto simp: typed_error_def assign_type_def)

lemma typed_assign_all:
  assumes "t \<in> {js ''thrown'', js ''spec'', js ''auth''}"
  shows "list_all typed_error (fst (assign_all d ps t))"
proof (induction ps arbitrary: d)
  case (Cons p ps)
  show ?case using Cons.IH [of "assign_type d p t"] typed_assign [OF assms, of d p]
    by (cases "assign_all (assign_type d p t) ps t") (simp add: Let_def)
qed simp

lemma typed_collected:
  assumes "list_all typed_error l"
  shows "list_all typed_error (allErrors (set_errors (transformErrors l) x))"
  using transformErrors_all [of typed_error l] typed_error_cong assms
  unfolding allErrors_def errs_def set_errors_def list_all_iff by simp

lemma sortBy_line_subset: "(\<And>l. set (engine l) \<subseteq> set l) \<Longrightarrow> set (sortBy_line engine l) \<subseteq> set l"
  by (simp add: sortBy_line_def)

text \<open>C26. In every reachable state of the error plugin each collected error carries one of the three
  types the plugin assigns, so the selectors that tell thrown, specification and authorisation
  errors apart are exhaustive, whatever fields the reported errors had.\<close>

theorem error_types_invariant:
  assumes "\<And>l. set (engine l) \<subseteq> set l" and "err_reachable engine s"
  shows "list_all typed_error (allErrors s)"
  using assms(2)
proof (induction rule: err_reachable.induct)
  case (step s a s')
  have old: "list_all typed_error (errs s)" using step.IH by (simp add: allErrors_def)
  have spec: "typed_error (p(js ''type'' \<mapsto> EStr (js ''spec'')))"
    and auth: "typed_error (p(js ''type'' \<mapsto> EStr (js ''auth'')))" for p
    by (simp_all add: typed_error_def)
  show ?case
  proof (cases a)
    case (NEW_THROWN_ERR p)
    then have "s' = set_errors (transformErrors (errs s @ [assign_type (default_error s) p (js ''thrown'')]))
        (s\<lparr>default_error := assign_type (default_error s) p (js ''thrown'')\<rparr>)"
      using step.hyps(2) by (simp add: Let_def)
    then show ?thesis using old by (simp add: typed_collected typed_assign)
  next
    case (NEW_THROWN_ERR_BATCH ps)
    then have "s' = set_errors (transformErrors (errs s @ fst (assign_all (default_error s) ps (js ''thrown''))))
        (s\<lparr>default_error := snd (assign_all (default_error s) ps (js ''thrown''))\<rparr>)"
      using step.hyps(2) by (simp split: prod.splits)
    then show ?thesis using old by (simp add: typed_collected typed_assign_all)
  next
    case (NEW_SPEC_ERR p)
    then have s': "s' = set_errors (transformErrors (sortBy_line engine (errs s @ [p(js ''type'' \<mapsto> EStr (js ''spec''))]))) s"
      using step.hyps(2) by (simp add: Let_def)
    have "list_all typed_error (errs s @ [p(js ''type'' \<mapsto> EStr (js ''spec''))])" using old spec by simp
    then have "list_all typed_error (sortBy_line engine (errs s @ [p(js ''type'' \<mapsto> EStr (js ''spec''))]))"
      using sortBy_line_subset [OF assms(1)] unfolding list_all_iff by blast
    then show ?thesis unfolding s' by (rule typed_collected)
  next
    case (NEW_SPEC_ERR_BATCH ps)
    then have "s' = set_errors (transformErrors (errs s @ fst (assign_all (default_error s) ps (js ''spec''))))
        (s\<lparr>default_error := snd (assign_all (default_error s) ps (js ''spec''))\<rparr>)"
      using step.hyps(2) by (simp split: prod.splits)
    then show ?thesis using old by (simp add: typed_collected typed_assign_all)
  next
    case (NEW_AUTH_ERR p)
    then have "s' = set_errors (transformErrors (errs s @ [p(js ''type'' \<mapsto> EStr (js ''auth''))])) s"
      using step.hyps(2) by (simp add: Let_def)
    then show ?thesis using old auth by (simp add: typed_collected)
  qed (use step.hyps(2) old in \<open>auto simp: set_errors_def errs_def allErrors_def list_all_iff split: option.splits\<close>)
qed (simp add: initial_err_def allErrors_def errs_def)

theorem error_types_invariant_witness:
  "list_all typed_error (allErrors (the (err_reducer (\<lambda>l. l) initial_err (NEW_AUTH_ERR [js ''message'' \<mapsto> EStr (js ''denied'')]))))"
proof -
  obtain s where s: "err_reducer (\<lambda>l. l) initial_err (NEW_AUTH_ERR [js ''message'' \<mapsto> EStr (js ''denied'')]) = Some s"
    by (simp add: Let_def)
  then have "err_reachable (\<lambda>l. l) s" by (rule err_reachable.step [OF err_reachable.start])
  from error_types_invariant [OF _ this] s show ?thesis by simp
qed

section \<open>One parser error at a time\<close>

definition is_parser_error :: "err \<Rightarrow> bool" where
  "is_parser_error e \<longleftrightarrow> e (js ''source'') = Some (EStr (js ''parser''))"

definition count_errors :: "(err \<Rightarrow> bool) \<Rightarrow> err_state \<Rightarrow> nat" where
  "count_errors P e = length (filter P (allErrors e))"

lemma strict_equal_str [simp]: "strict_equal x (Some (EStr s)) \<longleftrightarrow> x = Some (EStr s)"
  by (cases "(x, Some (EStr s))" rule: strict_equal.cases) auto

lemma matches_clear_source:
  "matches_clear [(js ''source'', EStr (js ''parser''))] e \<longleftrightarrow> is_parser_error e"
  by (auto simp: matches_clear_def is_parser_error_def obj_get_def list_ex_iff js_simps)

lemma filter_filter_none: "filter P (filter (\<lambda>x. \<not> P x) l) = []"
  by (induction l) auto

lemma filter_sortBy_line:
  assumes "\<And>l. mset (engine l) = mset l"
  shows "length (filter P (sortBy_line engine l)) = length (filter P l)"
proof -
  have "mset (sortBy_line engine l) = mset l" using assms by (simp add: sortBy_line_def)
  then have "mset (filter P (sortBy_line engine l)) = mset (filter P l)" by simp
  then show ?thesis by (metis size_mset)
qed

text \<open>C27. Parsing the specification again never accumulates parser errors: afterwards the list holds
  exactly one after a failure and none after a success, however many it held before, and the
  number of errors of any other source is unchanged.\<close>

theorem parser_errors_replaced:
  assumes "\<And>l. mset (engine l) = mset l"
  shows "\<exists>e' out. parseToJson engine outcome e = Some (e', out)
     \<and> count_errors is_parser_error e' = (case outcome of ParseFailed _ _ \<Rightarrow> 1 | _ \<Rightarrow> 0)
     \<and> count_errors (\<lambda>x. \<not> is_parser_error x) e' = count_errors (\<lambda>x. \<not> is_parser_error x) e"
proof -
  let ?l = "filter (\<lambda>x. \<not> is_parser_error x) (errs e)"
  obtain e1 where e1: "err_reducer engine e (CLEAR [(js ''source'', EStr (js ''parser''))]) = Some e1" "errs e1 = ?l"
    by (cases "errors e") (auto simp: matches_clear_source set_errors_def errs_def)
  show ?thesis
  proof (cases outcome)
    case (ParseFailed reason mark)
    let ?r = "(parser_error reason mark)(js ''type'' \<mapsto> EStr (js ''spec''))"
    let ?e2 = "set_errors (transformErrors (sortBy_line engine (?l @ [?r]))) e1"
    have r: "is_parser_error ?r" by (simp add: is_parser_error_def parser_error_def inj_js)
    have cong: "is_parser_error x' = is_parser_error x" if "\<And>k. k \<noteq> js ''message'' \<Longrightarrow> x' k = x k" for x x'
      using that by (simp add: is_parser_error_def inj_js)
    have cnt: "count_errors P ?e2 = length (filter P (?l @ [?r]))"
      if "\<And>x x'. (\<And>k. k \<noteq> js ''message'' \<Longrightarrow> x' k = x k) \<Longrightarrow> P x' = P x" for P
      using transformErrors_count [OF that] filter_sortBy_line [OF assms]
      by (simp add: count_errors_def allErrors_def errs_def set_errors_def)
    have "parseToJson engine outcome e = Some (?e2, None)"
      using ParseFailed e1 by (simp add: parseToJson_def Let_def)
    moreover have "count_errors is_parser_error ?e2 = 1"
      using cnt [of is_parser_error, OF cong] r by (simp add: filter_filter_none)
    moreover have "count_errors (\<lambda>x. \<not> is_parser_error x) ?e2 = length ?l"
      using cnt [of "\<lambda>x. \<not> is_parser_error x", OF arg_cong [where f = Not, OF cong]] r by simp
    ultimately show ?thesis using ParseFailed by (simp add: count_errors_def allErrors_def)
  next
    case (ParsedObject i)
    then have "parseToJson engine outcome e = Some (e1, Some i)" using e1(1) by (simp add: parseToJson_def)
    then show ?thesis using ParsedObject e1(2) by (simp add: count_errors_def allErrors_def)
  next
    case ParsedOther
    then have "parseToJson engine outcome e = Some (e1, None)" using e1(1) by (simp add: parseToJson_def)
    then show ?thesis using ParsedOther e1(2) by (simp add: count_errors_def allErrors_def)
  qed
qed

theorem parser_errors_replaced_witness:
  "\<exists>e' out. parseToJson rev (ParseFailed (Some (EStr (js ''bad indentation''))) (Some 0) :: unit parse_outcome) initial_err = Some (e', out)
     \<and> count_errors is_parser_error e' = 1 \<and> count_errors (\<lambda>x. \<not> is_parser_error x) e' = 0"
  using parser_errors_replaced [of rev "ParseFailed (Some (EStr (js ''bad indentation''))) (Some 0) :: unit parse_outcome" initial_err]
  by (simp add: count_errors_def allErrors_def errs_def initial_err_def)

section \<open>Stale fields\<close>

text \<open>The reducer assigns each thrown error into the shared defaults, so a field that one error
  carries and the next one does not, such as its source or path, reappears on the next one.\<close>

theorem thrown_errors_inherit_fields:
  assumes "err_reducer engine e (NEW_THROWN_ERR p) = Some e1"
    and "err_reducer engine e1 (NEW_THROWN_ERR q) = Some e2"
    and "p k = Some v" and "q k = None" and "k \<noteq> js ''type''" and "k \<noteq> js ''message''"
  shows "\<exists>x. lastError e2 = Some x \<and> x k = Some v"
proof -
  let ?d = "assign_type (default_error e) p (js ''thrown'')"
  let ?l = "errs e1 @ [assign_type ?d q (js ''thrown'')]"
  have d: "default_error e1 = ?d" using assms(1) by (auto simp: Let_def set_errors_def)
  have l: "errs e2 = transformErrors ?l" using assms(2) d by (auto simp: Let_def set_errors_def errs_def)
  have "?l \<noteq> []" by simp
  then have "errs e2 \<noteq> []" using l length_transformErrors [of ?l] by (metis length_0_conv)
  moreover have "last (errs e2) k = Some v"
    using transformErrors_last [OF _ assms(6), of ?l] l assms(3-5) by (simp add: assign_type_def map_add_def)
  ultimately show ?thesis by (simp add: lastError_def)
qed

theorem thrown_errors_inherit_fields_witness:
  "\<exists>x. lastError (the (err_reducer (\<lambda>l. l)
        (the (err_reducer (\<lambda>l. l) initial_err (NEW_THROWN_ERR [js ''source'' \<mapsto> EStr (js ''fetch'')])))
        (NEW_THROWN_ERR [js ''message'' \<mapsto> EStr (js ''oops'')]))) = Some x
     \<and> x (js ''source'') = Some (EStr (js ''fetch''))"
  by (rule thrown_errors_inherit_fields [where engine = "\<lambda>l. l" and e = initial_err
        and p = "[js ''source'' \<mapsto> EStr (js ''fetch'')]" and q = "[js ''message'' \<mapsto> EStr (js ''oops'')]"])
     (simp_all add: Let_def inj_js)

end
