(* ===== verification/Swagger_Auth.thy ===== *)
theory Swagger_Auth
  imports Js_Url Swagger_Err
begin

text \<open>
  The authorisation plugin of the Swagger UI (\<open>swagger-ui-es-bundle-core.js\<close>): the reducer that
  keeps the credentials by the name of their security scheme, the actions that persist them in the
  local storage of the browser and restore them after a reload, and the test whether a request is
  authorised.
\<close>

section \<open>Basic credentials\<close>

text \<open>
  \<open>Buffer.from(s, "utf-8").toString("base64")\<close>: an unpaired surrogate is written as the
  replacement character.
\<close>

fun utf8_bytes_of :: "js_string \<Rightarrow> nat list" where
  "utf8_bytes_of [] = []"
| "utf8_bytes_of (c # s) =
     (if is_high c then
        (case s of
           [] \<Rightarrow> utf8 0xFFFD
         | d # s' \<Rightarrow>
             if is_low d then utf8 (0x10000 + (c - 0xD800) * 0x400 + (d - 0xDC00)) @ utf8_bytes_of s'
             else utf8 0xFFFD @ utf8_bytes_of s)
      else (if is_low c then utf8 0xFFFD else utf8 c) @ utf8_bytes_of s)"

definition base64_digit :: "nat \<Rightarrow> code_unit" where
  "base64_digit n =
     (if n < 26 then 65 + n else if n < 52 then 71 + n else if n < 62 then n - 4 else if n = 62 then 43 else 47)"

fun base64 :: "nat list \<Rightarrow> js_string" where
  "base64 (a # b # c # s) =
     [base64_digit (a div 4), base64_digit (a mod 4 * 16 + b div 16),
      base64_digit (b mod 16 * 4 + c div 64), base64_digit (c mod 64)] @ base64 s"
| "base64 [a, b] = [base64_digit (a div 4), base64_digit (a mod 4 * 16 + b div 16), base64_digit (b mod 16 * 4), 61]"
| "base64 [a] = [base64_digit (a div 4), base64_digit (a mod 4 * 16), 61, 61]"
| "base64 [] = []"

definition btoa :: "js_string \<Rightarrow> js_string" where
  "btoa s = base64 (utf8_bytes_of s)"

section \<open>State\<close>

text \<open>
  A credential is the text of an API key or token, a name with a password, or a name with a ready
  header; the header object is a plain object until it has been restored from the storage, and a
  map afterwards.
\<close>

datatype credential =
    CText js_string
  | CUserPass js_string js_string
  | CHeaderObject "js_string option" js_string
  | CHeaderMap "js_string option" js_string

record entry =
  schema_type :: "js_string option"
  credential :: credential
  token :: "js_string option"

text \<open>An item of an \<open>authorize\<close> payload: a map, or a value without \<open>getIn\<close>.\<close>

datatype item = MapItem entry | PlainItem

type_synonym authorized_map = "js_string \<rightharpoonup> entry"

record auth_state =
  authorized :: "authorized_map option"
  showDefinitions :: bool

definition initial_auth :: auth_state where
  "initial_auth = \<lparr>authorized = None, showDefinitions = False\<rparr>"

definition authorized_or_empty :: "auth_state \<Rightarrow> authorized_map" where
  "authorized_or_empty e = (case authorized e of None \<Rightarrow> Map.empty | Some m \<Rightarrow> m)"

datatype auth_action =
    SHOW_AUTH_POPUP bool
  | AUTHORIZE "(js_string \<times> item) list"
  | AUTHORIZE_OAUTH2 js_string entry js_string
  | LOGOUT "js_string list"
  | RESTORE_AUTHORIZATION authorized_map

definition username_of :: "credential \<Rightarrow> js_string option" where
  "username_of v = (case v of CUserPass u p \<Rightarrow> Some u | CHeaderMap u h \<Rightarrow> u | _ \<Rightarrow> None)"

definition password_of :: "credential \<Rightarrow> js_string option" where
  "password_of v = (case v of CUserPass u p \<Rightarrow> Some p | _ \<Rightarrow> None)"

text \<open>In a concatenation \<open>undefined\<close> becomes its name.\<close>

definition as_text :: "js_string option \<Rightarrow> js_string" where
  "as_text v = (case v of None \<Rightarrow> js ''undefined'' | Some t \<Rightarrow> t)"

definition basic_credential :: "credential \<Rightarrow> credential" where
  "basic_credential v =
     CHeaderObject (username_of v)
       (js ''Basic '' @ btoa (as_text (username_of v) @ js '':'' @ as_text (password_of v)))"

fun authorize_loop :: "(js_string \<times> item) list \<Rightarrow> authorized_map \<Rightarrow> authorized_map" where
  "authorize_loop [] o' = o'"
| "authorize_loop ((r, PlainItem) # n) o' = authorize_loop n o'"
| "authorize_loop ((r, MapItem a) # n) o' =
     authorize_loop n
       (if schema_type a = Some (js ''apiKey'') \<or> schema_type a = Some (js ''http'') then o'(r \<mapsto> a)
        else if schema_type a = Some (js ''basic'') then
          o'(r \<mapsto> (case o' r of
                    None \<Rightarrow> \<lparr>schema_type = schema_type a, credential = basic_credential (credential a), token = None\<rparr>
                  | Some old \<Rightarrow> old\<lparr>schema_type := schema_type a, credential := basic_credential (credential a)\<rparr>))
        else o')"

text \<open>Logging out before anything was authorised throws.\<close>

fun auth_reducer :: "auth_state \<Rightarrow> auth_action \<Rightarrow> auth_state option" where
  "auth_reducer e (SHOW_AUTH_POPUP b) = Some (e\<lparr>showDefinitions := b\<rparr>)"
| "auth_reducer e (AUTHORIZE n) = Some (e\<lparr>authorized := Some (authorize_loop n (authorized_or_empty e))\<rparr>)"
| "auth_reducer e (AUTHORIZE_OAUTH2 name a o') =
     Some (e\<lparr>authorized := Some ((authorized_or_empty e)(name \<mapsto> a\<lparr>token := Some o'\<rparr>))\<rparr>)"
| "auth_reducer e (LOGOUT n) =
     (case authorized e of
        None \<Rightarrow> None
      | Some m \<Rightarrow> Some (e\<lparr>authorized := Some (fold (\<lambda>t m. m(t := None)) n m)\<rparr>))"
| "auth_reducer e (RESTORE_AUTHORIZATION m) = Some (e\<lparr>authorized := Some m\<rparr>)"

section \<open>Selectors\<close>

text \<open>A requirement lists the schemes that are all needed; one requirement suffices.\<close>

definition isAuthorized :: "auth_state \<Rightarrow> js_string list list \<Rightarrow> bool" where
  "isAuthorized e t = (filter (\<lambda>ks. list_all (\<lambda>k. authorized_or_empty e k \<noteq> None) ks) t \<noteq> [])"

section \<open>Persistence\<close>

text \<open>
  The system around the plugin: its state, the collected errors and the item \<open>authorized\<close> of the
  local storage.  A stored value is what \<open>JSON.parse\<close> and \<open>fromJS\<close> make of the written text, in
  which a header object has become a map.
\<close>

record auth_system =
  auth :: auth_state
  err_part :: err_state
  storage :: "authorized_map option"

definition as_stored :: "entry \<Rightarrow> entry" where
  "as_stored a = a\<lparr>credential := (case credential a of CHeaderObject u h \<Rightarrow> CHeaderMap u h | c \<Rightarrow> c)\<rparr>"

text \<open>A scheme called \<open>__proto__\<close> is no property of the written object.\<close>

definition written :: "authorized_map \<Rightarrow> authorized_map" where
  "written m = (\<lambda>k. if k = js ''__proto__'' then None else map_option as_stored (m k))"

definition persistAuthorizationIfNeeded :: "bool \<Rightarrow> auth_system \<Rightarrow> auth_system" where
  "persistAuthorizationIfNeeded persist s =
     (if persist then s\<lparr>storage := Some (written (authorized_or_empty (auth s)))\<rparr> else s)"

text \<open>
  The reducer of a plugin that throws, as \<open>LOGOUT\<close> does before anything was authorised, keeps the state; the action
  goes on and writes what is authorised.
\<close>

definition dispatch_auth :: "auth_action \<Rightarrow> auth_system \<Rightarrow> auth_system" where
  "dispatch_auth a s = (case auth_reducer (auth s) a of None \<Rightarrow> s | Some e \<Rightarrow> s\<lparr>auth := e\<rparr>)"

definition with_persist :: "bool \<Rightarrow> auth_action \<Rightarrow> auth_system \<Rightarrow> auth_system" where
  "with_persist persist a s = persistAuthorizationIfNeeded persist (dispatch_auth a s)"

definition authorizeWithPersistOption :: "bool \<Rightarrow> (js_string \<times> item) list \<Rightarrow> auth_system \<Rightarrow> auth_system" where
  "authorizeWithPersistOption persist n s = with_persist persist (AUTHORIZE n) s"

definition logoutWithPersistOption :: "bool \<Rightarrow> js_string list \<Rightarrow> auth_system \<Rightarrow> auth_system" where
  "logoutWithPersistOption persist n s = with_persist persist (LOGOUT n) s"

definition authorizeOauth2WithPersistOption ::
  "bool \<Rightarrow> js_string \<Rightarrow> entry \<Rightarrow> js_string \<Rightarrow> auth_system \<Rightarrow> auth_system" where
  "authorizeOauth2WithPersistOption persist name a o' s = with_persist persist (AUTHORIZE_OAUTH2 name a o') s"

text \<open>
  The two functions of the page's interface that authorise without a dialog, and without writing to the
  storage; \<open>schema\<close> is the type of the scheme, if the specification has the scheme at all.
\<close>

definition preauthorize :: "js_string \<Rightarrow> js_string option option \<Rightarrow> credential \<Rightarrow> auth_system \<Rightarrow> auth_system" where
  "preauthorize name schema v s =
     (case schema of
        None \<Rightarrow> s
      | Some t \<Rightarrow> dispatch_auth (AUTHORIZE [(name, MapItem \<lparr>schema_type = t, credential = v, token = None\<rparr>)]) s)"

definition preauthorizeBasic :: "js_string \<Rightarrow> js_string option option \<Rightarrow> js_string \<Rightarrow> js_string \<Rightarrow> auth_system \<Rightarrow> auth_system" where
  "preauthorizeBasic name schema username password s = preauthorize name schema (CUserPass username password) s"

definition preauthorizeApiKey :: "js_string \<Rightarrow> js_string option option \<Rightarrow> js_string \<Rightarrow> auth_system \<Rightarrow> auth_system" where
  "preauthorizeApiKey name schema key s = preauthorize name schema (CText key) s"

text \<open>The answer of an authorisation server: a token, or an error with its printed form.\<close>

datatype token_answer = Token js_string | TokenError js_string

definition auth_error :: "js_string \<Rightarrow> js_string \<Rightarrow> js_string \<Rightarrow> err" where
  "auth_error name level message =
     [js ''authId'' \<mapsto> EStr name, js ''source'' \<mapsto> EStr (js ''auth''), js ''level'' \<mapsto> EStr level,
      js ''message'' \<mapsto> EStr message]"

definition newAuthErr :: "err \<Rightarrow> auth_system \<Rightarrow> auth_system" where
  "newAuthErr p s =
     (case err_reducer (\<lambda>l. l) (err_part s) (NEW_AUTH_ERR p) of None \<Rightarrow> s | Some e \<Rightarrow> s\<lparr>err_part := e\<rparr>)"

definition preAuthorizeImplicit ::
  "bool \<Rightarrow> js_string \<Rightarrow> js_string \<Rightarrow> bool \<Rightarrow> entry \<Rightarrow> token_answer \<Rightarrow> auth_system \<Rightarrow> auth_system" where
  "preAuthorizeImplicit persist name flow isValid a o' s0 =
     (let s = (if flow = js ''accessCode'' \<or> isValid then s0
               else newAuthErr (auth_error name (js ''warning'')
                 (js ''Authorization may be unsafe, passed state was changed in server Passed state wasn't returned from auth server'')) s0)
      in case o' of
           TokenError m \<Rightarrow> newAuthErr (auth_error name (js ''error'') m) s
         | Token t \<Rightarrow> authorizeOauth2WithPersistOption persist name a t s)"

text \<open>After a reload the plugin starts empty, and \<open>loaded\<close> restores what the storage holds.\<close>

definition reload :: "bool \<Rightarrow> auth_system \<Rightarrow> auth_system" where
  "reload persist s =
     (let s1 = s\<lparr>auth := initial_auth, err_part := initial_err\<rparr> in
      if persist then
        (case storage s of
           None \<Rightarrow> s1
         | Some m \<Rightarrow> (case auth_reducer (auth s1) (RESTORE_AUTHORIZATION m) of None \<Rightarrow> s1 | Some e \<Rightarrow> s1\<lparr>auth := e\<rparr>))
      else s1)"

section \<open>The header decodes to the credentials\<close>

definition base64_value :: "code_unit \<Rightarrow> nat option" where
  "base64_value c =
     (if 65 \<le> c \<and> c \<le> 90 then Some (c - 65) else if 97 \<le> c \<and> c \<le> 122 then Some (c - 71)
      else if 48 \<le> c \<and> c \<le> 57 then Some (c + 4) else if c = 43 then Some 62
      else if c = 47 then Some 63 else None)"

fun unbase64 :: "js_string \<Rightarrow> nat list option" where
  "unbase64 [] = Some []"
| "unbase64 (w # x # y # z # s) =
     (case (base64_value w, base64_value x) of
        (Some a, Some b) \<Rightarrow>
          (case base64_value y of
             None \<Rightarrow> if y = 61 \<and> z = 61 \<and> s = [] then Some [a * 4 + b div 16] else None
           | Some c \<Rightarrow>
               (case base64_value z of
                  None \<Rightarrow> if z = 61 \<and> s = [] then Some [a * 4 + b div 16, b mod 16 * 16 + c div 4] else None
                | Some d \<Rightarrow>
                    map_option (\<lambda>r. [a * 4 + b div 16, b mod 16 * 16 + c div 4, c mod 4 * 64 + d] @ r) (unbase64 s)))
      | _ \<Rightarrow> None)"
| "unbase64 _ = None"

lemma base64_value_digit [simp]: "n < 64 \<Longrightarrow> base64_value (base64_digit n) = Some n"
  by (auto simp: base64_value_def base64_digit_def)

lemma base64_value_pad [simp]: "base64_value 61 = None"
  by (simp add: base64_value_def)

lemma six_bits:
  "a < 256 \<Longrightarrow> a div 4 < (64::nat)" "b < 256 \<Longrightarrow> a mod 4 * 16 + b div 16 < (64::nat)"
  "c < 256 \<Longrightarrow> b mod 16 * 4 + c div 64 < (64::nat)" "c mod 64 < (64::nat)"
proof -
  have lim: "x < m \<Longrightarrow> y < k \<Longrightarrow> x * k + y < m * k" for x y m k :: nat
  proof -
    assume "x < m" "y < k"
    then have "x * k + y < Suc x * k" by simp
    also have "\<dots> \<le> m * k" using \<open>x < m\<close> by (intro mult_le_mono1) simp
    finally show ?thesis .
  qed
  show "a < 256 \<Longrightarrow> a div 4 < 64" by (simp add: less_mult_imp_div_less)
  show "b < 256 \<Longrightarrow> a mod 4 * 16 + b div 16 < 64" using lim [of "a mod 4" 4 "b div 16" 16]
    by (simp add: less_mult_imp_div_less)
  show "c < 256 \<Longrightarrow> b mod 16 * 4 + c div 64 < 64" using lim [of "b mod 16" 16 "c div 64" 4]
    by (simp add: less_mult_imp_div_less)
qed simp

lemma join_bits: "y < k \<Longrightarrow> (x * k + y) div k = (x::nat)" "y < k \<Longrightarrow> (x * k + y) mod k = (y::nat)"
  by auto

lemma octet_bits:
  assumes "b < (256::nat)" "c < (256::nat)"
  shows "a div 4 * 4 + (a mod 4 * 16 + b div 16) div 16 = a"
    and "(a mod 4 * 16 + b div 16) mod 16 * 16 + (b mod 16 * 4 + c div 64) div 4 = b"
    and "(b mod 16 * 4 + c div 64) mod 4 * 64 + c mod 64 = c"
proof -
  have "b div 16 < 16" "c div 64 < 4" using assms by (simp_all add: less_mult_imp_div_less)
  then show "a div 4 * 4 + (a mod 4 * 16 + b div 16) div 16 = a"
    and "(a mod 4 * 16 + b div 16) mod 16 * 16 + (b mod 16 * 4 + c div 64) div 4 = b"
    and "(b mod 16 * 4 + c div 64) mod 4 * 64 + c mod 64 = c"
    by (simp_all only: join_bits div_mult_mod_eq)
qed

lemma unbase64_base64: "list_all (\<lambda>b. b < 256) bs \<Longrightarrow> unbase64 (base64 bs) = Some bs"
proof (induction bs rule: base64.induct)
  case (1 a b c s)
  then have "a < 256" "b < 256" "c < 256" "unbase64 (base64 s) = Some s" by simp_all
  then show ?case by (simp add: six_bits octet_bits del: div_mult_mod_eq)
next
  case (2 a b)
  then have ab: "a < 256" "b < 256" by simp_all
  with octet_bits(1) [of b 0 a] octet_bits(2) [of b 0 a] six_bits(3) [of 0 b] show ?case by (simp add: six_bits)
next
  case (3 a)
  then have "a < 256" by simp
  with octet_bits(1) [of 0 0 a] six_bits(2) [of 0 a] show ?case by (simp add: six_bits)
qed simp

lemma utf8_bytes_of_decode:
  "well_formed s \<Longrightarrow> decodeURIComponent (concat (map percent (utf8_bytes_of s))) = Some s
     \<and> list_all (\<lambda>b. b < 256) (utf8_bytes_of s)"
proof (induction s rule: utf8_bytes_of.induct)
  case (2 c s)
  show ?case
  proof (cases "is_high c")
    case True
    then obtain d s' where s: "s = d # s'" "is_low d" "well_formed s'" using 2(4) by (auto split: list.splits)
    let ?p = "0x10000 + (c - 0xD800) * 0x400 + (d - 0xDC00)"
    have p: "is_scalar ?p" "utf16 ?p = [c, d]" "?p < 0x110000" using surrogate_pair [OF True s(2)] .
    from 2(1)[OF True s(1,2)] s(3)
    have IH: "decodeURIComponent (concat (map percent (utf8_bytes_of s'))) = Some s'"
      "list_all (\<lambda>b. b < 256) (utf8_bytes_of s')" by simp_all
    show ?thesis using True s p IH decode_percent_point [OF p(1)] utf8_bytes [OF p(3)]
      by (simp add: percent_point_def)
  next
    case False
    with 2(4) have c: "\<not> is_low c" "c < 0x10000" "well_formed s" by auto
    then have p: "is_scalar c" "utf16 c = [c]" "c < 0x110000"
      using False by (auto simp: is_scalar_def utf16_def is_high_def is_low_def)
    from 2(3)[OF False] c(3)
    have IH: "decodeURIComponent (concat (map percent (utf8_bytes_of s))) = Some s"
      "list_all (\<lambda>b. b < 256) (utf8_bytes_of s)" by simp_all
    show ?thesis using False c(1) p IH decode_percent_point [OF p(1)] utf8_bytes [OF p(3)]
      by (simp add: percent_point_def)
  qed
qed simp

lemma well_formed_append: "well_formed s \<Longrightarrow> well_formed t \<Longrightarrow> well_formed (s @ t)"
proof (induction s rule: well_formed.induct)
  case (2 c s)
  then show ?case by (cases s) (auto split: if_splits)
qed simp

text \<open>C29. Authorising a basic scheme stores a header that decodes, through Base64 and UTF-8, to the user
  name and the password with a colon between them, for all well-formed names and passwords.\<close>

theorem basic_header_decodes:
  assumes "well_formed u" and "well_formed p"
    and "schema_type a = Some (js ''basic'')" and "credential a = CUserPass u p"
  shows "\<exists>e' x h bs. auth_reducer e (AUTHORIZE [(r, MapItem a)]) = Some e'
     \<and> authorized_or_empty e' r = Some x \<and> credential x = CHeaderObject (Some u) (js ''Basic '' @ h)
     \<and> unbase64 h = Some bs \<and> decodeURIComponent (concat (map percent bs)) = Some (u @ js '':'' @ p)"
proof -
  have "well_formed (js '':'')" by (simp add: js_simps is_high_def is_low_def)
  then have "well_formed (u @ js '':'' @ p)" using assms(1,2) by (intro well_formed_append)
  from utf8_bytes_of_decode [OF this]
  have "unbase64 (btoa (u @ js '':'' @ p)) = Some (utf8_bytes_of (u @ js '':'' @ p))"
    "decodeURIComponent (concat (map percent (utf8_bytes_of (u @ js '':'' @ p)))) = Some (u @ js '':'' @ p)"
    by (simp_all add: btoa_def unbase64_base64)
  moreover have "js ''basic'' \<noteq> js ''apiKey''" "js ''basic'' \<noteq> js ''http''" by (simp_all add: inj_js)
  ultimately show ?thesis
    using assms(3,4)
    by (auto simp: authorized_or_empty_def basic_credential_def username_of_def password_of_def as_text_def
        split: option.split)
qed

definition sample_basic :: entry where
  "sample_basic = \<lparr>schema_type = Some (js ''basic''), credential = CUserPass (js ''joe'') [0x20AC], token = None\<rparr>"

theorem basic_header_decodes_witness:
  "\<exists>e' x h bs. auth_reducer initial_auth (AUTHORIZE [(js ''login'', MapItem sample_basic)]) = Some e'
     \<and> authorized_or_empty e' (js ''login'') = Some x \<and> credential x = CHeaderObject (Some (js ''joe'')) (js ''Basic '' @ h)
     \<and> unbase64 h = Some bs \<and> decodeURIComponent (concat (map percent bs)) = Some (js ''joe'' @ js '':'' @ [0x20AC])"
  by (rule basic_header_decodes)
     (simp_all add: sample_basic_def js_simps is_high_def is_low_def)

section \<open>Who is authorised\<close>

definition supported :: "item \<Rightarrow> bool" where
  "supported i = (case i of PlainItem \<Rightarrow> False
     | MapItem a \<Rightarrow> schema_type a \<in> Some ` {js ''apiKey'', js ''http'', js ''basic''})"

lemma dom_authorize_loop:
  "dom (authorize_loop n m) = dom m \<union> fst ` set (filter (\<lambda>x. supported (snd x)) n)"
  by (induction n m rule: authorize_loop.induct) (auto simp: supported_def inj_js split: option.splits)

text \<open>After credentials are submitted a request is authorised exactly when all schemes of one of its
  requirements were authorised before or are submitted now with a type the plugin supports; other
  submitted types, such as OAuth2, are ignored.\<close>

theorem isAuthorized_after_authorize:
  "(case auth_reducer e (AUTHORIZE n) of
      None \<Rightarrow> False
    | Some e' \<Rightarrow>
        isAuthorized e' t \<longleftrightarrow>
          list_ex (list_all (\<lambda>k. k \<in> dom (authorized_or_empty e)
             \<or> list_ex (\<lambda>x. fst x = k \<and> supported (snd x)) n)) t)"
proof -
  have "authorize_loop n (authorized_or_empty e) k \<noteq> None \<longleftrightarrow>
      authorized_or_empty e k \<noteq> None \<or> list_ex (\<lambda>x. fst x = k \<and> supported (snd x)) n" for k
  proof -
    have "authorize_loop n (authorized_or_empty e) k \<noteq> None \<longleftrightarrow> k \<in> dom (authorize_loop n (authorized_or_empty e))"
      by auto
    also have "\<dots> \<longleftrightarrow> authorized_or_empty e k \<noteq> None \<or> list_ex (\<lambda>x. fst x = k \<and> supported (snd x)) n"
      unfolding dom_authorize_loop by (auto simp: list_ex_iff)
    finally show ?thesis .
  qed
  then show ?thesis
    by (simp add: isAuthorized_def authorized_or_empty_def list_ex_iff filter_empty_conv domIff)
qed

section \<open>Surviving a reload\<close>

text \<open>\<open>saved\<close> says whether an action has written the credentials since the last one was authorised without a dialog.\<close>

inductive auth_reachable :: "bool \<Rightarrow> auth_system \<Rightarrow> bool" where
  start: "auth_reachable True \<lparr>auth = initial_auth, err_part = initial_err, storage = None\<rparr>"
| authorize_step: "auth_reachable saved s \<Longrightarrow> auth_reachable True (authorizeWithPersistOption True n s)"
| logout_step: "auth_reachable saved s \<Longrightarrow> auth_reachable True (logoutWithPersistOption True ks s)"
| oauth2_step: "auth_reachable saved s \<Longrightarrow> auth_reachable True (preAuthorizeImplicit True name flow valid a (Token t) s)"
| refused_step: "auth_reachable saved s \<Longrightarrow> auth_reachable saved (preAuthorizeImplicit True name flow valid a (TokenError m) s)"
| preauthorize_basic_step: "auth_reachable saved s \<Longrightarrow> auth_reachable False (preauthorizeBasic name schema u p s)"
| preauthorize_key_step: "auth_reachable saved s \<Longrightarrow> auth_reachable False (preauthorizeApiKey name schema k s)"
| popup_step: "auth_reachable saved s \<Longrightarrow> auth_reachable saved (dispatch_auth (SHOW_AUTH_POPUP b) s)"
| reload_step: "auth_reachable saved s \<Longrightarrow> auth_reachable True (reload True s)"

text \<open>The storage holds what was once written, and what is authorised now when it has been saved.\<close>

definition mirrored :: "auth_system \<Rightarrow> bool" where
  "mirrored s \<longleftrightarrow> (case storage s of None \<Rightarrow> authorized_or_empty (auth s) = Map.empty
                    | Some m \<Rightarrow> m = written (authorized_or_empty (auth s)))"

definition stored_form :: "auth_system \<Rightarrow> bool" where
  "stored_form s \<longleftrightarrow> (case storage s of None \<Rightarrow> True | Some m \<Rightarrow> written m = m)"

lemma as_stored_idem [simp]: "as_stored (as_stored a) = as_stored a"
  by (simp add: as_stored_def split: credential.split)

lemma written_idem [simp]: "written (written m) = written m"
  by (auto simp: written_def fun_eq_iff option.map_comp comp_def)

lemma mirrored_with_persist: "mirrored (with_persist True a s)" "stored_form (with_persist True a s)"
  by (simp_all add: with_persist_def persistAuthorizationIfNeeded_def mirrored_def stored_form_def)

lemma newAuthErr_parts [simp]: "auth (newAuthErr p s) = auth s" "storage (newAuthErr p s) = storage s"
  by (simp_all add: newAuthErr_def split: option.split)

lemma mirrored_newAuthErr [simp]: "mirrored (newAuthErr p s) = mirrored s" "stored_form (newAuthErr p s) = stored_form s"
  by (simp_all add: mirrored_def stored_form_def cong: option.case_cong)

lemma dispatch_auth_storage [simp]: "storage (dispatch_auth a s) = storage s"
  by (simp add: dispatch_auth_def split: option.split)

lemma stored_form_same: "storage s' = storage s \<Longrightarrow> stored_form s' = stored_form s"
  by (simp add: stored_form_def)

lemma preauthorize_storage [simp]:
  "storage (preauthorizeBasic name schema u p s) = storage s" "storage (preauthorizeApiKey name schema k s) = storage s"
  by (simp_all add: preauthorizeBasic_def preauthorizeApiKey_def preauthorize_def split: option.split)

lemma reload_mirrored: "stored_form s \<Longrightarrow> mirrored (reload True s) \<and> stored_form (reload True s)"
  by (auto simp: reload_def mirrored_def stored_form_def Let_def initial_auth_def authorized_or_empty_def split: option.splits)

lemma mirrored_popup: "mirrored (dispatch_auth (SHOW_AUTH_POPUP b) s) = mirrored s"
  by (simp add: mirrored_def dispatch_auth_def authorized_or_empty_def cong: option.case_cong)

lemma mirrored_reachable: "auth_reachable saved s \<Longrightarrow> stored_form s \<and> (saved \<longrightarrow> mirrored s)"
proof (induction rule: auth_reachable.induct)
  case start
  then show ?case by (simp add: mirrored_def stored_form_def initial_auth_def authorized_or_empty_def)
qed (simp_all add: authorizeWithPersistOption_def logoutWithPersistOption_def preAuthorizeImplicit_def
    authorizeOauth2WithPersistOption_def mirrored_with_persist reload_mirrored mirrored_popup Let_def
    stored_form_same [OF preauthorize_storage(1)] stored_form_same [OF preauthorize_storage(2)]
    stored_form_same [OF dispatch_auth_storage])

text \<open>C28. With persistence switched on, a reload of the page keeps the authorisation in every state that
  the credential actions and earlier reloads can reach, as long as no credentials were given by
  \<open>preauthorizeBasic\<close> or \<open>preauthorizeApiKey\<close> since the last action that writes to the storage: the same
  requests are authorised before and after it, logged-out schemes included, unless a scheme is
  called \<open>__proto__\<close>.\<close>

theorem reload_keeps_authorization:
  assumes "auth_reachable True s" and "list_all (list_all (\<lambda>k. k \<noteq> js ''__proto__'')) t"
  shows "isAuthorized (auth (reload True s)) t = isAuthorized (auth s) t"
proof -
  have "authorized_or_empty (auth (reload True s)) = written (authorized_or_empty (auth s))"
    using mirrored_reachable [OF assms(1)]
    by (auto simp: mirrored_def reload_def Let_def initial_auth_def authorized_or_empty_def written_def fun_eq_iff split: option.splits)
  then have "authorized_or_empty (auth (reload True s)) k \<noteq> None \<longleftrightarrow> authorized_or_empty (auth s) k \<noteq> None"
    if "k \<noteq> js ''__proto__''" for k
    using that by (simp add: written_def)
  then have "list_all (\<lambda>k. authorized_or_empty (auth (reload True s)) k \<noteq> None) ks
      = list_all (\<lambda>k. authorized_or_empty (auth s) k \<noteq> None) ks" if "ks \<in> set t" for ks
    using that assms(2) by (simp add: list_all_iff)
  then have "filter (\<lambda>ks. list_all (\<lambda>k. authorized_or_empty (auth (reload True s)) k \<noteq> None) ks) t
      = filter (\<lambda>ks. list_all (\<lambda>k. authorized_or_empty (auth s) k \<noteq> None) ks) t"
    by (intro filter_cong) simp_all
  then show ?thesis by (simp add: isAuthorized_def)
qed

definition start_system :: auth_system where
  "start_system = \<lparr>auth = initial_auth, err_part = initial_err, storage = None\<rparr>"

definition logged_in :: auth_system where
  "logged_in = authorizeWithPersistOption True [(js ''login'', MapItem sample_basic)] start_system"

theorem reload_keeps_authorization_witness:
  "isAuthorized (auth (reload True logged_in)) [[js ''login'']] = isAuthorized (auth logged_in) [[js ''login'']]
     \<and> isAuthorized (auth logged_in) [[js ''login'']]"
proof -
  have "auth_reachable True logged_in"
    unfolding logged_in_def start_system_def by (rule auth_reachable.authorize_step [OF auth_reachable.start])
  moreover have "isAuthorized (auth logged_in) [[js ''login'']]"
    by (simp add: logged_in_def start_system_def inj_js isAuthorized_def authorizeWithPersistOption_def with_persist_def
        dispatch_auth_def persistAuthorizationIfNeeded_def authorized_or_empty_def initial_auth_def sample_basic_def)
  ultimately show ?thesis
    using reload_keeps_authorization [of logged_in "[[js ''login'']]"] by (simp add: inj_js)
qed

text \<open>What \<open>preauthorizeApiKey\<close> authorises first is lost in a reload.\<close>

lemma preauthorized_lost:
  defines "s \<equiv> preauthorizeApiKey (js ''key'') (Some (Some (js ''apiKey''))) (js ''secret'') start_system"
  shows "auth_reachable False s" "isAuthorized (auth s) [[js ''key'']]" "\<not> isAuthorized (auth (reload True s)) [[js ''key'']]"
proof -
  show "auth_reachable False s"
    unfolding s_def start_system_def by (rule auth_reachable.preauthorize_key_step [OF auth_reachable.start])
qed (simp_all add: s_def start_system_def preauthorizeApiKey_def preauthorize_def dispatch_auth_def isAuthorized_def reload_def
    authorized_or_empty_def initial_auth_def inj_js Let_def)

end
