(* ===== verification/Swagger_Oas3.thy ===== *)
theory Swagger_Oas3
  imports Js_Immutable
begin

text \<open>
  The OpenAPI 3 plugin of the Swagger UI (\<open>swagger-ui-bundle.js\<close>): the reducer that keeps the
  chosen servers, request bodies, media types and validation errors of each operation in one
  nested map, and the selectors that validate a request body before it is sent.  A reducer returns
  \<open>None\<close> where an update runs through a value that is not a map and throws.
\<close>

section \<open>State and actions\<close>

datatype oas3_value =
    OStr js_string
  | OBool bool
  | OList "js_string list"
  | OUndefined

type_synonym oas3_state = "oas3_value inode"

fun leaf_truthy :: "oas3_value \<Rightarrow> bool" where
  "leaf_truthy (OStr s) = (s \<noteq> [])"
| "leaf_truthy (OBool b) = b"
| "leaf_truthy (OList _) = True"
| "leaf_truthy OUndefined = False"

definition node_truthy :: "oas3_state option \<Rightarrow> bool" where
  "node_truthy n = (case n of None \<Rightarrow> False | Some (Leaf v) \<Rightarrow> leaf_truthy v | Some (Node _) \<Rightarrow> True)"

datatype oas3_action =
    UPDATE_SELECTED_SERVER js_string "js_string option"
  | UPDATE_REQUEST_BODY_VALUE oas3_state js_string js_string
  | UPDATE_REQUEST_BODY_VALUE_RETAIN_FLAG bool js_string js_string
  | UPDATE_REQUEST_BODY_INCLUSION bool js_string js_string js_string
  | UPDATE_ACTIVE_EXAMPLES_MEMBER js_string js_string js_string js_string js_string
  | UPDATE_REQUEST_CONTENT_TYPE js_string js_string js_string
  | UPDATE_RESPONSE_CONTENT_TYPE js_string js_string js_string
  | UPDATE_SERVER_VARIABLE_VALUE js_string "js_string option" js_string js_string
  | SET_REQUEST_BODY_VALIDATE_ERROR js_string js_string bool "js_string list"
  | CLEAR_REQUEST_BODY_VALIDATE_ERROR js_string js_string
  | CLEAR_REQUEST_BODY_VALUE js_string js_string

section \<open>The reducer\<close>

definition request_data :: "js_string \<Rightarrow> js_string \<Rightarrow> js_string list" where
  "request_data p m = [js ''requestData'', p, m]"

definition body_path :: "js_string \<Rightarrow> js_string \<Rightarrow> js_string list" where
  "body_path p m = request_data p m @ [js ''bodyValue'']"

definition namespaced :: "js_string option \<Rightarrow> js_string list \<Rightarrow> js_string list" where
  "namespaced a ks = (case a of None \<Rightarrow> ks | Some n \<Rightarrow> if n = [] then ks else n # ks)"

text \<open>The map in which a new body value is entered: the current one, or an empty map.\<close>

definition current_body :: "oas3_state \<Rightarrow> js_string \<Rightarrow> js_string \<Rightarrow> oas3_state" where
  "current_body e p m = (case getIn e (body_path p m) of Some (Node f) \<Rightarrow> Node f | _ \<Rightarrow> Node [])"

text \<open>
  The loop over the keys of the new value.  Every iteration starts again from the current map
  \<open>f\<close> and overwrites the result \<open>l\<close>, which is \<open>undefined\<close> at first.
\<close>

fun body_loop :: "oas3_state \<Rightarrow> (js_string \<times> oas3_state) list \<Rightarrow> oas3_state \<Rightarrow> oas3_state option" where
  "body_loop f [] l = Some l"
| "body_loop f ((e, t) # r) l =
     (if getIn f [e] \<noteq> None \<and> (case t of Node _ \<Rightarrow> True | Leaf _ \<Rightarrow> False) then body_loop f r l
      else (case setIn f [e, js ''value''] t of
              None \<Rightarrow> None
            | Some l' \<Rightarrow> body_loop f r l'))"

fun set_errors_of :: "js_string list \<Rightarrow> js_string list \<Rightarrow> oas3_state \<Rightarrow> oas3_state option" where
  "set_errors_of i [] e = Some e"
| "set_errors_of i (t # ts) e =
     (case setIn e [t, js ''errors''] (Leaf (OList i)) of
        None \<Rightarrow> None
      | Some e' \<Rightarrow> set_errors_of i ts e')"

definition required_message :: js_string where
  "required_message = js ''Required field is not provided''"

definition bind_set :: "oas3_state \<Rightarrow> js_string list \<Rightarrow> oas3_state option \<Rightarrow> oas3_state option" where
  "bind_set e ks v = (case v of None \<Rightarrow> None | Some t \<Rightarrow> setIn e ks t)"

fun oas3_reducer :: "oas3_state \<Rightarrow> oas3_action \<Rightarrow> oas3_state option" where
  "oas3_reducer e (UPDATE_SELECTED_SERVER r a) = setIn e (namespaced a [js ''selectedServer'']) (Leaf (OStr r))"
| "oas3_reducer e (UPDATE_REQUEST_BODY_VALUE r p m) =
     (case r of
        Leaf v \<Rightarrow> setIn e (body_path p m) (Leaf v)
      | Node es \<Rightarrow> bind_set e (body_path p m) (body_loop (current_body e p m) es (Leaf OUndefined)))"
| "oas3_reducer e (UPDATE_REQUEST_BODY_VALUE_RETAIN_FLAG r p m) =
     setIn e (request_data p m @ [js ''retainBodyValue'']) (Leaf (OBool r))"
| "oas3_reducer e (UPDATE_REQUEST_BODY_INCLUSION r p m n) =
     setIn e (request_data p m @ [js ''bodyInclusion'', n]) (Leaf (OBool r))"
| "oas3_reducer e (UPDATE_ACTIVE_EXAMPLES_MEMBER r p m ct cn) =
     setIn e [js ''examples'', p, m, ct, cn, js ''activeExample''] (Leaf (OStr r))"
| "oas3_reducer e (UPDATE_REQUEST_CONTENT_TYPE r p m) =
     setIn e (request_data p m @ [js ''requestContentType'']) (Leaf (OStr r))"
| "oas3_reducer e (UPDATE_RESPONSE_CONTENT_TYPE r p m) =
     setIn e (request_data p m @ [js ''responseContentType'']) (Leaf (OStr r))"
| "oas3_reducer e (UPDATE_SERVER_VARIABLE_VALUE s a k v) =
     setIn e (namespaced a [js ''serverVariableValues'', s, k]) (Leaf (OStr v))"
| "oas3_reducer e (SET_REQUEST_BODY_VALIDATE_ERROR p m missingBodyValue missingRequiredKeys) =
     (if missingBodyValue then
        setIn e (request_data p m @ [js ''errors'']) (Leaf (OList [required_message]))
      else if missingRequiredKeys \<noteq> [] then
        bind_set e (body_path p m)
          (set_errors_of [required_message] missingRequiredKeys
             (case getIn e (body_path p m) of None \<Rightarrow> Node [] | Some v \<Rightarrow> v))
      else Some e)"
| "oas3_reducer e (CLEAR_REQUEST_BODY_VALIDATE_ERROR p m) =
     (case getIn e (body_path p m) of
        Some (Node f) \<Rightarrow> bind_set e (body_path p m) (set_errors_of [] (map fst f) (Node f))
      | _ \<Rightarrow> setIn e (request_data p m @ [js ''errors'']) (Leaf (OList [])))"
| "oas3_reducer e (CLEAR_REQUEST_BODY_VALUE p m) =
     (let i = getIn e (body_path p m) in
      if \<not> node_truthy i then Some e
      else (case i of
              Some (Node _) \<Rightarrow> setIn e (body_path p m) (Node [])
            | _ \<Rightarrow> setIn e (body_path p m) (Leaf (OStr []))))"

section \<open>Validation selectors\<close>

definition validateBeforeExecute :: "bool \<Rightarrow> oas3_state \<Rightarrow> js_string \<Rightarrow> js_string \<Rightarrow> bool" where
  "validateBeforeExecute required e p m = (\<not> required \<or> node_truthy (getIn e (body_path p m)))"

fun push_new :: "js_string list \<Rightarrow> js_string list \<Rightarrow> js_string list" where
  "push_new s [] = s"
| "push_new s (e # es) = push_new (if e \<in> set s then s else s @ [e]) es"

text \<open>The required keys of the media type, without repetition, that have no value.\<close>

definition validateShallowRequired ::
  "(js_string \<times> js_string list) list \<Rightarrow> js_string \<Rightarrow> oas3_state option \<Rightarrow> js_string list" where
  "validateShallowRequired required contentType body =
     (case body of
        Some (Node o') \<Rightarrow>
          filter (\<lambda>e. \<not> node_truthy (getIn (Node o') [e, js ''value'']))
            (fold (\<lambda>(k, ts) s. if k = contentType then push_new s ts else s) required [])
      | _ \<Rightarrow> [])"

section \<open>Operations do not interfere\<close>

text \<open>The operation an action is about.\<close>

fun action_operation :: "oas3_action \<Rightarrow> (js_string \<times> js_string) option" where
  "action_operation (UPDATE_REQUEST_BODY_VALUE _ p m) = Some (p, m)"
| "action_operation (UPDATE_REQUEST_BODY_VALUE_RETAIN_FLAG _ p m) = Some (p, m)"
| "action_operation (UPDATE_REQUEST_BODY_INCLUSION _ p m _) = Some (p, m)"
| "action_operation (UPDATE_REQUEST_CONTENT_TYPE _ p m) = Some (p, m)"
| "action_operation (UPDATE_RESPONSE_CONTENT_TYPE _ p m) = Some (p, m)"
| "action_operation (SET_REQUEST_BODY_VALIDATE_ERROR p m _ _) = Some (p, m)"
| "action_operation (CLEAR_REQUEST_BODY_VALIDATE_ERROR p m) = Some (p, m)"
| "action_operation (CLEAR_REQUEST_BODY_VALUE p m) = Some (p, m)"
| "action_operation _ = None"

lemma request_data_apart:
  assumes "setIn e (request_data p m @ r) v = Some e'" "(p', m') \<noteq> (p, m)"
  shows "getIn e' (request_data p' m' @ q) = getIn e (request_data p' m' @ q)"
  by (rule imm.get_put_apart [OF assms(1)]) (use assms(2) in \<open>auto simp: request_data_def\<close>)

lemma bind_set_apart:
  assumes "bind_set e (body_path p m) v = Some e'" "(p', m') \<noteq> (p, m)"
  shows "getIn e' (request_data p' m' @ q) = getIn e (request_data p' m' @ q)"
  using assms by (auto simp: bind_set_def body_path_def split: option.splits intro: request_data_apart)

lemma body_path_apart:
  assumes "setIn e (body_path p m) v = Some e'" "(p', m') \<noteq> (p, m)"
  shows "getIn e' (request_data p' m' @ q) = getIn e (request_data p' m' @ q)"
  using assms unfolding body_path_def by (rule request_data_apart)

text \<open>C25. An action on the request data of one operation leaves the request data of every other
  operation unchanged: body, flags, media types and validation errors.\<close>

theorem oas3_operations_isolated:
  assumes "oas3_reducer e a = Some e'" and "action_operation a = Some (p, m)" and "(p', m') \<noteq> (p, m)"
  shows "getIn e' (request_data p' m' @ q) = getIn e (request_data p' m' @ q)"
  using assms
  by (cases a)
     (auto simp: Let_def split: inode.splits option.splits if_splits
        intro: request_data_apart body_path_apart bind_set_apart)

theorem oas3_operations_isolated_witness:
  "getIn (the (oas3_reducer (Node []) (UPDATE_REQUEST_CONTENT_TYPE (js ''application/json'') (js ''/pets'') (js ''post''))))
     (request_data (js ''/pets'') (js ''put'') @ [js ''requestContentType''])
   = getIn (Node []) (request_data (js ''/pets'') (js ''put'') @ [js ''requestContentType''])"
proof -
  obtain e' where e': "oas3_reducer (Node []) (UPDATE_REQUEST_CONTENT_TYPE (js ''application/json'') (js ''/pets'') (js ''post'')) = Some e'"
    using setIn_defined [of "Node []" "request_data (js ''/pets'') (js ''post'') @ [js ''requestContentType'']"
        "Leaf (OStr (js ''application/json''))"]
    by (auto simp: request_data_def child_def)
  from oas3_operations_isolated [OF this, of "js ''/pets''" "js ''post''" "js ''/pets''" "js ''put''"] e'
  show ?thesis by (simp add: inj_js)
qed

section \<open>Editing a form body\<close>

lemma body_loop_append:
  "body_loop f (es @ es') l = (case body_loop f es l of None \<Rightarrow> None | Some l' \<Rightarrow> body_loop f es' l')"
  by (induction f es l rule: body_loop.induct) (auto split: option.splits)

text \<open>An update of a form body enters the last of the given fields; the other fields of the body
  keep their previous value, also those that the same update gives a new one.\<close>

theorem body_update_enters_last_field:
  assumes "oas3_reducer e (UPDATE_REQUEST_BODY_VALUE (Node (es @ [(k, t)])) p m) = Some e'"
    and "getIn (current_body e p m) [k] = None \<or> is_leaf (Some t)" and "k' \<noteq> k"
  shows "getIn e' (body_path p m @ [k, js ''value'']) = Some t
     \<and> getIn e' (body_path p m @ [k']) = getIn (current_body e p m) [k']"
proof -
  let ?f = "current_body e p m"
  obtain l where l: "body_loop ?f (es @ [(k, t)]) (Leaf OUndefined) = Some l" "setIn e (body_path p m) l = Some e'"
    using assms(1) by (auto simp: bind_set_def split: option.splits)
  have "\<not> (getIn ?f [k] \<noteq> None \<and> (case t of Node _ \<Rightarrow> True | Leaf _ \<Rightarrow> False))"
    using assms(2) by (cases t) auto
  then have s: "setIn ?f [k, js ''value''] t = Some l"
    using l(1) by (auto simp: body_loop_append split: option.splits if_splits)
  have "getIn l [k, js ''value''] = Some t" using setIn_same [OF s] .
  moreover have "getIn l [k'] = getIn ?f [k']" by (rule setIn_apart [OF s]) (use assms(3) in auto)
  ultimately show ?thesis using setIn_below [OF l(2)] by simp
qed

theorem body_update_enters_last_field_witness:
  "let e' = the (oas3_reducer (Node []) (UPDATE_REQUEST_BODY_VALUE
        (Node ([(js ''a'', Leaf (OStr (js ''1'')))] @ [(js ''b'', Leaf (OStr (js ''2'')))])) (js ''/p'') (js ''post''))) in
   getIn e' (body_path (js ''/p'') (js ''post'') @ [js ''b'', js ''value'']) = Some (Leaf (OStr (js ''2'')))
   \<and> getIn e' (body_path (js ''/p'') (js ''post'') @ [js ''a'']) = None"
proof -
  let ?a = "UPDATE_REQUEST_BODY_VALUE (Node ([(js ''a'', Leaf (OStr (js ''1'')))] @ [(js ''b'', Leaf (OStr (js ''2'')))])) (js ''/p'') (js ''post'')"
  have c: "current_body (Node []) (js ''/p'') (js ''post'') = Node []"
    by (simp add: current_body_def body_path_def request_data_def getIn_def child_def)
  have n: "\<not> blocked (Some (Node [])) ks" for ks :: "js_string list"
    by (cases ks) (simp_all add: child_def)
  obtain l1 l2 where "setIn (Node []) [js ''a'', js ''value''] (Leaf (OStr (js ''1''))) = Some l1"
    "setIn (Node []) [js ''b'', js ''value''] (Leaf (OStr (js ''2''))) = Some l2"
    using setIn_defined n by blast
  moreover obtain e' where "setIn (Node []) (body_path (js ''/p'') (js ''post'')) l2 = Some e'"
    using setIn_defined n by blast
  ultimately have e': "oas3_reducer (Node []) ?a = Some e'"
    by (simp add: c bind_set_def)
  have "js ''a'' \<noteq> js ''b''" by (simp add: inj_js)
  from body_update_enters_last_field [OF e' _ this]
  show ?thesis unfolding Let_def e' option.sel by (simp add: c)
qed

section \<open>Flagging required fields\<close>

lemma set_errors_of_other:
  assumes "set_errors_of i ts e = Some e'" "q \<noteq> js ''errors''"
  shows "getIn e' [x, q] = getIn e [x, q]"
  using assms(1)
proof (induction i ts e rule: set_errors_of.induct)
  case (2 i t ts e)
  then obtain e1 where e1: "setIn e [t, js ''errors''] (Leaf (OList i)) = Some e1" "set_errors_of i ts e1 = Some e'"
    by (auto split: option.splits)
  have "getIn e1 [x, q] = getIn e [x, q]" by (rule setIn_apart [OF e1(1)]) (use assms(2) in auto)
  with 2(1) e1 show ?case by simp
qed simp

lemma set_errors_of_errors:
  "set_errors_of i ts e = Some e' \<Longrightarrow>
   getIn e' [x, js ''errors''] = (if x \<in> set ts then Some (Leaf (OList i)) else getIn e [x, js ''errors''])"
proof (induction i ts e rule: set_errors_of.induct)
  case (2 i t ts e)
  then obtain e1 where e1: "setIn e [t, js ''errors''] (Leaf (OList i)) = Some e1" "set_errors_of i ts e1 = Some e'"
    by (auto split: option.splits)
  have "getIn e1 [x, js ''errors''] = getIn e [x, js ''errors'']" if "x \<noteq> t"
    by (rule setIn_apart [OF e1(1)]) (use that in auto)
  moreover have "getIn e1 [t, js ''errors''] = Some (Leaf (OList i))" by (rule setIn_same [OF e1(1)])
  ultimately show ?case using 2(1)[OF e1] e1(2) by auto
qed simp

text \<open>A form body: a map whose fields are maps.\<close>

definition form_body :: "oas3_state \<Rightarrow> bool" where
  "form_body v \<longleftrightarrow> \<not> is_leaf (Some v) \<and> (\<forall>x. \<not> is_leaf (getIn v [x]))"

lemma form_body_set:
  assumes "form_body v"
  shows "\<exists>v'. setIn v [t, js ''errors''] (Leaf (OList i)) = Some v' \<and> form_body v'"
proof -
  have "\<not> blocked (Some v) [t, js ''errors'']" using assms by (simp add: form_body_def getIn_def)
  then obtain v' where v': "setIn v [t, js ''errors''] (Leaf (OList i)) = Some v'"
    using setIn_defined by blast
  have below: "getIn v' [t, js ''errors''] = Some (Leaf (OList i))" by (rule setIn_same [OF v'])
  have "\<not> is_leaf (Some n)" if "getIn n (k # ks) \<noteq> None" for n :: oas3_state and k ks
    using that by (cases n) (simp_all add: getIn_def child_def)
  note map_if = this
  have "\<not> is_leaf (Some v')" using map_if [of v' t "[js ''errors'']"] below by simp
  moreover have "\<not> is_leaf (getIn v' [x])" for x
  proof (cases "x = t")
    case True
    have "getIn v' [t] \<noteq> None" using getIn_append_None [of v' "[t]" "[js ''errors'']"] below by auto
    then obtain n where n: "getIn v' [t] = Some n" by blast
    have "getIn n [js ''errors''] = Some (Leaf (OList i))"
      using getIn_append [OF n, of "[js ''errors'']"] below by simp
    with n map_if [of n "js ''errors''" "[]"] True show ?thesis by simp
  next
    case False
    have "getIn v' [x] = getIn v [x]" by (rule setIn_apart [OF v']) (use False in auto)
    with assms show ?thesis by (simp add: form_body_def)
  qed
  ultimately show ?thesis using v' by (auto simp: form_body_def)
qed

lemma set_errors_of_total: "form_body v \<Longrightarrow> \<exists>v'. set_errors_of i ts v = Some v'"
proof (induction ts arbitrary: v)
  case (Cons t ts)
  from form_body_set [OF Cons.prems] obtain v1
    where "setIn v [t, js ''errors''] (Leaf (OList i)) = Some v1" "form_body v1" by blast
  with Cons.IH show ?case by simp
qed simp

lemma setIn_over: "getIn e p \<noteq> None \<Longrightarrow> \<exists>e'. setIn e p t = Some e'"
proof -
  have "get_from n ks \<noteq> None \<Longrightarrow> \<not> blocked n ks" for n :: "'a inode option" and ks
  proof (induction ks arbitrary: n)
    case (Cons k ks)
    then have "child n k \<noteq> None" by (metis get_from_Cons get_from_None)
    then have "\<not> is_leaf n" by (cases n rule: is_leaf.cases) (auto simp: child_def)
    with Cons show ?case by simp
  qed simp
  then show "getIn e p \<noteq> None \<Longrightarrow> \<exists>e'. setIn e p t = Some e'"
    using setIn_defined [of e p t] by (auto simp: getIn_def)
qed

text \<open>When the required-field check finds fields without a value, reporting them succeeds, puts
  the message on exactly those fields, and changes no value, so that the check finds the same
  fields again.\<close>

theorem required_fields_flagged:
  assumes "getIn e (body_path p m) = Some v" and "form_body v"
    and "missing = validateShallowRequired req ct (Some v)" and "missing \<noteq> []"
  shows "\<exists>e' v'. oas3_reducer e (SET_REQUEST_BODY_VALIDATE_ERROR p m False missing) = Some e'
     \<and> getIn e' (body_path p m) = Some v'
     \<and> (\<forall>k. getIn v' [k, js ''errors''] =
            (if k \<in> set missing then Some (Leaf (OList [required_message])) else getIn v [k, js ''errors'']))
     \<and> validateShallowRequired req ct (Some v') = missing"
proof -
  obtain v' where v': "set_errors_of [required_message] missing v = Some v'"
    using set_errors_of_total [OF assms(2)] by blast
  obtain e' where e': "setIn e (body_path p m) v' = Some e'" using setIn_over assms(1) by blast
  have "getIn v' [k, js ''value''] = getIn v [k, js ''value'']" for k
    by (rule set_errors_of_other [OF v']) (simp add: inj_js)
  moreover have "\<exists>f. v' = Node f"
  proof -
    from assms(4) obtain t where "t \<in> set missing" by (cases missing) auto
    then have "getIn v' [t, js ''errors''] \<noteq> None" using set_errors_of_errors [OF v'] by simp
    then show ?thesis by (cases v') (auto simp: getIn_def child_def)
  qed
  moreover have "\<exists>f. v = Node f" using assms(2) by (cases v) (auto simp: form_body_def)
  ultimately have "validateShallowRequired req ct (Some v') = missing"
    using assms(3) by (auto simp: validateShallowRequired_def)
  with v' e' assms setIn_same [OF e'] set_errors_of_errors [OF v'] show ?thesis
    by (auto simp: bind_set_def)
qed

definition sample_body :: oas3_state where
  "sample_body = Node [(js ''name'', Node []), (js ''tag'', Node [(js ''value'', Leaf (OStr (js ''x'')))])]"

definition sample_oas3 :: oas3_state where
  "sample_oas3 = Node [(js ''requestData'', Node [(js ''/p'', Node [(js ''post'', Node [(js ''bodyValue'', sample_body)])])])]"

theorem required_fields_flagged_witness:
  "\<exists>e' v'. oas3_reducer sample_oas3 (SET_REQUEST_BODY_VALIDATE_ERROR (js ''/p'') (js ''post'') False [js ''name'']) = Some e'
     \<and> getIn e' (body_path (js ''/p'') (js ''post'')) = Some v'
     \<and> getIn v' [js ''name'', js ''errors''] = Some (Leaf (OList [required_message]))"
proof -
  have v: "getIn sample_oas3 (body_path (js ''/p'') (js ''post'')) = Some sample_body"
    by (simp add: sample_oas3_def body_path_def request_data_def getIn_def child_def)
  have f: "form_body sample_body"
    by (auto simp: form_body_def sample_body_def getIn_def child_def)
  have m: "[js ''name''] = validateShallowRequired [(js ''form'', [js ''name'', js ''tag''])] (js ''form'') (Some sample_body)"
    by (simp add: validateShallowRequired_def sample_body_def getIn_def child_def node_truthy_def inj_js)
       (simp add: js_simps)
  from required_fields_flagged [OF v f m] show ?thesis by force
qed

end
