(* ===== verification/Swagger_System.thy ===== *)
theory Swagger_System
  imports Js_Immutable
begin

text \<open>
  The plugin system of the Swagger UI (\<open>swagger-ui-bundle.js\<close>): how plugins are combined and
  merged into the system object, how the actions of a plugin are wrapped by those registered after
  it, how an action creator that throws is turned into an error action, and how the reducers of
  all plugins form the reducer of the store.
\<close>

section \<open>Plugin objects\<close>

text \<open>
  A plugin is a tree of objects whose leaves are mostly functions; \<open>'f\<close> are the functions, known
  by identity only.
\<close>

datatype js_prim = PUndefined | PNull | PBool bool | PNumber js_string | PText js_string

datatype 'f pval = Fn 'f | Prim js_prim | Arr "'f pval list" | Obj "(js_string \<times> 'f pval) list"

type_synonym 'f object = "(js_string \<times> 'f pval) list"

text \<open>A number is known by the text it prints as.\<close>

fun value_truthy :: "'f pval \<Rightarrow> bool" where
  "value_truthy (Prim PUndefined) = False"
| "value_truthy (Prim PNull) = False"
| "value_truthy (Prim (PBool b)) = b"
| "value_truthy (Prim (PNumber t)) = (t \<notin> {js ''0'', js ''NaN''})"
| "value_truthy (Prim (PText t)) = (t \<noteq> [])"
| "value_truthy _ = True"

fun fields :: "'f pval option \<Rightarrow> 'f object" where
  "fields (Some (Obj m)) = m"
| "fields _ = []"

text \<open>Reading and assigning own properties along a path; assigning below something that is no
  object throws.\<close>

fun get_path :: "'f pval \<Rightarrow> js_string list \<Rightarrow> 'f pval option" where
  "get_path e [] = Some e"
| "get_path e (k # ks) = (case map_of (fields (Some e)) k of None \<Rightarrow> None | Some x \<Rightarrow> get_path x ks)"

fun put_path :: "'f pval \<Rightarrow> js_string list \<Rightarrow> 'f pval \<Rightarrow> 'f pval option" where
  "put_path e [] v = Some v"
| "put_path (Obj m) (k # ks) v =
     (case (case map_of m k of None \<Rightarrow> (if ks = [] then Some v else None) | Some x \<Rightarrow> put_path x ks v) of
        None \<Rightarrow> None
      | Some x \<Rightarrow> Some (Obj (alist_put k x m)))"
| "put_path e (k # ks) v = None"

section \<open>Copying and merging\<close>

text \<open>The deep copy of \<open>object-assign-deep\<close>; an own property \<open>__proto__\<close> is not copied as one.\<close>

fun clone :: "'f pval \<Rightarrow> 'f pval" and clone_fields :: "'f object \<Rightarrow> 'f object" where
  "clone (Obj m) = Obj (clone_fields m)"
| "clone (Arr xs) = Arr (map clone xs)"
| "clone (Fn f) = Fn f"
| "clone (Prim p) = Prim p"
| "clone_fields [] = []"
| "clone_fields ((k, v) # m) = (if k = js ''__proto__'' then clone_fields m else (k, clone v) # clone_fields m)"

text \<open>
  \<open>deep-extend\<close>: objects are merged property by property, everything else replaces what the target
  has.  \<open>extended t e\<close> is the new value of a property whose old value is \<open>t\<close>.
\<close>

function (sequential) deepExtend :: "'f object \<Rightarrow> 'f object \<Rightarrow> 'f object"
  and extended :: "'f pval option \<Rightarrow> 'f pval \<Rightarrow> 'f pval" where
  "deepExtend s [] = s"
| "deepExtend s ((c, e) # u) = deepExtend (obj_put c (extended (obj_get s c) e) s) u"
| "extended t (Obj m) = Obj (deepExtend (fields t) m)"
| "extended t (Arr xs) = Arr (map (extended None) xs)"
| "extended t (Fn f) = Fn f"
| "extended t (Prim p) = Prim p"
  by pat_completeness auto

termination
proof (relation "measure (case_sum (\<lambda>(s, u). 2 * size (Obj u)) (\<lambda>(t, e). 2 * size e + 1))", goal_cases)
  case (5 t xs x)
  then have "size x \<le> size_list size xs" by (intro size_list_estimation') auto
  then show ?case by simp
qed simp_all

section \<open>Combining plugins\<close>

definition assign :: "'f object \<Rightarrow> js_string list \<Rightarrow> 'f pval \<Rightarrow> 'f object" where
  "assign e ks v = (case put_path (Obj e) ks v of Some (Obj m) \<Rightarrow> m | _ \<Rightarrow> e)"

definition as_list :: "'f pval \<Rightarrow> 'f pval list" where
  "as_list c = (case c of Arr xs \<Rightarrow> xs | _ \<Rightarrow> [c])"

definition wrapper_path :: "js_string \<Rightarrow> js_string \<Rightarrow> js_string list" where
  "wrapper_path r i = [js ''statePlugins'', r, js ''wrapActions'', i]"

text \<open>
  The wrappers of components: those whose component the system already has are appended to it and
  taken out of the plugin, the others stay.
\<close>

definition wrap_component :: "js_string \<Rightarrow> 'f pval \<Rightarrow> 'f object \<Rightarrow> 'f object option" where
  "wrap_component r n e =
     (let p = [js ''components'', r] in
      case get_path (Obj e) p of
        None \<Rightarrow> None
      | Some (Arr xs) \<Rightarrow> Some (assign e p (Arr (xs @ [n])))
      | Some x \<Rightarrow> if value_truthy x then Some (assign e p (Arr [x, n])) else None)"

fun wrap_components :: "'f object \<Rightarrow> 'f object \<Rightarrow> 'f object \<times> 'f object" where
  "wrap_components [] e = (e, [])"
| "wrap_components ((r, n) # w) e =
     (case wrap_component r n e of
        Some e1 \<Rightarrow> wrap_components w e1
      | None \<Rightarrow> (case wrap_components w e of (e', w') \<Rightarrow> (e', (r, n) # w')))"

text \<open>
  The wrappers of actions: those of the system become arrays, and are put before those that the new
  plugin has for the same action.
\<close>

fun wrap_action_loop :: "js_string \<Rightarrow> 'f object \<Rightarrow> 'f object \<times> 'f object \<Rightarrow> 'f object \<times> 'f object" where
  "wrap_action_loop r [] (e, t) = (e, t)"
| "wrap_action_loop r ((i, c) # a) (e, t) =
     wrap_action_loop r a
       (assign e (wrapper_path r i) (Arr (as_list c)),
        case get_path (Obj t) (wrapper_path r i) of
          None \<Rightarrow> t
        | Some w \<Rightarrow> if value_truthy w then assign t (wrapper_path r i) (Arr (as_list c @ as_list w)) else t)"

fun plugin_loop :: "'f object \<Rightarrow> 'f object \<times> 'f object \<Rightarrow> 'f object \<times> 'f object" where
  "plugin_loop [] et = et"
| "plugin_loop ((r, Obj m) # n) et = plugin_loop n (wrap_action_loop r (fields (map_of m (js ''wrapActions''))) et)"
| "plugin_loop ((r, x) # n) et = plugin_loop n et"

definition merge_components :: "'f object \<Rightarrow> 'f object \<Rightarrow> 'f object \<times> 'f object" where
  "merge_components e t =
     (case map_of t (js ''wrapComponents'') of
        Some (Obj ws) \<Rightarrow>
          (case wrap_components ws e of (e', ws') \<Rightarrow>
             (e', if ws' = [] then alist_drop (js ''wrapComponents'') t
                  else alist_put (js ''wrapComponents'') (Obj ws') t))
      | _ \<Rightarrow> (e, t))"

definition systemExtend :: "'f object \<Rightarrow> 'f object \<Rightarrow> 'f object" where
  "systemExtend e t =
     (case merge_components e t of (e1, t1) \<Rightarrow>
        case plugin_loop (fields (map_of e1 (js ''statePlugins''))) (e1, t1) of (e2, t2) \<Rightarrow> deepExtend e2 t2)"

text \<open>A plugin is an object, a list of plugins, or a function of the toolbox that gives a plugin.\<close>

datatype ('f, 's) plugin =
    PObject "'f object"
  | PList "('f, 's) plugin list"
  | PFunction "'s \<Rightarrow> ('f, 's) plugin"
  | POther

primrec combinePlugins :: "('f, 's) plugin \<Rightarrow> 's \<Rightarrow> 'f object" where
  "combinePlugins (PObject m) = (\<lambda>s. clone_fields m)"
| "combinePlugins (PList ps) = (\<lambda>s. foldl systemExtend [] (map (\<lambda>p. p s) (map combinePlugins ps)))"
| "combinePlugins (PFunction f) = (\<lambda>s. (combinePlugins \<circ> f) s s)"
| "combinePlugins POther = (\<lambda>s. [])"

definition register :: "'f object \<Rightarrow> ('f, 's) plugin \<Rightarrow> 's \<Rightarrow> 'f object" where
  "register system plugins toolbox = systemExtend system (combinePlugins plugins toolbox)"

text \<open>What wraps an action: \<open>getWrappedAndBoundActions\<close> takes the list, or one wrapper alone.\<close>

definition wrappers :: "'f object \<Rightarrow> js_string \<Rightarrow> js_string \<Rightarrow> 'f pval list" where
  "wrappers e r i =
     (case get_path (Obj e) (wrapper_path r i) of
        None \<Rightarrow> []
      | Some w \<Rightarrow> if value_truthy w then as_list w else [])"

section \<open>Lookups after a merge\<close>

lemma deepExtend_lookup:
  "distinct (map fst u) \<Longrightarrow> map_of (deepExtend s u) c =
     (if c = js ''__proto__'' then map_of s c
      else case map_of u c of None \<Rightarrow> map_of s c | Some e \<Rightarrow> Some (extended (map_of s c) e))"
proof (induction u arbitrary: s)
  case (Cons x u)
  obtain k e where x: "x = (k, e)" by fastforce
  with Cons.prems have "map_of u k = None" by (simp add: map_of_eq_None_iff)
  then show ?case using Cons x by (auto simp: obj_put_def obj_get_def split: option.split)
qed simp

lemma deepExtend_distinct: "distinct (map fst s) \<Longrightarrow> distinct (map fst (deepExtend s u))"
proof (induction u arbitrary: s)
  case (Cons x u)
  then show ?case by (cases x) (simp add: obj_put_def distinct_alist_put)
qed simp

lemma map_of_clone_fields:
  "map_of (clone_fields m) k = (if k = js ''__proto__'' then None else map_option clone (map_of m k))"
  by (induction m) auto

lemma keys_clone_fields: "fst ` set (clone_fields m) = fst ` set m - {js ''__proto__''}"
proof (induction m)
  case (Cons x m)
  then show ?case by (cases x; cases "fst x = js ''__proto__''") auto
qed simp

lemma distinct_clone_fields: "distinct (map fst m) \<Longrightarrow> distinct (map fst (clone_fields m))"
proof (induction m)
  case (Cons x m)
  then show ?case by (cases x; cases "fst x = js ''__proto__''") (auto simp: keys_clone_fields)
qed simp

section \<open>Well-formed plugins\<close>

text \<open>
  What the plugin interface documents: \<open>statePlugins\<close> is an object of objects, its \<open>wrapActions\<close> are
  objects of functions or lists of functions, and no object has a key twice.
\<close>

fun is_fn :: "'f pval \<Rightarrow> bool" where
  "is_fn (Fn f) = True"
| "is_fn _ = False"

fun wrapper_ok :: "'f pval \<Rightarrow> bool" where
  "wrapper_ok (Fn f) = True"
| "wrapper_ok (Arr xs) = list_all is_fn xs"
| "wrapper_ok _ = False"

definition table_ok :: "('f pval \<Rightarrow> bool) \<Rightarrow> 'f pval \<Rightarrow> bool" where
  "table_ok P v = (case v of Obj a \<Rightarrow> distinct (map fst a) \<and> list_all (\<lambda>(k, x). P x) a | _ \<Rightarrow> False)"

definition field_ok :: "js_string \<Rightarrow> ('f pval \<Rightarrow> bool) \<Rightarrow> 'f pval \<Rightarrow> bool" where
  "field_ok k P v = (case v of Obj a \<Rightarrow> distinct (map fst a) \<and> pred_option P (map_of a k) | _ \<Rightarrow> False)"

definition proper :: "'f object \<Rightarrow> bool" where
  "proper e = field_ok (js ''statePlugins'')
     (table_ok (field_ok (js ''wrapActions'') (table_ok wrapper_ok))) (Obj e)"

lemma extended_wrapper: "wrapper_ok w \<Longrightarrow> extended t w = w"
proof (cases w)
  case (Arr xs)
  have "list_all is_fn xs \<Longrightarrow> map (extended None) xs = xs"
    by (induction xs) (auto elim!: is_fn.elims)
  then show "wrapper_ok w \<Longrightarrow> extended t w = w" using Arr by simp
qed simp_all

lemma clone_wrapper: "wrapper_ok w \<Longrightarrow> clone w = w"
proof (cases w)
  case (Arr xs)
  have "list_all is_fn xs \<Longrightarrow> map clone xs = xs"
    by (induction xs) (auto elim!: is_fn.elims)
  then show "wrapper_ok w \<Longrightarrow> clone w = w" using Arr by simp
qed simp_all

text \<open>Tables in terms of lookups.\<close>

lemma table_ok_iff:
  "table_ok P v \<longleftrightarrow> (\<exists>a. v = Obj a \<and> distinct (map fst a) \<and> (\<forall>k x. map_of a k = Some x \<longrightarrow> P x))"
  by (cases v) (auto simp: table_ok_def list_all_iff)

lemma field_ok_iff:
  "field_ok k P v \<longleftrightarrow> (\<exists>a. v = Obj a \<and> distinct (map fst a) \<and> (\<forall>x. map_of a k = Some x \<longrightarrow> P x))"
  by (cases v) (auto simp: field_ok_def option.pred_set simp del: map_of_eq_Some_iff)

lemma table_ok_extended:
  assumes "table_ok P v" and "\<And>x. t = Some x \<Longrightarrow> table_ok P x"
    and "\<And>x y. P x \<Longrightarrow> (\<And>z. y = Some z \<Longrightarrow> P z) \<Longrightarrow> P (extended y x)"
  shows "table_ok P (extended t v)"
proof -
  obtain a where a: "v = Obj a" "distinct (map fst a)" "\<And>k x. map_of a k = Some x \<Longrightarrow> P x"
    using assms(1) table_ok_iff by blast
  have f: "distinct (map fst (fields t)) \<and> (\<forall>k x. map_of (fields t) k = Some x \<longrightarrow> P x)"
  proof (cases t)
    case (Some x)
    with assms(2) obtain b where "x = Obj b" "distinct (map fst b)" "\<And>k y. map_of b k = Some y \<Longrightarrow> P y"
      using table_ok_iff by blast
    with Some show ?thesis by simp
  qed simp
  have "P y" if "map_of (deepExtend (fields t) a) k = Some y" for k y
    using that f a(3) assms(3)
    by (auto simp: deepExtend_lookup [OF a(2)] simp del: map_of_eq_Some_iff split: if_splits option.splits)
  with f a show ?thesis by (auto simp: table_ok_iff deepExtend_distinct)
qed

lemma field_ok_extended:
  assumes "field_ok k P v" and "\<And>x. t = Some x \<Longrightarrow> field_ok k P x"
    and "\<And>x y. P x \<Longrightarrow> (\<And>z. y = Some z \<Longrightarrow> P z) \<Longrightarrow> P (extended y x)"
  shows "field_ok k P (extended t v)"
proof -
  obtain a where a: "v = Obj a" "distinct (map fst a)" "\<And>x. map_of a k = Some x \<Longrightarrow> P x"
    using assms(1) field_ok_iff by blast
  have f: "distinct (map fst (fields t)) \<and> (\<forall>x. map_of (fields t) k = Some x \<longrightarrow> P x)"
  proof (cases t)
    case (Some x)
    with assms(2) obtain b where "x = Obj b" "distinct (map fst b)" "\<And>y. map_of b k = Some y \<Longrightarrow> P y"
      using field_ok_iff by blast
    with Some show ?thesis by simp
  qed simp
  have "P y" if "map_of (deepExtend (fields t) a) k = Some y" for y
    using that f a(3) assms(3)
    by (auto simp: deepExtend_lookup [OF a(2)] simp del: map_of_eq_Some_iff split: if_splits option.splits)
  with f a show ?thesis by (auto simp: field_ok_iff deepExtend_distinct)
qed

section \<open>Assigning wrappers\<close>

lemma get_wrapper:
  "get_path (Obj e) (wrapper_path r i) = Some x \<longleftrightarrow>
   (\<exists>n m a. map_of e (js ''statePlugins'') = Some (Obj n) \<and> map_of n r = Some (Obj m)
      \<and> map_of m (js ''wrapActions'') = Some (Obj a) \<and> map_of a i = Some x)"
proof -
  have "map_of (fields (Some v)) k = Some x \<longleftrightarrow> (\<exists>m. v = Obj m \<and> map_of m k = Some x)" for v :: "'a pval" and k x
    by (cases v) auto
  then show ?thesis
    by (auto simp: wrapper_path_def simp del: map_of_eq_Some_iff split: option.splits)
qed

lemma assign_wrapper_eq:
  assumes "map_of e (js ''statePlugins'') = Some (Obj n)" "map_of n r = Some (Obj m)"
    "map_of m (js ''wrapActions'') = Some (Obj a)" "map_of a i = Some x"
  shows "assign e (wrapper_path r i) v =
     alist_put (js ''statePlugins'') (Obj (alist_put r (Obj (alist_put (js ''wrapActions'') (Obj (alist_put i v a)) m)) n)) e"
  using assms by (simp add: assign_def wrapper_path_def del: map_of_eq_Some_iff)

lemma assign_wrapper_get:
  assumes "get_path (Obj e) (wrapper_path r i) = Some x"
  shows "get_path (Obj (assign e (wrapper_path r i) v)) (wrapper_path r' i') =
     (if r' = r \<and> i' = i then Some v else get_path (Obj e) (wrapper_path r' i'))"
proof -
  obtain n m a where *: "map_of e (js ''statePlugins'') = Some (Obj n)" "map_of n r = Some (Obj m)"
    "map_of m (js ''wrapActions'') = Some (Obj a)" "map_of a i = Some x"
    using assms get_wrapper by blast
  show ?thesis unfolding assign_wrapper_eq [OF *]
    using * by (auto simp: wrapper_path_def simp del: map_of_eq_Some_iff)
qed

lemma assign_wrapper_proper:
  assumes "get_path (Obj e) (wrapper_path r i) = Some x" "proper e" "wrapper_ok v"
  shows "proper (assign e (wrapper_path r i) v)"
proof -
  obtain n m a where *: "map_of e (js ''statePlugins'') = Some (Obj n)" "map_of n r = Some (Obj m)"
    "map_of m (js ''wrapActions'') = Some (Obj a)" "map_of a i = Some x"
    using assms(1) get_wrapper by blast
  have e: "distinct (map fst e)" "table_ok (field_ok (js ''wrapActions'') (table_ok wrapper_ok)) (Obj n)"
    using assms(2) *(1) by (auto simp: proper_def field_ok_iff simp del: map_of_eq_Some_iff)
  then have n: "distinct (map fst n)" "field_ok (js ''wrapActions'') (table_ok wrapper_ok) (Obj m)"
    using *(2) by (auto simp: table_ok_iff simp del: map_of_eq_Some_iff)
  then have m: "distinct (map fst m)" "table_ok wrapper_ok (Obj a)"
    using *(3) by (auto simp: field_ok_iff simp del: map_of_eq_Some_iff)
  have "table_ok wrapper_ok (Obj (alist_put i v a))"
    using m(2) assms(3) by (auto simp: table_ok_iff distinct_alist_put simp del: map_of_eq_Some_iff)
  with m(1) have "field_ok (js ''wrapActions'') (table_ok wrapper_ok) (Obj (alist_put (js ''wrapActions'') (Obj (alist_put i v a)) m))"
    by (auto simp: field_ok_iff distinct_alist_put simp del: map_of_eq_Some_iff)
  with e(2) n(1) have "table_ok (field_ok (js ''wrapActions'') (table_ok wrapper_ok))
      (Obj (alist_put r (Obj (alist_put (js ''wrapActions'') (Obj (alist_put i v a)) m)) n))"
    by (auto simp: table_ok_iff distinct_alist_put simp del: map_of_eq_Some_iff)
  with e(1) show ?thesis unfolding assign_wrapper_eq [OF *]
    by (auto simp: proper_def field_ok_iff distinct_alist_put simp del: map_of_eq_Some_iff)
qed

lemma proper_wrapper:
  assumes "proper e" "get_path (Obj e) (wrapper_path r i) = Some w"
  shows "wrapper_ok w"
  using assms by (fastforce simp: get_wrapper proper_def field_ok_iff table_ok_iff simp del: map_of_eq_Some_iff)

lemma wrapper_ok_truthy: "wrapper_ok w \<Longrightarrow> value_truthy w"
  by (cases w) auto

lemma wrapper_ok_list: "wrapper_ok w \<Longrightarrow> list_all is_fn (as_list w)"
  by (cases w) (auto simp: as_list_def)

lemma wrappers_proper:
  "proper e \<Longrightarrow> wrappers e r i = (case get_path (Obj e) (wrapper_path r i) of None \<Rightarrow> [] | Some w \<Rightarrow> as_list w)"
  by (auto simp: wrappers_def proper_wrapper wrapper_ok_truthy split: option.split)

section \<open>The loops over the wrappers\<close>

lemma wrap_action_loop_spec:
  assumes "distinct (map fst a)" "proper e" "proper t"
    and "\<And>i c. (i, c) \<in> set a \<Longrightarrow> get_path (Obj e) (wrapper_path r i) = Some c"
  shows "case wrap_action_loop r a (e, t) of (e', t') \<Rightarrow>
     proper e' \<and> proper t'
     \<and> (\<forall>r' i. get_path (Obj e') (wrapper_path r' i) =
           (if r' = r \<and> i \<in> fst ` set a then map_option (\<lambda>c. Arr (as_list c)) (map_of a i)
            else get_path (Obj e) (wrapper_path r' i)))
     \<and> (\<forall>r' i. get_path (Obj t') (wrapper_path r' i) =
           (if r' = r \<and> i \<in> fst ` set a
            then map_option (\<lambda>w. Arr (as_list (the (map_of a i)) @ as_list w)) (get_path (Obj t) (wrapper_path r' i))
            else get_path (Obj t) (wrapper_path r' i)))"
  using assms
proof (induction r a "(e, t)" arbitrary: e t rule: wrap_action_loop.induct)
  case (2 r i c a e t)
  have c: "get_path (Obj e) (wrapper_path r i) = Some c" using 2(5) by simp
  then have ok: "wrapper_ok c" using 2(3) proper_wrapper by blast
  let ?e = "assign e (wrapper_path r i) (Arr (as_list c))"
  let ?t = "case get_path (Obj t) (wrapper_path r i) of None \<Rightarrow> t
        | Some w \<Rightarrow> if value_truthy w then assign t (wrapper_path r i) (Arr (as_list c @ as_list w)) else t"
  have e: "proper ?e" using assign_wrapper_proper [OF c 2(3)] wrapper_ok_list [OF ok] by simp
  have t: "proper ?t \<and> (\<forall>r' i'. get_path (Obj ?t) (wrapper_path r' i') =
      (if r' = r \<and> i' = i then map_option (\<lambda>w. Arr (as_list c @ as_list w)) (get_path (Obj t) (wrapper_path r' i'))
       else get_path (Obj t) (wrapper_path r' i')))"
  proof (cases "get_path (Obj t) (wrapper_path r i)")
    case None
    with 2(4) show ?thesis by simp
  next
    case (Some w)
    then have w: "wrapper_ok w" using 2(4) proper_wrapper by blast
    have "wrapper_ok (Arr (as_list c @ as_list w))" using wrapper_ok_list [OF ok] wrapper_ok_list [OF w] by simp
    from assign_wrapper_proper [OF Some 2(4) this] show ?thesis
      using Some wrapper_ok_truthy [OF w] assign_wrapper_get [OF Some, of "Arr (as_list c @ as_list w)"] by simp
  qed
  have dist: "distinct (map fst a)" "i \<notin> fst ` set a" using 2(2) by auto
  define e1 where "e1 = ?e"
  define t1 where "t1 = ?t"
  have g: "get_path (Obj e1) (wrapper_path r' i') =
      (if r' = r \<and> i' = i then Some (Arr (as_list c)) else get_path (Obj e) (wrapper_path r' i'))" for r' i'
    using assign_wrapper_get [OF c] by (simp add: e1_def)
  have t1: "proper t1" "get_path (Obj t1) (wrapper_path r' i') =
      (if r' = r \<and> i' = i then map_option (\<lambda>w. Arr (as_list c @ as_list w)) (get_path (Obj t) (wrapper_path r' i'))
       else get_path (Obj t) (wrapper_path r' i'))" for r' i'
    using t unfolding t1_def by blast+
  have e1: "proper e1" using e by (simp add: e1_def)
  have "get_path (Obj e1) (wrapper_path r i') = Some c'" if "(i', c') \<in> set a" for i' c'
    using that dist(2) 2(5) [of i' c'] g by force
  from 2(1) [OF dist(1) e1 [unfolded e1_def] t1(1) [unfolded t1_def] this [unfolded e1_def]]
  have IH: "case wrap_action_loop r a (e1, t1) of (e', t') \<Rightarrow>
     proper e' \<and> proper t'
     \<and> (\<forall>r' i. get_path (Obj e') (wrapper_path r' i) =
           (if r' = r \<and> i \<in> fst ` set a then map_option (\<lambda>c. Arr (as_list c)) (map_of a i)
            else get_path (Obj e1) (wrapper_path r' i)))
     \<and> (\<forall>r' i. get_path (Obj t') (wrapper_path r' i) =
           (if r' = r \<and> i \<in> fst ` set a
            then map_option (\<lambda>w. Arr (as_list (the (map_of a i)) @ as_list w)) (get_path (Obj t1) (wrapper_path r' i))
            else get_path (Obj t1) (wrapper_path r' i)))" unfolding e1_def t1_def .
  obtain e' t' where l: "wrap_action_loop r a (e1, t1) = (e', t')" by fastforce
  have step: "wrap_action_loop r ((i, c) # a) (e, t) = (e', t')" using l by (simp add: e1_def t1_def)
  show ?case unfolding step prod.case
    using IH [unfolded l prod.case] dist(2) by (auto simp: g t1(2) map_of_eq_None_iff simp del: map_of_eq_Some_iff)
qed simp

definition actions_of :: "'f pval \<Rightarrow> 'f object" where
  "actions_of v = fields (map_of (fields (Some v)) (js ''wrapActions''))"

lemma plugin_loop_Cons: "plugin_loop ((r, v) # n) et = plugin_loop n (wrap_action_loop r (actions_of v) et)"
  by (cases v; cases et) (simp_all add: actions_of_def)

lemma plugin_loop_spec:
  assumes "distinct (map fst n)" "proper e" "proper t"
    and "\<And>r v. (r, v) \<in> set n \<Longrightarrow> distinct (map fst (actions_of v))
           \<and> (\<forall>i. get_path (Obj e) (wrapper_path r i) = map_of (actions_of v) i)"
  shows "case plugin_loop n (e, t) of (e', t') \<Rightarrow>
     proper e' \<and> proper t'
     \<and> (\<forall>r i. get_path (Obj e') (wrapper_path r i) =
           (if r \<in> fst ` set n then map_option (\<lambda>c. Arr (as_list c)) (get_path (Obj e) (wrapper_path r i))
            else get_path (Obj e) (wrapper_path r i)))
     \<and> (\<forall>r i. get_path (Obj t') (wrapper_path r i) =
           (if r \<in> fst ` set n \<and> get_path (Obj e) (wrapper_path r i) \<noteq> None
            then map_option (\<lambda>w. Arr (as_list (the (get_path (Obj e) (wrapper_path r i))) @ as_list w)) (get_path (Obj t) (wrapper_path r i))
            else get_path (Obj t) (wrapper_path r i)))"
  using assms
proof (induction n arbitrary: e t)
  case (Cons x n)
  obtain r v where x: "x = (r, v)" by fastforce
  have v: "distinct (map fst (actions_of v))" "\<And>i. get_path (Obj e) (wrapper_path r i) = map_of (actions_of v) i"
    using Cons.prems(4) [of r v] x by simp_all
  have keys: "i \<in> fst ` set (actions_of v) \<longleftrightarrow> get_path (Obj e) (wrapper_path r i) \<noteq> None" for i
    by (simp add: v(2) map_of_eq_None_iff)
  obtain e1 t1 where l: "wrap_action_loop r (actions_of v) (e, t) = (e1, t1)" by fastforce
  have "\<And>i c. (i, c) \<in> set (actions_of v) \<Longrightarrow> get_path (Obj e) (wrapper_path r i) = Some c"
    using v by simp
  from wrap_action_loop_spec [OF v(1) Cons.prems(2,3) this] l
  have et: "proper e1" "proper t1"
    and ge: "\<And>r' i. get_path (Obj e1) (wrapper_path r' i) =
        (if r' = r then map_option (\<lambda>c. Arr (as_list c)) (get_path (Obj e) (wrapper_path r' i))
         else get_path (Obj e) (wrapper_path r' i))"
    and gt: "\<And>r' i. get_path (Obj t1) (wrapper_path r' i) =
        (if r' = r \<and> get_path (Obj e) (wrapper_path r i) \<noteq> None
         then map_option (\<lambda>w. Arr (as_list (the (get_path (Obj e) (wrapper_path r i))) @ as_list w)) (get_path (Obj t) (wrapper_path r' i))
         else get_path (Obj t) (wrapper_path r' i))"
    unfolding keys by (auto simp: v(2) [symmetric] simp del: map_of_eq_Some_iff)
  have dist: "distinct (map fst n)" "r \<notin> fst ` set n" using Cons.prems(1) x by auto
  have rest: "distinct (map fst (actions_of v')) \<and> (\<forall>i. get_path (Obj e1) (wrapper_path r' i) = map_of (actions_of v') i)"
    if "(r', v') \<in> set n" for r' v'
  proof -
    have "r' \<noteq> r" using that dist(2) by force
    with Cons.prems(4) [of r' v'] that ge x show ?thesis by simp
  qed
  obtain e' t' where l': "plugin_loop n (e1, t1) = (e', t')" by fastforce
  have step: "plugin_loop (x # n) (e, t) = (e', t')" using l l' by (simp add: x plugin_loop_Cons)
  note IH = Cons.IH [OF dist(1) et, unfolded l' prod.case]
  have *: "proper e'" "proper t'"
      "get_path (Obj e') (wrapper_path r i) =
           (if r \<in> fst ` set n then map_option (\<lambda>c. Arr (as_list c)) (get_path (Obj e1) (wrapper_path r i))
            else get_path (Obj e1) (wrapper_path r i))"
      "get_path (Obj t') (wrapper_path r i) =
           (if r \<in> fst ` set n \<and> get_path (Obj e1) (wrapper_path r i) \<noteq> None
            then map_option (\<lambda>w. Arr (as_list (the (get_path (Obj e1) (wrapper_path r i))) @ as_list w)) (get_path (Obj t1) (wrapper_path r i))
            else get_path (Obj t1) (wrapper_path r i))" for r i
    using IH rest by blast+
  show ?case unfolding step prod.case
    using *(1,2) dist(2) by (auto simp: *(3,4) ge gt x)
qed simp

section \<open>Wrappers after a merge\<close>

definition look :: "'f pval option \<Rightarrow> js_string \<Rightarrow> 'f pval option" where
  "look t k = map_of (fields t) k"

definition ext :: "'f pval option \<Rightarrow> 'f pval option \<Rightarrow> 'f pval option" where
  "ext t v = (case v of None \<Rightarrow> t | Some x \<Rightarrow> Some (extended t x))"

lemma get_wrapper_look:
  "get_path (Obj e) (wrapper_path r i) =
     look (look (look (look (Some (Obj e)) (js ''statePlugins'')) r) (js ''wrapActions'')) i"
  by (simp add: wrapper_path_def look_def split: option.split)

lemma look_ext:
  assumes "v = None \<or> (\<exists>a. v = Some (Obj a) \<and> distinct (map fst a))" "k \<noteq> js ''__proto__''"
  shows "look (ext t v) k = ext (look t k) (look v k)"
  using assms by (auto simp: look_def ext_def deepExtend_lookup split: option.split)

lemma ext_wrapper: "v = None \<or> (\<exists>w. v = Some w \<and> wrapper_ok w) \<Longrightarrow> ext t v = (case v of None \<Rightarrow> t | Some w \<Rightarrow> Some w)"
  by (auto simp: ext_def extended_wrapper)

lemma table_ok_obj: "table_ok P v \<Longrightarrow> \<exists>a. v = Obj a \<and> distinct (map fst a)"
  by (auto simp: table_ok_iff)

lemma field_ok_obj: "field_ok k P v \<Longrightarrow> \<exists>a. v = Obj a \<and> distinct (map fst a)"
  by (auto simp: field_ok_iff)

lemma deepExtend_wrapper:
  assumes t: "proper t" and "r \<noteq> js ''__proto__''" "i \<noteq> js ''__proto__''"
  shows "get_path (Obj (deepExtend e t)) (wrapper_path r i) =
     (case get_path (Obj t) (wrapper_path r i) of None \<Rightarrow> get_path (Obj e) (wrapper_path r i) | Some w \<Rightarrow> Some w)"
proof -
  let ?sp = "look (Some (Obj t)) (js ''statePlugins'')"
  let ?wa = "look (look ?sp r) (js ''wrapActions'')"
  have 0: "distinct (map fst t)" "\<And>x. ?sp = Some x \<Longrightarrow> table_ok (field_ok (js ''wrapActions'') (table_ok wrapper_ok)) x"
    using t by (auto simp: proper_def field_ok_iff look_def simp del: map_of_eq_Some_iff)
  then have 1: "\<And>x. look ?sp r = Some x \<Longrightarrow> field_ok (js ''wrapActions'') (table_ok wrapper_ok) x"
    by (cases ?sp) (auto simp: table_ok_iff look_def simp del: map_of_eq_Some_iff)
  then have 2: "\<And>x. ?wa = Some x \<Longrightarrow> table_ok wrapper_ok x"
    by (cases "look ?sp r") (auto simp: field_ok_iff look_def simp del: map_of_eq_Some_iff)
  then have 3: "\<And>w. look ?wa i = Some w \<Longrightarrow> wrapper_ok w"
    by (cases ?wa) (auto simp: table_ok_iff look_def simp del: map_of_eq_Some_iff)
  have d: "Some (Obj (deepExtend e t)) = ext (Some (Obj e)) (Some (Obj t))" by (simp add: ext_def)
  have objs: "?sp = None \<or> (\<exists>a. ?sp = Some (Obj a) \<and> distinct (map fst a))"
    "look ?sp r = None \<or> (\<exists>a. look ?sp r = Some (Obj a) \<and> distinct (map fst a))"
    "?wa = None \<or> (\<exists>a. ?wa = Some (Obj a) \<and> distinct (map fst a))"
    using table_ok_obj [OF 0(2)] field_ok_obj [OF 1] table_ok_obj [OF 2] by (metis option.exhaust)+
  have "js ''statePlugins'' \<noteq> js ''__proto__''" "js ''wrapActions'' \<noteq> js ''__proto__''" by (simp_all add: inj_js)
  then show ?thesis
    using 0(1) 3 assms(2,3) objs
    unfolding get_wrapper_look d by (cases "look ?wa i") (simp_all add: look_ext ext_wrapper)
qed

lemma deepExtend_proper:
  assumes "proper e" "proper t"
  shows "proper (deepExtend e t)"
proof -
  have "field_ok (js ''statePlugins'') (table_ok (field_ok (js ''wrapActions'') (table_ok wrapper_ok)))
      (extended (Some (Obj e)) (Obj t))"
    by (rule field_ok_extended)
       (use assms in \<open>auto simp: proper_def extended_wrapper intro!: table_ok_extended field_ok_extended\<close>)
  then show ?thesis by (simp add: proper_def)
qed

lemma assign_other: "k' \<noteq> k \<Longrightarrow> map_of (assign e (k # ks) v) k' = map_of e k'"
  by (auto simp: assign_def split: option.splits pval.splits)

lemma assign_distinct: "distinct (map fst e) \<Longrightarrow> distinct (map fst (assign e (k # ks) v))"
  by (auto simp: assign_def distinct_alist_put split: option.splits pval.splits)

lemma wrap_component_other:
  "wrap_component r n e = Some e' \<Longrightarrow> (k \<noteq> js ''components'' \<longrightarrow> map_of e' k = map_of e k)
     \<and> (distinct (map fst e) \<longrightarrow> distinct (map fst e'))"
  unfolding wrap_component_def Let_def
  by (auto simp: assign_other assign_distinct simp del: get_path.simps split: option.splits pval.splits if_splits)

lemma wrap_components_other:
  "(k \<noteq> js ''components'' \<longrightarrow> map_of (fst (wrap_components w e)) k = map_of e k)
     \<and> (distinct (map fst e) \<longrightarrow> distinct (map fst (fst (wrap_components w e))))"
proof (induction w arbitrary: e)
  case (Cons x w)
  obtain r n where x: "x = (r, n)" by fastforce
  show ?case
  proof (cases "wrap_component r n e")
    case None
    then show ?thesis using Cons [of e] by (cases "wrap_components w e") (simp add: x)
  next
    case (Some e1)
    then show ?thesis using Cons [of e1] wrap_component_other [OF Some, of k] by (simp add: x)
  qed
qed simp

lemma same_wrappers:
  "map_of e' (js ''statePlugins'') = map_of e (js ''statePlugins'') \<Longrightarrow>
   get_path (Obj e') (wrapper_path r i) = get_path (Obj e) (wrapper_path r i)"
  by (simp add: get_wrapper_look look_def)

lemma same_proper:
  "map_of e' (js ''statePlugins'') = map_of e (js ''statePlugins'') \<Longrightarrow> distinct (map fst e') \<Longrightarrow> proper e \<Longrightarrow> proper e'"
  by (simp add: proper_def field_ok_def)

lemma distinct_alist_drop: "distinct (map fst m) \<Longrightarrow> distinct (map fst (alist_drop k m))"
  by (induction m) (auto simp: alist_drop_def)

lemma merge_components_other:
  assumes "merge_components e t = (e', t')" "distinct (map fst e)" "distinct (map fst t)"
  shows "map_of e' (js ''statePlugins'') = map_of e (js ''statePlugins'') \<and> distinct (map fst e')
     \<and> map_of t' (js ''statePlugins'') = map_of t (js ''statePlugins'') \<and> distinct (map fst t')"
proof (cases "\<exists>ws. map_of t (js ''wrapComponents'') = Some (Obj ws)")
  case True
  then obtain ws e1 ws' where w: "map_of t (js ''wrapComponents'') = Some (Obj ws)" "wrap_components ws e = (e1, ws')"
    by fastforce
  have ne: "js ''statePlugins'' \<noteq> js ''components''" "js ''statePlugins'' \<noteq> js ''wrapComponents''" by (simp_all add: inj_js)
  show ?thesis
    using assms w ne wrap_components_other [of "js ''statePlugins''" ws e]
    by (auto simp: merge_components_def distinct_alist_put distinct_alist_drop simp del: map_of_eq_Some_iff)
next
  case False
  with assms show ?thesis
    by (auto simp: merge_components_def simp del: map_of_eq_Some_iff split: option.splits pval.splits)
qed

lemma proper_entry:
  assumes "proper e" "(r, v) \<in> set (fields (map_of e (js ''statePlugins'')))"
  shows "distinct (map fst (actions_of v))
     \<and> (\<forall>i. get_path (Obj e) (wrapper_path r i) = map_of (actions_of v) i)"
proof -
  obtain n where n: "map_of e (js ''statePlugins'') = Some (Obj n)" "(r, v) \<in> set n"
    using assms(2) by (cases "map_of e (js ''statePlugins'')" rule: fields.cases) auto
  have d: "distinct (map fst n)"
    using assms(1) n(1) by (auto simp: proper_def field_ok_iff table_ok_iff simp del: map_of_eq_Some_iff)
  then have v1: "map_of n r = Some v" using n(2) by simp
  then have v: "map_of n r = Some v" "field_ok (js ''wrapActions'') (table_ok wrapper_ok) v"
    using assms(1) n(1) by (auto simp: proper_def field_ok_iff [of "js ''statePlugins''"] table_ok_iff [of "field_ok k P" for k P] simp del: map_of_eq_Some_iff)
  then obtain m where m: "v = Obj m" by (auto simp: field_ok_iff)
  have "distinct (map fst (actions_of v))"
    using v(2) m by (cases "map_of m (js ''wrapActions'')") (auto simp: actions_of_def field_ok_iff table_ok_iff simp del: map_of_eq_Some_iff)
  then show ?thesis using n(1) v(1) m by (simp add: get_wrapper_look look_def actions_of_def)
qed

text \<open>Merging a plugin appends its wrappers to those of the system.\<close>

lemma systemExtend_wrappers:
  assumes e: "proper e" and t: "proper t"
  shows "proper (systemExtend e t)"
    and "r \<noteq> js ''__proto__'' \<Longrightarrow> i \<noteq> js ''__proto__'' \<Longrightarrow> wrappers (systemExtend e t) r i = wrappers e r i @ wrappers t r i"
proof -
  obtain e1 t1 where m: "merge_components e t = (e1, t1)" by fastforce
  from merge_components_other [OF this] e t
  have 1: "proper e1" "proper t1" "\<And>r i. get_path (Obj e1) (wrapper_path r i) = get_path (Obj e) (wrapper_path r i)"
    "\<And>r i. get_path (Obj t1) (wrapper_path r i) = get_path (Obj t) (wrapper_path r i)"
    by (auto simp: proper_def field_ok_def intro: same_wrappers)
  let ?n = "fields (map_of e1 (js ''statePlugins''))"
  obtain e2 t2 where l: "plugin_loop ?n (e1, t1) = (e2, t2)" by fastforce
  have dn: "distinct (map fst ?n)"
    using 1(1) by (cases "map_of e1 (js ''statePlugins'')") (auto simp: proper_def field_ok_iff table_ok_iff simp del: map_of_eq_Some_iff)
  note L = plugin_loop_spec [OF dn 1(1,2) proper_entry [OF 1(1)], unfolded l prod.case]
  have sys: "systemExtend e t = deepExtend e2 t2" by (simp add: systemExtend_def m l)
  have p: "proper e2" "proper t2" using L by blast+
  then show s: "proper (systemExtend e t)" unfolding sys by (rule deepExtend_proper)
  have "r \<in> fst ` set ?n" if "get_path (Obj e1) (wrapper_path r i) = Some c" for r i c
    using that by (force simp: get_wrapper simp del: map_of_eq_Some_iff dest: map_of_SomeD)
  with L 1(3,4)
  have g: "get_path (Obj e2) (wrapper_path r i) =
        (if r \<in> fst ` set ?n then map_option (\<lambda>c. Arr (as_list c)) (get_path (Obj e) (wrapper_path r i))
            else get_path (Obj e) (wrapper_path r i))"
     "get_path (Obj t2) (wrapper_path r i) = (case get_path (Obj e) (wrapper_path r i) of
        None \<Rightarrow> get_path (Obj t) (wrapper_path r i)
      | Some c \<Rightarrow> map_option (\<lambda>w. Arr (as_list c @ as_list w)) (get_path (Obj t) (wrapper_path r i)))" for r i
    by (auto split: option.split)
  assume ri: "r \<noteq> js ''__proto__''" "i \<noteq> js ''__proto__''"
  have "get_path (Obj (systemExtend e t)) (wrapper_path r i) =
      (case get_path (Obj t2) (wrapper_path r i) of None \<Rightarrow> get_path (Obj e2) (wrapper_path r i) | Some w \<Rightarrow> Some w)"
    unfolding sys by (rule deepExtend_wrapper [OF p(2) ri])
  moreover have "r \<in> fst ` set ?n" if "get_path (Obj e) (wrapper_path r i) = Some c" for c
    using that 1(3) \<open>\<And>r i c. get_path (Obj e1) (wrapper_path r i) = Some c \<Longrightarrow> r \<in> fst ` set ?n\<close> by metis
  ultimately show "wrappers (systemExtend e t) r i = wrappers e r i @ wrappers t r i"
    unfolding wrappers_proper [OF s] wrappers_proper [OF e] wrappers_proper [OF t]
    by (cases "get_path (Obj e) (wrapper_path r i)"; cases "get_path (Obj t) (wrapper_path r i)")
       (simp_all add: g as_list_def)
qed

section \<open>Registration\<close>

lemma look_clone: "k \<noteq> js ''__proto__'' \<Longrightarrow> look (map_option clone v) k = map_option clone (look v k)"
proof (cases v)
  case (Some x)
  then show "k \<noteq> js ''__proto__'' \<Longrightarrow> ?thesis" by (cases x) (simp_all add: look_def map_of_clone_fields)
qed (simp add: look_def)

lemma table_ok_clone:
  "table_ok P v \<Longrightarrow> (\<And>x. P x \<Longrightarrow> P (clone x)) \<Longrightarrow> table_ok P (clone v)"
  by (auto simp: table_ok_iff map_of_clone_fields distinct_clone_fields simp del: map_of_eq_Some_iff)

lemma field_ok_clone:
  "field_ok k P v \<Longrightarrow> (\<And>x. P x \<Longrightarrow> P (clone x)) \<Longrightarrow> field_ok k P (clone v)"
  by (auto simp: field_ok_iff map_of_clone_fields distinct_clone_fields simp del: map_of_eq_Some_iff)

lemma clone_proper:
  assumes "proper m"
  shows "proper (clone_fields m)"
proof -
  have "field_ok (js ''statePlugins'') (table_ok (field_ok (js ''wrapActions'') (table_ok wrapper_ok))) (clone (Obj m))"
    by (rule field_ok_clone)
       (use assms in \<open>auto simp: proper_def clone_wrapper intro!: table_ok_clone field_ok_clone\<close>)
  then show ?thesis by (simp add: proper_def)
qed

lemma clone_wrappers:
  assumes "proper m" "r \<noteq> js ''__proto__''" "i \<noteq> js ''__proto__''"
  shows "wrappers (clone_fields m) r i = wrappers m r i"
proof -
  have "Some (Obj (clone_fields m)) = map_option clone (Some (Obj m))" by simp
  moreover have "js ''statePlugins'' \<noteq> js ''__proto__''" "js ''wrapActions'' \<noteq> js ''__proto__''" by (simp_all add: inj_js)
  ultimately have "get_path (Obj (clone_fields m)) (wrapper_path r i) = map_option clone (get_path (Obj m) (wrapper_path r i))"
    unfolding get_wrapper_look using assms(2,3) by (simp only: look_clone simp_thms)
  also have "\<dots> = get_path (Obj m) (wrapper_path r i)"
    using proper_wrapper [OF assms(1)] by (cases "get_path (Obj m) (wrapper_path r i)") (simp_all add: clone_wrapper)
  finally show ?thesis by (simp add: wrappers_def)
qed

lemma systemExtend_list:
  "proper e \<Longrightarrow> list_all proper ts \<Longrightarrow> r \<noteq> js ''__proto__'' \<Longrightarrow> i \<noteq> js ''__proto__'' \<Longrightarrow>
   proper (foldl systemExtend e ts) \<and>
   wrappers (foldl systemExtend e ts) r i = wrappers e r i @ concat (map (\<lambda>t. wrappers t r i) ts)"
  by (induction ts arbitrary: e) (simp_all add: systemExtend_wrappers)

lemma proper_empty: "proper []" and wrappers_empty: "wrappers [] r i = []"
  by (simp_all add: proper_def field_ok_def wrappers_def wrapper_path_def)

text \<open>The plugin objects of a nested plugin, in the order in which they are listed.\<close>

primrec plugin_objects :: "('f, 's) plugin \<Rightarrow> 's \<Rightarrow> 'f object list" where
  "plugin_objects (PObject m) = (\<lambda>s. [m])"
| "plugin_objects (PList ps) = (\<lambda>s. concat (map (\<lambda>p. p s) (map plugin_objects ps)))"
| "plugin_objects (PFunction f) = (\<lambda>s. (plugin_objects \<circ> f) s s)"
| "plugin_objects POther = (\<lambda>s. [])"

lemma combinePlugins_wrappers:
  assumes "r \<noteq> js ''__proto__''" "i \<noteq> js ''__proto__''"
  shows "list_all proper (plugin_objects p s) \<Longrightarrow>
    proper (combinePlugins p s) \<and>
    wrappers (combinePlugins p s) r i = concat (map (\<lambda>m. wrappers m r i) (plugin_objects p s))"
proof (induction p)
  case (PObject m)
  with assms show ?case by (simp add: clone_proper clone_wrappers)
next
  case (PList ps)
  then have IH: "proper (combinePlugins p s)"
    "wrappers (combinePlugins p s) r i = concat (map (\<lambda>m. wrappers m r i) (plugin_objects p s))" if "p \<in> set ps" for p
    using that by (auto simp: list_all_iff)
  let ?ts = "map (\<lambda>p. combinePlugins p s) ps"
  have "list_all proper ?ts" using IH by (auto simp: list_all_iff)
  from systemExtend_list [OF proper_empty this assms]
  have "proper (foldl systemExtend [] ?ts)"
    "wrappers (foldl systemExtend [] ?ts) r i = concat (map (\<lambda>p. wrappers (combinePlugins p s) r i) ps)"
    by (simp_all add: wrappers_empty comp_def)
  moreover have "map (\<lambda>p. wrappers (combinePlugins p s) r i) ps
      = map (\<lambda>p. concat (map (\<lambda>m. wrappers m r i) (plugin_objects p s))) ps"
    using IH by simp
  moreover have "concat (map (\<lambda>p. concat (map f (plugin_objects p s))) qs)
      = concat (map f (concat (map (\<lambda>p. plugin_objects p s) qs)))" for f :: "'a object \<Rightarrow> 'a pval list" and qs
    by (induction qs) simp_all
  ultimately show ?case by (simp add: comp_def)
next
  case (PFunction f)
  then show ?case by (simp add: rangeI)
next
  case POther
  show ?case by (simp add: proper_empty wrappers_empty)
qed

lemma register_wrappers:
  assumes "proper system" and "list_all proper (plugin_objects p toolbox)"
    and "r \<noteq> js ''__proto__''" and "i \<noteq> js ''__proto__''"
  shows "proper (register system p toolbox)"
    and "wrappers (register system p toolbox) r i
       = wrappers system r i @ concat (map (\<lambda>m. wrappers m r i) (plugin_objects p toolbox))"
  using combinePlugins_wrappers [OF assms(3,4,2)] assms
  by (simp_all add: register_def systemExtend_wrappers)

text \<open>C1. Registering plugins, however they are nested in lists and functions, appends their wrappers of
  an action to those of the system, in the order in which the plugins are listed: no wrapper is lost
  or repeated.\<close>

theorem register_keeps_wrappers:
  assumes "proper system" and "list_all proper (plugin_objects p toolbox)"
    and "r \<noteq> js ''__proto__''" and "i \<noteq> js ''__proto__''"
  shows "wrappers (register system p toolbox) r i
     = wrappers system r i @ concat (map (\<lambda>m. wrappers m r i) (plugin_objects p toolbox))"
  by (rule register_wrappers(2) [OF assms])

definition wrapping :: "'f pval \<Rightarrow> 'f object" where
  "wrapping w = [(js ''statePlugins'', Obj [(js ''spec'', Obj [(js ''wrapActions'', Obj [(js ''updateSpec'', w)])])])]"

lemma wrapping_wrappers: "wrapper_ok w \<Longrightarrow> proper (wrapping w) \<and> wrappers (wrapping w) (js ''spec'') (js ''updateSpec'') = as_list w"
  by (simp add: wrapping_def proper_def field_ok_def table_ok_def wrappers_def wrapper_path_def wrapper_ok_truthy)

theorem register_keeps_wrappers_witness:
  "wrappers (register (wrapping (Fn 4))
      (PList [PObject (wrapping (Fn (5::nat))), PFunction (\<lambda>s. PList [PObject (wrapping (Arr [Fn s, Fn 7]))])]) 6)
     (js ''spec'') (js ''updateSpec'') = [Fn 4, Fn 5, Fn 6, Fn 7]"
proof -
  have "wrapper_ok (Fn (4::nat))" "wrapper_ok (Fn (5::nat))" "wrapper_ok (Arr [Fn (6::nat), Fn 7])" by simp_all
  note w = this [THEN wrapping_wrappers]
  show ?thesis
    by (subst register_keeps_wrappers) (simp_all add: w inj_js, simp_all add: as_list_def)
qed

end
