(* ===== verification/Swagger_Store.thy ===== *)
theory Swagger_Store
  imports Swagger_System Swagger_Err
begin

text \<open>
  The store of the Swagger UI (\<open>swagger-ui-bundle.js\<close>): the reducer built from the reducers of all
  plugins, the dispatch of actions and of functions that stand for actions, action creators that
  are made safe against exceptions, and the calls of wrapped actions.  A call takes its arguments
  and the world and returns a result or throws, with the world it leaves.
\<close>

section \<open>Calls\<close>

type_synonym ('a, 'x, 'r, 'w) call = "'a \<Rightarrow> 'w \<Rightarrow> ('x + 'r) \<times> 'w"

text \<open>An exception is logged and the result is \<open>null\<close>.\<close>

definition wrapWithTryCatch :: "'r \<Rightarrow> ('a, 'x, 'r, 'w) call \<Rightarrow> ('a, 'x, 'r, 'w) call" where
  "wrapWithTryCatch null f = (\<lambda>a w. case f a w of (Inl _, w') \<Rightarrow> (Inr null, w') | res \<Rightarrow> res)"

text \<open>Calling a wrapper that is no function throws.\<close>

definition call_wrapper ::
  "'x \<Rightarrow> ('f \<Rightarrow> ('a, 'x, 'r, 'w) call \<Rightarrow> ('a, 'x, 'r, 'w) call) \<Rightarrow> 'f pval
   \<Rightarrow> ('a, 'x, 'r, 'w) call \<Rightarrow> ('a, 'x, 'r, 'w) call" where
  "call_wrapper no_function interp v act = (case v of Fn f \<Rightarrow> interp f act | _ \<Rightarrow> (\<lambda>a w. (Inl no_function, w)))"

definition wrapped_action ::
  "'x \<Rightarrow> 'r \<Rightarrow> ('f \<Rightarrow> ('a, 'x, 'r, 'w) call \<Rightarrow> ('a, 'x, 'r, 'w) call) \<Rightarrow> 'f pval list
   \<Rightarrow> ('a, 'x, 'r, 'w) call \<Rightarrow> ('a, 'x, 'r, 'w) call" where
  "wrapped_action no_function null interp ws act =
     foldl (\<lambda>acc v. wrapWithTryCatch null (call_wrapper no_function interp v acc)) act ws"

definition getWrappedAction ::
  "'x \<Rightarrow> 'r \<Rightarrow> ('f \<Rightarrow> ('a, 'x, 'r, 'w) call \<Rightarrow> ('a, 'x, 'r, 'w) call) \<Rightarrow> 'f object \<Rightarrow> js_string \<Rightarrow> js_string
   \<Rightarrow> ('a, 'x, 'r, 'w) call \<Rightarrow> ('a, 'x, 'r, 'w) call" where
  "getWrappedAction no_function null interp system r i act =
     wrapped_action no_function null interp (wrappers system r i) act"

section \<open>Reducers\<close>

text \<open>The outcome of a reducer of a plugin.\<close>

datatype 's reduced = State 's | Null | Undefined | Threw

type_synonym ('s, 'p) reducers = "js_string \<rightharpoonup> ('s \<Rightarrow> 'p \<Rightarrow> 's reduced)"

text \<open>
  The reducer of one slice: an exception or \<open>null\<close> keeps the state, \<open>undefined\<close> (here \<open>None\<close>) is passed
  on.  A plugin may have no reducers; a slice without state starts from a fresh one.
\<close>

definition slice_reducer ::
  "'s \<Rightarrow> ('s, 'p) reducers option \<Rightarrow> 's option \<Rightarrow> js_string \<Rightarrow> 'p \<Rightarrow> 's option" where
  "slice_reducer fresh e s type payload =
     (let t = (case s of None \<Rightarrow> fresh | Some t \<Rightarrow> t) in
      case e of
        None \<Rightarrow> Some t
      | Some table \<Rightarrow>
          (case table type of
             None \<Rightarrow> Some t
           | Some r \<Rightarrow> (case r t payload of State o' \<Rightarrow> Some o' | Undefined \<Rightarrow> None | _ \<Rightarrow> Some t)))"

text \<open>\<open>combineReducers\<close> throws when a slice becomes \<open>undefined\<close>.\<close>

fun combineReducers ::
  "'s \<Rightarrow> (js_string \<times> ('s, 'p) reducers option) list \<Rightarrow> js_string \<Rightarrow> 'p \<Rightarrow> (js_string \<rightharpoonup> 's) \<Rightarrow> (js_string \<rightharpoonup> 's) option" where
  "combineReducers fresh [] type payload t = Some t"
| "combineReducers fresh ((n, e) # rs) type payload t =
     (case slice_reducer fresh e (t n) type payload of
        None \<Rightarrow> None
      | Some r \<Rightarrow> combineReducers fresh rs type payload (t(n \<mapsto> r)))"

section \<open>Dispatch\<close>

record 's world =
  slices :: "js_string \<rightharpoonup> 's"

text \<open>What is dispatched: an action, a function that is called with the system, or anything else.\<close>

datatype ('p, 'x, 'w) dispatched =
    Action js_string 'p
  | Thunk "'w \<Rightarrow> ('x + unit) \<times> 'w"
  | NoAction

datatype 'x store_error = UndefinedState | NotPlainObject | Raised 'x

definition store_dispatch ::
  "'s \<Rightarrow> (js_string \<times> ('s, 'p) reducers option) list
   \<Rightarrow> ('p, 'x store_error, ('s, 'z) world_scheme) dispatched
   \<Rightarrow> ('s, 'z) world_scheme \<Rightarrow> ('x store_error + unit) \<times> ('s, 'z) world_scheme" where
  "store_dispatch fresh rs d w =
     (case d of
        Thunk f \<Rightarrow> f w
      | NoAction \<Rightarrow> (Inl NotPlainObject, w)
      | Action type payload \<Rightarrow>
          (case combineReducers fresh rs type payload (slices w) of
             None \<Rightarrow> (Inl UndefinedState, w)
           | Some m \<Rightarrow> (Inr (), w\<lparr>slices := m\<rparr>)))"

text \<open>\<open>getBoundActions\<close>: a creator that throws gives the error action instead.\<close>

definition NEW_THROWN_ERR_type :: js_string where
  "NEW_THROWN_ERR_type = js ''err_new_thrown_err''"

definition safe_creator ::
  "('x \<Rightarrow> 'p) \<Rightarrow> ('a, 'x, ('p, 'y, 'w) dispatched, 'w) call \<Rightarrow> 'a \<Rightarrow> 'w \<Rightarrow> ('p, 'y, 'w) dispatched \<times> 'w" where
  "safe_creator serializeError t a w =
     (case t a w of
        (Inl x, w') \<Rightarrow> (Action NEW_THROWN_ERR_type (serializeError x), w')
      | (Inr e, w') \<Rightarrow> (e, w'))"

definition bound_action ::
  "'s \<Rightarrow> (js_string \<times> ('s, 'p) reducers option) list \<Rightarrow> ('x \<Rightarrow> 'p)
   \<Rightarrow> ('a, 'x, ('p, 'x store_error, ('s, 'z) world_scheme) dispatched, ('s, 'z) world_scheme) call
   \<Rightarrow> ('a, 'x store_error, unit, ('s, 'z) world_scheme) call" where
  "bound_action fresh rs serializeError t a w =
     (case safe_creator serializeError t a w of (d, w') \<Rightarrow> store_dispatch fresh rs d w')"

section \<open>What a dispatch does\<close>

lemma combineReducers_spec:
  assumes "distinct (map fst rs)"
  shows "combineReducers fresh rs type payload t =
     (if list_ex (\<lambda>(n, e). slice_reducer fresh e (t n) type payload = None) rs then None
      else Some (\<lambda>n. case map_of rs n of None \<Rightarrow> t n | Some e \<Rightarrow> slice_reducer fresh e (t n) type payload))"
  using assms
proof (induction rs arbitrary: t)
  case (Cons x rs)
  obtain n e where x: "x = (n, e)" by fastforce
  have new: "n \<notin> fst ` set rs" using Cons.prems x by simp
  then have none: "map_of rs n = None" by (simp add: map_of_eq_None_iff)
  show ?case
  proof (cases "slice_reducer fresh e (t n) type payload")
    case None
    with x show ?thesis by simp
  next
    case (Some r)
    let ?bad = "\<lambda>t. list_ex (\<lambda>(k, e'). slice_reducer fresh e' (t k) type payload = None) rs"
    define t1 where "t1 = t(n \<mapsto> r)"
    have bad: "?bad t1 = ?bad t"
      by (rule list_ex_cong) (use new in \<open>auto simp: image_iff t1_def\<close>)
    have look: "(case map_of rs k of None \<Rightarrow> t1 k | Some e' \<Rightarrow> slice_reducer fresh e' (t1 k) type payload)
        = (case map_of (x # rs) k of None \<Rightarrow> t k | Some e' \<Rightarrow> slice_reducer fresh e' (t k) type payload)" for k
      using Some none x by (cases "k = n"; cases "map_of rs k") (simp_all add: t1_def)
    have "combineReducers fresh (x # rs) type payload t = combineReducers fresh rs type payload t1"
      by (simp add: x Some t1_def)
    also have "\<dots> = (if ?bad t1 then None
       else Some (\<lambda>k. case map_of rs k of None \<Rightarrow> t1 k | Some e' \<Rightarrow> slice_reducer fresh e' (t1 k) type payload))"
      by (rule Cons.IH) (use Cons.prems in simp)
    finally show ?thesis unfolding look bad using Some x by simp
  qed
qed simp

lemma dispatch_spec:
  assumes "distinct (map fst rs)"
  shows "store_dispatch fresh rs (Action type payload) w =
     (if list_ex (\<lambda>(n, e). slice_reducer fresh e (slices w n) type payload = None) rs
      then (Inl UndefinedState, w)
      else (Inr (), w\<lparr>slices := (\<lambda>n. case map_of rs n of
              None \<Rightarrow> slices w n
            | Some e \<Rightarrow> slice_reducer fresh e (slices w n) type payload)\<rparr>))"
  by (simp add: store_dispatch_def combineReducers_spec [OF assms])

text \<open>What the reducer of a plugin returns for an action; a plugin that has none counts as returning \<open>null\<close>.\<close>

definition reducer_outcome :: "('s, 'p) reducers option \<Rightarrow> js_string \<Rightarrow> 's \<Rightarrow> 'p \<Rightarrow> 's reduced" where
  "reducer_outcome e type t payload =
     (case e of
        None \<Rightarrow> Null
      | Some table \<Rightarrow> (case table type of None \<Rightarrow> Null | Some r \<Rightarrow> r t payload))"

definition slice_before :: "'s \<Rightarrow> (js_string \<rightharpoonup> 's) \<Rightarrow> js_string \<Rightarrow> 's" where
  "slice_before fresh t n = (case t n of None \<Rightarrow> fresh | Some s \<Rightarrow> s)"

lemma slice_reducer_outcome:
  "slice_reducer fresh e (t n) type payload =
     (case reducer_outcome e type (slice_before fresh t n) payload of
        State s' \<Rightarrow> Some s' | Undefined \<Rightarrow> None | _ \<Rightarrow> Some (slice_before fresh t n))"
  by (simp add: slice_reducer_def reducer_outcome_def slice_before_def Let_def split: option.split reduced.split)

lemma slice_undefined:
  "slice_reducer fresh e (t n) type payload = None \<longleftrightarrow> reducer_outcome e type (slice_before fresh t n) payload = Undefined"
  by (simp add: slice_reducer_outcome split: reduced.split)

text \<open>C40. A dispatched action reaches every plugin.  When the reducer that some plugin has for it returns
  \<open>undefined\<close> on the plugin's slice, the dispatch throws and no state changes.  Otherwise the slice of every
  plugin becomes what its reducer returns; the slice keeps its state when the reducer throws or returns
  \<open>null\<close>, and when the plugin has none for the action; a slice that was missing starts from the fresh
  state.  What belongs to no plugin stays.\<close>

theorem dispatch_isolates_reducers:
  assumes "distinct (map fst rs)"
  shows "if list_ex (\<lambda>(n, e). reducer_outcome e type (slice_before fresh (slices w) n) payload = Undefined) rs
     then store_dispatch fresh rs (Action type payload) w = (Inl UndefinedState, w)
     else \<exists>t. store_dispatch fresh rs (Action type payload) w = (Inr (), w\<lparr>slices := t\<rparr>)
       \<and> list_all (\<lambda>(n, e). case reducer_outcome e type (slice_before fresh (slices w) n) payload of
            State s \<Rightarrow> t n = Some s
          | Threw \<Rightarrow> t n = Some (slice_before fresh (slices w) n)
          | Null \<Rightarrow> t n = Some (slice_before fresh (slices w) n)
          | Undefined \<Rightarrow> False) rs
       \<and> (\<forall>n. n \<notin> fst ` set rs \<longrightarrow> t n = slices w n)"
proof (cases "list_ex (\<lambda>(n, e). reducer_outcome e type (slice_before fresh (slices w) n) payload = Undefined) rs")
  case True
  then show ?thesis by (simp add: dispatch_spec [OF assms] slice_undefined)
next
  case False
  define t where "t = (\<lambda>n. case map_of rs n of None \<Rightarrow> slices w n | Some e \<Rightarrow> slice_reducer fresh e (slices w n) type payload)"
  have "\<not> list_ex (\<lambda>(n, e). slice_reducer fresh e (slices w n) type payload = None) rs"
    using False by (simp add: slice_undefined)
  then have "store_dispatch fresh rs (Action type payload) w = (Inr (), w\<lparr>slices := t\<rparr>)"
    by (simp add: dispatch_spec [OF assms] t_def)
  moreover have "case reducer_outcome e type (slice_before fresh (slices w) n) payload of
      State s \<Rightarrow> t n = Some s
    | Threw \<Rightarrow> t n = Some (slice_before fresh (slices w) n)
    | Null \<Rightarrow> t n = Some (slice_before fresh (slices w) n)
    | Undefined \<Rightarrow> False" if "(n, e) \<in> set rs" for n e
  proof -
    have "map_of rs n = Some e" using that assms by simp
    moreover have "reducer_outcome e type (slice_before fresh (slices w) n) payload \<noteq> Undefined"
      using that False by (auto simp: list_ex_iff)
    ultimately show ?thesis by (simp add: t_def slice_reducer_outcome split: reduced.split)
  qed
  moreover have "t n = slices w n" if "n \<notin> fst ` set rs" for n
  proof -
    have "map_of rs n = None" using that by (simp add: map_of_eq_None_iff)
    then show ?thesis by (simp add: t_def)
  qed
  ultimately show ?thesis unfolding if_not_P [OF False] by (auto simp: list_all_iff)
qed

text \<open>A system with one slice that counts, one that throws, and one without reducers.\<close>

definition sample_reducers :: "(js_string \<times> (nat, nat) reducers option) list" where
  "sample_reducers =
     [(js ''spec'', Some [js ''add'' \<mapsto> (\<lambda>s p. State (s + p))]), (js ''err'', Some [js ''add'' \<mapsto> (\<lambda>s p. Threw)]),
      (js ''view'', None)]"

theorem dispatch_isolates_reducers_witness:
  "case store_dispatch 0 sample_reducers (Action (js ''add'') 2) \<lparr>slices = [js ''spec'' \<mapsto> 5, js ''err'' \<mapsto> 7]\<rparr> of
     (r, w) \<Rightarrow> r = (Inr () :: nat store_error + unit)
        \<and> slices w (js ''spec'') = Some 7 \<and> slices w (js ''err'') = Some 7 \<and> slices w (js ''view'') = Some 0"
proof -
  have d: "distinct (map fst sample_reducers)" by (simp add: sample_reducers_def inj_js)
  let ?w = "\<lparr>slices = [js ''spec'' \<mapsto> 5, js ''err'' \<mapsto> 7]\<rparr> :: nat world"
  obtain t where "store_dispatch 0 sample_reducers (Action (js ''add'') 2) ?w = (Inr () :: nat store_error + unit, ?w\<lparr>slices := t\<rparr>)"
    "t (js ''spec'') = Some 7" "t (js ''err'') = Some 7" "t (js ''view'') = Some 0"
    using dispatch_isolates_reducers [OF d, where fresh = "0::nat" and type = "js ''add''" and payload = 2 and w = ?w]
    by (auto simp: sample_reducers_def inj_js reducer_outcome_def slice_before_def)
  then show ?thesis by simp
qed

section \<open>The error plugin in the store\<close>

text \<open>
  The slices of the store: the errors, or the state of another plugin.  The payload of an error action
  is the action of the error plugin, everything else is left to other plugins.
\<close>

datatype 'o slice = ErrSlice err_state | OtherSlice 'o

datatype 'q payload = ErrPayload err_action | OtherPayload 'q

fun err_type :: "err_action \<Rightarrow> js_string" where
  "err_type (NEW_THROWN_ERR _) = NEW_THROWN_ERR_type"
| "err_type (NEW_THROWN_ERR_BATCH _) = js ''err_new_thrown_err_batch''"
| "err_type (NEW_SPEC_ERR _) = js ''err_new_spec_err''"
| "err_type (NEW_SPEC_ERR_BATCH _) = js ''err_new_spec_err_batch''"
| "err_type (NEW_AUTH_ERR _) = js ''err_new_auth_err''"
| "err_type (CLEAR _) = js ''err_clear''"
| "err_type (CLEAR_BY _) = js ''err_clear_by''"

definition err_reducers :: "(err list \<Rightarrow> err list) \<Rightarrow> ('o slice, 'q payload) reducers" where
  "err_reducers engine = (\<lambda>type.
     if type \<in> {NEW_THROWN_ERR_type, js ''err_new_thrown_err_batch'', js ''err_new_spec_err'',
         js ''err_new_spec_err_batch'', js ''err_new_auth_err'', js ''err_clear'', js ''err_clear_by''}
     then Some (\<lambda>s p. case (s, p) of
            (ErrSlice e, ErrPayload a) \<Rightarrow>
              (if err_type a = type then (case err_reducer engine e a of None \<Rightarrow> Threw | Some e' \<Rightarrow> State (ErrSlice e'))
               else Threw)
          | _ \<Rightarrow> Threw)
     else None)"

lemma thrown_err_slice:
  "slice_reducer fresh (Some (err_reducers engine)) (Some (ErrSlice e)) NEW_THROWN_ERR_type (ErrPayload (NEW_THROWN_ERR p))
     = Some (ErrSlice (the (err_reducer engine e (NEW_THROWN_ERR p))))"
  by (simp add: slice_reducer_def err_reducers_def Let_def)

lemma thrown_err_errors:
  "errs (the (err_reducer engine e (NEW_THROWN_ERR p)))
     = transformErrors (errs e @ [assign_type (default_error e) p (js ''thrown'')])"
  by (simp add: Let_def set_errors_def errs_def)

text \<open>C2. When an action creator throws, the caller sees no exception; the collected errors grow by exactly
  one, the last one, of type \<open>thrown\<close>, and no other slice changes, provided no other plugin reduces that
  action.\<close>

theorem failing_action_recorded:
  assumes "distinct (map fst rs)" and "map_of rs (js ''err'') = Some (Some (err_reducers engine))"
    and "list_all (\<lambda>(n, e). n = js ''err'' \<or> (case e of None \<Rightarrow> True | Some t \<Rightarrow> t NEW_THROWN_ERR_type = None)) rs"
    and "creator a w = (Inl x, w1)" and "slices w1 (js ''err'') = Some (ErrSlice e)"
    and "list_all (\<lambda>(n, _). slices w1 n \<noteq> None) rs"
  shows "\<exists>e'. bound_action fresh rs (\<lambda>x. ErrPayload (NEW_THROWN_ERR (serializeError x))) creator a w
       = (Inr (), w1\<lparr>slices := (slices w1)(js ''err'' \<mapsto> ErrSlice e')\<rparr>)
     \<and> length (errs e') = Suc (length (errs e))
     \<and> last (errs e') (js ''type'') = Some (EStr (js ''thrown''))"
proof -
  let ?p = "ErrPayload (NEW_THROWN_ERR (serializeError x))"
  let ?e = "the (err_reducer engine e (NEW_THROWN_ERR (serializeError x)))"
  let ?l = "errs e @ [assign_type (default_error e) (serializeError x) (js ''thrown'')]"
  have slice: "slice_reducer fresh t (slices w1 n) NEW_THROWN_ERR_type ?p =
      (if n = js ''err'' then Some (ErrSlice ?e) else slices w1 n)" if "(n, t) \<in> set rs" for n t
  proof (cases "n = js ''err''")
    case True
    with that assms(1,2) have "t = Some (err_reducers engine)" by (metis map_of_is_SomeI option.inject)
    with True assms(5) show ?thesis by (simp add: thrown_err_slice)
  next
    case False
    from that assms(6) obtain s where "slices w1 n = Some s" by (auto simp: list_all_iff)
    moreover have "case t of None \<Rightarrow> True | Some t \<Rightarrow> t NEW_THROWN_ERR_type = None"
      using that False assms(3) by (auto simp: list_all_iff)
    ultimately show ?thesis using False by (auto simp: slice_reducer_def split: option.splits)
  qed
  have ok: "\<not> list_ex (\<lambda>(n, t). slice_reducer fresh t (slices w1 n) NEW_THROWN_ERR_type ?p = None) rs"
  proof
    assume "list_ex (\<lambda>(n, t). slice_reducer fresh t (slices w1 n) NEW_THROWN_ERR_type ?p = None) rs"
    then obtain n t where nt: "(n, t) \<in> set rs" "slice_reducer fresh t (slices w1 n) NEW_THROWN_ERR_type ?p = None"
      by (auto simp: list_ex_iff)
    moreover have "slices w1 n \<noteq> None" using nt(1) assms(6) by (auto simp: list_all_iff)
    ultimately show False unfolding slice [OF nt(1)] by (simp split: if_splits)
  qed
  have look: "(case map_of rs n of None \<Rightarrow> slices w1 n
      | Some t \<Rightarrow> slice_reducer fresh t (slices w1 n) NEW_THROWN_ERR_type ?p) = ((slices w1)(js ''err'' \<mapsto> ErrSlice ?e)) n" for n
  proof (cases "map_of rs n")
    case None
    then have "n \<noteq> js ''err''" using assms(2) by auto
    with None show ?thesis by simp
  next
    case (Some t)
    then have "(n, t) \<in> set rs" by (rule map_of_SomeD)
    with Some slice show ?thesis by simp
  qed
  have "combineReducers fresh rs NEW_THROWN_ERR_type ?p (slices w1) = Some (\<lambda>n. case map_of rs n of
      None \<Rightarrow> slices w1 n | Some t \<Rightarrow> slice_reducer fresh t (slices w1 n) NEW_THROWN_ERR_type ?p)"
    unfolding combineReducers_spec [OF assms(1)] by (rule if_not_P [OF ok])
  also have "(\<lambda>n. case map_of rs n of
      None \<Rightarrow> slices w1 n | Some t \<Rightarrow> slice_reducer fresh t (slices w1 n) NEW_THROWN_ERR_type ?p)
      = (slices w1)(js ''err'' \<mapsto> ErrSlice ?e)"
    by (rule ext) (rule look)
  finally have c: "combineReducers fresh rs NEW_THROWN_ERR_type ?p (slices w1)
      = Some ((slices w1)(js ''err'' \<mapsto> ErrSlice ?e))" .
  then have "bound_action fresh rs (\<lambda>x. ErrPayload (NEW_THROWN_ERR (serializeError x))) creator a w
       = (Inr (), w1\<lparr>slices := (slices w1)(js ''err'' \<mapsto> ErrSlice ?e)\<rparr>)"
    by (simp add: bound_action_def safe_creator_def store_dispatch_def assms(4) c del: err_reducer.simps)
  moreover have "length (errs ?e) = Suc (length (errs e))" by (simp add: thrown_err_errors del: err_reducer.simps)
  moreover have "last (errs ?e) (js ''type'') = Some (EStr (js ''thrown''))"
    using transformErrors_last [of ?l "js ''type''"] by (simp add: thrown_err_errors assign_type_def inj_js del: err_reducer.simps)
  ultimately show ?thesis by blast
qed

definition sample_system :: "(js_string \<times> (nat slice, nat payload) reducers option) list" where
  "sample_system = [(js ''err'', Some (err_reducers (\<lambda>l. l))), (js ''layout'', None)]"

definition sample_world :: "nat slice world" where
  "sample_world = \<lparr>slices = [js ''err'' \<mapsto> ErrSlice initial_err, js ''layout'' \<mapsto> OtherSlice 3]\<rparr>"

theorem failing_action_recorded_witness:
  "\<exists>e'. bound_action (OtherSlice 0) sample_system
      (\<lambda>x. ErrPayload (NEW_THROWN_ERR [js ''message'' \<mapsto> EStr x])) (\<lambda>a w. (Inl (js ''oops''), w)) () sample_world
       = (Inr (), sample_world\<lparr>slices := (slices sample_world)(js ''err'' \<mapsto> ErrSlice e')\<rparr>)
     \<and> length (errs e') = 1 \<and> last (errs e') (js ''type'') = Some (EStr (js ''thrown''))"
proof -
  have l: "length (errs initial_err) = 0" by (simp add: errs_def initial_err_def)
  show ?thesis unfolding One_nat_def l [symmetric]
    by (rule failing_action_recorded)
       (simp_all add: sample_system_def sample_world_def NEW_THROWN_ERR_type_def inj_js)
qed

end
