(* ===== verification/Swagger_Spec.thy ===== *)
theory Swagger_Spec
  imports Js_Immutable
begin

text \<open>
  The specification plugin of the Swagger UI (\<open>swagger-ui-bundle.js\<close>): the merge of the document with
  its resolved parts, the list of operations, their grouping by tags, and the scheme of a request.
  The state is a nested map; a specification that is not a map, and a list of paths, are not
  modelled.
\<close>

section \<open>Values\<close>

text \<open>A number is known by the text it prints as; a set is a list of its elements.\<close>

datatype spec_value =
    SStr js_string
  | SNum js_string
  | SBool bool
  | SNull
  | SUndefined
  | SList "spec_value inode list"

type_synonym spec_node = "spec_value inode"

fun spec_truthy :: "spec_node option \<Rightarrow> bool" where
  "spec_truthy None = False"
| "spec_truthy (Some (Leaf (SStr s))) = (s \<noteq> [])"
| "spec_truthy (Some (Leaf (SNum t))) = (t \<notin> {js ''0'', js ''NaN''})"
| "spec_truthy (Some (Leaf (SBool b))) = b"
| "spec_truthy (Some (Leaf SNull)) = False"
| "spec_truthy (Some (Leaf SUndefined)) = False"
| "spec_truthy (Some (Leaf (SList xs))) = True"
| "spec_truthy (Some (Node m)) = True"

section \<open>Merging the resolved parts\<close>

text \<open>
  \<open>mergerFn\<close>: two maps are merged key by key, unless the new one carries the mark \<open>$$ref\<close> of a
  resolved reference; everything else is replaced.
\<close>

function (sequential) mergerFn :: "spec_node \<Rightarrow> spec_node \<Rightarrow> spec_node"
  and mergeWith :: "(js_string \<times> spec_node) list \<Rightarrow> (js_string \<times> spec_node) list \<Rightarrow> (js_string \<times> spec_node) list" where
  "mergerFn (Node t) (Node n) = (if spec_truthy (map_of n (js ''$$ref'')) then Node n else Node (mergeWith t n))"
| "mergerFn t n = n"
| "mergeWith t [] = t"
| "mergeWith t ((k, v) # n) =
     mergeWith (alist_put k (case map_of t k of None \<Rightarrow> v | Some x \<Rightarrow> mergerFn x v) t) n"
  by pat_completeness auto

termination
  by (relation "measure (case_sum (\<lambda>(t, n). 2 * size n) (\<lambda>(t, n). 2 * size (Node n) - 1))") auto

definition specJsonWithResolvedSubtrees :: "spec_node \<Rightarrow> spec_node" where
  "specJsonWithResolvedSubtrees e =
     Node (mergeWith (entries (child (Some e) (js ''json''))) (entries (child (Some e) (js ''resolvedSubtrees''))))"

section \<open>Operations\<close>

definition OPERATION_METHODS :: "js_string list" where
  "OPERATION_METHODS = [js ''get'', js ''put'', js ''post'', js ''delete'', js ''options'', js ''head'', js ''patch'', js ''trace'']"

record op =
  op_path :: js_string
  op_method :: js_string
  op_operation :: spec_node
  op_id :: js_string

fun method_loop :: "js_string \<Rightarrow> (js_string \<times> spec_node) list \<Rightarrow> op list \<Rightarrow> op list" where
  "method_loop n [] t = t"
| "method_loop n ((r, e) # ms) t =
     method_loop n ms
       (if r \<in> set OPERATION_METHODS
        then t @ [\<lparr>op_path = n, op_method = r, op_operation = e, op_id = r @ js ''-'' @ n\<rparr>] else t)"

fun path_loop :: "(js_string \<times> spec_node) list \<Rightarrow> op list \<Rightarrow> op list" where
  "path_loop [] t = t"
| "path_loop ((n, e) # ps) t = path_loop ps (method_loop n (entries (Some e)) t)"

definition operations :: "spec_node option \<Rightarrow> op list" where
  "operations e = path_loop (entries e) []"

section \<open>Inherited media types and tags\<close>

text \<open>
  \<open>Set(v)\<close>: the distinct elements of a list, or the letters of a text; \<open>iter\<close> is the order in which
  the set is iterated.  A number or a Boolean is not iterable and throws, as does the empty text.  The
  pairs of a map are taken as lists.
\<close>

definition set_values :: "(spec_node list \<Rightarrow> spec_node list) \<Rightarrow> spec_node option \<Rightarrow> spec_node list option" where
  "set_values iter v =
     (case v of
        None \<Rightarrow> Some []
      | Some (Node m) \<Rightarrow> Some (iter (map (\<lambda>(k, x). Leaf (SList [Leaf (SStr k), x])) m))
      | Some (Leaf SUndefined) \<Rightarrow> Some []
      | Some (Leaf SNull) \<Rightarrow> Some []
      | Some (Leaf (SList xs)) \<Rightarrow> Some (iter xs)
      | Some (Leaf (SStr s)) \<Rightarrow> if s = [] then None else Some (iter (map (\<lambda>c. Leaf (SStr [c])) s))
      | _ \<Rightarrow> None)"

text \<open>A truthy value is kept; otherwise the root's set is merged into the set of the value.\<close>

definition inherit_field ::
  "(spec_node list \<Rightarrow> spec_node list) \<Rightarrow> js_string \<Rightarrow> spec_node list \<Rightarrow> (js_string \<times> spec_node) list
   \<Rightarrow> (js_string \<times> spec_node) list option" where
  "inherit_field iter k root m =
     (if spec_truthy (map_of m k) then Some m
      else case set_values iter (map_of m k) of
             None \<Rightarrow> None
           | Some a \<Rightarrow> Some (alist_put k (Leaf (SList (a @ filter (\<lambda>x. x \<notin> set a) root))) m))"

definition inherit_operation ::
  "(spec_node list \<Rightarrow> spec_node list) \<Rightarrow> spec_node list \<Rightarrow> spec_node list \<Rightarrow> op \<Rightarrow> op option" where
  "inherit_operation iter consumes produces o' =
     (case op_operation o' of
        Node m \<Rightarrow>
          (case inherit_field iter (js ''consumes'') consumes m of
             None \<Rightarrow> None
           | Some m1 \<Rightarrow>
               (case inherit_field iter (js ''produces'') produces m1 of
                  None \<Rightarrow> None
                | Some m2 \<Rightarrow> Some (o'\<lparr>op_operation := Node m2\<rparr>)))
      | v \<Rightarrow> Some (o'\<lparr>op_operation := if spec_truthy (Some v) then Leaf SUndefined else Node []\<rparr>))"

definition spec_json :: "spec_node \<Rightarrow> spec_node" where
  "spec_json e = (case child (Some e) (js ''json'') of None \<Rightarrow> Node [] | Some j \<Rightarrow> j)"

definition operationsWithRootInherited ::
  "(spec_node list \<Rightarrow> spec_node list) \<Rightarrow> spec_node \<Rightarrow> op list option" where
  "operationsWithRootInherited iter e =
     (case (set_values iter (child (Some (spec_json e)) (js ''consumes'')),
            set_values iter (child (Some (spec_json e)) (js ''produces''))) of
        (Some t, Some n) \<Rightarrow>
          those (map (inherit_operation iter t n)
                  (operations (child (Some (specJsonWithResolvedSubtrees e)) (js ''paths''))))
      | _ \<Rightarrow> None)"

text \<open>The declared tags; those that are no maps are dropped.\<close>

definition tags :: "spec_node \<Rightarrow> (js_string \<times> spec_node) list list" where
  "tags e =
     (case child (Some (spec_json e)) (js ''tags'') of
        Some (Leaf (SList ts)) \<Rightarrow> concat (map (\<lambda>t. case t of Node m \<Rightarrow> [m] | _ \<Rightarrow> []) ts)
      | _ \<Rightarrow> [])"

section \<open>Grouping\<close>

text \<open>A group is known by the tag, \<open>None\<close> being \<open>undefined\<close>.\<close>

type_synonym groups = "(spec_node option \<times> op list) list"

definition push_to :: "spec_node option \<Rightarrow> op \<Rightarrow> groups \<Rightarrow> groups" where
  "push_to k t g = alist_put k ((case map_of g k of None \<Rightarrow> [] | Some l \<Rightarrow> l) @ [t]) g"

definition operation_tags :: "(spec_node list \<Rightarrow> spec_node list) \<Rightarrow> op \<Rightarrow> spec_node list option" where
  "operation_tags iter t = set_values iter (child (Some (op_operation t)) (js ''tags''))"

fun group_loop :: "(spec_node list \<Rightarrow> spec_node list) \<Rightarrow> op list \<Rightarrow> groups \<Rightarrow> groups option" where
  "group_loop iter [] e = Some e"
| "group_loop iter (t # ts) e =
     (case operation_tags iter t of
        None \<Rightarrow> None
      | Some n \<Rightarrow>
          group_loop iter ts
            (if n = [] then push_to (Some (Leaf (SStr (js ''default'')))) t e
             else fold (\<lambda>k. push_to (Some k) t) n e))"

definition operationsWithTags :: "(spec_node list \<Rightarrow> spec_node list) \<Rightarrow> spec_node \<Rightarrow> groups option" where
  "operationsWithTags iter e =
     (case operationsWithRootInherited iter e of
        None \<Rightarrow> None
      | Some ops \<Rightarrow> group_loop iter ops (fold (\<lambda>t. alist_put (map_of t (js ''name'')) []) (tags e) []))"

section \<open>The list of operations\<close>

lemma method_loop_eq:
  "method_loop n ms t = t @ map (\<lambda>(r, e). \<lparr>op_path = n, op_method = r, op_operation = e, op_id = r @ js ''-'' @ n\<rparr>)
     (filter (\<lambda>(r, e). r \<in> set OPERATION_METHODS) ms)"
  by (induction n ms t rule: method_loop.induct) auto

definition path_operations :: "js_string \<Rightarrow> spec_node \<Rightarrow> op list" where
  "path_operations n e = method_loop n (entries (Some e)) []"

lemma path_loop_eq: "path_loop ps t = t @ concat (map (\<lambda>(n, e). path_operations n e) ps)"
  by (induction ps t rule: path_loop.induct) (simp_all add: path_operations_def method_loop_eq)

lemma operations_eq: "operations e = concat (map (\<lambda>(n, e). path_operations n e) (entries e))"
  by (simp add: operations_def path_loop_eq)

lemma path_operations_members:
  "t \<in> set (path_operations n e) \<Longrightarrow> op_path t = n \<and> op_method t \<in> set OPERATION_METHODS \<and> op_id t = op_method t @ 45 # n"
  by (auto simp: path_operations_def method_loop_eq js_simps)

lemma no_dash: "m \<in> set OPERATION_METHODS \<Longrightarrow> 45 \<notin> set m"
  by (auto simp: OPERATION_METHODS_def js_simps)

lemma id_injective:
  assumes "m \<in> set OPERATION_METHODS" "m' \<in> set OPERATION_METHODS" "m @ 45 # p = m' @ 45 # p'"
  shows "m = m' \<and> p = p'"
  using no_dash [OF assms(1)] no_dash [OF assms(2)] assms(3)
  by (auto simp: append_eq_append_conv2 Cons_eq_append_conv append_eq_Cons_conv)

text \<open>Every operation of a document has an identifier of its own.\<close>

theorem operation_ids_distinct:
  assumes "distinct (map fst (entries paths))"
    and "list_all (\<lambda>(n, e). distinct (map fst (entries (Some e)))) (entries paths)"
  shows "distinct (map op_id (operations paths))"
proof -
  have one: "distinct (map op_id (path_operations n e))" if "distinct (map fst (entries (Some e)))" for n e
  proof -
    have "distinct (map fst (filter (\<lambda>(r, e). r \<in> set OPERATION_METHODS) (entries (Some e))))"
      using that by (rule distinct_map_filter)
    then have "distinct (map (\<lambda>m. m @ js ''-'' @ n) (map fst (filter (\<lambda>(r, e). r \<in> set OPERATION_METHODS) (entries (Some e)))))"
      by (simp only: distinct_map [of "\<lambda>m. m @ js ''-'' @ n"]) (simp add: inj_on_def)
    then show ?thesis by (simp add: path_operations_def method_loop_eq comp_def case_prod_beta)
  qed
  have "distinct (map op_id (concat (map (\<lambda>(n, e). path_operations n e) ps)))"
    if "distinct (map fst ps)" "list_all (\<lambda>(n, e). distinct (map fst (entries (Some e)))) ps" for ps
    using that
  proof (induction ps)
    case (Cons x ps)
    obtain n e where x: "x = (n, e)" by fastforce
    have "op_id t \<noteq> op_id t'" if "t \<in> set (path_operations n e)" "(n', e') \<in> set ps" "t' \<in> set (path_operations n' e')" for t t' n' e'
    proof
      assume "op_id t = op_id t'"
      with path_operations_members [OF that(1)] path_operations_members [OF that(3)]
      have "n = n'" using id_injective by metis
      with Cons.prems(1) that(2) x show False by force
    qed
    then have "set (map op_id (path_operations n e)) \<inter> set (map op_id (concat (map (\<lambda>(n, e). path_operations n e) ps))) = {}"
      by fastforce
    with Cons one [of e n] x show ?case by simp
  qed simp
  from this [OF assms] show ?thesis by (simp add: operations_eq)
qed

section \<open>What the merge gives\<close>

lemma mergeWith_lookup:
  "distinct (map fst n) \<Longrightarrow> map_of (mergeWith t n) k =
     (case map_of n k of None \<Rightarrow> map_of t k
      | Some v \<Rightarrow> Some (case map_of t k of None \<Rightarrow> v | Some x \<Rightarrow> mergerFn x v))"
proof (induction n arbitrary: t)
  case (Cons x n)
  obtain k' v where x: "x = (k', v)" by fastforce
  with Cons.prems have "map_of n k' = None" by (simp add: map_of_eq_None_iff)
  with Cons x show ?case by (auto split: option.split)
qed simp

section \<open>The groups\<close>

lemma push_to_lookup:
  "map_of (push_to k t g) k' = (if k' = k then Some ((case map_of g k of None \<Rightarrow> [] | Some l \<Rightarrow> l) @ [t]) else map_of g k')"
  by (simp add: push_to_def)

lemma push_all_lookup:
  "distinct n \<Longrightarrow> map_of (fold (\<lambda>k. push_to (Some k) t) n g) k =
     (if k \<in> Some ` set n then Some ((case map_of g k of None \<Rightarrow> [] | Some l \<Rightarrow> l) @ [t]) else map_of g k)"
  by (induction n arbitrary: g) (auto simp: push_to_lookup)

definition default_tag :: spec_node where
  "default_tag = Leaf (SStr (js ''default''))"

text \<open>The operation \<open>v\<close> of the document belongs to the group \<open>k\<close>.\<close>

definition tagged :: "spec_node option \<Rightarrow> spec_node \<Rightarrow> bool" where
  "tagged k v =
     (case set_values (\<lambda>xs. xs) (child (Some v) (js ''tags'')) of
        None \<Rightarrow> False
      | Some xs \<Rightarrow> if xs = [] then k = Some default_tag else k \<in> Some ` set xs)"

lemma set_values_iter:
  assumes "\<And>xs. set (iter xs) = set xs"
  shows "set_values iter v = map_option iter (set_values (\<lambda>xs. xs) v)"
proof -
  have "iter [] = []" using assms [of "[]"] by simp
  then show ?thesis by (auto simp: set_values_def split: option.split inode.split spec_value.split)
qed

lemma group_loop_lookup:
  assumes "\<And>xs. set (iter xs) = set xs" and "\<And>xs. distinct (iter xs)"
  shows "group_loop iter ts g = Some g' \<Longrightarrow> map_of g' k =
    (if filter (\<lambda>t. tagged k (op_operation t)) ts = [] then map_of g k
     else Some ((case map_of g k of None \<Rightarrow> [] | Some l \<Rightarrow> l) @ filter (\<lambda>t. tagged k (op_operation t)) ts))"
proof (induction ts arbitrary: g)
  case (Cons t ts)
  then obtain n where n: "operation_tags iter t = Some n" by (auto split: option.splits)
  let ?g = "if n = [] then push_to (Some (Leaf (SStr (js ''default'')))) t g else fold (\<lambda>k. push_to (Some k) t) n g"
  from n obtain xs where xs: "set_values (\<lambda>xs. xs) (child (Some (op_operation t)) (js ''tags'')) = Some xs" "n = iter xs"
    by (auto simp: operation_tags_def set_values_iter [OF assms(1)])
  have "xs = [] \<longleftrightarrow> n = []" using assms(1) [of xs] xs(2) by (metis set_empty)
  then have tag: "tagged k (op_operation t) \<longleftrightarrow> (if n = [] then k = Some default_tag else k \<in> Some ` set n)"
    using xs assms(1) [of xs] by (simp add: tagged_def)
  have "distinct n" using xs assms(2) by simp
  then have "map_of ?g k = (if tagged k (op_operation t)
      then Some ((case map_of g k of None \<Rightarrow> [] | Some l \<Rightarrow> l) @ [t]) else map_of g k)"
    unfolding tag by (simp add: push_to_lookup push_all_lookup default_tag_def)
  with Cons.IH [of ?g] Cons.prems n show ?case by simp
qed simp

lemma inherit_field_other: "inherit_field iter k root m = Some m' \<Longrightarrow> k' \<noteq> k \<Longrightarrow> map_of m' k' = map_of m k'"
  by (auto simp: inherit_field_def split: if_splits option.splits)

lemma inherit_operation_keeps:
  assumes "inherit_operation iter c p t = Some t'"
  shows "op_path t' = op_path t \<and> op_method t' = op_method t \<and> (tagged k (op_operation t') = tagged k (op_operation t))"
proof (cases "op_operation t")
  case (Leaf v)
  have "child (Some (if spec_truthy (Some (Leaf v)) then Leaf SUndefined else Node [])) q = None" for q
    by (simp add: child_def)
  with Leaf assms show ?thesis by (auto simp: inherit_operation_def tagged_def child_def [of "Some (Leaf v)"])
next
  case (Node m)
  with assms obtain m1 m2 where m: "inherit_field iter (js ''consumes'') c m = Some m1"
    "inherit_field iter (js ''produces'') p m1 = Some m2" "t' = t\<lparr>op_operation := Node m2\<rparr>"
    by (auto simp: inherit_operation_def split: option.splits)
  have "map_of m2 (js ''tags'') = map_of m (js ''tags'')"
    using inherit_field_other [OF m(2), of "js ''tags''"] inherit_field_other [OF m(1), of "js ''tags''"] by (simp add: inj_js)
  with Node m(3) show ?thesis by (simp add: tagged_def child_def)
qed

lemma those_map_filter:
  assumes "those (map f ts) = Some ts'" and "\<And>t t'. f t = Some t' \<Longrightarrow> g t' = g t \<and> P t' = P t"
  shows "map g (filter P ts') = map g (filter P ts)"
  using assms(1)
proof (induction ts arbitrary: ts')
  case (Cons t ts)
  then show ?case using assms(2) [of t] by (auto split: option.splits)
qed simp

text \<open>The operations of the document that a group should show, by path and method.\<close>

definition document_group :: "spec_node option \<Rightarrow> spec_node option \<Rightarrow> (js_string \<times> js_string) list" where
  "document_group paths k =
     [(n, r). (n, e) \<leftarrow> entries paths, (r, v) \<leftarrow> entries (Some e), r \<in> set OPERATION_METHODS \<and> tagged k v]"

lemma document_group_eq:
  "map (\<lambda>t. (op_path t, op_method t)) (filter (\<lambda>t. tagged k (op_operation t)) (operations paths)) = document_group paths k"
proof -
  have "map (\<lambda>t. (op_path t, op_method t)) (filter (\<lambda>t. tagged k (op_operation t)) (method_loop n ms []))
     = [(n, r). (r, v) \<leftarrow> ms, r \<in> set OPERATION_METHODS \<and> tagged k v]" for n ms
    unfolding method_loop_eq by (induction ms) auto
  then have one: "map (\<lambda>t. (op_path t, op_method t)) (filter (\<lambda>t. tagged k (op_operation t)) (path_operations n e))
     = [(n, r). (r, v) \<leftarrow> entries (Some e), r \<in> set OPERATION_METHODS \<and> tagged k v]" for n e
    unfolding path_operations_def .
  have "map (\<lambda>t. (op_path t, op_method t)) (filter (\<lambda>t. tagged k (op_operation t)) (concat (map (\<lambda>(n, e). path_operations n e) ps)))
     = [(n, r). (n, e) \<leftarrow> ps, (r, v) \<leftarrow> entries (Some e), r \<in> set OPERATION_METHODS \<and> tagged k v]" for ps
    by (induction ps) (auto simp: one)
  then show ?thesis by (simp add: operations_eq document_group_def)
qed

lemma declared_lookup:
  "map_of (fold (\<lambda>t. alist_put (map_of t (js ''name'')) []) ts g) k =
     (if k \<in> (\<lambda>t. map_of t (js ''name'')) ` set ts then Some [] else map_of g k)"
  by (induction ts arbitrary: g) auto

text \<open>C6. The groups shown by tag are those of the document: the group of a tag lists exactly the operations
  that carry it, untagged ones under \<open>default\<close>, in the order of the document and each once, and a group
  exists exactly for the declared tags and those in use.\<close>

theorem operations_grouped:
  assumes "\<And>xs. set (iter xs) = set xs" and "\<And>xs. distinct (iter xs)"
    and "operationsWithTags iter e = Some g"
  shows "map_option (map (\<lambda>t. (op_path t, op_method t))) (map_of g k) =
     (let l = document_group (child (Some (specJsonWithResolvedSubtrees e)) (js ''paths'')) k in
      if l = [] \<and> k \<notin> (\<lambda>t. map_of t (js ''name'')) ` set (tags e) then None else Some l)"
proof -
  let ?paths = "child (Some (specJsonWithResolvedSubtrees e)) (js ''paths'')"
  let ?g0 = "fold (\<lambda>t. alist_put (map_of t (js ''name'')) []) (tags e) []"
  obtain ops where ops: "operationsWithRootInherited iter e = Some ops" "group_loop iter ops ?g0 = Some g"
    using assms(3) by (auto simp: operationsWithTags_def split: option.splits)
  from ops(1) obtain c p where "those (map (inherit_operation iter c p) (operations ?paths)) = Some ops"
    by (auto simp: operationsWithRootInherited_def split: option.splits)
  then have l: "map (\<lambda>t. (op_path t, op_method t)) (filter (\<lambda>t. tagged k (op_operation t)) ops) = document_group ?paths k"
    unfolding document_group_eq [symmetric]
    by (rule those_map_filter) (simp add: inherit_operation_keeps)
  then have "filter (\<lambda>t. tagged k (op_operation t)) ops = [] \<longleftrightarrow> document_group ?paths k = []"
    by (metis map_is_Nil_conv)
  then show ?thesis
    using l group_loop_lookup [OF assms(1,2) ops(2), of k] by (auto simp: declared_lookup Let_def)
qed

definition sample_spec :: spec_node where
  "sample_spec = Node [(js ''json'', Node
     [(js ''tags'', Leaf (SList [Node [(js ''name'', Leaf (SStr (js ''store'')))]])),
      (js ''paths'', Node
        [(js ''/pet'', Node
           [(js ''post'', Node [(js ''tags'', Leaf (SList [Leaf (SStr (js ''pet'')), Leaf (SStr (js ''pet''))]))]),
            (js ''get'', Node []), (js ''summary'', Leaf (SStr (js ''pets'')))])])])]"

theorem operations_grouped_witness:
  "\<exists>g. operationsWithTags remdups sample_spec = Some g
     \<and> map_option (map (\<lambda>t. (op_path t, op_method t))) (map_of g (Some (Leaf (SStr (js ''pet''))))) = Some [(js ''/pet'', js ''post'')]"
proof -
  have s: "specJsonWithResolvedSubtrees sample_spec = spec_json sample_spec"
    by (simp add: specJsonWithResolvedSubtrees_def sample_spec_def spec_json_def child_def inj_js)
  have p: "child (Some (spec_json sample_spec)) (js ''paths'') = Some (Node
        [(js ''/pet'', Node
           [(js ''post'', Node [(js ''tags'', Leaf (SList [Leaf (SStr (js ''pet'')), Leaf (SStr (js ''pet''))]))]),
            (js ''get'', Node []), (js ''summary'', Leaf (SStr (js ''pets'')))])])"
    by (simp_all add: sample_spec_def spec_json_def child_def inj_js)
  have "operationsWithTags remdups sample_spec \<noteq> None"
    by (simp add: operationsWithTags_def operationsWithRootInherited_def set_values_def operations_def spec_json_def
        specJsonWithResolvedSubtrees_def sample_spec_def OPERATION_METHODS_def inherit_operation_def
        inherit_field_def operation_tags_def child_def inj_js)
  then obtain g where g: "operationsWithTags remdups sample_spec = Some g" by blast
  have d: "document_group (child (Some (specJsonWithResolvedSubtrees sample_spec)) (js ''paths'')) (Some (Leaf (SStr (js ''pet''))))
      = [(js ''/pet'', js ''post'')]"
    unfolding s p document_group_def
    by (simp add: OPERATION_METHODS_def tagged_def set_values_def child_def default_tag_def inj_js)
  show ?thesis
    using operations_grouped [of remdups, OF _ _ g, of "Some (Leaf (SStr (js ''pet'')))"] g d by simp
qed

theorem operation_ids_distinct_witness:
  "distinct (map op_id (operations (child (Some (spec_json sample_spec)) (js ''paths''))))"
  by (rule operation_ids_distinct) (simp_all add: sample_spec_def spec_json_def child_def inj_js)

end
