(* ===== verification/Swagger_Validate.thy ===== *)
theory Swagger_Validate
  imports Swagger_Spec
begin

text \<open>
  The validation of parameter values of the Swagger UI (\<open>swagger-ui-bundle.js\<close>, function
  \<open>validateValueBySchema\<close> and its helpers).  Arithmetic on floating-point numbers, regular
  expressions of the schema, \<open>JSON.parse\<close>, \<open>Date.parse\<close> and the conversion of values that are no
  strings to text are the functions of a record \<open>engine\<close>.  Validation throws where the code reads
  a property of \<open>undefined\<close> or \<open>null\<close> or calls what is no function; the result is then \<open>None\<close>.
\<close>

section \<open>Values and errors\<close>

text \<open>A number is known by the text it prints as, a file by its identity, a function by its arity.\<close>

datatype jval =
    JUndefined
  | JNull
  | JBool bool
  | JNum js_string
  | JStr js_string
  | JArr "jval list"
  | JObj "(js_string \<times> jval) list"
  | JFile nat
  | JFun nat

fun jtruthy :: "jval \<Rightarrow> bool" where
  "jtruthy JUndefined = False"
| "jtruthy JNull = False"
| "jtruthy (JBool b) = b"
| "jtruthy (JNum t) = (t \<notin> {js ''0'', js ''NaN''})"
| "jtruthy (JStr s) = (s \<noteq> [])"
| "jtruthy _ = True"

definition absent :: "jval \<Rightarrow> bool" where
  "absent e \<longleftrightarrow> e = JUndefined \<or> e = JNull"

datatype verror =
    ErrText js_string
  | ErrIndex nat verror
  | ErrProp js_string verror
  | ErrRemove js_string

record engine =
  num_less :: "jval \<Rightarrow> jval \<Rightarrow> bool"
  num_at_least :: "jval \<Rightarrow> jval \<Rightarrow> bool"
  regexp_test :: "js_string \<Rightarrow> js_string \<Rightarrow> bool option"
  parse_json :: "js_string \<Rightarrow> jval option"
  is_date :: "jval \<Rightarrow> bool"
  text_of :: "jval \<Rightarrow> js_string"
  node_text :: "spec_node \<Rightarrow> js_string"
  member_of :: "jval \<Rightarrow> js_string \<Rightarrow> jval"
  index_order :: "nat list \<Rightarrow> nat list"

fun js_nat :: "nat \<Rightarrow> js_string" where
  "js_nat n = (if n < 10 then [48 + n] else js_nat (n div 10) @ [48 + n mod 10])"

declare js_nat.simps [simp del]

definition value_text :: "engine \<Rightarrow> jval \<Rightarrow> js_string" where
  "value_text E e = (case e of JStr s \<Rightarrow> s | JNum t \<Rightarrow> t | _ \<Rightarrow> text_of E e)"

text \<open>A number or text of the schema as a value.\<close>

definition schema_value :: "spec_node \<Rightarrow> jval" where
  "schema_value v =
     (case v of
        Leaf (SStr s) \<Rightarrow> JStr s | Leaf (SNum t) \<Rightarrow> JNum t | Leaf (SBool b) \<Rightarrow> JBool b
      | Leaf SNull \<Rightarrow> JNull | Leaf SUndefined \<Rightarrow> JUndefined | _ \<Rightarrow> JObj [])"

definition schema_text :: "engine \<Rightarrow> spec_node \<Rightarrow> js_string" where
  "schema_text E v = (case v of Leaf (SStr s) \<Rightarrow> s | Leaf (SNum t) \<Rightarrow> t | _ \<Rightarrow> node_text E v)"

text \<open>The property \<open>length\<close>; reading it from \<open>undefined\<close> or \<open>null\<close> throws.\<close>

definition length_of :: "jval \<Rightarrow> jval option" where
  "length_of e =
     (case e of
        JUndefined \<Rightarrow> None
      | JNull \<Rightarrow> None
      | JStr s \<Rightarrow> Some (JNum (js_nat (length s)))
      | JArr xs \<Rightarrow> Some (JNum (js_nat (length xs)))
      | JObj m \<Rightarrow> Some (case map_of m (js ''length'') of None \<Rightarrow> JUndefined | Some v \<Rightarrow> v)
      | JFun n \<Rightarrow> Some (JNum (js_nat n))
      | _ \<Rightarrow> Some JUndefined)"

section \<open>Members\<close>

text \<open>What every object inherits.\<close>

definition object_prototype :: "js_string \<rightharpoonup> jval" where
  "object_prototype =
     [js ''__proto__'' \<mapsto> JObj [], js ''constructor'' \<mapsto> JFun 1, js ''hasOwnProperty'' \<mapsto> JFun 1,
      js ''isPrototypeOf'' \<mapsto> JFun 1, js ''propertyIsEnumerable'' \<mapsto> JFun 1, js ''toString'' \<mapsto> JFun 0,
      js ''toLocaleString'' \<mapsto> JFun 0, js ''valueOf'' \<mapsto> JFun 0, js ''__defineGetter__'' \<mapsto> JFun 2,
      js ''__defineSetter__'' \<mapsto> JFun 2, js ''__lookupGetter__'' \<mapsto> JFun 1, js ''__lookupSetter__'' \<mapsto> JFun 1]"

definition object_member :: "(js_string \<times> jval) list \<Rightarrow> js_string \<Rightarrow> jval" where
  "object_member m k =
     (case map_of m k of
        Some v \<Rightarrow> v
      | None \<Rightarrow> (case object_prototype k of Some v \<Rightarrow> v | None \<Rightarrow> JUndefined))"

definition member :: "engine \<Rightarrow> jval \<Rightarrow> js_string \<Rightarrow> jval option" where
  "member E v k =
     (case v of
        JUndefined \<Rightarrow> None
      | JNull \<Rightarrow> None
      | JObj m \<Rightarrow> Some (object_member m k)
      | _ \<Rightarrow> Some (member_of E v k))"

section \<open>The single checks\<close>

definition messages :: "bool \<Rightarrow> js_string \<Rightarrow> verror list" where
  "messages b t = (if b then [ErrText t] else [])"

text \<open>\<open>/^-?\d+$/\<close>, and \<open>/^-?\d+(\.?\d+)?$/\<close>: digits, optionally a point and digits behind it.\<close>

definition drop_sign :: "js_string \<Rightarrow> js_string" where
  "drop_sign s = (case s of [] \<Rightarrow> [] | c # r \<Rightarrow> if c = 45 then r else s)"

definition integer_text :: "js_string \<Rightarrow> bool" where
  "integer_text s = (drop_sign s \<noteq> [] \<and> list_all js_is_digit (drop_sign s))"

definition number_text :: "js_string \<Rightarrow> bool" where
  "number_text s =
     (let d = takeWhile js_is_digit (drop_sign s); r = dropWhile js_is_digit (drop_sign s) in
      d \<noteq> [] \<and> (case r of [] \<Rightarrow> True | c # f \<Rightarrow> c = 46 \<and> f \<noteq> [] \<and> list_all js_is_digit f))"

definition lower_text :: "js_string \<Rightarrow> js_string" where
  "lower_text s = map (\<lambda>c. if 65 \<le> c \<and> c \<le> 90 then c + 32 else c) s"

definition is_hex :: "code_unit \<Rightarrow> bool" where
  "is_hex c \<longleftrightarrow> js_is_digit c \<or> (97 \<le> c \<and> c \<le> 102)"

text \<open>\<open>/^[{(]?[0-9a-f]{8}-[0-9a-f]{4}-[0-9a-f]{4}-[0-9a-f]{4}-[0-9a-f]{12}[)}]?$/\<close>\<close>

definition uuid_text :: "js_string \<Rightarrow> bool" where
  "uuid_text s =
     (let a = (case s of c # r \<Rightarrow> if c \<in> {123, 40} then r else s | [] \<Rightarrow> []);
          b = (if a \<noteq> [] \<and> last a \<in> {125, 41} then butlast a else a);
          ps = split_on 45 b
      in map length ps = [8, 4, 4, 4, 12] \<and> list_all (list_all is_hex) ps)"

definition plural :: "js_string \<Rightarrow> spec_node \<Rightarrow> js_string" where
  "plural w t = (if t = Leaf (SNum (js ''1'')) then w else w @ js ''s'')"

text \<open>Pattern, bounds on items and length, and bounds on the value.\<close>

definition check_pattern :: "engine \<Rightarrow> jval \<Rightarrow> spec_node option \<Rightarrow> verror list option" where
  "check_pattern E e p =
     (if \<not> spec_truthy p then Some []
      else let t = schema_text E (the p) in
        map_option (\<lambda>b. messages (\<not> b) (js ''Value must follow pattern '' @ t)) (regexp_test E t (value_text E e)))"

definition length_less :: "engine \<Rightarrow> jval \<Rightarrow> spec_node \<Rightarrow> bool option" where
  "length_less E e t = map_option (\<lambda>l. num_less E l (schema_value t)) (length_of e)"

definition length_more :: "engine \<Rightarrow> jval \<Rightarrow> spec_node \<Rightarrow> bool option" where
  "length_more E e t = map_option (\<lambda>l. num_less E (schema_value t) l) (length_of e)"

definition check_minItems :: "engine \<Rightarrow> jval \<Rightarrow> spec_node option \<Rightarrow> verror list option" where
  "check_minItems E e p =
     (if \<not> spec_truthy p then Some []
      else let t = the p; text = js ''Array must contain at least '' @ schema_text E t @ plural (js '' item'') t in
        if \<not> jtruthy e then Some (messages (num_at_least E (schema_value t) (JNum (js ''1''))) text)
        else map_option (\<lambda>b. messages b text) (length_less E e t))"

definition check_maxItems :: "engine \<Rightarrow> jval \<Rightarrow> spec_node option \<Rightarrow> verror list option" where
  "check_maxItems E e p =
     (if \<not> spec_truthy p \<or> \<not> jtruthy e then Some []
      else let t = the p in
        map_option (\<lambda>b. if b then [ErrRemove (js ''Array must not contain more then '' @ schema_text E t @ plural (js '' item'') t)] else [])
          (length_more E e t))"

definition check_maxLength :: "engine \<Rightarrow> jval \<Rightarrow> spec_node option \<Rightarrow> verror list option" where
  "check_maxLength E e p =
     (if \<not> spec_truthy p \<and> p \<noteq> Some (Leaf (SNum (js ''0''))) then Some []
      else let t = the p in
        map_option (\<lambda>b. messages b (js ''Value must be no longer than '' @ schema_text E t @ plural (js '' character'') t))
          (length_more E e t))"

definition check_minLength :: "engine \<Rightarrow> jval \<Rightarrow> spec_node option \<Rightarrow> verror list option" where
  "check_minLength E e p =
     (if \<not> spec_truthy p then Some []
      else let t = the p in
        map_option (\<lambda>b. messages b (js ''Value must be at least '' @ schema_text E t @ plural (js '' character'') t))
          (length_less E e t))"

definition check_maximum :: "engine \<Rightarrow> jval \<Rightarrow> spec_node option \<Rightarrow> verror list" where
  "check_maximum E e p =
     (if \<not> spec_truthy p \<and> p \<noteq> Some (Leaf (SNum (js ''0''))) then []
      else messages (num_less E (schema_value (the p)) e) (js ''Value must be less than '' @ schema_text E (the p)))"

definition check_minimum :: "engine \<Rightarrow> jval \<Rightarrow> spec_node option \<Rightarrow> verror list" where
  "check_minimum E e p =
     (if \<not> spec_truthy p \<and> p \<noteq> Some (Leaf (SNum (js ''0''))) then []
      else messages (num_less E e (schema_value (the p))) (js ''Value must be greater than '' @ schema_text E (the p)))"

section \<open>Duplicates\<close>

text \<open>Equality of the library: objects are compared as maps, whatever the order of their keys.\<close>

fun same_value :: "jval \<Rightarrow> jval \<Rightarrow> bool" and same_list :: "jval list \<Rightarrow> jval list \<Rightarrow> bool"
  and same_fields :: "(js_string \<times> jval) list \<Rightarrow> (js_string \<times> jval) list \<Rightarrow> bool" where
  "same_value (JArr xs) v = (case v of JArr ys \<Rightarrow> same_list xs ys | _ \<Rightarrow> False)"
| "same_value (JObj m) v =
     (case v of JObj n \<Rightarrow> set (map fst m) = set (map fst n) \<and> same_fields m n | _ \<Rightarrow> False)"
| "same_value e v = (e = v)"
| "same_list [] ys = (ys = [])"
| "same_list (x # xs) ys = (case ys of [] \<Rightarrow> False | y # ys' \<Rightarrow> same_value x y \<and> same_list xs ys')"
| "same_fields [] n = True"
| "same_fields ((k, x) # m) n = ((case map_of n k of None \<Rightarrow> False | Some y \<Rightarrow> same_value x y) \<and> same_fields m n)"

fun distinct_values :: "jval list \<Rightarrow> jval list" where
  "distinct_values [] = []"
| "distinct_values (x # xs) = (if list_ex (same_value x) xs then distinct_values xs else x # distinct_values xs)"

text \<open>
  A text or a file has no set of elements, and an element \<open>null\<close> or \<open>undefined\<close> no method \<open>equals\<close>: then
  the check throws.
\<close>

definition check_uniqueItems :: "engine \<Rightarrow> jval \<Rightarrow> spec_node option \<Rightarrow> verror list option" where
  "check_uniqueItems E e p =
     (if p \<notin> {Some (Leaf (SStr (js ''true''))), Some (Leaf (SBool True))} \<or> \<not> jtruthy e then Some []
      else case e of
             JArr xs \<Rightarrow>
               if length xs \<le> length (distinct_values xs) then Some []
               else if list_ex absent xs then None
               else Some (map (\<lambda>i. ErrIndex i (ErrText (js ''No duplicates allowed.'')))
                      (index_order E (filter (\<lambda>i. length (filter (same_value (xs ! i)) xs) > 1) [0..<length xs])))
           | JObj m \<Rightarrow> Some []
           | _ \<Rightarrow> None)"

section \<open>Validation against a schema\<close>

definition has_type :: "spec_node option \<Rightarrow> string \<Rightarrow> bool" where
  "has_type d t = (d = Some (Leaf (SStr (js t))))"

text \<open>Whether a value counts as given, by the type of the schema.\<close>

definition has_value :: "spec_node option \<Rightarrow> jval \<Rightarrow> bool" where
  "has_value d e =
     ((has_type d ''string'' \<and> jtruthy e)
      \<or> (has_type d ''array'' \<and> (case e of JArr xs \<Rightarrow> xs \<noteq> [] | JStr s \<Rightarrow> s \<noteq> [] | _ \<Rightarrow> False))
      \<or> (has_type d ''file'' \<and> (case e of JFile _ \<Rightarrow> True | _ \<Rightarrow> False))
      \<or> (has_type d ''boolean'' \<and> (jtruthy e \<or> e = JBool False))
      \<or> ((has_type d ''number'' \<or> has_type d ''integer'') \<and> (jtruthy e \<or> e = JNum (js ''0'')))
      \<or> (has_type d ''object'' \<and> (case e of JObj _ \<Rightarrow> True | JArr _ \<Rightarrow> True | JFile _ \<Rightarrow> True | JStr s \<Rightarrow> s \<noteq> [] | _ \<Rightarrow> False)))"

definition required_error :: verror where
  "required_error = ErrText (js ''Required field is not provided'')"

text \<open>The value whose properties are checked: a text is parsed first.\<close>

definition object_value :: "engine \<Rightarrow> jval \<Rightarrow> jval option" where
  "object_value E e = (case e of JStr s \<Rightarrow> parse_json E s | _ \<Rightarrow> Some e)"

text \<open>
  The required properties: none when the keyword is absent or no list; \<open>null\<close> has no method and
  throws.
\<close>

definition required_properties :: "engine \<Rightarrow> jval \<Rightarrow> spec_node option \<Rightarrow> verror list option" where
  "required_properties E M c =
     (case c of
        Some (Leaf (SList ks)) \<Rightarrow>
          map_option concat (those (map (\<lambda>k. map_option
            (\<lambda>v. if v = JUndefined then [ErrProp (schema_text E k) (ErrText (js ''Required property not found''))] else [])
            (member E M (schema_text E k))) ks))
      | Some (Leaf SNull) \<Rightarrow> None
      | Some (Leaf SUndefined) \<Rightarrow> None
      | _ \<Rightarrow> Some [])"

text \<open>The simple checks, from the pattern to the minimum, in their order.\<close>

definition keyword_checks :: "engine \<Rightarrow> jval \<Rightarrow> (js_string \<times> spec_node) list \<Rightarrow> verror list option" where
  "keyword_checks E e t =
     (let k = (\<lambda>w. map_of t (js w)); arr = has_type (k ''type'') ''array'' in
      map_option concat (those
        [check_pattern E e (k ''pattern''),
         (if arr then check_minItems E e (k ''minItems'') else Some []),
         (if arr then check_maxItems E e (k ''maxItems'') else Some []),
         (if arr then check_uniqueItems E e (k ''uniqueItems'') else Some []),
         check_maxLength E e (k ''maxLength''),
         check_minLength E e (k ''minLength''),
         Some (check_maximum E e (k ''maximum'')),
         Some (check_minimum E e (k ''minimum''))]))"

text \<open>The check of the type itself; that of the elements of an array follows below.\<close>

definition type_check :: "engine \<Rightarrow> jval \<Rightarrow> spec_node option \<Rightarrow> spec_node option \<Rightarrow> verror list option" where
  "type_check E e d format =
     (if has_type d ''string'' then
        (if has_type format ''date-time'' then Some (messages (\<not> is_date E e) (js ''Value must be a DateTime''))
         else if has_type format ''uuid'' then
           (if absent e then None
            else Some (messages (\<not> uuid_text (lower_text (value_text E e))) (js ''Value must be a Guid'')))
         else Some (messages (jtruthy e \<and> (case e of JStr _ \<Rightarrow> False | _ \<Rightarrow> True)) (js ''Value must be a string'')))
      else if has_type d ''boolean'' then
        Some (messages (e \<notin> {JStr (js ''true''), JStr (js ''false''), JBool True, JBool False}) (js ''Value must be a boolean''))
      else if has_type d ''number'' then Some (messages (\<not> number_text (value_text E e)) (js ''Value must be a number''))
      else if has_type d ''integer'' then Some (messages (\<not> integer_text (value_text E e)) (js ''Value must be an integer''))
      else if has_type d ''file'' then
        Some (messages (jtruthy e \<and> (case e of JFile _ \<Rightarrow> False | _ \<Rightarrow> True)) (js ''Value must be a file''))
      else Some [])"

definition enumerated :: "'a list \<Rightarrow> (nat \<times> 'a) list" where
  "enumerated xs = zip [0..<length xs] xs"

lemma size_map_of: "map_of t k = Some s \<Longrightarrow> size s < Suc (size_list (size_prod (\<lambda>_. 0) size) t)"
  by (induction t) (auto split: if_splits)

text \<open>
  \<open>n\<close> tells whether the parameter is required, \<open>r\<close> whether an empty value is sent on purpose, \<open>a\<close> is the
  media type of its content (\<open>None\<close> for \<open>null\<close>).  A schema that is a truthy scalar has no method
  \<open>get\<close>; a list has, and no keyword.  Properties that are a list are not modelled.
\<close>

function (sequential) validateValueBySchema ::
  "engine \<Rightarrow> jval \<Rightarrow> spec_node option \<Rightarrow> bool \<Rightarrow> bool \<Rightarrow> js_string option \<Rightarrow> verror list option"
  and object_errors ::
  "engine \<Rightarrow> jval \<Rightarrow> (js_string \<times> spec_node) list \<Rightarrow> bool \<Rightarrow> js_string option \<Rightarrow> verror list option" where
  "validateValueBySchema E e (Some (Node t)) n r a =
     (let d = map_of t (js ''type'');
          C = (n \<or> spec_truthy (map_of t (js ''required'')))
      in
      if (spec_truthy (map_of t (js ''nullable'')) \<and> e = JNull) \<or> \<not> spec_truthy d \<or> \<not> (C \<or> \<not> absent e) then Some []
      else if C \<and> \<not> has_value d e \<and> \<not> r then Some [required_error]
      else if has_type d ''object'' \<and> a \<in> {None, Some (js ''application/json'')} then
        (case object_value E e of
           None \<Rightarrow> Some [ErrText (js ''Parameter string value must be valid JSON'')]
         | Some M \<Rightarrow>
             map_option concat (those
               [required_properties E M (map_of t (js ''required'')),
                (case map_of t (js ''properties'') of
                   None \<Rightarrow> Some []
                 | Some (Node ps) \<Rightarrow> object_errors E M ps r a
                 | Some _ \<Rightarrow> None),
                keyword_checks E e t]))
      else
        map_option concat (those
          [keyword_checks E e t,
           type_check E e d (map_of t (js ''format'')),
           (case e of
              JArr xs \<Rightarrow>
                if has_type d ''array'' then
                  map_option concat (those (map (\<lambda>(i, x).
                    map_option (map (ErrIndex i)) (validateValueBySchema E x (map_of t (js ''items'')) False r a)) (enumerated xs)))
                else Some []
            | _ \<Rightarrow> Some [])]))"
| "validateValueBySchema E e (Some (Leaf v)) n r a =
     (if spec_truthy (Some (Leaf v)) \<and> (case v of SList _ \<Rightarrow> False | _ \<Rightarrow> True) then None else Some [])"
| "validateValueBySchema E e None n r a = Some []"
| "object_errors E M [] r a = Some []"
| "object_errors E M ((k, s) # ps) r a =
     (case member E M k of
        None \<Rightarrow> None
      | Some v \<Rightarrow>
          (case (validateValueBySchema E v (Some s) False r a, object_errors E M ps r a) of
             (Some x, Some y) \<Rightarrow> Some (map (ErrProp k) x @ y)
           | _ \<Rightarrow> None))"
  by pat_completeness auto

termination
proof (relation "measure (case_sum
    (\<lambda>(E, e, s, n, r, a). case s of None \<Rightarrow> 0 | Some s \<Rightarrow> 2 * size s + 1)
    (\<lambda>(E, M, ps, r, a). 2 * size (Node ps)))", goal_cases)
  case (2 E e t n r a d C M x)
  then show ?case using size_map_of [of t "js ''properties''"] by fastforce
next
  case (3 E e t n r a d C xs x i y)
  then show ?case using size_map_of [of t "js ''items''"] by (cases "map_of t (js ''items'')") fastforce+
qed simp_all

section \<open>Parameters\<close>

definition supported_keys :: "js_string list" where
  "supported_keys = map js [''type'', ''format'', ''items'', ''default'', ''maximum'', ''exclusiveMaximum'', ''minimum'',
     ''exclusiveMinimum'', ''maxLength'', ''minLength'', ''pattern'', ''maxItems'', ''minItems'', ''uniqueItems'',
     ''enum'', ''multipleOf'']"

text \<open>The schema of a parameter and the media type of its content; content that is a
  truthy scalar throws.  Of a list the first element is taken, and its index stands for the media type.\<close>

definition getParameterSchema :: "bool \<Rightarrow> spec_node \<Rightarrow> (spec_node \<times> js_string option) option" where
  "getParameterSchema isOAS3 p =
     (let schema = (case child (Some p) (js ''schema'') of None \<Rightarrow> Node [] | Some s \<Rightarrow> s) in
      case p of
        Leaf _ \<Rightarrow> Some (Node [], None)
      | Node m \<Rightarrow>
          if \<not> isOAS3 then
            (if map_of m (js ''in'') = Some (Leaf (SStr (js ''body''))) then Some (schema, None)
             else Some (Node (filter (\<lambda>(k, v). k \<in> set supported_keys) m), None))
          else if spec_truthy (map_of m (js ''content'')) then
            (case map_of m (js ''content'') of
               Some (Node ((a, c) # cs)) \<Rightarrow>
                 Some (case child (Some c) (js ''schema'') of None \<Rightarrow> Node [] | Some s \<Rightarrow> s, Some a)
             | Some (Leaf (SList (c # cs))) \<Rightarrow>
                 Some (case child (Some c) (js ''schema'') of None \<Rightarrow> Node [] | Some s \<Rightarrow> s, Some (js ''0''))
             | Some (Node []) \<Rightarrow> Some (Node [], None)
             | Some (Leaf (SList [])) \<Rightarrow> Some (Node [], None)
             | _ \<Rightarrow> None)
          else Some (schema, None))"

definition validateParam :: "engine \<Rightarrow> spec_node \<Rightarrow> jval \<Rightarrow> bool \<Rightarrow> bool \<Rightarrow> verror list option" where
  "validateParam E p v isOAS3 bypassRequiredCheck =
     (case getParameterSchema isOAS3 p of
        None \<Rightarrow> None
      | Some (schema, media) \<Rightarrow>
          validateValueBySchema E v (Some schema) (spec_truthy (child (Some p) (js ''required''))) bypassRequiredCheck media)"

section \<open>Which texts are numbers\<close>

lemma keyword_checks_type: "keyword_checks E e [(js ''type'', v)] = Some []"
  by (simp add: keyword_checks_def inj_js check_pattern_def check_minItems_def check_maxItems_def
      check_uniqueItems_def check_maxLength_def check_minLength_def check_maximum_def check_minimum_def Let_def)

lemma js_eq_Nil: "js t = [] \<longleftrightarrow> t = []"
  by (simp add: js_def)

lemma number_text_iff:
  "number_text s \<longleftrightarrow> (\<exists>sign d f. s = sign @ d @ f \<and> sign \<in> {[], [45]} \<and> d \<noteq> [] \<and> list_all js_is_digit d
      \<and> (f = [] \<or> (\<exists>g. f = 46 # g \<and> g \<noteq> [] \<and> list_all js_is_digit g)))" (is "_ \<longleftrightarrow> ?R")
proof
  assume n: "number_text s"
  let ?d = "takeWhile js_is_digit (drop_sign s)" and ?f = "dropWhile js_is_digit (drop_sign s)"
  have "\<exists>sign. sign \<in> {[], [45]} \<and> s = sign @ drop_sign s"
    by (cases s) (auto simp: drop_sign_def)
  then obtain sign where "sign \<in> {[], [45]}" "s = sign @ ?d @ ?f" by auto
  moreover have "?d \<noteq> []" "list_all js_is_digit ?d" "?f = [] \<or> (\<exists>g. ?f = 46 # g \<and> g \<noteq> [] \<and> list_all js_is_digit g)"
    using n by (auto simp: number_text_def Let_def list_all_iff dest: set_takeWhileD split: list.splits)
  ultimately show ?R by blast
next
  assume ?R
  then obtain sign d f where *: "s = sign @ d @ f" "sign \<in> {[], [45]}" "d \<noteq> []" "list_all js_is_digit d"
    "f = [] \<or> (\<exists>g. f = 46 # g \<and> g \<noteq> [] \<and> list_all js_is_digit g)" by blast
  have "hd d \<noteq> 45" using *(3,4) by (cases d) (auto simp: js_is_digit_def)
  with *(3) have "drop_sign s = d @ f" using *(1,2) by (cases d) (auto simp: drop_sign_def)
  moreover have "takeWhile js_is_digit (d @ f) = d" "dropWhile js_is_digit (d @ f) = f"
    using *(4,5) by (auto simp: list_all_iff takeWhile_append js_is_digit_def dropWhile_append)
  ultimately show "number_text s" using *(3,5) by (auto simp: number_text_def)
qed

lemma integer_text_iff:
  "integer_text s \<longleftrightarrow> (\<exists>sign d. s = sign @ d \<and> sign \<in> {[], [45]} \<and> d \<noteq> [] \<and> list_all js_is_digit d)" (is "_ \<longleftrightarrow> ?R")
proof
  assume "integer_text s"
  moreover have "\<exists>sign. sign \<in> {[], [45]} \<and> s = sign @ drop_sign s"
    by (cases s) (auto simp: drop_sign_def)
  ultimately show ?R by (auto simp: integer_text_def)
next
  assume ?R
  then obtain sign d where *: "s = sign @ d" "sign \<in> {[], [45]}" "d \<noteq> []" "list_all js_is_digit d" by blast
  then have "hd d \<noteq> 45" by (cases d) (auto simp: js_is_digit_def)
  with * have "drop_sign s = d" by (cases d) (auto simp: drop_sign_def)
  with * show "integer_text s" by (simp add: integer_text_def)
qed

definition typed_schema :: "string \<Rightarrow> spec_node" where
  "typed_schema t = Node [(js ''type'', Leaf (SStr (js t)))]"

lemma validate_typed:
  assumes "t \<in> {''number'', ''integer''}"
  shows "validateValueBySchema E (JStr s) (Some (typed_schema t)) False r a
     = Some (if (if t = ''number'' then number_text s else integer_text s) then []
             else [ErrText (if t = ''number'' then js ''Value must be a number'' else js ''Value must be an integer'')])"
  using assms
  by (auto simp: typed_schema_def keyword_checks_type absent_def type_check_def has_type_def inj_js value_text_def
      messages_def js_eq_Nil)

text \<open>Of the texts that an optional number parameter may have, exactly those are accepted that consist of an
  optional minus sign, digits, and possibly a point with digits behind it; for an integer parameter there
  is no fraction.  So an exponent is refused, and so is the empty text.\<close>

theorem numeric_texts_accepted:
  "(validateValueBySchema E (JStr s) (Some (typed_schema ''number'')) False r a = Some [] \<longleftrightarrow>
      (\<exists>sign d f. s = sign @ d @ f \<and> sign \<in> {[], [45]} \<and> d \<noteq> [] \<and> list_all js_is_digit d
         \<and> f \<in> insert [] {46 # g | g. g \<noteq> [] \<and> list_all js_is_digit g}))
   \<and> (validateValueBySchema E (JStr s) (Some (typed_schema ''integer'')) False r a = Some [] \<longleftrightarrow>
      (\<exists>sign d. s = sign @ d \<and> sign \<in> {[], [45]} \<and> d \<noteq> [] \<and> list_all js_is_digit d))"
proof -
  have f: "f \<in> insert [] {46 # g | g. g \<noteq> [] \<and> list_all js_is_digit g} \<longleftrightarrow>
      f = [] \<or> (\<exists>g. f = 46 # g \<and> g \<noteq> [] \<and> list_all js_is_digit g)" for f by blast
  have "validateValueBySchema E (JStr s) (Some (typed_schema ''number'')) False r a = Some [] \<longleftrightarrow> number_text s"
    "validateValueBySchema E (JStr s) (Some (typed_schema ''integer'')) False r a = Some [] \<longleftrightarrow> integer_text s"
    by (simp_all add: validate_typed)
  then show ?thesis unfolding f number_text_iff [symmetric] integer_text_iff [symmetric] by blast
qed

section \<open>When validation throws\<close>

definition scalar_type :: "spec_node option \<Rightarrow> bool" where
  "scalar_type d = list_ex (has_type d) [''string'', ''number'', ''integer'', ''boolean'', ''file'']"

definition given :: "spec_node option \<Rightarrow> bool" where
  "given p = (spec_truthy p \<or> p = Some (Leaf (SNum (js ''0''))))"

text \<open>C30. With the choice to send an empty value, the validation of a missing value of scalar type throws
  exactly when the parameter is required and a bound on the length, or the format \<open>uuid\<close> of a text,
  makes the code read from the missing value.\<close>

theorem empty_value_throws:
  assumes "scalar_type (map_of t (js ''type''))" and "absent e"
    and "check_pattern E e (map_of t (js ''pattern'')) \<noteq> None"
  shows "validateValueBySchema E e (Some (Node t)) n True a = None \<longleftrightarrow>
     (n \<or> spec_truthy (map_of t (js ''required''))) \<and> \<not> (spec_truthy (map_of t (js ''nullable'')) \<and> e = JNull)
     \<and> (given (map_of t (js ''maxLength'')) \<or> spec_truthy (map_of t (js ''minLength''))
        \<or> (has_type (map_of t (js ''type'')) ''string'' \<and> has_type (map_of t (js ''format'')) ''uuid''))"
proof -
  let ?d = "map_of t (js ''type'')"
  have d: "spec_truthy ?d" "\<not> has_type ?d ''object''" "\<not> has_type ?d ''array''"
    using assms(1) by (auto simp: scalar_type_def has_type_def inj_js js_eq_Nil)
  have len: "length_of e = None" using assms(2) by (auto simp: absent_def length_of_def)
  obtain ps where ps: "check_pattern E e (map_of t (js ''pattern'')) = Some ps" using assms(3) by blast
  have max: "check_maxLength E e p = None \<longleftrightarrow> given p" for p
    by (simp add: check_maxLength_def given_def length_more_def len Let_def)
  have min: "check_minLength E e p = None \<longleftrightarrow> spec_truthy p" for p
    by (simp add: check_minLength_def length_less_def len Let_def)
  have key: "keyword_checks E e t = None \<longleftrightarrow> given (map_of t (js ''maxLength'')) \<or> spec_truthy (map_of t (js ''minLength''))"
    using max [of "map_of t (js ''maxLength'')"] min [of "map_of t (js ''minLength'')"]
    by (auto simp: keyword_checks_def Let_def ps d split: option.split)
  have type: "type_check E e ?d f = None \<longleftrightarrow> has_type ?d ''string'' \<and> has_type f ''uuid''" for f
    using assms(2) by (auto simp: type_check_def has_type_def inj_js)
  have "(case e of JArr xs \<Rightarrow> A xs | _ \<Rightarrow> Some []) = Some []" for A :: "jval list \<Rightarrow> verror list option"
    using assms(2) by (auto simp: absent_def)
  then show ?thesis
    using key type [of "map_of t (js ''format'')"] d assms(2)
    by (auto simp: Let_def split: option.splits)
qed

definition sample_engine :: engine where
  "sample_engine = \<lparr>num_less = (\<lambda>_ _. False), num_at_least = (\<lambda>_ _. False), regexp_test = (\<lambda>_ _. Some True),
     parse_json = (\<lambda>_. None), is_date = (\<lambda>_. False), text_of = (\<lambda>_. []), node_text = (\<lambda>_. []),
     member_of = (\<lambda>_ _. JUndefined), index_order = (\<lambda>l. l)\<rparr>"

theorem empty_value_throws_witness:
  "validateValueBySchema sample_engine JUndefined
     (Some (Node [(js ''type'', Leaf (SStr (js ''string''))), (js ''maxLength'', Leaf (SNum (js ''5'')))])) True True None = None"
  by (subst empty_value_throws)
     (simp_all add: scalar_type_def has_type_def absent_def check_pattern_def given_def inj_js)

end
