(* ===== verification/Swagger_Style.thy ===== *)
theory Swagger_Style
  imports Swagger_Validate Js_Url
begin

text \<open>
  The style serializer with which the Swagger UI puts parameter values into requests
  (\<open>swagger-ui-bundle.js\<close>, functions \<open>encodeDisallowedCharacters\<close>, \<open>stylize\<close>, \<open>encodeArray\<close>, \<open>encodeObject\<close> and
  \<open>encodePrimitive\<close> of the bundled client).  The option that makes \<open>encodeDisallowedCharacters\<close> parse its
  argument is never passed by a caller and is left out.
\<close>

section \<open>Escaping\<close>

text \<open>The iteration of a string by code points, a lone surrogate being one of its own.\<close>

fun js_points :: "js_string \<Rightarrow> js_string list" where
  "js_points [] = []"
| "js_points [c] = [[c]]"
| "js_points (c # d # s) = (if is_high c \<and> is_low d then [c, d] # js_points s else [c] # js_points (d # s))"

text \<open>The code point that is written as UTF-8; a lone surrogate becomes the replacement character.\<close>

definition point_code :: "js_string \<Rightarrow> nat" where
  "point_code p =
     (case p of
        [c] \<Rightarrow> if is_high c \<or> is_low c then 0xFFFD else c
      | [c, d] \<Rightarrow> 0x10000 + (c - 0xD800) * 0x400 + (d - 0xDC00)
      | _ \<Rightarrow> 0xFFFD)"

datatype escaping = NoEscape | EscapeReserved | AllowReserved

definition is_unreserved :: "js_string \<Rightarrow> bool" where
  "is_unreserved p =
     (case p of
        [c] \<Rightarrow> (97 \<le> c \<and> c \<le> 122) \<or> (65 \<le> c \<and> c \<le> 90) \<or> js_is_digit c \<or> c \<in> set (js ''-._~'')
      | _ \<Rightarrow> False)"

definition is_reserved :: "js_string \<Rightarrow> bool" where
  "is_reserved p = contains (js '':/?#[]@!$&'' @ [39] @ js ''()*+,;='') p"

definition escape_point :: "escaping \<Rightarrow> js_string \<Rightarrow> js_string" where
  "escape_point esc p =
     (if is_unreserved p \<or> (is_reserved p \<and> esc = AllowReserved) then p else percent_point (point_code p))"

definition escape_text :: "escaping \<Rightarrow> js_string \<Rightarrow> js_string" where
  "escape_text esc s = concat (map (escape_point esc) (js_points s))"

definition encodeDisallowedCharacters :: "escaping \<Rightarrow> jval \<Rightarrow> jval" where
  "encodeDisallowedCharacters esc v =
     (case (case v of JNum t \<Rightarrow> JStr t | _ \<Rightarrow> v) of
        JStr s \<Rightarrow> JStr (if s \<noteq> [] \<and> esc \<noteq> NoEscape then escape_text esc s else s)
      | _ \<Rightarrow> v)"

section \<open>Styles\<close>

text \<open>Conversion to text in concatenations, and in \<open>join\<close>, where missing values are empty.\<close>

definition concat_text :: "engine \<Rightarrow> jval \<Rightarrow> js_string" where
  "concat_text E v =
     (case v of
        JUndefined \<Rightarrow> js ''undefined''
      | JNull \<Rightarrow> js ''null''
      | JBool b \<Rightarrow> (if b then js ''true'' else js ''false'')
      | _ \<Rightarrow> value_text E v)"

definition join_text :: "engine \<Rightarrow> jval \<Rightarrow> js_string" where
  "join_text E v = (if absent v then [] else concat_text E v)"

definition join_values :: "engine \<Rightarrow> js_string \<Rightarrow> jval list \<Rightarrow> js_string" where
  "join_values E sep vs = join_with sep (map (join_text E) vs)"

text \<open>A function that falls off its end returns \<open>undefined\<close>.\<close>

definition encodeArray :: "engine \<Rightarrow> js_string \<Rightarrow> js_string \<Rightarrow> bool \<Rightarrow> escaping \<Rightarrow> jval list \<Rightarrow> jval" where
  "encodeArray E key style explode esc xs =
     (let vs = map (encodeDisallowedCharacters esc) xs in
      if style = js ''simple'' then JStr (join_values E (js '','') vs)
      else if style = js ''label'' then JStr (js ''.'' @ join_values E (js ''.'') vs)
      else if style = js ''matrix'' then
        JStr (foldl (\<lambda>e v. if e = [] \<or> explode then e @ js '';'' @ key @ js ''='' @ concat_text E v
                           else e @ js '','' @ concat_text E v) [] vs)
      else if style = js ''form'' then
        JStr (join_values E (if explode then js ''&'' @ key @ js ''='' else js '','') vs)
      else if style = js ''spaceDelimited'' then
        JStr (join_values E (js '' '' @ (if explode then key @ js ''='' else [])) vs)
      else if style = js ''pipeDelimited'' then
        JStr (join_values E (js ''|'' @ (if explode then key @ js ''='' else [])) vs)
      else JUndefined)"

text \<open>The own enumerable properties, in the order of \<open>Object.keys\<close>.\<close>

definition own_entries :: "'v js_object \<Rightarrow> (js_string \<times> 'v) list" where
  "own_entries m =
     sort_key (\<lambda>(k, x). the (array_index k)) (filter (\<lambda>(k, x). array_index k \<noteq> None) m)
     @ filter (\<lambda>(k, x). array_index k = None) m"

definition encodeObject :: "engine \<Rightarrow> js_string \<Rightarrow> js_string \<Rightarrow> bool \<Rightarrow> escaping \<Rightarrow> jval js_object \<Rightarrow> jval" where
  "encodeObject E key style explode esc m =
     (let es = map (\<lambda>(k, x). (k, concat_text E (encodeDisallowedCharacters esc x))) (own_entries m) in
      if style = js ''simple'' then
        JStr (foldl (\<lambda>e (k, c). (if e = [] then [] else e @ js '','') @ k @ (if explode then js ''='' else js '','') @ c) [] es)
      else if style = js ''label'' then
        JStr (foldl (\<lambda>e (k, c). (if e = [] then js ''.'' else e @ js ''.'') @ k @ (if explode then js ''='' else js ''.'') @ c) [] es)
      else if style = js ''matrix'' \<and> explode then
        JStr (foldl (\<lambda>e (k, c). (if e = [] then js '';'' else e @ js '';'') @ k @ js ''='' @ c) [] es)
      else if style = js ''matrix'' then
        JStr (foldl (\<lambda>e (k, c). (if e = [] then js '';'' @ key @ js ''='' else e @ js '','') @ k @ js '','' @ c) [] es)
      else if style = js ''form'' then
        JStr (foldl (\<lambda>e (k, c). (if e = [] then [] else e @ (if explode then js ''&'' else js '',''))
                @ k @ (if explode then js ''='' else js '','') @ c) [] es)
      else JUndefined)"

definition encodePrimitive :: "engine \<Rightarrow> js_string \<Rightarrow> js_string \<Rightarrow> escaping \<Rightarrow> jval \<Rightarrow> jval" where
  "encodePrimitive E key style esc v =
     (let c = encodeDisallowedCharacters esc v in
      if style = js ''simple'' then c
      else if style = js ''label'' then JStr (js ''.'' @ concat_text E c)
      else if style = js ''matrix'' then JStr (js '';'' @ key @ js ''='' @ concat_text E c)
      else if style = js ''form'' \<or> style = js ''deepObject'' then c
      else JUndefined)"

text \<open>The keys of \<open>null\<close> cannot be listed, which throws; a file has no keys.\<close>

definition stylize :: "engine \<Rightarrow> js_string \<Rightarrow> js_string \<Rightarrow> bool \<Rightarrow> escaping \<Rightarrow> jval \<Rightarrow> jval option" where
  "stylize E key style explode esc v =
     (case v of
        JArr xs \<Rightarrow> Some (encodeArray E key style explode esc xs)
      | JObj m \<Rightarrow> Some (encodeObject E key style explode esc m)
      | JFile _ \<Rightarrow> Some (encodeObject E key style explode esc [])
      | JNull \<Rightarrow> None
      | _ \<Rightarrow> Some (encodePrimitive E key style esc v))"

section \<open>Escaped text\<close>

lemma escape_Cons:
  assumes "\<not> is_high c"
  shows "escape_text esc (c # s) = escape_point esc [c] @ escape_text esc s"
  using assms by (cases s) (simp_all add: escape_text_def)

lemma escape_pair:
  assumes "is_high c" "is_low d"
  shows "escape_text esc (c # d # s) = escape_point esc [c, d] @ escape_text esc s"
  using assms by (simp add: escape_text_def)

lemma reserved_pair: "is_high c \<Longrightarrow> \<not> is_reserved (c # p)"
  by (auto simp: is_reserved_def is_high_def js_simps contains_iff Cons_eq_append_conv)

lemma escape_kept: "escape_point esc p = p \<or> escape_point esc p = percent_point (point_code p)"
  by (simp add: escape_point_def)

lemma reserved_unit: "is_reserved [c] \<Longrightarrow> c \<noteq> 37 \<and> \<not> is_high c"
  by (auto simp: is_reserved_def is_high_def js_simps)

lemma unreserved_unit: "is_unreserved [c] \<Longrightarrow> uri_unescaped c \<and> c \<noteq> 37"
  by (auto simp: is_unreserved_def uri_unescaped_def js_is_digit_def js_simps)

lemma decode_escape_unit:
  assumes "\<not> is_high c" "\<not> is_low c" "c < 0x10000"
  shows "decodeURIComponent (escape_point esc [c] @ t) = map_option (\<lambda>r. c # r) (decodeURIComponent t)"
proof (cases "is_unreserved [c] \<or> (is_reserved [c] \<and> esc = AllowReserved)")
  case True
  then have "c \<noteq> 37" using reserved_unit unreserved_unit by blast
  with True show ?thesis by (simp add: escape_point_def)
next
  case False
  have "is_scalar c" "utf16 c = [c]"
    using assms by (auto simp: is_scalar_def utf16_def is_high_def is_low_def)
  moreover have "escape_point esc [c] = percent_point c"
    using False assms by (simp only: escape_point_def if_False) (simp add: point_code_def)
  ultimately show ?thesis by (simp add: decode_percent_point)
qed

lemma decode_escape_pair:
  assumes "is_high c" "is_low d"
  shows "decodeURIComponent (escape_point esc [c, d] @ t) = map_option (\<lambda>r. [c, d] @ r) (decodeURIComponent t)"
  using surrogate_pair [OF assms] reserved_pair [OF assms(1)]
  by (simp add: escape_point_def is_unreserved_def point_code_def decode_percent_point)

lemma decode_escape:
  "well_formed s \<Longrightarrow> decodeURIComponent (escape_text esc s @ t) = map_option (\<lambda>r. s @ r) (decodeURIComponent t)"
proof (induction s rule: well_formed.induct)
  case (2 c s)
  show ?case
  proof (cases "is_high c")
    case True
    then obtain d r where "s = d # r" "is_low d" "well_formed r" using 2(3) by (auto split: list.splits)
    with 2(1) True show ?thesis
      by (simp add: escape_pair decode_escape_pair option.map_comp comp_def)
  next
    case False
    with 2 show ?thesis by (simp add: escape_Cons decode_escape_unit option.map_comp comp_def)
  qed
qed (simp add: escape_text_def map_option_case split: option.split)

definition escaped_unit :: "code_unit \<Rightarrow> bool" where
  "escaped_unit c = (is_unreserved [c] \<or> c = 37)"

lemma hex_digit_escaped: "n < 16 \<Longrightarrow> escaped_unit (hex_digit n)"
  by (auto simp: escaped_unit_def hex_digit_def is_unreserved_def js_is_digit_def)

lemma escape_units:
  assumes "\<And>c. c \<in> set s \<Longrightarrow> c < 0x10000" and "c \<in> set (escape_text EscapeReserved s)"
  shows "escaped_unit c"
proof -
  obtain p where p: "p \<in> set (js_points s)" "c \<in> set (escape_point EscapeReserved p)"
    using assms(2) by (auto simp: escape_text_def)
  have "(\<exists>d. p = [d] \<and> d < 0x10000) \<or> (\<exists>d e. p = [d, e] \<and> is_high d \<and> is_low e)"
    using assms(1) p(1) by (induction s rule: js_points.induct) (auto split: if_splits)
  then have code: "point_code p < 0x110000"
    using surrogate_pair(3) by (auto simp: point_code_def)
  show ?thesis
  proof (cases "is_unreserved p")
    case True
    with p(2) show ?thesis by (auto simp: escape_point_def escaped_unit_def is_unreserved_def split: list.splits)
  next
    case False
    then have "c \<in> set (percent_point (point_code p))" using p(2) by (simp add: escape_point_def)
    then obtain b where "b < 256" "c \<in> set (percent b)"
      using utf8_bytes [OF code] by (auto simp: percent_point_def list_all_iff)
    then have "c = 37 \<or> c = hex_digit (b div 16) \<or> c = hex_digit (b mod 16)" "b div 16 < 16"
      by (auto simp: percent_def)
    then show ?thesis using hex_digit_escaped [of "b div 16"] hex_digit_escaped [of "b mod 16"]
      by (auto simp: escaped_unit_def)
  qed
qed

lemma escape_point_nonempty: "p \<noteq> [] \<Longrightarrow> escape_point esc p \<noteq> []"
  using escape_kept [of esc p] percent_point_Cons [of "point_code p"] by auto

lemma escape_empty_iff: "escape_text esc s = [] \<longleftrightarrow> s = []"
proof (cases s)
  case (Cons c r)
  have "\<exists>p ps. js_points s = p # ps \<and> p \<noteq> []" unfolding Cons by (cases r) auto
  then show ?thesis using escape_point_nonempty Cons by (auto simp: escape_text_def)
qed (simp add: escape_text_def)

lemma not_escaped_units: "\<not> escaped_unit 38" "\<not> escaped_unit 61" "\<not> escaped_unit 47" "\<not> escaped_unit 35"
  "\<not> escaped_unit 44" "\<not> escaped_unit 59" "\<not> escaped_unit 63" "\<not> escaped_unit 123" "\<not> escaped_unit 125"
  by (simp_all add: escaped_unit_def is_unreserved_def js_is_digit_def js_simps)

interpretation esc: component_codec "\<lambda>s. Some (escape_text EscapeReserved s)" decodeURIComponent well_formed
  "{38, 61, 47, 35, 44, 59, 63, 123, 125}"
proof unfold_locales
  fix s e assume s: "well_formed s" and e: "Some (escape_text EscapeReserved s) = Some e"
  show "decodeURIComponent e = Some s" using decode_escape [OF s, of EscapeReserved "[]"] e by simp
  have "escaped_unit c" if "c \<in> set e" for c
    using escape_units [of s c] that e well_formed_units [OF s] by (auto simp: list_all_iff)
  then show "set e \<inter> {38, 61, 47, 35, 44, 59, 63, 123, 125} = {}" using not_escaped_units by auto
  show "e = [] \<longleftrightarrow> s = []" using e escape_empty_iff by auto
qed simp

text \<open>Escaping a text for a request loses nothing, whether reserved characters are escaped or kept, and when
  they are escaped the result consists of unreserved characters and percent signs alone, so that no value
  adds a delimiter to a URL.  Lone surrogates, for which decoding has nothing to give back, do not break
  this.\<close>

theorem escaped_text_safe:
  assumes "well_formed s" and "list_all (\<lambda>c. c < 0x10000) u"
  shows "encodeDisallowedCharacters esc (JStr s) = JStr (if esc = NoEscape then s else escape_text esc s)
     \<and> decodeURIComponent (escape_text esc s) = Some s
     \<and> list_all (\<lambda>c. is_unreserved [c] \<or> c = 37) (escape_text EscapeReserved u)"
  using decode_escape [OF assms(1), of esc "[]"] escape_units [of u] assms(2)
  by (auto simp: encodeDisallowedCharacters_def list_all_iff escaped_unit_def escape_text_def)

section \<open>Arrays in a path\<close>

lemma encode_strings:
  "map (encodeDisallowedCharacters EscapeReserved) (map JStr xs) = map (\<lambda>x. JStr (escape_text EscapeReserved x)) xs"
  by (auto simp: encodeDisallowedCharacters_def escape_text_def)

lemma join_strings: "join_values E sep (map (\<lambda>x. JStr (f x)) xs) = join_with sep (map f xs)"
  by (simp add: join_values_def join_text_def absent_def concat_text_def value_text_def comp_def)

lemma matrix_fold:
  "foldl (\<lambda>e v. if e = [] \<or> explode then e @ sep @ concat_text E v else e @ js '','' @ concat_text E v) b
     (map (\<lambda>x. JStr (f x)) xs) =
   b @ (if explode then concat (map (\<lambda>x. sep @ f x) xs)
        else (if b = [] \<and> xs \<noteq> [] then sep @ join_with (js '','') (map f xs)
              else concat (map (\<lambda>x. js '','' @ f x) xs)))"
  if "sep \<noteq> []"
proof (induction xs arbitrary: b)
  case (Cons x xs)
  have "js '','' @ join_with (js '','') (map f xs) = concat (map (\<lambda>x. js '','' @ f x) xs)" if "xs \<noteq> []" for xs
    using that by (induction xs rule: induct_list012) auto
  moreover have "join_with (js '','') (map f (x # xs)) = f x @ (if xs = [] then [] else js '','' @ join_with (js '','') (map f xs))"
    by (cases xs) auto
  ultimately show ?case using Cons that by (auto simp: concat_text_def value_text_def)
qed simp

lemma decoded_parts:
  assumes "list_all well_formed xs" "xs \<noteq> []" "sep \<in> {44, 59}"
  shows "map decodeURIComponent (split_on sep (join_with [sep] (map (escape_text EscapeReserved) xs))) = map Some xs"
proof -
  have "sep \<notin> set (escape_text EscapeReserved x)" if "x \<in> set xs" for x
    using esc.enc_delims [of x "escape_text EscapeReserved x"] assms(1,3) that by (auto simp: list_all_iff)
  then have "split_on sep (join_with [sep] (map (escape_text EscapeReserved) xs)) = map (escape_text EscapeReserved) xs"
    by (intro split_on_join) (use assms(2) in auto)
  then show ?thesis using esc.dec_enc assms(1) by (auto simp: list_all_iff)
qed

text \<open>A path parameter that is a nonempty list of texts can be read back in the styles \<open>simple\<close> and \<open>matrix\<close>: cut
  at the commas the elements decode to the list, behind \<open>;name=\<close> in the second style; the exploded matrix
  has one such group for each element.\<close>

theorem array_styles_decode:
  assumes "list_all well_formed xs" and "xs \<noteq> []"
  shows "\<exists>r es. stylize E key (js ''simple'') explode EscapeReserved (JArr (map JStr xs)) = Some (JStr r)
     \<and> stylize E key (js ''matrix'') False EscapeReserved (JArr (map JStr xs)) = Some (JStr (js '';'' @ key @ js ''='' @ r))
     \<and> stylize E key (js ''matrix'') True EscapeReserved (JArr (map JStr xs))
         = Some (JStr (concat (map (\<lambda>e. js '';'' @ key @ js ''='' @ e) es)))
     \<and> map decodeURIComponent (split_on 44 r) = map Some xs \<and> map decodeURIComponent es = map Some xs"
proof (intro exI conjI)
  let ?es = "map (escape_text EscapeReserved) xs"
  have sep: "(js '';'' @ key @ js ''='') @ e = js '';'' @ key @ js ''='' @ e" for e by simp
  have comma: "js '','' = [44]" by (simp add: js_simps)
  note m = matrix_fold [of "js '';'' @ key @ js ''=''", unfolded sep append_assoc]
  show "stylize E key (js ''simple'') explode EscapeReserved (JArr (map JStr xs)) = Some (JStr (join_with [44] ?es))"
    by (simp add: stylize_def encodeArray_def encode_strings [unfolded map_map] join_strings comma)
  show "stylize E key (js ''matrix'') False EscapeReserved (JArr (map JStr xs))
      = Some (JStr (js '';'' @ key @ js ''='' @ join_with [44] ?es))"
    using m [where E = E and explode = False and b = "[]" and xs = xs] assms(2) by (simp add: stylize_def encodeArray_def encode_strings [unfolded map_map] inj_js js_eq_Nil comma)
  show "stylize E key (js ''matrix'') True EscapeReserved (JArr (map JStr xs))
      = Some (JStr (concat (map (\<lambda>e. js '';'' @ key @ js ''='' @ e) ?es)))"
    using m [where E = E and explode = True and b = "[]" and xs = xs] by (simp add: stylize_def encodeArray_def encode_strings [unfolded map_map comp_def] inj_js js_eq_Nil comma comp_def)
  show "map decodeURIComponent (split_on 44 (join_with [44] ?es)) = map Some xs"
    by (rule decoded_parts [OF assms]) simp
  show "map decodeURIComponent ?es = map Some xs" using esc.dec_enc assms(1) by (auto simp: list_all_iff)
qed

theorem array_styles_decode_witness:
  "\<exists>r. stylize sample_engine (js ''id'') (js ''simple'') False EscapeReserved (JArr (map JStr [js ''a,b'', js ''c/d''])) = Some (JStr r)
     \<and> map decodeURIComponent (split_on 44 r) = [Some (js ''a,b''), Some (js ''c/d'')]"
  using array_styles_decode [of "[js ''a,b'', js ''c/d'']" sample_engine "js ''id''" False]
  by (auto simp: js_simps is_high_def is_low_def)

theorem escaped_text_safe_witness:
  "decodeURIComponent (escape_text EscapeReserved (js ''a/b c'')) = Some (js ''a/b c'')"
  using escaped_text_safe [of "js ''a/b c''" "js ''a''" EscapeReserved] by (simp add: js_simps is_high_def is_low_def)

end
