(* ===== verification/Swagger_Params.thy ===== *)
theory Swagger_Params
  imports Swagger_Validate
begin

text \<open>
  The values of request parameters in the specification plugin of the Swagger UI
  (\<open>swagger-ui-bundle.js\<close>): the reducers that enter and validate them, the identifiers of parameters, the
  selectors that join the parameters of the document with the entered values, and the test before a
  request is sent.  Entered values are plain values, as \<open>toJS\<close> makes them.  Positions and names of
  parameters that are neither texts nor missing, and parameters that are no list, are not modelled.
\<close>

section \<open>State\<close>

text \<open>
  The part \<open>meta.paths[path][method]\<close> of the state: what is entered for the parameters, by identifier, and
  the choices to send empty values.
\<close>

record param_meta =
  pm_value :: "jval option"
  pm_value_xml :: "jval option"
  pm_errors :: "verror list option"

record op_meta =
  parameters :: "(js_string \<times> param_meta) list"
  parameter_inclusions :: "js_string \<rightharpoonup> bool"

record spec_state =
  document :: spec_node
  meta_paths :: "js_string \<Rightarrow> js_string \<Rightarrow> op_meta"

definition empty_meta :: param_meta where
  "empty_meta = \<lparr>pm_value = None, pm_value_xml = None, pm_errors = None\<rparr>"

definition update_meta :: "js_string \<Rightarrow> js_string \<Rightarrow> (op_meta \<Rightarrow> op_meta) \<Rightarrow> spec_state \<Rightarrow> spec_state" where
  "update_meta p m f e = e\<lparr>meta_paths := (meta_paths e)(p := (meta_paths e p)(m := f (meta_paths e p m)))\<rparr>"

definition put_param :: "js_string \<Rightarrow> (param_meta \<Rightarrow> param_meta) \<Rightarrow> (js_string \<times> param_meta) list \<Rightarrow> (js_string \<times> param_meta) list" where
  "put_param k f ms = alist_put k (f (case map_of ms k of None \<Rightarrow> empty_meta | Some x \<Rightarrow> x)) ms"

section \<open>Identifiers\<close>

text \<open>
  \<open>paramToIdentifier\<close>: by position, name and hash, by position and name, and by name alone, which may be
  \<open>undefined\<close>.  The hash, as text, is an argument.
\<close>

type_synonym hash = "spec_node \<Rightarrow> js_string"

definition param_text :: "spec_node \<Rightarrow> string \<Rightarrow> js_string option" where
  "param_text p k = (case child (Some p) (js k) of Some (Leaf (SStr s)) \<Rightarrow> Some s | _ \<Rightarrow> None)"

definition text_or_undefined :: "js_string option \<Rightarrow> js_string" where
  "text_or_undefined v = (case v of None \<Rightarrow> js ''undefined'' | Some s \<Rightarrow> s)"

definition located :: "spec_node \<Rightarrow> js_string" where
  "located p = text_or_undefined (param_text p ''in'') @ js ''.'' @ text_or_undefined (param_text p ''name'')"

definition hashed :: "hash \<Rightarrow> spec_node \<Rightarrow> js_string" where
  "hashed h p = located p @ js ''.hash-'' @ h p"

definition named :: "spec_node \<Rightarrow> bool" where
  "named p = (param_text p ''in'' \<notin> {None, Some []} \<and> param_text p ''name'' \<notin> {None, Some []})"

definition paramToIdentifiers :: "hash \<Rightarrow> bool \<Rightarrow> spec_node \<Rightarrow> js_string option list" where
  "paramToIdentifiers h allowHashes p =
     (if named p \<and> allowHashes then [Some (hashed h p)] else [])
     @ (if named p then [Some (located p)] else []) @ [param_text p ''name'']"

definition paramToIdentifier :: "hash \<Rightarrow> bool \<Rightarrow> spec_node \<Rightarrow> js_string" where
  "paramToIdentifier h allowHashes p =
     (case hd (paramToIdentifiers h allowHashes p) of None \<Rightarrow> [] | Some s \<Rightarrow> s)"

section \<open>Selectors\<close>

definition doc_parameters :: "spec_state \<Rightarrow> js_string \<Rightarrow> js_string \<Rightarrow> spec_node list" where
  "doc_parameters e p m =
     (case getIn (specJsonWithResolvedSubtrees (document e)) [js ''paths'', p, m, js ''parameters''] of
        Some (Leaf (SList ps)) \<Rightarrow> ps
      | _ \<Rightarrow> [])"

text \<open>
  \<open>parameterWithMetaByIdentity\<close>: the first parameter of the document with the position and name of \<open>n\<close>,
  overlaid with what is entered under its position and name, and that with what is entered under its hash.
\<close>

definition same_param :: "spec_node \<Rightarrow> spec_node \<Rightarrow> bool" where
  "same_param n q = (child (Some q) (js ''in'') = child (Some n) (js ''in'')
     \<and> child (Some q) (js ''name'') = child (Some n) (js ''name''))"

definition document_param :: "spec_state \<Rightarrow> js_string \<Rightarrow> js_string \<Rightarrow> spec_node \<Rightarrow> spec_node" where
  "document_param e p m n = (case find (same_param n) (doc_parameters e p m) of None \<Rightarrow> Node [] | Some q \<Rightarrow> q)"

definition entered :: "hash \<Rightarrow> (param_meta \<Rightarrow> 'v option) \<Rightarrow> (js_string \<times> param_meta) list \<Rightarrow> spec_node \<Rightarrow> 'v option" where
  "entered h f ms n =
     (case Option.bind (map_of ms (hashed h n)) f of
        Some v \<Rightarrow> Some v
      | None \<Rightarrow> Option.bind (map_of ms (located n)) f)"

function (sequential) node_value :: "spec_node \<Rightarrow> jval" and node_fields :: "(js_string \<times> spec_node) list \<Rightarrow> (js_string \<times> jval) list" where
  "node_value (Node m) = JObj (node_fields m)"
| "node_value (Leaf (SList xs)) = JArr (map node_value xs)"
| "node_value (Leaf v) = schema_value (Leaf v)"
| "node_fields [] = []"
| "node_fields ((k, x) # m) = (k, node_value x) # node_fields m"
  by pat_completeness auto

termination
proof (relation "measure (case_sum (\<lambda>n. 2 * size_inode size n + 1) (\<lambda>m. 2 * size_inode size (Node m)))", goal_cases)
  case (3 xs x)
  then have "size_inode size x \<le> size_list (size_inode size) xs" by (intro size_list_estimation') auto
  then show ?case by simp
qed auto

definition param_value :: "hash \<Rightarrow> bool \<Rightarrow> spec_state \<Rightarrow> js_string \<Rightarrow> js_string \<Rightarrow> spec_node \<Rightarrow> jval" where
  "param_value h isXml e p m n =
     (let q = document_param e p m n;
          xml = (isXml \<and> child (Some q) (js ''in'') = Some (Leaf (SStr (js ''body''))));
          ms = parameters (meta_paths e p m)
      in case entered h (if xml then pm_value_xml else pm_value) ms n of
           Some v \<Rightarrow> v
         | None \<Rightarrow> (case child (Some q) (if xml then js ''value_xml'' else js ''value'') of
                      None \<Rightarrow> JUndefined
                    | Some x \<Rightarrow> node_value x))"

definition parameterValues :: "hash \<Rightarrow> bool \<Rightarrow> spec_state \<Rightarrow> js_string \<Rightarrow> js_string \<Rightarrow> (js_string \<times> jval) list" where
  "parameterValues h isXml e p m =
     fold (\<lambda>n. obj_put (paramToIdentifier h False (document_param e p m n)) (param_value h isXml e p m n))
       (doc_parameters e p m) []"

definition parameterInclusionSettingFor :: "spec_state \<Rightarrow> js_string \<Rightarrow> js_string \<Rightarrow> spec_node \<Rightarrow> bool" where
  "parameterInclusionSettingFor e p m n =
     (case parameter_inclusions (meta_paths e p m) (located n) of None \<Rightarrow> False | Some b \<Rightarrow> b)"

text \<open>\<open>paramToValue\<close>: the first identifier under which the object of values has anything.\<close>

definition paramToValue :: "hash \<Rightarrow> spec_node \<Rightarrow> (js_string \<times> jval) list \<Rightarrow> jval" where
  "paramToValue h n l =
     (case filter (\<lambda>v. v \<noteq> JUndefined) (map (\<lambda>k. object_member l (text_or_undefined k)) (paramToIdentifiers h True n)) of
        [] \<Rightarrow> JUndefined
      | v # _ \<Rightarrow> v)"

definition spec_validateBeforeExecute :: "spec_state \<Rightarrow> js_string \<Rightarrow> js_string \<Rightarrow> bool" where
  "spec_validateBeforeExecute e p m =
     list_all (\<lambda>(k, x). pm_errors x \<in> {None, Some []}) (parameters (meta_paths e p m))"

section \<open>Reducers\<close>

datatype param_action =
    UPDATE_PARAM js_string js_string spec_node jval bool
  | UPDATE_PARAM_BY_NAME js_string js_string js_string js_string jval bool
  | UPDATE_EMPTY_PARAM_INCLUSION js_string js_string "js_string option" "js_string option" bool
  | VALIDATE_PARAMS js_string js_string bool
  | CLEAR_VALIDATE_PARAMS js_string js_string

definition enter_value :: "bool \<Rightarrow> jval \<Rightarrow> param_meta \<Rightarrow> param_meta" where
  "enter_value isXml v x = (if isXml then x\<lparr>pm_value_xml := Some v\<rparr> else x\<lparr>pm_value := Some v\<rparr>)"

text \<open>The reduction over the parameters; a parameter that is no map makes it throw.\<close>

fun validate_loop ::
  "engine \<Rightarrow> hash \<Rightarrow> spec_state \<Rightarrow> js_string \<Rightarrow> js_string \<Rightarrow> bool \<Rightarrow> (js_string \<times> jval) list
   \<Rightarrow> spec_node list \<Rightarrow> (js_string \<times> param_meta) list \<Rightarrow> (js_string \<times> param_meta) list option" where
  "validate_loop E h e p m isOAS3 l [] t = Some t"
| "validate_loop E h e p m isOAS3 l (n # ns) t =
     (if is_leaf (Some n) then None
      else case validateParam E n (paramToValue h n l) isOAS3 (parameterInclusionSettingFor e p m n) of
             None \<Rightarrow> None
           | Some s \<Rightarrow>
               validate_loop E h e p m isOAS3 l ns
                 (put_param (paramToIdentifier h True n) (\<lambda>x. x\<lparr>pm_errors := Some s\<rparr>) t))"

text \<open>Maps and lists have a method \<open>get\<close>; where the operation is neither, reading its parameters throws.\<close>

fun has_get :: "spec_node option \<Rightarrow> bool" where
  "has_get (Some (Node m)) = True"
| "has_get (Some (Leaf (SList xs))) = True"
| "has_get _ = False"

fun param_reducer :: "engine \<Rightarrow> hash \<Rightarrow> spec_state \<Rightarrow> param_action \<Rightarrow> spec_state option" where
  "param_reducer E h e (UPDATE_PARAM p m n v isXml) =
     Some (update_meta p m (\<lambda>o'. o'\<lparr>parameters := put_param (paramToIdentifier h True n) (enter_value isXml v) (parameters o')\<rparr>) e)"
| "param_reducer E h e (UPDATE_PARAM_BY_NAME p m name position v isXml) =
     Some (update_meta p m (\<lambda>o'. o'\<lparr>parameters := put_param (position @ js ''.'' @ name) (enter_value isXml v) (parameters o')\<rparr>) e)"
| "param_reducer E h e (UPDATE_EMPTY_PARAM_INCLUSION p m name position b) =
     (case (name, position) of
        (Some n, Some i) \<Rightarrow>
          if n = [] \<or> i = [] then Some e
          else Some (update_meta p m (\<lambda>o'. o'\<lparr>parameter_inclusions := (parameter_inclusions o')(i @ js ''.'' @ n \<mapsto> b)\<rparr>) e)
      | _ \<Rightarrow> Some e)"
| "param_reducer E h e (VALIDATE_PARAMS p m isOAS3) =
     (if has_get (getIn (specJsonWithResolvedSubtrees (document e)) [js ''paths'', p, m]) then
          map_option (\<lambda>t. update_meta p m (\<lambda>o'. o'\<lparr>parameters := t\<rparr>) e)
            (validate_loop E h e p m isOAS3 (parameterValues h False e p m) (doc_parameters e p m) (parameters (meta_paths e p m)))
      else None)"
| "param_reducer E h e (CLEAR_VALIDATE_PARAMS p m) =
     Some (update_meta p m (\<lambda>o'. o'\<lparr>parameters := map (\<lambda>(k, x). (k, x\<lparr>pm_errors := Some []\<rparr>)) (parameters o')\<rparr>) e)"

section \<open>Well-identified parameters\<close>

text \<open>
  All parameters have a position and a name, and their identifiers, with and without hash, are
  different.
\<close>

definition well_identified :: "hash \<Rightarrow> spec_node list \<Rightarrow> bool" where
  "well_identified h ns = (list_all named ns \<and> distinct (map located ns @ map (hashed h) ns))"

definition inherited_key :: "js_string \<Rightarrow> bool" where
  "inherited_key k \<longleftrightarrow> object_prototype k \<noteq> None"

lemma inherited_no_dot: "inherited_key k \<Longrightarrow> 46 \<notin> set k"
  by (auto simp: inherited_key_def object_prototype_def js_simps split: if_splits)

lemma dotted: "46 \<in> set (located n)" "46 \<in> set (hashed h n)"
  by (simp_all add: located_def hashed_def js_simps)

lemma located_not_inherited: "object_prototype (located n) = None" "object_prototype (hashed h n) = None"
  using inherited_no_dot dotted unfolding inherited_key_def by blast+

lemma located_not_proto: "located n \<noteq> js ''__proto__''"
  using dotted(1) [of n] by (auto simp: js_simps)

lemma same_param_located: "same_param n q \<Longrightarrow> located q = located n"
  by (simp add: same_param_def located_def param_text_def)

lemma document_param_self:
  assumes "well_identified h (doc_parameters e p m)" "n \<in> set (doc_parameters e p m)"
  shows "document_param e p m n = n"
proof -
  have "find (same_param n) (doc_parameters e p m) \<noteq> None"
    using assms(2) by (auto simp: find_None_iff same_param_def)
  then obtain q where q: "find (same_param n) (doc_parameters e p m) = Some q" by blast
  then have "q \<in> set (doc_parameters e p m)" "same_param n q" by (auto simp: find_Some_iff)
  then have "q = n"
    using assms same_param_located [of n q] by (auto simp: well_identified_def distinct_map inj_on_def)
  with q show ?thesis by (simp add: document_param_def)
qed

lemma identifier_located: "named n \<Longrightarrow> paramToIdentifier h False n = located n"
  and identifier_hashed: "named n \<Longrightarrow> paramToIdentifier h True n = hashed h n"
  by (simp_all add: paramToIdentifier_def paramToIdentifiers_def)

lemma well_identified_apart:
  assumes "well_identified h ns" "q \<in> set ns" "n \<in> set ns"
  shows "q \<noteq> n \<Longrightarrow> located q \<noteq> located n" "q \<noteq> n \<Longrightarrow> hashed h q \<noteq> hashed h n" "located q \<noteq> hashed h n"
proof -
  have "inj_on located (set ns)" "inj_on (hashed h) (set ns)" "located ` set ns \<inter> hashed h ` set ns = {}"
    using assms(1) by (auto simp: well_identified_def distinct_map)
  then show "q \<noteq> n \<Longrightarrow> located q \<noteq> located n" "q \<noteq> n \<Longrightarrow> hashed h q \<noteq> hashed h n" "located q \<noteq> hashed h n"
    using assms(2,3) by (blast dest: inj_onD)+
qed

lemma fold_put_lookup:
  "distinct (map f ns) \<Longrightarrow> list_all (\<lambda>n. f n \<noteq> js ''__proto__'') ns \<Longrightarrow>
   map_of (fold (\<lambda>n. obj_put (f n) (g n)) ns l) k =
     (case find (\<lambda>n. f n = k) ns of Some n \<Rightarrow> Some (g n) | None \<Rightarrow> map_of l k)"
proof (induction ns arbitrary: l)
  case (Cons n ns)
  have "find (\<lambda>n. f n = k) ns = None" if "f n = k" using that Cons.prems(1) by (auto simp: find_None_iff) (metis image_eqI)
  with Cons show ?case by (auto simp: obj_put_def split: option.split)
qed simp

lemma parameterValues_lookup:
  assumes "well_identified h (doc_parameters e p m)"
  shows "map_of (parameterValues h x e p m) k =
     (case find (\<lambda>n. located n = k) (doc_parameters e p m) of Some n \<Rightarrow> Some (param_value h x e p m n) | None \<Rightarrow> None)"
proof -
  have "parameterValues h x e p m = fold (\<lambda>n. obj_put (located n) (param_value h x e p m n)) (doc_parameters e p m) []"
    unfolding parameterValues_def
    by (rule fold_cong [OF refl refl])
       (use assms in \<open>simp add: document_param_self [OF assms] identifier_located well_identified_def list_all_iff\<close>)
  then show ?thesis
    using assms by (simp add: fold_put_lookup well_identified_def located_not_proto list_all_iff split: option.split)
qed

lemma find_located:
  assumes "well_identified h ns" "n \<in> set ns"
  shows "find (\<lambda>q. located q = located n) ns = Some n" "find (\<lambda>q. located q = hashed h n') ns = None \<or> n' \<notin> set ns"
proof -
  have "find (\<lambda>q. located q = located n) ns \<noteq> None" using assms(2) by (auto simp: find_None_iff)
  then obtain q where q: "find (\<lambda>q. located q = located n) ns = Some q" by blast
  then have "q \<in> set ns" "located q = located n" by (auto simp: find_Some_iff)
  then have "q = n" using assms by (auto simp: well_identified_def distinct_map inj_on_def)
  with q show "find (\<lambda>q. located q = located n) ns = Some n" by simp
  show "find (\<lambda>q. located q = hashed h n') ns = None \<or> n' \<notin> set ns"
    using assms(1) by (auto simp: find_None_iff well_identified_def)
qed

text \<open>A parameter that has a value gets it; one without is looked up by its bare name.\<close>

lemma paramToValue_eq:
  assumes "well_identified h (doc_parameters e p m)" "n \<in> set (doc_parameters e p m)"
  shows "paramToValue h n (parameterValues h False e p m) =
     (if param_value h False e p m n \<noteq> JUndefined then param_value h False e p m n
      else object_member (parameterValues h False e p m) (text_or_undefined (param_text n ''name'')))"
proof -
  let ?l = "parameterValues h False e p m"
  have n: "named n" using assms by (simp add: well_identified_def list_all_iff)
  have "object_member ?l (hashed h n) = JUndefined"
    using find_located(2) [OF assms, of n] assms(2) located_not_inherited
    by (auto simp: object_member_def parameterValues_lookup [OF assms(1)])
  moreover have "object_member ?l (located n) = param_value h False e p m n"
    using find_located(1) [OF assms] by (simp add: object_member_def parameterValues_lookup [OF assms(1)])
  ultimately show ?thesis using n
    by (simp add: paramToValue_def paramToIdentifiers_def text_or_undefined_def [of "Some _"])
qed

section \<open>Entering a value\<close>

lemma update_meta_sel [simp]:
  "document (update_meta p m f e) = document e"
  "meta_paths (update_meta p m f e) p' m' = (if p' = p \<and> m' = m then f (meta_paths e p m) else meta_paths e p' m')"
  by (simp_all add: update_meta_def)

lemma doc_parameters_update [simp]: "doc_parameters (update_meta p m f e) p' m' = doc_parameters e p' m'"
  by (simp add: doc_parameters_def)

lemma document_param_update [simp]: "document_param (update_meta p m f e) p' m' n = document_param e p' m' n"
  by (simp add: document_param_def)

lemma put_param_lookup: "map_of (put_param k f ms) k' =
    (if k' = k then Some (f (case map_of ms k of None \<Rightarrow> empty_meta | Some x \<Rightarrow> x)) else map_of ms k')"
  by (simp add: put_param_def)

lemma param_value_cong:
  assumes "document e' = document e"
    and "entered h pm_value (parameters (meta_paths e' p m)) n = entered h pm_value (parameters (meta_paths e p m)) n"
  shows "param_value h False e' p m n = param_value h False e p m n"
  using assms by (simp add: param_value_def document_param_def doc_parameters_def)

lemma parameterValues_cong:
  assumes "document e' = document e" and "\<And>n. n \<in> set (doc_parameters e p m) \<Longrightarrow> param_value h x e' p m n = param_value h x e p m n"
  shows "parameterValues h x e' p m = parameterValues h x e p m"
  unfolding parameterValues_def
  by (rule fold_cong) (use assms in \<open>simp_all add: document_param_def doc_parameters_def\<close>)

lemma enter_param_values:
  assumes "well_identified h (doc_parameters e p m)" and "n \<in> set (doc_parameters e p m)"
    and "param_reducer E h e (UPDATE_PARAM p m n v False) = Some e'" and "q \<in> set (doc_parameters e p m)"
  shows "param_value h False e' p m q = (if q = n then v else param_value h False e p m q)"
proof -
  have nn: "named n" using assms(1,2) by (simp add: well_identified_def list_all_iff)
  have e': "e' = update_meta p m (\<lambda>o'. o'\<lparr>parameters := put_param (hashed h n) (enter_value False v) (parameters o')\<rparr>) e"
    using assms(3) by (simp add: identifier_hashed [OF nn])
  show ?thesis
  proof (cases "q = n")
    case True
    then show ?thesis by (simp add: param_value_def Let_def entered_def e' put_param_lookup enter_value_def)
  next
    case False
    then have "hashed h q \<noteq> hashed h n" "located q \<noteq> hashed h n"
      using well_identified_apart [OF assms(1,4,2)] by blast+
    then have "param_value h False e' p m q = param_value h False e p m q"
      by (intro param_value_cong) (simp_all add: e' entered_def put_param_lookup cong: option.case_cong)
    with False show ?thesis by simp
  qed
qed

lemma enter_frame:
  assumes "param_reducer E h e (UPDATE_PARAM p m n v x) = Some e'"
  shows "doc_parameters e' p' m' = doc_parameters e p' m'"
    and "(p', m') \<noteq> (p, m) \<Longrightarrow> parameterValues h y e' p' m' = parameterValues h y e p' m'"
proof -
  from assms show "doc_parameters e' p' m' = doc_parameters e p' m'" by auto
  show "parameterValues h y e' p' m' = parameterValues h y e p' m'" if "(p', m') \<noteq> (p, m)"
    by (rule parameterValues_cong) (use assms that in \<open>auto simp: param_value_def\<close>)
qed

text \<open>C17. A value other than \<open>undefined\<close> that is entered for a parameter of an operation with uniquely identified
  parameters, and not as XML, is the value of exactly that parameter wherever the values are read as not XML: no
  other parameter of the operation and no other operation changes, and the parameter gets it also where the
  validation asks for it.  (A body entered as XML is read back when the request is built as XML only, and never by
  the validation.)\<close>

theorem entered_value_read_back:
  assumes "well_identified h (doc_parameters e p m)" and "n \<in> set (doc_parameters e p m)"
    and "param_reducer E h e (UPDATE_PARAM p m n v False) = Some e'" and "v \<noteq> JUndefined"
    and "(p', m') \<noteq> (p, m)"
  shows "map_of (parameterValues h False e' p m) = (map_of (parameterValues h False e p m))(located n \<mapsto> v)
     \<and> paramToValue h n (parameterValues h False e' p m) = v
     \<and> parameterValues h False e' p' m' = parameterValues h False e p' m'"
proof -
  let ?ns = "doc_parameters e p m"
  note doc = enter_frame(1) [OF assms(3), of p m] and val = enter_param_values [OF assms(1,2,3)]
  have wi: "well_identified h (doc_parameters e' p m)" using assms(1) by (simp add: doc)
  have "map_of (parameterValues h False e' p m) k = ((map_of (parameterValues h False e p m))(located n \<mapsto> v)) k" for k
  proof (cases "find (\<lambda>q. located q = k) ?ns")
    case None
    then have "k \<noteq> located n" using assms(2) by (auto simp: find_None_iff)
    with None show ?thesis by (simp add: parameterValues_lookup [OF wi] parameterValues_lookup [OF assms(1)] doc)
  next
    case (Some q)
    then have q: "q \<in> set ?ns" "located q = k" by (auto simp: find_Some_iff)
    then have "q \<noteq> n \<Longrightarrow> k \<noteq> located n" using well_identified_apart(1) [OF assms(1) q(1) assms(2)] by blast
    with Some q show ?thesis
      by (auto simp: parameterValues_lookup [OF wi] parameterValues_lookup [OF assms(1)] doc val)
  qed
  moreover have "paramToValue h n (parameterValues h False e' p m) = v"
    using paramToValue_eq [OF wi] assms(2,4) val [OF assms(2)] by (simp add: doc)
  ultimately show ?thesis using enter_frame(2) [OF assms(3,5)] by (simp add: fun_eq_iff)
qed

section \<open>Validation before a request is sent\<close>

definition failing :: "(js_string \<times> param_meta) list \<Rightarrow> js_string set" where
  "failing t = {k. \<exists>x. map_of t k = Some x \<and> pm_errors x \<notin> {None, Some []}}"

lemma failing_put:
  "failing (put_param k (\<lambda>x. x\<lparr>pm_errors := Some s\<rparr>) t) = (if s = [] then failing t - {k} else insert k (failing t))"
  by (auto simp: failing_def put_param_lookup split: if_splits)

lemma failing_none: "distinct (map fst t) \<Longrightarrow> list_all (\<lambda>(k, x). pm_errors x \<in> {None, Some []}) t \<longleftrightarrow> failing t = {}"
  by (auto simp: failing_def list_all_iff)

lemma failing_some: "k \<in> failing t \<Longrightarrow> \<not> list_all (\<lambda>(k, x). pm_errors x \<in> {None, Some []}) t"
  unfolding failing_def list_all_iff using map_of_SomeD by fastforce

definition param_result :: "engine \<Rightarrow> hash \<Rightarrow> spec_state \<Rightarrow> js_string \<Rightarrow> js_string \<Rightarrow> bool \<Rightarrow> (js_string \<times> jval) list \<Rightarrow> spec_node \<Rightarrow> verror list option" where
  "param_result E h e p m isOAS3 l n = validateParam E n (paramToValue h n l) isOAS3 (parameterInclusionSettingFor e p m n)"

lemma validate_loop_failing:
  "validate_loop E h e p m isOAS3 l ns t = Some t' \<Longrightarrow> distinct (map (hashed h) ns) \<Longrightarrow> list_all named ns \<Longrightarrow>
   failing t' = (failing t - hashed h ` set ns) \<union> hashed h ` {n \<in> set ns. param_result E h e p m isOAS3 l n \<noteq> Some []}
   \<and> (distinct (map fst t) \<longrightarrow> distinct (map fst t'))"
proof (induction ns arbitrary: t)
  case (Cons n ns)
  from Cons.prems(1) obtain s where s: "param_result E h e p m isOAS3 l n = Some s"
    "validate_loop E h e p m isOAS3 l ns (put_param (paramToIdentifier h True n) (\<lambda>x. x\<lparr>pm_errors := Some s\<rparr>) t) = Some t'"
    by (auto simp: param_result_def split: if_splits option.splits)
  let ?t = "put_param (hashed h n) (\<lambda>x. x\<lparr>pm_errors := Some s\<rparr>) t"
  have n: "paramToIdentifier h True n = hashed h n" using Cons.prems(3) by (simp add: identifier_hashed)
  have out: "hashed h n \<notin> hashed h ` set ns" using Cons.prems(2) by simp
  have "failing t' = (failing ?t - hashed h ` set ns) \<union> hashed h ` {n \<in> set ns. param_result E h e p m isOAS3 l n \<noteq> Some []}"
    and d: "distinct (map fst ?t) \<longrightarrow> distinct (map fst t')"
    using Cons.IH [of ?t] s(2) Cons.prems(2,3) n by auto
  moreover have "failing ?t = (if s = [] then failing t - {hashed h n} else insert (hashed h n) (failing t))"
    by (rule failing_put)
  moreover have "{k \<in> set (n # ns). param_result E h e p m isOAS3 l k \<noteq> Some []}
      = (if s = [] then {} else {n}) \<union> {n \<in> set ns. param_result E h e p m isOAS3 l n \<noteq> Some []}"
    using s(1) by auto
  ultimately have "failing t' = (failing t - hashed h ` set (n # ns)) \<union> hashed h ` {k \<in> set (n # ns). param_result E h e p m isOAS3 l k \<noteq> Some []}"
    using out by auto
  moreover have "distinct (map fst t) \<longrightarrow> distinct (map fst t')"
    using d by (simp add: put_param_def distinct_alist_put)
  ultimately show ?case by blast
qed simp

lemma validate_params_failing:
  assumes "well_identified h (doc_parameters e p m)" and "param_reducer E h e (VALIDATE_PARAMS p m isOAS3) = Some e'"
  shows "failing (parameters (meta_paths e' p m)) =
      (failing (parameters (meta_paths e p m)) - hashed h ` set (doc_parameters e p m))
      \<union> hashed h ` {n \<in> set (doc_parameters e p m). param_result E h e p m isOAS3 (parameterValues h False e p m) n \<noteq> Some []}"
    and "distinct (map fst (parameters (meta_paths e p m))) \<Longrightarrow> distinct (map fst (parameters (meta_paths e' p m)))"
proof -
  obtain t where t: "validate_loop E h e p m isOAS3 (parameterValues h False e p m) (doc_parameters e p m) (parameters (meta_paths e p m)) = Some t"
    "e' = update_meta p m (\<lambda>o'. o'\<lparr>parameters := t\<rparr>) e"
    using assms(2) by (auto split: if_splits)
  have "distinct (map (hashed h) (doc_parameters e p m))" "list_all named (doc_parameters e p m)"
    using assms(1) by (auto simp: well_identified_def)
  from validate_loop_failing [OF t(1) this] t(2)
  show "failing (parameters (meta_paths e' p m)) =
      (failing (parameters (meta_paths e p m)) - hashed h ` set (doc_parameters e p m))
      \<union> hashed h ` {n \<in> set (doc_parameters e p m). param_result E h e p m isOAS3 (parameterValues h False e p m) n \<noteq> Some []}"
    and "distinct (map fst (parameters (meta_paths e p m))) \<Longrightarrow> distinct (map fst (parameters (meta_paths e' p m)))"
    by simp_all
qed

lemma cleared:
  assumes "param_reducer E h e (CLEAR_VALIDATE_PARAMS p m) = Some e1"
  shows "doc_parameters e1 p m = doc_parameters e p m" "parameterValues h False e1 p m = parameterValues h False e p m"
    "parameterInclusionSettingFor e1 p m n = parameterInclusionSettingFor e p m n"
    "failing (parameters (meta_paths e1 p m)) = {}"
    "map fst (parameters (meta_paths e1 p m)) = map fst (parameters (meta_paths e p m))"
proof -
  let ?f = "\<lambda>(k, x). (k, x\<lparr>pm_errors := Some []\<rparr>)"
  have e1: "e1 = update_meta p m (\<lambda>o'. o'\<lparr>parameters := map ?f (parameters o')\<rparr>) e" using assms by simp
  have look: "map_of (map ?f t) k = map_option (\<lambda>x. x\<lparr>pm_errors := Some []\<rparr>) (map_of t k)" for t k
    by (induction t) auto
  have val: "Option.bind (map_of (map ?f t) k) pm_value = Option.bind (map_of t k) pm_value" for t k
    unfolding look by (cases "map_of t k") simp_all
  show "doc_parameters e1 p m = doc_parameters e p m" "parameterInclusionSettingFor e1 p m n = parameterInclusionSettingFor e p m n"
    by (simp_all add: e1 parameterInclusionSettingFor_def)
  show "failing (parameters (meta_paths e1 p m)) = {}" by (auto simp: e1 failing_def look)
  show "map fst (parameters (meta_paths e1 p m)) = map fst (parameters (meta_paths e p m))"
    by (simp add: e1 comp_def case_prod_beta)
  show "parameterValues h False e1 p m = parameterValues h False e p m"
    by (rule parameterValues_cong) (auto simp: e1 entered_def val intro!: param_value_cong cong: option.case_cong)
qed

text \<open>Before a request is sent the errors of the previous attempt are cleared and the parameters are
  validated; the request is then released exactly when every parameter of the document is valid with the
  value that the request would carry.\<close>

theorem execute_iff_valid:
  assumes "well_identified h (doc_parameters e p m)" and "distinct (map fst (parameters (meta_paths e p m)))"
    and "param_reducer E h e (CLEAR_VALIDATE_PARAMS p m) = Some e1"
    and "param_reducer E h e1 (VALIDATE_PARAMS p m isOAS3) = Some e2"
  shows "spec_validateBeforeExecute e2 p m \<longleftrightarrow>
     list_all (\<lambda>n. validateParam E n (paramToValue h n (parameterValues h False e p m)) isOAS3
         (parameterInclusionSettingFor e p m n) = Some []) (doc_parameters e p m)"
proof -
  note c = cleared [OF assms(3)]
  have wi: "well_identified h (doc_parameters e1 p m)" using assms(1) c(1) by simp
  note f = validate_params_failing [OF wi assms(4)]
  have "spec_validateBeforeExecute e2 p m \<longleftrightarrow> failing (parameters (meta_paths e2 p m)) = {}"
    unfolding spec_validateBeforeExecute_def by (rule failing_none [OF f(2)]) (use assms(2) c(5) in simp)
  also have "\<dots> \<longleftrightarrow> list_all (\<lambda>n. param_result E h e1 p m isOAS3 (parameterValues h False e1 p m) n = Some []) (doc_parameters e1 p m)"
    unfolding f(1) c(4) by (auto simp: list_all_iff)
  finally show ?thesis by (simp add: param_result_def c(1,2,3))
qed

section \<open>Values that the validation misreads\<close>

lemma blocked_by:
  assumes "well_identified h (doc_parameters e p m)" and "n \<in> set (doc_parameters e p m)"
    and "param_reducer E h e (VALIDATE_PARAMS p m isOAS3) = Some e'"
    and "param_result E h e p m isOAS3 (parameterValues h False e p m) n = Some (x # xs)"
  shows "\<not> spec_validateBeforeExecute e' p m"
proof -
  have "hashed h n \<in> failing (parameters (meta_paths e' p m))"
    unfolding validate_params_failing(1) [OF assms(1,3)] using assms(2,4) by auto
  then show ?thesis unfolding spec_validateBeforeExecute_def by (rule failing_some)
qed

lemma bare_name_value:
  assumes "well_identified h (doc_parameters e p m)" and "46 \<notin> set x"
  shows "object_member (parameterValues h False e p m) x = (case object_prototype x of None \<Rightarrow> JUndefined | Some v \<Rightarrow> v)"
proof -
  have "find (\<lambda>n. located n = x) (doc_parameters e p m) = None"
    using dotted(1) assms(2) by (auto simp: find_None_iff)
  then show ?thesis by (simp add: object_member_def parameterValues_lookup [OF assms(1)])
qed

lemma inherited_result:
  assumes "well_identified h (doc_parameters e p m)" and "n \<in> set (doc_parameters e p m)"
    and "param_text n ''name'' = Some x" and "object_prototype x = Some (JFun k)"
    and "param_value h False e p m n = JUndefined" and "\<not> spec_truthy (child (Some n) (js ''required''))"
    and "getParameterSchema isOAS3 n = Some (typed_schema ''string'', a)"
  shows "param_result E h e p m isOAS3 (parameterValues h False e p m) n = Some [ErrText (js ''Value must be a string'')]"
proof -
  have "46 \<notin> set x" using inherited_no_dot [of x] assms(4) by (simp add: inherited_key_def)
  from bare_name_value [OF assms(1) this] have "paramToValue h n (parameterValues h False e p m) = JFun k"
    using assms(3,4,5) by (simp add: paramToValue_eq [OF assms(1,2)] text_or_undefined_def)
  then show ?thesis
    using assms(6,7)
    by (simp add: param_result_def validateParam_def typed_schema_def keyword_checks_type absent_def type_check_def
        has_type_def has_value_def messages_def inj_js js_eq_Nil)
qed

text \<open>An optional text parameter that is named like a member all objects inherit, such as
  \<open>constructor\<close>, blocks its operation as long as nothing is entered for it: the validation takes the
  inherited function for its value.\<close>

theorem inherited_name_blocks:
  assumes "well_identified h (doc_parameters e p m)" and "n \<in> set (doc_parameters e p m)"
    and "param_text n ''name'' = Some x" and "object_prototype x = Some (JFun k)"
    and "param_value h False e p m n = JUndefined" and "\<not> spec_truthy (child (Some n) (js ''required''))"
    and "getParameterSchema isOAS3 n = Some (typed_schema ''string'', a)"
    and "param_reducer E h e (VALIDATE_PARAMS p m isOAS3) = Some e'"
  shows "\<not> spec_validateBeforeExecute e' p m"
  by (rule blocked_by [OF assms(1,2,8) inherited_result [OF assms(1-7)]])

text \<open>A body entered as XML, as the request and the validation see it.\<close>

lemma xml_body:
  assumes "well_identified h (doc_parameters e p m)" and "n \<in> set (doc_parameters e p m)"
    and "child (Some n) (js ''in'') = Some (Leaf (SStr (js ''body'')))"
    and "param_text n ''name'' = Some x" and "46 \<notin> set x" and "object_prototype x = None"
    and "param_value h False e p m n = JUndefined" and "spec_truthy (child (Some n) (js ''required''))"
    and "getParameterSchema isOAS3 n = Some (typed_schema ''object'', a)"
    and "\<not> parameterInclusionSettingFor e p m n"
    and "param_reducer E h e (UPDATE_PARAM p m n v True) = Some e1"
  shows "doc_parameters e1 p m = doc_parameters e p m"
    and "map_of (parameterValues h True e1 p m) (located n) = Some v"
    and "param_result E h e1 p m isOAS3 (parameterValues h False e1 p m) n = Some [required_error]"
proof -
  have nn: "named n" using assms(1,2) by (simp add: well_identified_def list_all_iff)
  have e1: "e1 = update_meta p m (\<lambda>o'. o'\<lparr>parameters := put_param (hashed h n) (enter_value True v) (parameters o')\<rparr>) e"
    using assms(11) by (simp add: identifier_hashed [OF nn])
  show doc: "doc_parameters e1 p m = doc_parameters e p m" by (simp add: e1)
  have wi: "well_identified h (doc_parameters e1 p m)" and n1: "n \<in> set (doc_parameters e1 p m)"
    using assms(1,2) by (simp_all add: doc)
  have "param_value h True e1 p m n = v"
    by (simp add: param_value_def document_param_self [OF wi n1] assms(3) entered_def, simp add: e1 put_param_lookup enter_value_def)
  then show "map_of (parameterValues h True e1 p m) (located n) = Some v"
    using find_located(1) [OF wi n1] by (simp add: parameterValues_lookup [OF wi])
  have keep: "Option.bind (map_of (put_param j (enter_value True v) ms) k) pm_value = Option.bind (map_of ms k) pm_value" for j k ms
    by (auto simp: put_param_lookup enter_value_def empty_meta_def split: option.split)
  have "param_value h False e1 p m n = JUndefined"
    unfolding assms(7) [symmetric] by (rule param_value_cong) (simp_all add: e1 entered_def keep cong: option.case_cong)
  then have "paramToValue h n (parameterValues h False e1 p m) = JUndefined"
    using bare_name_value [OF wi assms(5)] assms(4,6) by (simp add: paramToValue_eq [OF wi n1] text_or_undefined_def)
  then show "param_result E h e1 p m isOAS3 (parameterValues h False e1 p m) n = Some [required_error]"
    using assms(8,9,10)
    by (simp add: param_result_def validateParam_def typed_schema_def absent_def has_type_def has_value_def inj_js js_eq_Nil
        parameterInclusionSettingFor_def e1)
qed

text \<open>A required body of type object that is entered as XML only is what the request would carry, but the
  validation looks for the JSON value, reports it as missing and blocks the request.\<close>

theorem xml_body_refused:
  assumes "well_identified h (doc_parameters e p m)" and "n \<in> set (doc_parameters e p m)"
    and "child (Some n) (js ''in'') = Some (Leaf (SStr (js ''body'')))"
    and "param_text n ''name'' = Some x" and "46 \<notin> set x" and "object_prototype x = None"
    and "param_value h False e p m n = JUndefined" and "spec_truthy (child (Some n) (js ''required''))"
    and "getParameterSchema isOAS3 n = Some (typed_schema ''object'', a)"
    and "\<not> parameterInclusionSettingFor e p m n"
    and "param_reducer E h e (UPDATE_PARAM p m n v True) = Some e1"
    and "param_reducer E h e1 (VALIDATE_PARAMS p m isOAS3) = Some e2"
  shows "map_of (parameterValues h True e1 p m) (located n) = Some v \<and> \<not> spec_validateBeforeExecute e2 p m"
proof
  note b = xml_body [OF assms(1-11)]
  show "map_of (parameterValues h True e1 p m) (located n) = Some v" by (rule b(2))
  from assms(1,2) show "\<not> spec_validateBeforeExecute e2 p m"
    by (intro blocked_by [OF _ _ assms(12) b(3)]) (simp_all add: b(1))
qed

section \<open>An example\<close>

definition sample_param :: "string \<Rightarrow> string \<Rightarrow> bool \<Rightarrow> string \<Rightarrow> spec_node" where
  "sample_param i n required t = Node [(js ''in'', Leaf (SStr (js i))), (js ''name'', Leaf (SStr (js n))),
     (js ''required'', Leaf (SBool required)), (js ''schema'', typed_schema t)]"

definition sample_state :: "spec_node list \<Rightarrow> spec_state" where
  "sample_state ns = \<lparr>document = Node [(js ''json'', Node [(js ''paths'', Node [(js ''/p'', Node [(js ''post'',
       Node [(js ''parameters'', Leaf (SList ns))])])])])],
     meta_paths = (\<lambda>_ _. \<lparr>parameters = [], parameter_inclusions = Map.empty\<rparr>)\<rparr>"

definition sample_hash :: hash where
  "sample_hash n = js ''7''"

lemma sample_document: "specJsonWithResolvedSubtrees (document (sample_state ns)) =
    Node [(js ''paths'', Node [(js ''/p'', Node [(js ''post'', Node [(js ''parameters'', Leaf (SList ns))])])])]"
  by (simp add: sample_state_def specJsonWithResolvedSubtrees_def child_def inj_js)

lemma sample_parameters: "doc_parameters (sample_state ns) (js ''/p'') (js ''post'') = ns"
  by (simp add: doc_parameters_def sample_document getIn_def child_def)

lemma sample_texts [simp]: "child (Some (sample_param i n r t)) (js ''in'') = Some (Leaf (SStr (js i)))"
  "child (Some (sample_param i n r t)) (js ''name'') = Some (Leaf (SStr (js n)))"
  "child (Some (sample_param i n r t)) (js ''required'') = Some (Leaf (SBool r))"
  "child (Some (sample_param i n r t)) (js ''schema'') = Some (typed_schema t)"
  "child (Some (sample_param i n r t)) (js ''value'') = None"
  by (simp_all add: sample_param_def child_def inj_js)

lemma sample_identified: "i \<noteq> [] \<Longrightarrow> n \<noteq> [] \<Longrightarrow> well_identified sample_hash [sample_param i n r t]"
  by (simp add: well_identified_def named_def param_text_def js_eq_Nil hashed_def located_def)

lemma sample_value: "param_value sample_hash False (sample_state [sample_param i n r t]) (js ''/p'') (js ''post'') (sample_param i n r t) = JUndefined"
  by (simp add: param_value_def document_param_def sample_parameters same_param_def)
     (simp add: sample_state_def entered_def)

theorem entered_value_read_back_witness:
  "\<exists>e'. param_reducer sample_engine sample_hash (sample_state [sample_param ''query'' ''id'' True ''integer''])
       (UPDATE_PARAM (js ''/p'') (js ''post'') (sample_param ''query'' ''id'' True ''integer'') (JStr (js ''5'')) False) = Some e'
     \<and> paramToValue sample_hash (sample_param ''query'' ''id'' True ''integer'')
          (parameterValues sample_hash False e' (js ''/p'') (js ''post'')) = JStr (js ''5'')"
proof -
  let ?n = "sample_param ''query'' ''id'' True ''integer''"
  obtain e' where e': "param_reducer sample_engine sample_hash (sample_state [?n])
       (UPDATE_PARAM (js ''/p'') (js ''post'') ?n (JStr (js ''5'')) False) = Some e'" by simp
  from entered_value_read_back [OF _ _ e', of "js ''/p''" "js ''get''"] e' show ?thesis
    by (simp add: sample_parameters sample_identified inj_js)
qed

lemma sample_reducer:
  assumes "getIn (specJsonWithResolvedSubtrees (document e)) [js ''paths'', p, m] = Some (Node t)"
    and "doc_parameters e p m = [n]" and "\<not> is_leaf (Some n)"
    and "param_result E h e p m isOAS3 (parameterValues h False e p m) n = Some s"
  shows "\<exists>e'. param_reducer E h e (VALIDATE_PARAMS p m isOAS3) = Some e'"
  using assms by (simp add: param_result_def)

lemma sample_getIn: "getIn (specJsonWithResolvedSubtrees (document (sample_state ns))) [js ''paths'', js ''/p'', js ''post'']
    = Some (Node [(js ''parameters'', Leaf (SList ns))])"
  by (simp add: sample_document getIn_def child_def)

lemma sample_schema: "getParameterSchema True (sample_param i n r t) = Some (typed_schema t, None)"
  "getParameterSchema False (sample_param ''body'' n r t) = Some (typed_schema t, None)"
  by (simp_all add: getParameterSchema_def sample_param_def child_def inj_js)

lemma sample_not_leaf: "\<not> is_leaf (Some (sample_param i n r t))"
  by (simp add: sample_param_def)

theorem inherited_name_blocks_witness:
  "\<exists>e'. param_reducer sample_engine sample_hash (sample_state [sample_param ''query'' ''constructor'' False ''string''])
       (VALIDATE_PARAMS (js ''/p'') (js ''post'') True) = Some e'
     \<and> \<not> spec_validateBeforeExecute e' (js ''/p'') (js ''post'')"
proof -
  let ?n = "sample_param ''query'' ''constructor'' False ''string''"
  let ?e = "sample_state [?n]"
  have h: "well_identified sample_hash (doc_parameters ?e (js ''/p'') (js ''post''))"
    "?n \<in> set (doc_parameters ?e (js ''/p'') (js ''post''))"
    "param_text ?n ''name'' = Some (js ''constructor'')" "object_prototype (js ''constructor'') = Some (JFun 1)"
    "\<not> spec_truthy (child (Some ?n) (js ''required''))"
    by (simp_all add: sample_parameters sample_identified param_text_def object_prototype_def inj_js)
  note args = h(1-4) sample_value h(5) sample_schema(1)
  obtain e' where e': "param_reducer sample_engine sample_hash ?e (VALIDATE_PARAMS (js ''/p'') (js ''post'') True) = Some e'"
    using sample_reducer [OF sample_getIn sample_parameters sample_not_leaf inherited_result [OF args]] by blast
  from inherited_name_blocks [OF args e'] e' show ?thesis by blast
qed

theorem xml_body_refused_witness:
  "\<exists>e1 e2. param_reducer sample_engine sample_hash (sample_state [sample_param ''body'' ''pet'' True ''object''])
       (UPDATE_PARAM (js ''/p'') (js ''post'') (sample_param ''body'' ''pet'' True ''object'') (JStr (js ''<pet/>'')) True) = Some e1
     \<and> param_reducer sample_engine sample_hash e1 (VALIDATE_PARAMS (js ''/p'') (js ''post'') False) = Some e2
     \<and> \<not> spec_validateBeforeExecute e2 (js ''/p'') (js ''post'')"
proof -
  let ?n = "sample_param ''body'' ''pet'' True ''object''"
  let ?e = "sample_state [?n]"
  obtain e1 where e1: "param_reducer sample_engine sample_hash ?e
      (UPDATE_PARAM (js ''/p'') (js ''post'') ?n (JStr (js ''<pet/>'')) True) = Some e1" by simp
  have h: "well_identified sample_hash (doc_parameters ?e (js ''/p'') (js ''post''))"
    "?n \<in> set (doc_parameters ?e (js ''/p'') (js ''post''))"
    "child (Some ?n) (js ''in'') = Some (Leaf (SStr (js ''body'')))"
    "param_text ?n ''name'' = Some (js ''pet'')" "spec_truthy (child (Some ?n) (js ''required''))"
    by (simp_all add: sample_parameters sample_identified param_text_def)
  have i: "\<not> parameterInclusionSettingFor ?e (js ''/p'') (js ''post'') ?n"
    by (simp add: parameterInclusionSettingFor_def sample_state_def)
  have g: "46 \<notin> set (js ''pet'')" "object_prototype (js ''pet'') = None"
    by (simp_all add: object_prototype_def js_simps)
  note args = h(1-4) g sample_value h(5) sample_schema(2) i e1
  have "getIn (specJsonWithResolvedSubtrees (document e1)) [js ''paths'', js ''/p'', js ''post''] = Some (Node [(js ''parameters'', Leaf (SList [?n]))])"
    using e1 sample_getIn by auto
  moreover have "doc_parameters e1 (js ''/p'') (js ''post'') = [?n]"
    using xml_body(1) [OF args] by (simp add: sample_parameters)
  ultimately obtain e2 where e2: "param_reducer sample_engine sample_hash e1 (VALIDATE_PARAMS (js ''/p'') (js ''post'') False) = Some e2"
    using sample_reducer [OF _ _ sample_not_leaf xml_body(3) [OF args]] by blast
  from xml_body_refused [OF args e2] e1 e2 show ?thesis by blast
qed

theorem execute_iff_valid_witness:
  "\<exists>e1 e2. param_reducer sample_engine sample_hash (sample_state [sample_param ''query'' ''id'' False ''integer''])
       (CLEAR_VALIDATE_PARAMS (js ''/p'') (js ''post'')) = Some e1
     \<and> param_reducer sample_engine sample_hash e1 (VALIDATE_PARAMS (js ''/p'') (js ''post'') True) = Some e2
     \<and> spec_validateBeforeExecute e2 (js ''/p'') (js ''post'')"
proof -
  let ?n = "sample_param ''query'' ''id'' False ''integer''"
  let ?e = "sample_state [?n]"
  obtain e1 where e1: "param_reducer sample_engine sample_hash ?e (CLEAR_VALIDATE_PARAMS (js ''/p'') (js ''post'')) = Some e1" by simp
  have wi: "well_identified sample_hash (doc_parameters ?e (js ''/p'') (js ''post''))"
    and n: "?n \<in> set (doc_parameters ?e (js ''/p'') (js ''post''))"
    by (simp_all add: sample_parameters sample_identified)
  have "paramToValue sample_hash ?n (parameterValues sample_hash False ?e (js ''/p'') (js ''post'')) = JUndefined"
  proof -
    have "46 \<notin> set (js ''id'')" "object_prototype (js ''id'') = None" by (simp_all add: object_prototype_def js_simps)
    with bare_name_value [OF wi, of "js ''id''"] show ?thesis
      by (simp add: paramToValue_eq [OF wi n] sample_value text_or_undefined_def param_text_def)
  qed
  then have r: "validateParam sample_engine ?n (paramToValue sample_hash ?n (parameterValues sample_hash False ?e (js ''/p'') (js ''post''))) True b = Some []" for b
    by (simp add: validateParam_def sample_schema typed_schema_def absent_def has_type_def inj_js js_eq_Nil)
  have "doc_parameters e1 (js ''/p'') (js ''post'') = [?n]" using cleared(1) [OF e1] by (simp add: sample_parameters)
  moreover have "getIn (specJsonWithResolvedSubtrees (document e1)) [js ''paths'', js ''/p'', js ''post''] = Some (Node [(js ''parameters'', Leaf (SList [?n]))])"
    using e1 sample_getIn by auto
  moreover have "param_result sample_engine sample_hash e1 (js ''/p'') (js ''post'') True (parameterValues sample_hash False e1 (js ''/p'') (js ''post'')) ?n = Some []"
    by (simp add: param_result_def cleared(2,3) [OF e1] r)
  ultimately obtain e2 where e2: "param_reducer sample_engine sample_hash e1 (VALIDATE_PARAMS (js ''/p'') (js ''post'') True) = Some e2"
    using sample_reducer sample_not_leaf by blast
  have "distinct (map fst (parameters (meta_paths ?e (js ''/p'') (js ''post''))))" by (simp add: sample_state_def)
  from execute_iff_valid [OF wi this e1 e2] e1 e2 r show ?thesis by (simp add: sample_parameters)
qed

end
