(* ===== verification/Swagger_Request.thy ===== *)
theory Swagger_Request
  imports Swagger_Style Swagger_Params "HOL-Library.Multiset"
begin

text \<open>
  How the client in \<open>swagger-ui-bundle.js\<close> builds a request from the values of the parameters
  (\<open>buildRequest\<close> with the parameter builders for Swagger 2 and OpenAPI 3).  A parameter is a record of the keywords that are read, \<open>content\<close> being the media types in
  the order of its keys.  Credentials and content types are set by functions outside this theory.
\<close>

section \<open>Requests and parameters\<close>

text \<open>\<open>JSON.stringify\<close>, and the rest of a query that the URL has already, without the given keys.\<close>

record request_engine = engine +
  json_stringify :: "jval \<Rightarrow> jval"
  other_query :: "js_string \<Rightarrow> js_string list \<Rightarrow> js_string"

datatype request_error = MissingRequired js_string | ObjectNotJson | UriError | NoMember

record parameter =
  p_name :: js_string
  p_in :: js_string
  p_style :: "js_string option"
  p_explode :: "bool option"
  p_allowReserved :: bool
  p_content :: "js_string list option"
  p_required :: bool
  p_allowEmptyValue :: bool
  p_default :: jval
  p_collectionFormat :: "js_string option"
  p_type :: "js_string option"
  p_schema_type :: "js_string option"

record serialization =
  ser_style :: "js_string option"
  ser_explode :: "bool option"
  ser_allowReserved :: bool

text \<open>The encoding object of a form field; it counts as a serialization once one of its first three keywords is given.\<close>

record encoding =
  enc_style :: "js_string option"
  enc_explode :: "bool option"
  enc_allowReserved :: "bool option"
  enc_contentType :: "js_string option"

datatype query_entry =
    Plain jval
  | Entry jval bool "serialization option" "js_string option"
  | FormField jval encoding

datatype request_body = NoBody | BodyValue jval | BodyForm "(js_string \<times> jval) list"

record client_request =
  r_url :: js_string
  r_query :: "query_entry js_object option"
  r_headers :: "jval js_object"
  r_cookies :: "jval js_object"
  r_form :: "query_entry js_object option"
  r_body :: request_body

definition keyword :: "js_string option \<Rightarrow> js_string \<Rightarrow> js_string" where
  "keyword k d = (case k of None \<Rightarrow> d | Some s \<Rightarrow> str_or s d)"

section \<open>Substitution in the URL\<close>

text \<open>\<open>url.split(sep).join(v)\<close> for a separator that is not empty.\<close>

function split_text :: "js_string \<Rightarrow> js_string \<Rightarrow> js_string list" where
  "split_text sep [] = [[]]"
| "split_text sep (c # s) =
     (if sep \<noteq> [] \<and> starts_with (c # s) sep then [] # split_text sep (drop (length sep) (c # s))
      else (case split_text sep s of [] \<Rightarrow> [[c]] | p # ps \<Rightarrow> (c # p) # ps))"
  by pat_completeness auto

termination
  by (relation "measure (\<lambda>(sep, s). length s)") (auto simp: neq_Nil_conv)

definition replace_text :: "js_string \<Rightarrow> js_string \<Rightarrow> js_string \<Rightarrow> js_string" where
  "replace_text sep v s = join_with v (split_text sep s)"

definition braced :: "js_string \<Rightarrow> js_string" where
  "braced n = js ''{'' @ n @ js ''}''"

text \<open>The separator that \<open>join\<close> uses: a comma for \<open>undefined\<close>.\<close>

definition join_argument :: "request_engine \<Rightarrow> jval \<Rightarrow> js_string" where
  "join_argument E c = (if c = JUndefined then js '','' else concat_text (engine.truncate E) c)"

definition fill_path :: "request_engine \<Rightarrow> js_string \<Rightarrow> jval \<Rightarrow> client_request \<Rightarrow> client_request" where
  "fill_path E n c r = r\<lparr>r_url := replace_text (braced n) (join_argument E c) (r_url r)\<rparr>"

section \<open>Parameter builders\<close>

definition query_of :: "client_request \<Rightarrow> query_entry js_object" where
  "query_of r = (case r_query r of None \<Rightarrow> [] | Some q \<Rightarrow> q)"

definition put_query :: "js_string \<Rightarrow> query_entry \<Rightarrow> client_request \<Rightarrow> client_request" where
  "put_query k x r = r\<lparr>r_query := Some (obj_put k x (query_of r))\<rparr>"

text \<open>\<open>query[k] = query[k] || {}\<close>, then \<open>query[k].allowEmptyValue = true\<close>: an inherited member is taken for an entry.\<close>

definition mark_empty :: "js_string \<Rightarrow> client_request \<Rightarrow> client_request" where
  "mark_empty k r =
     (case map_of (query_of r) k of
        Some (Entry v b s f) \<Rightarrow> put_query k (Entry v True s f) r
      | Some _ \<Rightarrow> r\<lparr>r_query := Some (query_of r)\<rparr>
      | None \<Rightarrow> if object_prototype k = None then put_query k (Entry JUndefined True None None) r
                else r\<lparr>r_query := Some (query_of r)\<rparr>)"

definition query_value :: "client_request \<Rightarrow> parameter \<Rightarrow> jval \<Rightarrow> query_entry \<Rightarrow> client_request" where
  "query_value r p v x =
     (if jtruthy v then put_query (p_name p) x r
      else if p_allowEmptyValue p \<and> v \<noteq> JUndefined then mark_empty (p_name p) r
      else r\<lparr>r_query := Some (query_of r)\<rparr>)"

text \<open>Swagger 2.\<close>

definition swagger2_query :: "parameter \<Rightarrow> jval \<Rightarrow> client_request \<Rightarrow> client_request" where
  "swagger2_query p n r =
     (let v = (if n = JBool False \<and> p_type p = Some (js ''boolean'') then JStr (js ''false'')
               else if n = JNum (js ''0'') \<and> p_type p \<in> {Some (js ''number''), Some (js ''integer'')} then JStr (js ''0'')
               else n)
      in query_value r p v (Entry v False None (p_collectionFormat p)))"

definition swagger2_formData :: "parameter \<Rightarrow> jval \<Rightarrow> client_request \<Rightarrow> client_request" where
  "swagger2_formData p n r =
     (if jtruthy n \<or> p_allowEmptyValue p
      then r\<lparr>r_form := Some (obj_put (p_name p) (Entry n (p_allowEmptyValue p) None (p_collectionFormat p))
                         (case r_form r of None \<Rightarrow> [] | Some f \<Rightarrow> f))\<rparr>
      else r)"

definition put_header :: "js_string \<Rightarrow> jval \<Rightarrow> client_request \<Rightarrow> client_request" where
  "put_header k v r = r\<lparr>r_headers := obj_put k v (r_headers r)\<rparr>"

definition swagger2_builder :: "request_engine \<Rightarrow> parameter \<Rightarrow> jval \<Rightarrow> client_request \<Rightarrow> request_error + client_request" where
  "swagger2_builder E p n r =
     (if p_in p = js ''body'' then Inr (r\<lparr>r_body := BodyValue n\<rparr>)
      else if p_in p = js ''header'' then Inr (if n = JUndefined then r else put_header (p_name p) n r)
      else if p_in p = js ''query'' then Inr (swagger2_query p n r)
      else if p_in p = js ''path'' then
        (case encodeURIComponent (concat_text (engine.truncate E) n) of
           None \<Rightarrow> Inl UriError
         | Some c \<Rightarrow> Inr (fill_path E (p_name p) (JStr c) r))
      else if p_in p = js ''formData'' then Inr (swagger2_formData p n r)
      else Inr r)"

text \<open>OpenAPI 3.  A value with a media type is text or JSON; \<open>undefined\<close> has no method \<open>toString\<close>.\<close>

definition content_text :: "request_engine \<Rightarrow> jval \<Rightarrow> js_string list \<Rightarrow> jval option" where
  "content_text E v mts =
     (case mts of
        [] \<Rightarrow> None
      | mt # _ \<Rightarrow>
          if contains mt (js ''application/json'') then Some (case v of JStr s \<Rightarrow> v | _ \<Rightarrow> json_stringify E v)
          else if absent v then None
          else Some (JStr (concat_text (engine.truncate E) v)))"

definition styled :: "request_engine \<Rightarrow> parameter \<Rightarrow> string \<Rightarrow> escaping \<Rightarrow> jval \<Rightarrow> jval option" where
  "styled E p d esc v =
     stylize (engine.truncate E) (p_name p) (keyword (p_style p) (js d))
       (case p_explode p of None \<Rightarrow> False | Some b \<Rightarrow> b) esc v"

definition or_no_member :: "'a option \<Rightarrow> request_error + 'a" where
  "or_no_member x = (case x of None \<Rightarrow> Inl NoMember | Some y \<Rightarrow> Inr y)"

definition oas3_path :: "request_engine \<Rightarrow> parameter \<Rightarrow> jval \<Rightarrow> client_request \<Rightarrow> client_request option" where
  "oas3_path E p v r =
     map_option (\<lambda>c. fill_path E (p_name p) c r)
       (case p_content p of
          Some mts \<Rightarrow> map_option (encodeDisallowedCharacters EscapeReserved) (content_text E v mts)
        | None \<Rightarrow> styled E p ''simple'' EscapeReserved v)"

definition oas3_query :: "request_engine \<Rightarrow> parameter \<Rightarrow> jval \<Rightarrow> client_request \<Rightarrow> client_request option" where
  "oas3_query E p n r =
     (case p_content p of
        Some mts \<Rightarrow> map_option (\<lambda>c. put_query (p_name p) (Plain c) r) (content_text E n mts)
      | None \<Rightarrow>
          (let v = (if n = JBool False then JStr (js ''false'') else if n = JNum (js ''0'') then JStr (js ''0'') else n)
           in Some (query_value r p v (Entry v False
                (Some \<lparr>ser_style = p_style p, ser_explode = p_explode p, ser_allowReserved = p_allowReserved p\<rparr>) None))))"

definition oas3_header :: "request_engine \<Rightarrow> parameter \<Rightarrow> jval \<Rightarrow> client_request \<Rightarrow> client_request option" where
  "oas3_header E p v r =
     (if lower_text (p_name p) \<in> {js ''accept'', js ''authorization'', js ''content-type''} then Some r
      else case p_content p of
             Some mts \<Rightarrow> map_option (\<lambda>c. put_header (p_name p) c r) (content_text E v mts)
           | None \<Rightarrow>
               if v = JUndefined then Some r
               else map_option (\<lambda>c. put_header (p_name p) c r) (styled E p ''simple'' NoEscape v))"

definition keyed_object :: "jval \<Rightarrow> bool" where
  "keyed_object v = (case v of JNull \<Rightarrow> True | JObj _ \<Rightarrow> True | JFile _ \<Rightarrow> True | _ \<Rightarrow> False)"

definition oas3_cookie :: "request_engine \<Rightarrow> parameter \<Rightarrow> jval \<Rightarrow> client_request \<Rightarrow> client_request option" where
  "oas3_cookie E p v r =
     (let text = concat_text (engine.truncate E);
          named = (\<lambda>c. put_header (js ''Cookie'') (JStr (p_name p @ js ''='' @ text c)) r)
      in case p_content p of
           Some mts \<Rightarrow> map_option named (content_text E v mts)
         | None \<Rightarrow>
             if v = JUndefined then Some r
             else map_option (\<lambda>c. if keyed_object v \<and> p_explode p = Some True
                                  then put_header (js ''Cookie'') (JStr (text c)) r else named c)
                    (styled E p ''form'' NoEscape v))"

definition oas3_builder :: "request_engine \<Rightarrow> parameter \<Rightarrow> jval \<Rightarrow> client_request \<Rightarrow> request_error + client_request" where
  "oas3_builder E p v r =
     (if p_in p = js ''path'' then or_no_member (oas3_path E p v r)
      else if p_in p = js ''query'' then or_no_member (oas3_query E p v r)
      else if p_in p = js ''header'' then or_no_member (oas3_header E p v r)
      else if p_in p = js ''cookie'' then or_no_member (oas3_cookie E p v r)
      else Inr r)"

section \<open>The loop over the parameters\<close>

text \<open>Of several parameters with the same position and name the last one counts.\<close>

definition by_position :: "parameter list \<Rightarrow> parameter js_object js_object" where
  "by_position ps =
     fold (\<lambda>p t. obj_put (p_in p) (obj_put (p_name p) p (case map_of t (p_in p) of None \<Rightarrow> [] | Some m \<Rightarrow> m)) t) ps []"

definition deduplicateParameters :: "parameter list \<Rightarrow> parameter list" where
  "deduplicateParameters ps = concat (map (\<lambda>(i, m). map snd (own_entries m)) (own_entries (by_position ps)))"

text \<open>The value of a parameter: under its name, or else under its position and name.\<close>

definition given_value :: "jval js_object \<Rightarrow> parameter \<Rightarrow> jval" where
  "given_value vs p =
     (let t = (if p_name p = [] then JStr [] else object_member vs (p_name p)) in
      if t = JUndefined then object_member vs (p_in p @ js ''.'' @ p_name p) else t)"

text \<open>\<open>Inr None\<close> for a value that is skipped.\<close>

definition passed_value :: "request_engine \<Rightarrow> bool \<Rightarrow> jval js_object \<Rightarrow> parameter \<Rightarrow> request_error + jval option" where
  "passed_value E isOAS3 vs p =
     (let t = given_value vs p in
      if t = JNull then Inr None
      else let v = (if t = JUndefined then p_default p else t) in
        if v = JUndefined \<and> p_required p \<and> \<not> p_allowEmptyValue p then Inl (MissingRequired (p_name p))
        else case v of
               JStr s \<Rightarrow>
                 if isOAS3 \<and> p_schema_type p = Some (js ''object'')
                 then (case parse_json E s of None \<Rightarrow> Inl ObjectNotJson | Some w \<Rightarrow> Inr (Some w))
                 else Inr (Some v)
             | _ \<Rightarrow> Inr (Some v))"

definition build_parameter ::
  "request_engine \<Rightarrow> bool \<Rightarrow> jval js_object \<Rightarrow> parameter \<Rightarrow> client_request \<Rightarrow> request_error + client_request" where
  "build_parameter E isOAS3 vs p r =
     (case passed_value E isOAS3 vs p of
        Inl e \<Rightarrow> Inl e
      | Inr None \<Rightarrow> Inr r
      | Inr (Some v) \<Rightarrow> if isOAS3 then oas3_builder E p v r else swagger2_builder E p v r)"

fun build_loop ::
  "request_engine \<Rightarrow> bool \<Rightarrow> jval js_object \<Rightarrow> parameter list \<Rightarrow> client_request \<Rightarrow> request_error + client_request" where
  "build_loop E isOAS3 vs [] r = Inr r"
| "build_loop E isOAS3 vs (p # ps) r =
     (case build_parameter E isOAS3 vs p r of
        Inl e \<Rightarrow> Inl e
      | Inr r' \<Rightarrow> build_loop E isOAS3 vs ps r')"

definition build_parameters ::
  "request_engine \<Rightarrow> bool \<Rightarrow> jval js_object \<Rightarrow> parameter list \<Rightarrow> parameter list \<Rightarrow> client_request \<Rightarrow> request_error + client_request" where
  "build_parameters E isOAS3 vs operation_parameters path_parameters r =
     build_loop E isOAS3 vs (deduplicateParameters (operation_parameters @ path_parameters)) r"

section \<open>Substitution of path parameters\<close>

lemma split_text_nonempty [simp]: "split_text sep s \<noteq> []"
  by (induction sep s rule: split_text.induct) (auto split: list.split)

lemma join_with_Nil_Cons: "ps \<noteq> [] \<Longrightarrow> join_with v ([] # ps) = v @ join_with v ps"
  by (cases ps) auto

lemma replace_hit:
  assumes "sep \<noteq> []"
  shows "replace_text sep v (sep @ s) = v @ replace_text sep v s"
proof -
  obtain c r where "sep = c # r" using assms by (cases sep) auto
  moreover have "starts_with (sep @ s) sep" by (auto simp: starts_with_iff)
  ultimately show ?thesis by (simp add: replace_text_def join_with_Nil_Cons)
qed

lemma replace_skip:
  assumes "\<not> starts_with (c # s) sep"
  shows "replace_text sep v (c # s) = c # replace_text sep v s"
proof -
  obtain p ps where "split_text sep s = p # ps" by (cases "split_text sep s") auto
  with assms show ?thesis by (cases ps) (simp_all add: replace_text_def)
qed

lemma replace_Nil: "replace_text sep v [] = []"
  by (simp add: replace_text_def)

lemma braced_eq: "braced n = 123 # n @ [125]"
  by (simp add: braced_def js_simps)

lemma replace_literal: "123 \<notin> set l \<Longrightarrow> replace_text (braced n) v (l @ s) = l @ replace_text (braced n) v s"
  by (induction l) (auto simp: braced_eq replace_skip)

datatype path_token = Lit js_string | Hole js_string

fun token_text :: "path_token \<Rightarrow> js_string" where
  "token_text (Lit s) = s"
| "token_text (Hole n) = braced n"

fun token_ok :: "path_token \<Rightarrow> bool" where
  "token_ok (Lit s) = (123 \<notin> set s)"
| "token_ok (Hole n) = (123 \<notin> set n \<and> 125 \<notin> set n)"

definition path_text :: "path_token list \<Rightarrow> js_string" where
  "path_text ts = concat (map token_text ts)"

definition fill :: "js_string \<Rightarrow> js_string \<Rightarrow> path_token \<Rightarrow> path_token" where
  "fill n v t = (if t = Hole n then Lit v else t)"

lemma path_text_simps [simp]: "path_text [] = []" "path_text (t # ts) = token_text t @ path_text ts"
  by (simp_all add: path_text_def)

lemma fill_simps [simp]: "fill n v (Lit l) = Lit l" "fill n v (Hole m) = (if m = n then Lit v else Hole m)"
  by (simp_all add: fill_def)

lemma replace_other_hole:
  assumes "m \<noteq> n" "token_ok (Hole m)" "token_ok (Hole n)"
  shows "replace_text (braced n) v (braced m @ s) = braced m @ replace_text (braced n) v s"
proof -
  have "\<not> starts_with (braced m @ s) (braced n)"
  proof
    assume "starts_with (braced m @ s) (braced n)"
    then obtain r where "m @ 125 # s = n @ 125 # r" by (auto simp: starts_with_iff braced_eq)
    then have "takeWhile (\<lambda>c. c \<noteq> 125) (m @ 125 # s) = takeWhile (\<lambda>c. c \<noteq> 125) (n @ 125 # r)" by simp
    moreover have "takeWhile (\<lambda>c. c \<noteq> 125) (k @ 125 # q) = k" if "125 \<notin> set k" for k q :: js_string
      using that by (induction k) auto
    ultimately show False using assms by simp
  qed
  moreover have "replace_text (braced n) v ((m @ [125]) @ s) = (m @ [125]) @ replace_text (braced n) v s"
    by (rule replace_literal) (use assms(2) in simp)
  ultimately show ?thesis by (simp add: braced_eq replace_skip)
qed

lemma replace_path:
  assumes "list_all token_ok ts" "token_ok (Hole n)"
  shows "replace_text (braced n) v (path_text ts) = path_text (map (fill n v) ts)"
  using assms(1)
proof (induction ts)
  case (Cons t ts)
  then have IH: "replace_text (braced n) v (path_text ts) = path_text (map (fill n v) ts)" and t: "token_ok t" by simp_all
  show ?case
  proof (cases t)
    case (Lit l)
    with t IH show ?thesis by (simp add: replace_literal)
  next
    case (Hole m)
    show ?thesis
    proof (cases "m = n")
      case True
      have "braced n \<noteq> []" by (simp add: braced_eq)
      with True Hole IH show ?thesis by (simp add: replace_hit)
    next
      case False
      with t Hole IH assms(2) replace_other_hole [OF False] show ?thesis by simp
    qed
  qed
qed (simp add: replace_Nil)

definition expand :: "(js_string \<rightharpoonup> js_string) \<Rightarrow> path_token \<Rightarrow> js_string" where
  "expand f t = (case t of Lit s \<Rightarrow> s | Hole n \<Rightarrow> (case f n of None \<Rightarrow> braced n | Some v \<Rightarrow> v))"

lemma expand_fill: "expand f (fill n v t) = expand (f(n \<mapsto> v)) t"
  by (auto simp: expand_def fill_def split: path_token.split)

text \<open>Path parameters with a plain text.\<close>

definition simple_path_parameter :: "parameter \<Rightarrow> bool" where
  "simple_path_parameter p \<longleftrightarrow> p_in p = js ''path'' \<and> p_content p = None
     \<and> keyword (p_style p) (js ''simple'') = js ''simple'' \<and> p_schema_type p \<noteq> Some (js ''object'')
     \<and> 123 \<notin> set (p_name p) \<and> 125 \<notin> set (p_name p)"

lemma build_simple_path:
  assumes "simple_path_parameter p" "given_value vs p = JStr s"
  shows "build_parameter E True vs p r = Inr (fill_path E (p_name p) (JStr (escape_text EscapeReserved s)) r)"
  using assms
  by (auto simp: build_parameter_def passed_value_def simple_path_parameter_def oas3_builder_def oas3_path_def styled_def
      stylize_def encodePrimitive_def encodeDisallowedCharacters_def or_no_member_def escape_text_def)

lemma join_argument_text: "join_argument E (JStr s) = s"
  by (simp add: join_argument_def concat_text_def value_text_def)

lemma escaped_no_brace:
  assumes "list_all (\<lambda>c. c < 0x10000) s"
  shows "c \<in> {47, 63, 35, 123} \<Longrightarrow> c \<notin> set (escape_text EscapeReserved s)"
  using escape_units [of s] not_escaped_units assms by (auto simp: list_all_iff)

lemma build_paths:
  assumes "list_all simple_path_parameter ps"
    and "list_all (\<lambda>p. given_value vs p = JStr (text p) \<and> list_all (\<lambda>c. c < 0x10000) (text p)) ps"
    and "list_all token_ok ts" and "r_url r = path_text ts"
  shows "\<exists>r'. build_loop E True vs ps r = Inr r'
     \<and> r_url r' = concat (map (expand (map_of (map (\<lambda>p. (p_name p, escape_text EscapeReserved (text p))) ps))) ts)"
  using assms
proof (induction ps arbitrary: ts r)
  case Nil
  have "expand Map.empty = token_text" by (auto simp: fun_eq_iff expand_def split: path_token.split)
  with Nil show ?case by (simp add: path_text_def)
next
  case (Cons p ps)
  let ?v = "escape_text EscapeReserved (text p)" and ?m = "map_of (map (\<lambda>p. (p_name p, escape_text EscapeReserved (text p))) ps)"
  let ?r = "fill_path E (p_name p) (JStr ?v) r"
  have p: "simple_path_parameter p" "given_value vs p = JStr (text p)" "list_all (\<lambda>c. c < 0x10000) (text p)"
    using Cons.prems(1,2) by simp_all
  have "token_ok (Hole (p_name p))" using p(1) by (simp add: simple_path_parameter_def)
  then have "r_url ?r = path_text (map (fill (p_name p) ?v) ts)"
    using Cons.prems(3,4) by (simp add: fill_path_def join_argument_text replace_path)
  moreover have "list_all token_ok (map (fill (p_name p) ?v) ts)"
    using Cons.prems(3) escaped_no_brace [OF p(3), of 123] by (auto simp: list_all_iff fill_def)
  ultimately obtain r' where r': "build_loop E True vs ps ?r = Inr r'"
    "r_url r' = concat (map (expand ?m) (map (fill (p_name p) ?v) ts))"
    using Cons.IH [of "map (fill (p_name p) ?v) ts" ?r] Cons.prems(1,2) by auto
  have "map (expand ?m) (map (fill (p_name p) ?v) ts) = map (expand (?m(p_name p \<mapsto> ?v))) ts"
    unfolding map_map comp_def expand_fill ..
  with r'(2) have u: "r_url r' = concat (map (expand (map_of (map (\<lambda>p. (p_name p, escape_text EscapeReserved (text p))) (p # ps)))) ts)"
    by (simp only: list.map map_of.simps fst_conv snd_conv)
  have "build_loop E True vs (p # ps) r = Inr r'"
    using r'(1) build_simple_path [OF p(1,2)] by simp
  with u show ?case by blast
qed

text \<open>C20. With simple path parameters of text values, in OpenAPI 3, a path with placeholders is filled in the way one expects, whatever the order of the parameters: each
  placeholder gets the escaped text of its parameter and the rest stays.  A value that looks like a
  placeholder is not replaced in turn, and no value adds a segment, a query or a fragment: the URL has the
  delimiters of the template and no others.\<close>

theorem path_parameters_expand:
  assumes "list_all simple_path_parameter ps"
    and "list_all (\<lambda>p. given_value vs p = JStr (text p) \<and> list_all (\<lambda>c. c < 0x10000) (text p)) ps"
    and "list_all token_ok ts" and "r_url r = path_text ts"
    and "\<And>n. Hole n \<in> set ts \<Longrightarrow> n \<in> p_name ` set ps" and "c \<in> {47, 63, 35}"
  shows "\<exists>r'. build_loop E True vs ps r = Inr r'
     \<and> r_url r' = concat (map (expand (map_of (map (\<lambda>p. (p_name p, escape_text EscapeReserved (text p))) ps))) ts)
     \<and> count_list (r_url r') c = count_list (concat (map (\<lambda>t. case t of Lit s \<Rightarrow> s | Hole n \<Rightarrow> []) ts)) c"
proof -
  let ?m = "map_of (map (\<lambda>p. (p_name p, escape_text EscapeReserved (text p))) ps)"
  obtain r' where r': "build_loop E True vs ps r = Inr r'" "r_url r' = concat (map (expand ?m) ts)"
    using build_paths [OF assms(1-4)] by blast
  have "count_list (expand ?m t) c = count_list (case t of Lit s \<Rightarrow> s | Hole n \<Rightarrow> []) c" if "t \<in> set ts" for t
  proof (cases t)
    case (Hole n)
    then have "n \<in> dom ?m" using assms(5) that by (auto simp: dom_map_of_conv_image_fst image_image)
    then obtain v where v: "?m n = Some v" by blast
    then obtain p where "p \<in> set ps" "v = escape_text EscapeReserved (text p)" using map_of_SomeD [OF v] by auto
    then have "c \<notin> set v" using escaped_no_brace [of "text p" c] assms(2,6) by (auto simp: list_all_iff)
    with Hole v show ?thesis by (simp add: expand_def)
  qed (simp add: expand_def)
  then have "count_list (concat (map (expand ?m) ts)) c = count_list (concat (map (\<lambda>t. case t of Lit s \<Rightarrow> s | Hole n \<Rightarrow> []) ts)) c"
    by (induction ts) simp_all
  with r' show ?thesis by auto
qed

section \<open>Which definition of a parameter counts\<close>

lemma set_entries [simp]: "set (own_entries m) = set m"
  by (auto simp: own_entries_def)

lemma mset_own_entries: "mset (own_entries m) = mset m"
proof -
  have "filter (\<lambda>(k, x). array_index k = None) m = filter (\<lambda>y. \<not> (case y of (k, x) \<Rightarrow> array_index k \<noteq> None)) m"
    by (rule filter_cong) auto
  then show ?thesis by (simp add: own_entries_def multiset_partition [symmetric] mset_filter)
qed

lemma distinct_entries: "distinct (map fst m) \<Longrightarrow> distinct (map fst (own_entries m))"
  by (metis mset_own_entries mset_map mset_eq_imp_distinct_iff)

text \<open>The tables by position and name, and what they say of a parameter.\<close>

definition placed :: "parameter \<Rightarrow> (js_string \<times> js_string) \<times> parameter" where
  "placed p = ((p_in p, p_name p), p)"

definition ordinary :: "parameter \<Rightarrow> bool" where
  "ordinary p = (p_in p \<noteq> js ''__proto__'' \<and> p_name p \<noteq> js ''__proto__'')"

definition table_ok :: "js_string \<times> parameter js_object \<Rightarrow> bool" where
  "table_ok = (\<lambda>(i, m). distinct (map fst m) \<and> list_all (\<lambda>(n, p). p_in p = i \<and> p_name p = n) m)"

lemma set_alist_put: "set (alist_put k v m) \<subseteq> insert (k, v) (set m)"
  by (induction k v m rule: alist_put.induct) auto

lemma table_ok_put: "table_ok (i, m) \<Longrightarrow> p_in p = i \<Longrightarrow> table_ok (i, alist_put (p_name p) p m)"
  using set_alist_put [of "p_name p" p m] by (auto simp: table_ok_def list_all_iff distinct_alist_put)

definition add_position :: "parameter \<Rightarrow> parameter js_object js_object \<Rightarrow> parameter js_object js_object" where
  "add_position p t = alist_put (p_in p) (alist_put (p_name p) p (case map_of t (p_in p) of None \<Rightarrow> [] | Some m \<Rightarrow> m)) t"

definition position_lookup :: "parameter js_object js_object \<Rightarrow> js_string \<times> js_string \<Rightarrow> parameter option" where
  "position_lookup t k = Option.bind (map_of t (fst k)) (\<lambda>m. map_of m (snd k))"

lemma add_position_ok:
  assumes "distinct (map fst t)" "list_all table_ok t"
  shows "distinct (map fst (add_position p t)) \<and> list_all table_ok (add_position p t)"
proof -
  have "table_ok (p_in p, case map_of t (p_in p) of None \<Rightarrow> [] | Some m \<Rightarrow> m)"
    using assms(2) by (auto simp: list_all_iff table_ok_def split: option.split dest!: map_of_SomeD)
  then have "table_ok (p_in p, alist_put (p_name p) p (case map_of t (p_in p) of None \<Rightarrow> [] | Some m \<Rightarrow> m))"
    by (rule table_ok_put) simp
  then show ?thesis
    using assms set_alist_put [of "p_in p" "alist_put (p_name p) p (case map_of t (p_in p) of None \<Rightarrow> [] | Some m \<Rightarrow> m)" t]
    by (auto simp: add_position_def distinct_alist_put list_all_iff)
qed

lemma add_position_lookup: "position_lookup (add_position p t) = (position_lookup t)((p_in p, p_name p) \<mapsto> p)"
  by (rule ext) (auto simp: position_lookup_def add_position_def split: option.split)

lemma by_position_fold:
  "list_all ordinary ps \<Longrightarrow> distinct (map fst t) \<Longrightarrow> list_all table_ok t \<Longrightarrow>
   (let t' = fold (\<lambda>p t. obj_put (p_in p) (obj_put (p_name p) p (case map_of t (p_in p) of None \<Rightarrow> [] | Some m \<Rightarrow> m)) t) ps t in
     distinct (map fst t') \<and> list_all table_ok t' \<and> position_lookup t' = position_lookup t ++ map_of (map placed (rev ps)))"
proof (induction ps arbitrary: t)
  case (Cons p ps)
  have "obj_put (p_in p) (obj_put (p_name p) p (case map_of t (p_in p) of None \<Rightarrow> [] | Some m \<Rightarrow> m)) t = add_position p t"
    using Cons.prems(1) by (simp add: obj_put_def add_position_def ordinary_def)
  moreover have "position_lookup (add_position p t) ++ map_of (map placed (rev ps)) = position_lookup t ++ map_of (map placed (rev (p # ps)))"
    by (rule ext) (auto simp: add_position_lookup placed_def map_add_def split: option.split)
  ultimately show ?case using Cons.IH [of "add_position p t"] Cons.prems add_position_ok [OF Cons.prems(2,3)] by simp
qed simp

lemma position_lookup_empty: "position_lookup [] = Map.empty"
  by (simp add: position_lookup_def fun_eq_iff)

lemma table_keys:
  assumes "table_ok (i, m)"
  shows "map (\<lambda>p. (p_in p, p_name p)) (map snd (own_entries m)) = map (Pair i) (map fst (own_entries m))"
  using assms by (auto simp: table_ok_def list_all_iff)

lemma distinct_tables:
  "distinct (map fst t) \<Longrightarrow> list_all table_ok t \<Longrightarrow>
   distinct (map (\<lambda>p. (p_in p, p_name p)) (concat (map (\<lambda>(i, m). map snd (own_entries m)) t)))"
proof (induction t)
  case (Cons x t)
  obtain i m where x: "x = (i, m)" by fastforce
  with Cons.prems have ok: "table_ok (i, m)" "distinct (map fst (own_entries m))"
    by (auto simp: table_ok_def intro: distinct_entries)
  let ?rest = "concat (map (\<lambda>(i, m). map snd (own_entries m)) t)"
  have "p_in p \<in> fst ` set t" if "p \<in> set ?rest" for p
  proof -
    from that obtain y where y: "y \<in> set t" "p \<in> set (case y of (i, m) \<Rightarrow> map snd (own_entries m))"
      unfolding set_concat set_map by blast
    obtain j m' where yj: "y = (j, m')" by (rule prod.exhaust)
    with y obtain n where jm: "(j, m') \<in> set t" "(n, p) \<in> set m'" by auto
    with Cons.prems(2) have "table_ok (j, m')" by (auto simp: list_all_iff)
    with jm(2) have "p_in p = j" by (auto simp: table_ok_def list_all_iff)
    with jm(1) show ?thesis by (simp add: image_eqI [where x = "(j, m')"])
  qed
  moreover have "i \<notin> fst ` set t" using Cons.prems(1) x by simp
  ultimately have "set (map (Pair i) (map fst (own_entries m))) \<inter> (\<lambda>p. (p_in p, p_name p)) ` set ?rest = {}" by auto
  moreover have "distinct (map (Pair i) (map fst (own_entries m)))"
    using ok(2) by (simp only: distinct_map inj_on_def) auto
  moreover have "distinct (map (\<lambda>p. (p_in p, p_name p)) ?rest)" using Cons by simp
  ultimately show ?case
    unfolding x list.map concat.simps prod.case map_append table_keys [OF ok(1)] distinct_append set_map
    by (intro conjI) assumption+
qed simp

text \<open>Of all definitions of a parameter, by position and name, exactly the last one is used, and once.  As the
  parameters of the path are listed behind those of the operation, a definition for the path overrides the
  one that the operation gives.\<close>

theorem last_definition_counts:
  assumes "list_all ordinary (operation_parameters @ path_parameters)"
  shows "(p \<in> set (deduplicateParameters (operation_parameters @ path_parameters)) \<longleftrightarrow>
       (map_of (map placed (rev operation_parameters)) ++ map_of (map placed (rev path_parameters))) (p_in p, p_name p) = Some p)
     \<and> distinct (map (\<lambda>p. (p_in p, p_name p)) (deduplicateParameters (operation_parameters @ path_parameters)))"
proof -
  let ?ps = "operation_parameters @ path_parameters"
  let ?t = "by_position ?ps"
  have t: "distinct (map fst ?t)" "list_all table_ok ?t" "position_lookup ?t = map_of (map placed (rev ?ps))"
    using by_position_fold [OF assms, of "[]"] by (simp_all add: by_position_def Let_def position_lookup_empty del: rev_append map_append)
  have "p \<in> set (deduplicateParameters ?ps) \<longleftrightarrow> (\<exists>i m n. (i, m) \<in> set ?t \<and> (n, p) \<in> set m)"
    by (force simp: deduplicateParameters_def)
  also have "\<dots> \<longleftrightarrow> (\<exists>m. (p_in p, m) \<in> set ?t \<and> (p_name p, p) \<in> set m)"
    using t(2) by (fastforce simp: list_all_iff table_ok_def)
  also have "\<dots> \<longleftrightarrow> position_lookup ?t (p_in p, p_name p) = Some p"
  proof -
    have "(p_name p, p) \<in> set m \<longleftrightarrow> map_of m (p_name p) = Some p" if "(p_in p, m) \<in> set ?t" for m
      using t(2) that by (auto simp: list_all_iff table_ok_def)
    then show ?thesis
      by (auto simp: position_lookup_def bind_eq_Some_conv map_of_eq_Some_iff [OF t(1)])
  qed
  finally have "p \<in> set (deduplicateParameters ?ps) \<longleftrightarrow>
      (map_of (map placed (rev operation_parameters)) ++ map_of (map placed (rev path_parameters))) (p_in p, p_name p) = Some p"
    unfolding t(3) by simp
  moreover have "distinct (map (\<lambda>p. (p_in p, p_name p)) (deduplicateParameters ?ps))"
    unfolding deduplicateParameters_def
    by (rule distinct_tables) (use t distinct_entries in \<open>auto simp: list_all_iff\<close>)
  ultimately show ?thesis by blast
qed

section \<open>When a request is not built\<close>

definition new_request :: "js_string \<Rightarrow> client_request" where
  "new_request url = \<lparr>r_url = url, r_query = None, r_headers = [], r_cookies = [], r_form = None, r_body = NoBody\<rparr>"

definition failure :: "'e + 'a \<Rightarrow> 'e option" where
  "failure x = (case x of Inl e \<Rightarrow> Some e | Inr _ \<Rightarrow> None)"

lemma failure_simps [simp]: "failure (Inl e) = Some e" "failure (Inr x) = None"
  by (simp_all add: failure_def)

lemma failure_or_no_member: "failure (or_no_member (map_option f x)) = (if x = None then Some NoMember else None)"
  by (cases x) (simp_all add: or_no_member_def)

lemma failure_if: "failure (if b then x else y) = (if b then failure x else failure y)"
  by simp

lemma oas3_failure: "failure (oas3_builder E p v r) = failure (oas3_builder E p v r')"
proof -
  have some: "failure (or_no_member (Some x)) = None" for x :: client_request by (simp add: or_no_member_def)
  have path: "failure (or_no_member (oas3_path E p v r)) = failure (or_no_member (oas3_path E p v r'))" for r r'
    by (simp add: oas3_path_def failure_or_no_member)
  have query: "failure (or_no_member (oas3_query E p v r)) = failure (or_no_member (oas3_query E p v r'))" for r r'
    by (cases "p_content p") (simp_all add: oas3_query_def Let_def failure_or_no_member some)
  have header: "failure (or_no_member (oas3_header E p v r)) = failure (or_no_member (oas3_header E p v r'))" for r r'
    by (cases "p_content p") (simp_all add: oas3_header_def failure_or_no_member some)
  have cookie: "failure (or_no_member (oas3_cookie E p v r)) = failure (or_no_member (oas3_cookie E p v r'))" for r r'
    by (cases "p_content p") (simp_all add: oas3_cookie_def Let_def failure_or_no_member some)
  show ?thesis
    unfolding oas3_builder_def failure_if path [of r r'] query [of r r'] header [of r r'] cookie [of r r'] by simp
qed

lemma swagger2_failure: "failure (swagger2_builder E p v r) = failure (swagger2_builder E p v r')"
  by (simp add: swagger2_builder_def failure_if split: option.split)

lemma build_failure: "failure (build_parameter E isOAS3 vs p r) = failure (build_parameter E isOAS3 vs p r')"
  using oas3_failure [of E p _ r r'] swagger2_failure [of E p _ r r']
  by (auto simp: build_parameter_def split: sum.split option.split)

text \<open>Building the parameters fails exactly when one of them fails on its own, whatever is in the request already,
  and the first of them in their order is the one that is reported.\<close>

theorem first_failure_reported:
  "failure (build_loop E isOAS3 vs ps r) =
     (case List.map_filter (\<lambda>p. failure (build_parameter E isOAS3 vs p (new_request []))) ps of [] \<Rightarrow> None | e # es \<Rightarrow> Some e)"
proof (induction ps arbitrary: r)
  case (Cons p ps)
  have f: "failure (build_parameter E isOAS3 vs p (new_request [])) = failure (build_parameter E isOAS3 vs p r)"
    by (rule build_failure)
  show ?case
    by (cases "build_parameter E isOAS3 vs p r") (simp_all add: f Cons.IH map_filter_simps)
qed (simp add: map_filter_simps)

section \<open>From the entered value to the request\<close>

lemma entered_object_member:
  assumes "well_identified h (doc_parameters e p m)" and "n \<in> set (doc_parameters e p m)"
    and "param_reducer E h e (UPDATE_PARAM p m n v False) = Some e'"
    and "param_text n ''name'' = Some x" and "param_text n ''in'' = Some i" and "46 \<notin> set x"
  shows "object_member (parameterValues h False e' p m) x = (case object_prototype x of None \<Rightarrow> JUndefined | Some w \<Rightarrow> w)"
    and "object_member (parameterValues h False e' p m) (i @ js ''.'' @ x) = v" and "x \<noteq> []"
proof -
  have wi: "well_identified h (doc_parameters e' p m)" and n: "n \<in> set (doc_parameters e' p m)"
    using assms(1,2) enter_frame(1) [OF assms(3)] by simp_all
  show "object_member (parameterValues h False e' p m) x = (case object_prototype x of None \<Rightarrow> JUndefined | Some w \<Rightarrow> w)"
    by (rule bare_name_value [OF wi assms(6)])
  have "i @ js ''.'' @ x = located n" using assms(4,5) by (simp add: located_def text_or_undefined_def)
  moreover have "param_value h False e' p m n = v" using enter_param_values [OF assms(1-3) assms(2)] by simp
  ultimately show "object_member (parameterValues h False e' p m) (i @ js ''.'' @ x) = v"
    using find_located(1) [OF wi n] by (simp add: object_member_def parameterValues_lookup [OF wi])
  show "x \<noteq> []" using assms(1,2,4) by (auto simp: well_identified_def list_all_iff named_def)
qed


text \<open>The value that is entered for a parameter with the name of an inherited member, such as \<open>constructor\<close>, is
  not sent: the request is built with the inherited member instead.\<close>

theorem inherited_name_sent:
  assumes "well_identified h (doc_parameters e p m)" and "n \<in> set (doc_parameters e p m)"
    and "param_reducer F h e (UPDATE_PARAM p m n v False) = Some e'"
    and "param_text n ''name'' = Some (p_name q)" and "param_text n ''in'' = Some (p_in q)"
    and "object_prototype (p_name q) = Some (JFun k)"
  shows "passed_value E isOAS3 (parameterValues h False e' p m) q = Inr (Some (JFun k))"
proof -
  have "46 \<notin> set (p_name q)" using inherited_no_dot [of "p_name q"] assms(6) by (simp add: inherited_key_def)
  from entered_object_member [OF assms(1-5) this] have "given_value (parameterValues h False e' p m) q = JFun k"
    using assms(6) by (simp add: given_value_def)
  then show ?thesis by (simp add: passed_value_def)
qed

section \<open>Examples\<close>

definition sample_client :: request_engine where
  "sample_client = engine.extend sample_engine (request_engine.fields (\<lambda>v. v) (\<lambda>s ks. s))"

definition plain_parameter :: "string \<Rightarrow> string \<Rightarrow> parameter" where
  "plain_parameter i n = \<lparr>p_name = js n, p_in = js i, p_style = None, p_explode = None, p_allowReserved = False,
     p_content = None, p_required = True, p_allowEmptyValue = False, p_default = JUndefined,
     p_collectionFormat = None, p_type = None, p_schema_type = Some (js ''string'')\<rparr>"

lemma plain_simps [simp]:
  "p_name (plain_parameter i n) = js n" "p_in (plain_parameter i n) = js i" "p_style (plain_parameter i n) = None"
  "p_content (plain_parameter i n) = None" "p_schema_type (plain_parameter i n) = Some (js ''string'')"
  by (simp_all add: plain_parameter_def)

theorem path_parameters_expand_witness:
  "\<exists>r'. build_loop sample_client True [(js ''id'', JStr (js ''a/{x}''))] [plain_parameter ''path'' ''id''] (new_request (js ''/p/{id}'')) = Inr r'
     \<and> count_list (r_url r') 47 = 2"
proof -
  let ?ts = "[Lit (js ''/p/''), Hole (js ''id'')]"
  have "\<exists>r'. build_loop sample_client True [(js ''id'', JStr (js ''a/{x}''))] [plain_parameter ''path'' ''id''] (new_request (js ''/p/{id}'')) = Inr r'
     \<and> r_url r' = concat (map (expand (map_of (map (\<lambda>p. (p_name p, escape_text EscapeReserved (js ''a/{x}''))) [plain_parameter ''path'' ''id'']))) ?ts)
     \<and> count_list (r_url r') 47 = count_list (concat (map (\<lambda>t. case t of Lit s \<Rightarrow> s | Hole n \<Rightarrow> []) ?ts)) 47"
  proof (rule path_parameters_expand)
    show "list_all simple_path_parameter [plain_parameter ''path'' ''id'']"
      by (simp add: simple_path_parameter_def keyword_def js_simps)
    show "list_all (\<lambda>p. given_value [(js ''id'', JStr (js ''a/{x}''))] p = JStr (js ''a/{x}'') \<and> list_all (\<lambda>c. c < 0x10000) (js ''a/{x}''))
        [plain_parameter ''path'' ''id'']"
      by (simp add: given_value_def object_member_def js_eq_Nil) (simp add: js_simps)
    show "list_all token_ok ?ts" by (simp add: js_simps)
    show "r_url (new_request (js ''/p/{id}'')) = path_text ?ts" by (simp add: new_request_def braced_def js_simps)
  qed auto
  then show ?thesis by (auto simp: js_simps)
qed

theorem last_definition_counts_witness:
  "plain_parameter ''query'' ''id'' \<in> set (deduplicateParameters ([] @ [plain_parameter ''query'' ''id'']))"
  using last_definition_counts [of "[]" "[plain_parameter ''query'' ''id'']" "plain_parameter ''query'' ''id''"]
  by (simp add: ordinary_def placed_def inj_js)

lemma sample_param_texts: "param_text (sample_param i n r t) ''name'' = Some (js n)" "param_text (sample_param i n r t) ''in'' = Some (js i)"
  by (simp_all add: param_text_def)


theorem inherited_name_sent_witness:
  "\<exists>e'. param_reducer sample_engine sample_hash (sample_state [sample_param ''query'' ''constructor'' True ''string''])
       (UPDATE_PARAM (js ''/p'') (js ''post'') (sample_param ''query'' ''constructor'' True ''string'') (JStr (js ''5'')) False) = Some e'
     \<and> passed_value sample_client True (parameterValues sample_hash False e' (js ''/p'') (js ''post'')) (plain_parameter ''query'' ''constructor'')
        = Inr (Some (JFun 1))"
proof -
  let ?n = "sample_param ''query'' ''constructor'' True ''string''"
  obtain e' where e': "param_reducer sample_engine sample_hash (sample_state [?n])
       (UPDATE_PARAM (js ''/p'') (js ''post'') ?n (JStr (js ''5'')) False) = Some e'" by simp
  have "object_prototype (js ''constructor'') = Some (JFun 1)" by (simp add: object_prototype_def inj_js)
  with inherited_name_sent [OF _ _ e', where q = "plain_parameter ''query'' ''constructor''"] e' show ?thesis
    by (simp add: sample_parameters sample_identified sample_param_texts)
qed

end
