(* ===== verification/Swagger_Query.thy ===== *)
theory Swagger_Query
  imports Swagger_Request Swagger_Topbar
begin

text \<open>
  The query and the body that the client in \<open>swagger-ui-bundle.js\<close> makes of the collected parameters:
  \<open>encodeKeyValuePair\<close>, \<open>encodeFormOrQuery\<close>, \<open>buildFormData\<close> and \<open>mergeInQueryOrForm\<close>, with the serializer of the
  bundled \<open>qs\<close> for unencoded text.  The re-serialisation of a query that the URL has already is an
  argument.
\<close>

section \<open>Query and form\<close>

text \<open>The serializer of the bundled \<open>qs\<close> without encoding, lists as repeated keys.\<close>

lemma size_entries: "(k, x) \<in> set (own_entries m) \<Longrightarrow> size x < Suc (size_list (size_prod (\<lambda>_. 0) size) m)"
  by (induction m) (auto simp: own_entries_def split: if_splits)

function qs_pairs :: "engine \<Rightarrow> js_string \<Rightarrow> jval \<Rightarrow> js_string list" where
  "qs_pairs E n v =
     (case v of
        JUndefined \<Rightarrow> []
      | JNull \<Rightarrow> [n @ js ''='']
      | JArr xs \<Rightarrow> concat (map (qs_pairs E n) xs)
      | JObj m \<Rightarrow> concat (map (\<lambda>(k, x). qs_pairs E (n @ js ''['' @ k @ js '']'') x) (own_entries m))
      | JFile _ \<Rightarrow> []
      | JFun _ \<Rightarrow> []
      | _ \<Rightarrow> [n @ js ''='' @ concat_text E v])"
  by pat_completeness auto

termination
proof (relation "measure (\<lambda>(E, n, v). size v)", goal_cases)
  case (2 E n v xs x)
  then show ?case by (auto simp: less_Suc_eq_le intro: size_list_estimation')
next
  case (3 E n v m kx k x)
  then show ?case using size_entries [of k x m] by auto
qed simp

declare qs_pairs.simps [simp del]

lemma qs_pairs_text: "qs_pairs E n (JStr s) = [n @ 61 # s]"
  by (simp add: qs_pairs.simps concat_text_def value_text_def js_simps)

definition file_value :: "jval \<Rightarrow> bool" where
  "file_value v =
     (case v of
        JFile _ \<Rightarrow> True
      | JArr xs \<Rightarrow> list_ex (\<lambda>x. case x of JFile _ \<Rightarrow> True | _ \<Rightarrow> False) xs
      | _ \<Rightarrow> False)"

definition encoded_text :: "escaping \<Rightarrow> js_string \<Rightarrow> js_string" where
  "encoded_text esc s = (if s \<noteq> [] \<and> esc \<noteq> NoEscape then escape_text esc s else s)"

text \<open>\<open>encodeKeyValuePair\<close> with a serialization option; \<open>skip\<close> is set for multipart forms.\<close>

definition styled_pairs ::
  "engine \<Rightarrow> bool \<Rightarrow> js_string \<Rightarrow> serialization \<Rightarrow> jval \<Rightarrow> (js_string \<times> jval) list option" where
  "styled_pairs E skip e a v =
     (let style = keyword (ser_style a) (js ''form'');
          explode = (case ser_explode a of None \<Rightarrow> style = js ''form'' | Some b \<Rightarrow> b);
          esc = (if skip then NoEscape else if ser_allowReserved a then AllowReserved else EscapeReserved);
          enc = encodeDisallowedCharacters esc; key = encoded_text esc
      in case v of
           JNull \<Rightarrow> None
         | JArr xs \<Rightarrow>
             Some [(key e, if explode then JArr (map enc xs)
                           else JStr (join_values E (if style = js ''spaceDelimited'' then js ''%20''
                                        else if style = js ''pipeDelimited'' then js ''|'' else js '','') (map enc xs)))]
         | JObj m \<Rightarrow>
             if style = js ''deepObject'' then Some (map (\<lambda>(k, x). (key (e @ js ''['' @ k @ js '']''), enc x)) (own_entries m))
             else if explode then Some (map (\<lambda>(k, x). (key k, enc x)) (own_entries m))
             else Some [(key e, JStr (join_with (js '','')
                    (map (\<lambda>(k, x). key k @ js '','' @ concat_text E (enc x)) (own_entries m))))]
         | _ \<Rightarrow> Some [(key e, enc v)])"

definition component :: "bool \<Rightarrow> js_string \<Rightarrow> request_error + js_string" where
  "component skip s =
     (if skip then Inr s else case encodeURIComponent s of None \<Rightarrow> Inl UriError | Some c \<Rightarrow> Inr c)"

fun all_right :: "('e + 'a) list \<Rightarrow> 'e + 'a list" where
  "all_right [] = Inr []"
| "all_right (Inl e # xs) = Inl e"
| "all_right (Inr x # xs) = (case all_right xs of Inl e \<Rightarrow> Inl e | Inr ys \<Rightarrow> Inr (x # ys))"

definition collection_separator :: "js_string \<Rightarrow> js_string" where
  "collection_separator f =
     (if f = js ''ssv'' then js ''%20'' else if f = js ''tsv'' then js ''%09''
      else if f = js ''pipes'' then js ''|'' else js '','')"

text \<open>Without a serialization option.  In a multipart form the conversion calls \<open>toString\<close>.\<close>

definition collected_pairs ::
  "engine \<Rightarrow> bool \<Rightarrow> js_string \<Rightarrow> jval \<Rightarrow> js_string option \<Rightarrow> request_error + (js_string \<times> jval) list" where
  "collected_pairs E skip c v format =
     (let enc = (\<lambda>x. if skip \<and> absent x then Inl NoMember else component skip (concat_text E x)) in
      case v of
        JNull \<Rightarrow> Inr [(c, JStr [])]
      | JObj _ \<Rightarrow> Inr [(c, JStr [])]
      | JArr xs \<Rightarrow>
          (case all_right (map enc xs) of
             Inl e \<Rightarrow> Inl e
           | Inr ts \<Rightarrow>
               if format = Some (js ''multi'') then Inr [(c, JArr (map JStr ts))]
               else Inr [(c, JStr (join_with (collection_separator (keyword format (js ''csv''))) ts))])
      | _ \<Rightarrow> (case enc v of Inl e \<Rightarrow> Inl e | Inr t \<Rightarrow> Inr [(c, JStr t)]))"

text \<open>A form field with an encoding; \<open>json_stringify\<close> may give \<open>undefined\<close>, which is then converted.\<close>

definition field_pairs ::
  "request_engine \<Rightarrow> bool \<Rightarrow> js_string \<Rightarrow> js_string \<Rightarrow> encoding \<Rightarrow> jval \<Rightarrow> request_error + (js_string \<times> jval) list" where
  "field_pairs E skip e c i v =
     (let T = engine.truncate E;
          enc = (\<lambda>x. if skip \<and> absent x then Inl NoMember else component skip (concat_text T x));
          one = (\<lambda>x. case enc x of Inl err \<Rightarrow> Inl err | Inr t \<Rightarrow> Inr [(c, JStr t)])
      in if enc_style i \<noteq> None \<or> enc_explode i \<noteq> None \<or> enc_allowReserved i \<noteq> None then
           or_no_member (styled_pairs T skip e \<lparr>ser_style = enc_style i, ser_explode = enc_explode i,
             ser_allowReserved = (enc_allowReserved i = Some True)\<rparr> v)
         else if enc_contentType i = Some (js ''application/json'') then
           one (case v of JStr s \<Rightarrow> v | _ \<Rightarrow> json_stringify E v)
         else if enc_contentType i \<notin> {None, Some []} then
           (if absent v then Inl NoMember else one (JStr (concat_text T v)))
         else case v of
                JArr xs \<Rightarrow>
                  if list_ex (\<lambda>x. keyed_object x \<or> (case x of JArr _ \<Rightarrow> True | _ \<Rightarrow> False)) xs then one (json_stringify E v)
                  else (case all_right (map enc xs) of
                          Inl err \<Rightarrow> Inl err | Inr ts \<Rightarrow> Inr [(c, JStr (join_with (js '','') ts))])
              | _ \<Rightarrow> if keyed_object v then one (json_stringify E v) else one v)"

definition encodeKeyValuePair ::
  "request_engine \<Rightarrow> bool \<Rightarrow> js_string \<Rightarrow> query_entry \<Rightarrow> request_error + (js_string \<times> jval) list" where
  "encodeKeyValuePair E skip e x =
     (if x \<in> {Plain JUndefined, Plain JNull} then Inl NoMember
      else case component skip e of
             Inl err \<Rightarrow> Inl err
           | Inr c \<Rightarrow>
               (case x of
                  Plain v \<Rightarrow> collected_pairs (engine.truncate E) skip c v None
                | Entry v allowed a format \<Rightarrow>
                    if v = JUndefined \<and> allowed then Inr [(c, JStr [])]
                    else if file_value v then Inr [(c, v)]
                    else (case a of
                            Some a \<Rightarrow> or_no_member (styled_pairs (engine.truncate E) skip e a v)
                          | None \<Rightarrow> collected_pairs (engine.truncate E) skip c v format)
                | FormField v i \<Rightarrow>
                    if file_value v then Inr [(c, v)] else field_pairs E skip e c i v))"

definition all_pairs :: "request_engine \<Rightarrow> bool \<Rightarrow> query_entry js_object \<Rightarrow> request_error + (js_string \<times> jval) list" where
  "all_pairs E skip q =
     (case all_right (map (\<lambda>(k, x). encodeKeyValuePair E skip k x) (own_entries q)) of
        Inl e \<Rightarrow> Inl e | Inr pss \<Rightarrow> Inr (concat pss))"

definition encodeFormOrQuery :: "request_engine \<Rightarrow> query_entry js_object \<Rightarrow> request_error + js_string" where
  "encodeFormOrQuery E q =
     (case all_pairs E False q of
        Inl e \<Rightarrow> Inl e
      | Inr ps \<Rightarrow>
          Inr (join_with (js ''&'') (concat (map (\<lambda>(k, v). qs_pairs (engine.truncate E) k v)
            (own_entries (fold (\<lambda>(k, v). obj_put k v) ps []))))))"

text \<open>Multipart forms are lists of parts, a list of values giving one part each.\<close>

definition buildFormData :: "request_engine \<Rightarrow> query_entry js_object \<Rightarrow> request_error + (js_string \<times> jval) list" where
  "buildFormData E form =
     (case all_pairs E True form of
        Inl e \<Rightarrow> Inl e
      | Inr ps \<Rightarrow> Inr (concat (map (\<lambda>(k, v). case v of JArr xs \<Rightarrow> map (Pair k) xs | _ \<Rightarrow> [(k, v)]) ps)))"

definition entry_file :: "query_entry \<Rightarrow> bool" where
  "entry_file x = (case x of Entry v _ _ _ \<Rightarrow> file_value v | FormField v _ \<Rightarrow> file_value v | Plain v \<Rightarrow> False)"

definition multipart :: "engine \<Rightarrow> jval js_object \<Rightarrow> bool" where
  "multipart E hs =
     (let get = (\<lambda>k. object_member hs (js k));
          v = (if jtruthy (get ''content-type'') then get ''content-type'' else get ''Content-Type'')
      in contains (lower_text (concat_text E v)) (js ''multipart/form-data''))"

definition merge_form :: "request_engine \<Rightarrow> client_request \<Rightarrow> request_error + client_request" where
  "merge_form E r =
     (case r_form r of
        None \<Rightarrow> Inr r
      | Some f \<Rightarrow>
          if list_ex (\<lambda>(k, x). entry_file x) f \<or> multipart (engine.truncate E) (r_headers r)
          then (case buildFormData E f of
                  Inl e \<Rightarrow> Inl e | Inr ps \<Rightarrow> Inr (r\<lparr>r_body := BodyForm ps, r_form := None\<rparr>))
          else (case encodeFormOrQuery E f of
                  Inl e \<Rightarrow> Inl e | Inr s \<Rightarrow> Inr (r\<lparr>r_body := BodyValue (JStr s), r_form := None\<rparr>)))"

definition query_suffix :: "js_string list \<Rightarrow> js_string" where
  "query_suffix ts =
     (let s = join_with (js ''&'') (filter (\<lambda>t. t \<noteq> []) ts) in if s = [] then [] else js ''?'' @ s)"

definition merge_query :: "request_engine \<Rightarrow> client_request \<Rightarrow> request_error + client_request" where
  "merge_query E r =
     (case r_query r of
        None \<Rightarrow> Inr r
      | Some q \<Rightarrow>
          (let us = split_on 63 (r_url r);
               old = (if length us > 1 \<and> us ! 1 \<noteq> [] then other_query E (us ! 1) (object_keys q) else [])
           in case encodeFormOrQuery E q of
                Inl e \<Rightarrow> Inl e
              | Inr s \<Rightarrow> Inr (r\<lparr>r_url := hd us @ query_suffix [old, s], r_query := None\<rparr>)))"

definition mergeInQueryOrForm :: "request_engine \<Rightarrow> client_request \<Rightarrow> request_error + client_request" where
  "mergeInQueryOrForm E r = (case merge_form E r of Inl e \<Rightarrow> Inl e | Inr r' \<Rightarrow> merge_query E r')"

section \<open>Reading the query back\<close>

lemma entries_map:
  "own_entries (map (\<lambda>(k, x). (k, f k x)) m) = map (\<lambda>(k, x). (k, f k x)) (own_entries m)"
proof -
  have ins: "insort_key (\<lambda>(k, x). g k) (k, f k x) (map (\<lambda>(k, x). (k, f k x)) l) = map (\<lambda>(k, x). (k, f k x)) (insort_key (\<lambda>(k, x). g k) (k, x) l)"
    for g :: "js_string \<Rightarrow> nat" and k x l by (induction l) auto
  have "sort_key (\<lambda>(k, x). g k) (map (\<lambda>(k, x). (k, f k x)) l) = map (\<lambda>(k, x). (k, f k x)) (sort_key (\<lambda>(k, x). g k) l)"
    for g :: "js_string \<Rightarrow> nat" and l by (induction l) (auto simp: ins)
  moreover have "filter (\<lambda>(k, x). P k) (map (\<lambda>(k, x). (k, f k x)) l) = map (\<lambda>(k, x). (k, f k x)) (filter (\<lambda>(k, x). P k) l)"
    for P l by (induction l) auto
  ultimately show ?thesis by (simp add: own_entries_def)
qed

lemma all_right_map: "(\<And>x. x \<in> set xs \<Longrightarrow> f x = Inr (g x)) \<Longrightarrow> all_right (map f xs) = Inr (map g xs)"
  by (induction xs) auto

definition escaped :: "js_string \<Rightarrow> js_string" where
  "escaped s = escape_text EscapeReserved s"

lemma encoded_escaped: "encoded_text EscapeReserved s = escaped s"
  by (simp add: encoded_text_def escaped_def escape_text_def)

definition pair_text :: "js_string \<times> js_string \<Rightarrow> js_string" where
  "pair_text = (\<lambda>(k, t). escaped k @ 61 # escaped t)"

lemma styled_text:
  "\<not> ser_allowReserved a \<Longrightarrow> styled_pairs E False k a (JStr t) = Some [(escaped k, JStr (escaped t))]"
  by (simp add: styled_pairs_def Let_def encoded_escaped encodeDisallowedCharacters_def escaped_def escape_text_def)

lemma pair_of_entry:
  assumes "well_formed k" "\<not> ser_allowReserved a"
  shows "encodeKeyValuePair E False k (Entry (JStr t) False (Some a) None) = Inr [(escaped k, JStr (escaped t))]"
proof -
  obtain c where "encodeURIComponent k = Some c" using encode_decode [OF assms(1)] by blast
  then show ?thesis using styled_text [OF assms(2)]
    by (simp add: encodeKeyValuePair_def component_def file_value_def or_no_member_def)
qed

lemma fold_put_append:
  "distinct (map fst (l @ ps)) \<Longrightarrow> list_all (\<lambda>(k, v). k \<noteq> js ''__proto__'') ps \<Longrightarrow>
   fold (\<lambda>(k, v). obj_put k v) ps l = l @ ps"
proof (induction ps arbitrary: l)
  case (Cons x ps)
  obtain k v where x: "x = (k, v)" by fastforce
  have "alist_put k v l = l @ [(k, v)]" if "k \<notin> fst ` set l" for l using that by (induction l) auto
  then show ?case using Cons.IH [of "l @ [(k, v)]"] Cons.prems x by (simp add: obj_put_def)
qed simp

lemma decode_escaped: "well_formed s \<Longrightarrow> decodeURIComponent (escaped s) = Some s"
  by (rule esc.dec_enc) (simp_all add: escaped_def)

lemma escaped_inj:
  assumes "well_formed s" "well_formed t"
  shows "escaped s = escaped t \<longleftrightarrow> s = t"
  by (metis decode_escaped [OF assms(1)] decode_escaped [OF assms(2)] option.inject)

lemma escaped_proto: "well_formed s \<Longrightarrow> escaped s = js ''__proto__'' \<longleftrightarrow> s = js ''__proto__''"
proof -
  have "escaped (js ''__proto__'') = js ''__proto__'' \<and> well_formed (js ''__proto__'')"
    by (simp add: escaped_def escape_text_def js_simps escape_point_def is_unreserved_def is_high_def is_low_def)
  then show "well_formed s \<Longrightarrow> escaped s = js ''__proto__'' \<longleftrightarrow> s = js ''__proto__''"
    using escaped_inj [of s "js ''__proto__''"] by simp
qed

lemma search_pairs:
  "list_all (\<lambda>(k, t). well_formed k \<and> well_formed t) kts \<Longrightarrow>
   search_loop (map pair_text kts) e = Some (fold (\<lambda>(k, t). obj_put k t) kts e)"
proof (induction kts arbitrary: e)
  case (Cons x kts)
  obtain k t where x: "x = (k, t)" by fastforce
  with Cons.prems have wf: "well_formed k" "well_formed t" by simp_all
  have s: "split_on 61 (pair_text (k, t)) = [escaped k, escaped t]"
    unfolding pair_text_def prod.case escaped_def by (rule esc.split_pair [OF wf]) simp_all
  have "search_value [escaped k, escaped t] = Some t"
    using esc.dec_enc [OF wf(2)] escape_empty_iff [of EscapeReserved t] by (simp add: search_value_def escaped_def)
  moreover have "decodeURIComponent (escaped k) = Some k" using esc.dec_enc [OF wf(1)] by (simp add: escaped_def)
  ultimately show ?case using Cons x s by (simp add: Let_def)
qed simp

lemma mset_map_preimage: "mset ys = image_mset g M \<Longrightarrow> \<exists>xs. ys = map g xs \<and> mset xs = M"
proof (induction ys arbitrary: M)
  case (Cons y ys)
  then obtain x N where "M = add_mset x N" "g x = y" "image_mset g N = mset ys"
    using msed_map_invR [of g M y "mset ys"] by auto
  with Cons.IH [of N] obtain xs where "y # ys = map g (x # xs)" "mset (x # xs) = M" by auto
  then show ?case by (intro exI [of _ "x # xs"] conjI)
qed simp

lemma own_entries_preimage: "\<exists>xs. own_entries (map g m) = map g xs \<and> mset xs = mset m"
  by (rule mset_map_preimage) (simp add: mset_own_entries)

text \<open>The query of entries that are texts.\<close>

lemma encode_texts:
  assumes "\<And>k. \<not> ser_allowReserved (a k)" and "distinct (map fst kvs)"
    and "list_all (\<lambda>(k, t). well_formed k \<and> well_formed t \<and> k \<noteq> js ''__proto__'') kvs"
  obtains kts where "encodeFormOrQuery E (map (\<lambda>(k, t). (k, Entry (JStr t) False (Some (a k)) None)) kvs)
      = Inr (join_with [38] (map pair_text kts))"
    and "set kts = set kvs" "distinct (map fst kts)"
proof -
  let ?ps = "map (\<lambda>(k, t). (escaped k, JStr (escaped t))) (own_entries kvs)"
  have wf: "well_formed k" "well_formed t" "k \<noteq> js ''__proto__''" if "(k, t) \<in> set kvs" for k t
    using that assms(3) by (auto simp: list_all_iff)
  have "all_right (map (\<lambda>(k, x). encodeKeyValuePair E False k x) (map (\<lambda>(k, t). (k, Entry (JStr t) False (Some (a k)) None)) (own_entries kvs)))
      = Inr (map (\<lambda>(k, t). [(escaped k, JStr (escaped t))]) (own_entries kvs))"
    unfolding map_map comp_def
    by (rule all_right_map) (auto simp: pair_of_entry [OF wf(1) assms(1)])
  then have "all_pairs E False (map (\<lambda>(k, t). (k, Entry (JStr t) False (Some (a k)) None)) kvs) = Inr ?ps"
  proof -
    assume *: "all_right (map (\<lambda>(k, x). encodeKeyValuePair E False k x) (map (\<lambda>(k, t). (k, Entry (JStr t) False (Some (a k)) None)) (own_entries kvs)))
      = Inr (map (\<lambda>(k, t). [(escaped k, JStr (escaped t))]) (own_entries kvs))"
    have "concat (map (\<lambda>(k, t). [(escaped k, JStr (escaped t))]) l) = map (\<lambda>(k, t). (escaped k, JStr (escaped t))) l" for l
      by (induction l) auto
    then show ?thesis unfolding all_pairs_def entries_map * by simp
  qed
  moreover have fst_inj: "inj_on escaped (fst ` set kvs)" using escaped_inj wf(1) by (auto simp: inj_on_def)
  have d: "distinct (map fst ?ps)"
  proof -
    have "map fst ?ps = map escaped (map fst (own_entries kvs))" by (simp add: split_def)
    then show ?thesis using distinct_entries [OF assms(2)] fst_inj by (simp only: distinct_map list.set_map set_entries)
  qed
  moreover have "list_all (\<lambda>(k, v). k \<noteq> js ''__proto__'') ?ps"
    using escaped_proto wf by (auto simp: list_all_iff)
  ultimately have f: "encodeFormOrQuery E (map (\<lambda>(k, t). (k, Entry (JStr t) False (Some (a k)) None)) kvs)
      = Inr (join_with [38] (concat (map (\<lambda>(k, v). qs_pairs (engine.truncate E) k v) (own_entries ?ps))))"
    using fold_put_append [of "[]" ?ps] by (simp add: encodeFormOrQuery_def js_simps)
  obtain kts where kts: "own_entries ?ps = map (\<lambda>(k, t). (escaped k, JStr (escaped t))) kts" "mset kts = mset kvs"
    using own_entries_preimage [of "\<lambda>(k, t). (escaped k, JStr (escaped t))" "own_entries kvs"] mset_own_entries [of kvs] by auto
  have "concat (map (\<lambda>(k, v). qs_pairs (engine.truncate E) k v) (map (\<lambda>(k, t). (escaped k, JStr (escaped t))) l)) = map pair_text l" for l
    by (induction l) (auto simp: pair_text_def qs_pairs_text)
  with f kts(1) have "encodeFormOrQuery E (map (\<lambda>(k, t). (k, Entry (JStr t) False (Some (a k)) None)) kvs)
      = Inr (join_with [38] (map pair_text kts))" by simp
  moreover have "set kts = set kvs" using kts(2) by (rule mset_eq_setD)
  moreover have "mset (map fst kts) = mset (map fst kvs)" using kts(2) by simp
  then have "distinct (map fst kts)" using assms(2) by (metis mset_eq_imp_distinct_iff)
  ultimately show thesis by (rule that)
qed

lemma merge_query_table:
  assumes "r_query r = Some (map (\<lambda>(k, t). (k, Entry (JStr t) False (Some (a k)) None)) kvs)"
    and "\<And>k. \<not> ser_allowReserved (a k)" and "kvs \<noteq> []" and "distinct (map fst kvs)"
    and "list_all (\<lambda>(k, t). well_formed k \<and> well_formed t \<and> k \<noteq> js ''__proto__'') kvs" and "63 \<notin> set (r_url r)"
  shows "\<exists>s t. merge_query E r = Inr (r\<lparr>r_url := r_url r @ 63 # s, r_query := None\<rparr>)
     \<and> parseSearch (63 # s) = Some t \<and> map_of t = map_of kvs"
proof -
  obtain kts where kts: "encodeFormOrQuery E (map (\<lambda>(k, t). (k, Entry (JStr t) False (Some (a k)) None)) kvs)
      = Inr (join_with [38] (map pair_text kts))" "set kts = set kvs" "distinct (map fst kts)"
    by (rule encode_texts [OF assms(2,4,5)])
  let ?s = "join_with [38] (map pair_text kts)"
  have wf: "list_all (\<lambda>(k, t). well_formed k \<and> well_formed t \<and> k \<noteq> js ''__proto__'') kts"
    using assms(5) by (simp add: list_all_iff kts(2))
  have ne: "map pair_text kts \<noteq> []" using assms(3) kts(2) by auto
  have "split_on 38 ?s = map pair_text kts"
  proof (rule esc.split_fields [where d' = 61])
    fix p assume "p \<in> set (map pair_text kts)"
    then obtain k t where "(k, t) \<in> set kts" "p = pair_text (k, t)" by auto
    moreover from this wf have "well_formed k" "well_formed t" by (auto simp: list_all_iff)
    ultimately show "\<exists>k v ek ev. well_formed k \<and> well_formed v \<and> Some (escape_text EscapeReserved k) = Some ek
        \<and> Some (escape_text EscapeReserved v) = Some ev \<and> p = ek @ 61 # ev"
      by (simp add: pair_text_def escaped_def) blast
  qed (use ne in auto)
  moreover have "list_all (\<lambda>(k, t). well_formed k \<and> well_formed t) kts" using wf by (auto simp: list_all_iff)
  moreover have "fold (\<lambda>(k, t). obj_put k t) kts [] = kts"
    using fold_put_append [of "[]" kts] kts(3) wf by (auto simp: list_all_iff)
  ultimately have parse: "parseSearch (63 # ?s) = Some kts" by (simp add: parseSearch_def search_pairs)
  have "?s \<noteq> []" using ne by (subst join_with_eq_Nil) (auto simp: pair_text_def)
  then have "merge_query E r = Inr (r\<lparr>r_url := r_url r @ 63 # ?s, r_query := None\<rparr>)"
    using kts(1) assms(1,6) by (simp add: merge_query_def query_suffix_def js_simps)
  moreover have "map_of kts = map_of kvs"
    using kts(2,3) assms(4) by (simp add: map_of_inject_set)
  ultimately show ?thesis using parse by (intro exI [of _ ?s] exI [of _ kts] conjI)
qed

text \<open>C21. The query of a request reads back: of one or more plain text entries of distinct names, whatever their
  styles, but without \<open>allowReserved\<close>, a URL that has no query yet gets one that the parser of the page's own
  query helper turns into the same table of names and values.  Names and values are well-formed, and no name is
  \<open>__proto__\<close>.\<close>

theorem query_read_back:
  assumes "r_query r = Some (map (\<lambda>(k, t). (k, Entry (JStr t) False (Some (a k)) None)) kvs)"
    and "\<And>k. \<not> ser_allowReserved (a k)" and "kvs \<noteq> []" and "distinct (map fst kvs)"
    and "list_all (\<lambda>(k, t). well_formed k \<and> well_formed t \<and> k \<noteq> js ''__proto__'') kvs" and "63 \<notin> set (r_url r)"
  shows "\<exists>r' s t. merge_query E r = Inr r' \<and> r_url r' = r_url r @ 63 # s
     \<and> parseSearch (63 # s) = Some t \<and> map_of t = map_of kvs"
proof -
  from merge_query_table [OF assms] obtain s t where st: "merge_query E r = Inr (r\<lparr>r_url := r_url r @ 63 # s, r_query := None\<rparr>)"
    "parseSearch (63 # s) = Some t" "map_of t = map_of kvs" by blast
  moreover have "r_url (r\<lparr>r_url := r_url r @ 63 # s, r_query := None\<rparr>) = r_url r @ 63 # s" by simp
  ultimately show ?thesis by blast
qed

theorem query_read_back_witness:
  "\<exists>r' s t. merge_query sample_client ((new_request (js ''/p''))\<lparr>r_query := Some [(js ''a'', Entry (JStr (js ''x&y'')) False
       (Some \<lparr>ser_style = None, ser_explode = None, ser_allowReserved = False\<rparr>) None)]\<rparr>) = Inr r'
     \<and> r_url r' = js ''/p'' @ 63 # s \<and> parseSearch (63 # s) = Some t \<and> map_of t (js ''a'') = Some (js ''x&y'')"
proof -
  let ?a = "\<lparr>ser_style = None, ser_explode = None, ser_allowReserved = False\<rparr>"
  let ?r = "(new_request (js ''/p''))\<lparr>r_query := Some [(js ''a'', Entry (JStr (js ''x&y'')) False (Some ?a) None)]\<rparr>"
  have "\<exists>r' s t. merge_query sample_client ?r = Inr r' \<and> r_url r' = r_url ?r @ 63 # s
     \<and> parseSearch (63 # s) = Some t \<and> map_of t = map_of [(js ''a'', js ''x&y'')]"
    by (rule query_read_back [where a = "\<lambda>_. ?a"]) (simp_all add: new_request_def js_simps is_high_def is_low_def)
  then show ?thesis by (auto simp: new_request_def)
qed

end
