(* ===== verification/Swagger_Client.thy ===== *)
theory Swagger_Client
  imports Swagger_Query Swagger_Auth "HOL-Library.Monad_Syntax"
begin

text \<open>
  The rest of \<open>buildRequest\<close> in the client of \<open>swagger-ui-bundle.js\<close>: credentials, content types and the body
  for Swagger 2 and OpenAPI 3, cookies, and the composition of the whole request.  The base URL, which
  \<open>url.parse\<close> computes from the servers, is an argument.  An exception is \<open>None\<close> or \<open>Inl NoMember\<close>.
\<close>

section \<open>Operations\<close>

text \<open>
  What is read of an operation and its specification: security requirements as lists of scheme names, media
  types of the request body with the encodings of their fields, responses with the media types of their
  content, and the scheme definitions as values.
\<close>

record operation_info =
  o_parameters :: "parameter list"
  o_path_parameters :: "parameter list"
  o_security :: "js_string list list option"
  o_body :: "(js_string \<times> (js_string \<times> encoding) list) list"
  o_responses :: "(js_string \<times> js_string list option) list option"
  o_consumes :: "js_string list option"
  o_produces :: "js_string list option"
  s_security :: "js_string list list option"
  s_schemes :: jval
  s_consumes :: "js_string list option"

text \<open>The securities that the authorisation plugin passes: what is authorised, and the requirements of the specification.\<close>

record securities =
  x_authorized :: jval
  x_specSecurity :: "js_string list list option"

record request_options =
  c_values :: "jval js_object"
  c_requestBody :: jval
  c_securities :: "securities option"
  c_requestContentType :: "js_string option"
  c_responseContentType :: "js_string option"
  c_attachContentType :: bool

definition falsy_text :: "js_string option \<Rightarrow> bool" where
  "falsy_text t \<longleftrightarrow> t \<in> {None, Some []}"

definition has_credentials :: "securities option \<Rightarrow> operation_info \<Rightarrow> bool" where
  "has_credentials sec info \<longleftrightarrow> o_security info \<noteq> Some []
     \<and> (case sec of Some x \<Rightarrow> (case x_authorized x of JObj (_ # _) \<Rightarrow> True | _ \<Rightarrow> False) | None \<Rightarrow> False)"

definition credential_of :: "securities option \<Rightarrow> js_string \<Rightarrow> jval" where
  "credential_of sec e = (case sec of
     Some x \<Rightarrow> (case x_authorized x of JObj l \<Rightarrow> object_member l e | _ \<Rightarrow> JUndefined) | None \<Rightarrow> JUndefined)"

section \<open>Credentials\<close>

text \<open>The client encodes the code units of a text as bytes and drops what does not fit.\<close>

definition client_btoa :: "js_string \<Rightarrow> js_string" where
  "client_btoa s = base64 (map (\<lambda>c. c mod 256) s)"

definition or_value :: "jval \<Rightarrow> jval \<Rightarrow> jval" where
  "or_value v d = (if jtruthy v then v else d)"

text \<open>A raw value in the query: an object is read as an entry.\<close>

definition raw_entry :: "jval \<Rightarrow> query_entry" where
  "raw_entry c = (case c of JObj m \<Rightarrow> Entry (object_member m (js ''value'')) False None None | _ \<Rightarrow> Plain c)"

definition bearer_or :: "engine \<Rightarrow> jval \<Rightarrow> js_string option" where
  "bearer_or E v =
     (if \<not> jtruthy v then Some (js ''Bearer'')
      else case v of
             JStr s \<Rightarrow> Some (if lower_text s = js ''bearer'' then js ''Bearer'' else s)
           | _ \<Rightarrow> None)"

definition basic_text :: "engine \<Rightarrow> jval \<Rightarrow> js_string option" where
  "basic_text E c = do {
     u \<leftarrow> member E c (js ''username'');
     p \<leftarrow> member E c (js ''password'');
     Some (js ''Basic '' @ client_btoa (concat_text E (or_value u (JStr [])) @ js '':'' @ concat_text E (or_value p (JStr []))))}"

definition oas3_apiKey :: "engine \<Rightarrow> jval \<Rightarrow> jval \<Rightarrow> client_request \<Rightarrow> client_request option" where
  "oas3_apiKey E n c r = do {
     i \<leftarrow> member E n (js ''in'');
     nm \<leftarrow> member E n (js ''name'');
     let k = concat_text E nm;
     Some (if i = JStr (js ''query'') then put_query k (raw_entry c) r
           else if i = JStr (js ''header'') then put_header k c r
           else if i = JStr (js ''cookie'') then r\<lparr>r_cookies := obj_put k c (r_cookies r)\<rparr>
           else r)}"

definition oas3_http :: "engine \<Rightarrow> jval \<Rightarrow> jval \<Rightarrow> client_request \<Rightarrow> client_request option" where
  "oas3_http E n c r = do {
     sc \<leftarrow> member E n (js ''scheme'');
     let s = lower_text (concat_text E sc);
     if s = js ''basic'' then map_option (\<lambda>t. put_header (js ''Authorization'') (JStr t) r) (basic_text E c)
     else if s = js ''bearer'' then Some (put_header (js ''Authorization'') (JStr (js ''Bearer '' @ concat_text E c)) r)
     else Some r}"

definition oas3_oauth2 :: "engine \<Rightarrow> jval \<Rightarrow> jval \<Rightarrow> client_request \<Rightarrow> client_request option" where
  "oas3_oauth2 E n t r = do {
     tk \<leftarrow> member E t (js ''token'');
     nm \<leftarrow> member E n (js ''x-tokenName'');
     let d = or_value tk (JObj []);
     m \<leftarrow> member E d (concat_text E (or_value nm (JStr (js ''access_token''))));
     v \<leftarrow> member E d (js ''token_type'');
     b \<leftarrow> bearer_or E v;
     Some (put_header (js ''Authorization'') (JStr (b @ js '' '' @ concat_text E m)) r)}"

text \<open>One scheme of a requirement; a missing definition makes reading its type throw.\<close>

definition oas3_scheme :: "engine \<Rightarrow> securities option \<Rightarrow> jval \<Rightarrow> js_string \<Rightarrow> client_request \<Rightarrow> client_request option" where
  "oas3_scheme E sec defs e r =
     (let t = credential_of sec e in
      if \<not> jtruthy t then Some r
      else do {
        n \<leftarrow> member E defs e;
        tv \<leftarrow> member E t (js ''value'');
        let c = or_value tv t;
        ty \<leftarrow> member E n (js ''type'');
        if ty = JStr (js ''apiKey'') then oas3_apiKey E n c r
        else if ty = JStr (js ''http'') then oas3_http E n c r
        else if ty \<in> {JStr (js ''oauth2''), JStr (js ''openIdConnect'')} then oas3_oauth2 E n t r
        else Some r})"

definition swagger2_basic :: "engine \<Rightarrow> jval \<Rightarrow> client_request \<Rightarrow> client_request option" where
  "swagger2_basic E c r = do {
     h \<leftarrow> member E c (js ''header'');
     if jtruthy h then Some (put_header (js ''authorization'') h r)
     else case c of
            JObj m \<Rightarrow> map_option (\<lambda>t. put_header (js ''authorization'') (JStr t) r) (basic_text E c)
          | _ \<Rightarrow> None}"

definition swagger2_scheme :: "engine \<Rightarrow> securities option \<Rightarrow> jval \<Rightarrow> js_string \<Rightarrow> client_request \<Rightarrow> client_request option" where
  "swagger2_scheme E sec defs e r =
     (let t = credential_of sec e in
      if \<not> jtruthy t then Some r
      else do {
        tk \<leftarrow> member E t (js ''token'');
        tv \<leftarrow> member E t (js ''value'');
        let c = or_value tv t;
        n \<leftarrow> member E defs e;
        ty \<leftarrow> member E n (js ''type'');
        nm \<leftarrow> member E n (js ''x-tokenName'');
        a \<leftarrow> (if jtruthy tk then member E tk (concat_text E (or_value nm (JStr (js ''access_token'')))) else Some tk);
        p \<leftarrow> (if jtruthy tk then member E tk (js ''token_type'') else Some tk);
        if ty = JStr (js ''apiKey'') then do {
          i \<leftarrow> member E n (js ''in'');
          k \<leftarrow> member E n (js ''name'');
          Some (if i = JStr (js ''query'') then put_query (concat_text E k) (raw_entry c) r
                else put_header (concat_text E k) c r)}
        else if ty = JStr (js ''basic'') then swagger2_basic E c r
        else if ty = JStr (js ''oauth2'') \<and> jtruthy a then do {
          b \<leftarrow> bearer_or E p;
          Some (put_header (js ''authorization'') (JStr (b @ js '' '' @ concat_text E a)) r)}
        else Some r})"

fun apply_schemes ::
  "(js_string \<Rightarrow> client_request \<Rightarrow> client_request option) \<Rightarrow> js_string list \<Rightarrow> client_request \<Rightarrow> client_request option" where
  "apply_schemes f [] r = Some r"
| "apply_schemes f (e # es) r = Option.bind (f e r) (apply_schemes f es)"

text \<open>The requirements of the operation, or else those of the specification; the schemes of all of them are applied.\<close>

definition required_schemes :: "bool \<Rightarrow> securities option \<Rightarrow> operation_info \<Rightarrow> js_string list" where
  "required_schemes isOAS3 sec info =
     (case o_security info of
        Some s \<Rightarrow> concat s
      | None \<Rightarrow> (case if isOAS3 then s_security info else Option.bind sec x_specSecurity of Some s \<Rightarrow> concat s | None \<Rightarrow> []))"

definition applySecurities :: "engine \<Rightarrow> bool \<Rightarrow> securities option \<Rightarrow> operation_info \<Rightarrow> client_request \<Rightarrow> client_request option" where
  "applySecurities E isOAS3 sec info r =
     (if \<not> has_credentials sec info then Some r
      else apply_schemes (if isOAS3 then oas3_scheme E sec (s_schemes info) else swagger2_scheme E sec (s_schemes info))
             (required_schemes isOAS3 sec info) (r\<lparr>r_query := Some (query_of r)\<rparr>))"

section \<open>Content types and body\<close>

text \<open>\<open>parseInt(code, 10)\<close> is between 200 and 299.\<close>

definition success_code :: "js_string \<Rightarrow> bool" where
  "success_code s =
     (let t = dropWhile js_space s; u = (case t of c # r \<Rightarrow> if c = 43 then r else t | [] \<Rightarrow> []);
          d = takeWhile js_is_digit u; n = foldl (\<lambda>a c. 10 * a + (c - 48)) 0 d
      in d \<noteq> [] \<and> 200 \<le> n \<and> n < 300)"

definition set_accept :: "js_string list \<Rightarrow> client_request \<Rightarrow> client_request" where
  "set_accept ts r = put_header (js ''accept'') (JStr (join_with (js '', '') ts)) r"

definition content_type :: "js_string \<Rightarrow> client_request \<Rightarrow> client_request" where
  "content_type t r = put_header (js ''Content-Type'') (JStr t) r"

definition form_of :: "(js_string \<times> encoding) list \<Rightarrow> jval \<Rightarrow> query_entry js_object" where
  "form_of encs v =
     (let none = \<lparr>enc_style = None, enc_explode = None, enc_allowReserved = None, enc_contentType = None\<rparr> in
      case v of
        JObj m \<Rightarrow> map (\<lambda>(k, x). (k, FormField x (case map_of encs k of None \<Rightarrow> none | Some i \<Rightarrow> i))) (own_entries m)
      | JStr s \<Rightarrow> map (\<lambda>(i, c). (js_nat i, Plain (JStr [c]))) (enumerated s)
      | JArr xs \<Rightarrow> map (\<lambda>(i, x). (js_nat i, FormField x none)) (enumerated xs)
      | _ \<Rightarrow> [])"

definition form_types :: "js_string list" where
  "form_types = [js ''application/x-www-form-urlencoded'', js ''multipart/form-data'']"

definition oas3_content :: "request_options \<Rightarrow> operation_info \<Rightarrow> client_request \<Rightarrow> client_request" where
  "oas3_content c info r =
     (let body = c_requestBody c; l = map fst (o_body info); u = (case c_requestContentType c of None \<Rightarrow> [] | Some t \<Rightarrow> t);
          known = (u \<noteq> [] \<and> u \<in> set l);
          first = (case l of [] \<Rightarrow> [] | t # _ \<Rightarrow> t);
          given = (jtruthy body \<or> c_attachContentType c);
          u' = (if given \<and> u = [] then first else u);
          r1 = (if given
                then (if known then content_type u r else if u = [] \<and> first \<noteq> [] then content_type first r else r)
                else (if known then content_type u r else r));
          accepts = (case o_responses info of
                       None \<Rightarrow> []
                     | Some rs \<Rightarrow> concat (map (\<lambda>(k, ts). case ts of Some ts \<Rightarrow> if success_code k then ts else [] | None \<Rightarrow> []) rs));
          r2 = (if falsy_text (c_responseContentType c) \<and> accepts \<noteq> [] then set_accept accepts r1 else r1)
      in if \<not> jtruthy body then r2
         else if u' = [] then r2\<lparr>r_body := BodyValue body\<rparr>
         else if u' \<notin> set l then r2
         else if u' \<in> set form_types
         then r2\<lparr>r_form := Some (form_of (case map_of (o_body info) u' of None \<Rightarrow> [] | Some encs \<Rightarrow> encs) body)\<rparr>
         else r2\<lparr>r_body := BodyValue body\<rparr>)"

definition swagger2_content :: "request_options \<Rightarrow> operation_info \<Rightarrow> client_request \<Rightarrow> client_request" where
  "swagger2_content c info r =
     (let u = (case c_requestContentType c of None \<Rightarrow> [] | Some t \<Rightarrow> t);
          body = (case r_body r of BodyValue v \<Rightarrow> jtruthy v | BodyForm _ \<Rightarrow> True | NoBody \<Rightarrow> False);
          has = (\<lambda>P. list_ex P (o_parameters info));
          r1 = (if body \<or> r_form r \<noteq> None \<or> c_attachContentType c then
                  (if u \<noteq> [] then content_type u r
                   else case o_consumes info of
                          Some ts \<Rightarrow> put_header (js ''Content-Type'') (case ts of [] \<Rightarrow> JUndefined | t # _ \<Rightarrow> JStr t) r
                        | None \<Rightarrow>
                            (case s_consumes info of
                               Some ts \<Rightarrow> put_header (js ''Content-Type'') (case ts of [] \<Rightarrow> JUndefined | t # _ \<Rightarrow> JStr t) r
                             | None \<Rightarrow>
                                 if has (\<lambda>p. p_type p = Some (js ''file'')) then content_type (js ''multipart/form-data'') r
                                 else if has (\<lambda>p. p_in p = js ''formData'') then content_type (js ''application/x-www-form-urlencoded'') r
                                 else r))
                else if u \<noteq> [] \<and> has (\<lambda>p. p_in p \<in> {js ''body'', js ''formData''}) then content_type u r
                else r)
      in case o_produces info of
           Some (t # ts) \<Rightarrow> if falsy_text (c_responseContentType c) then set_accept (t # ts) r1 else r1
         | _ \<Rightarrow> r1)"

section \<open>The whole request\<close>

text \<open>Cookies are one header; names and values outside Latin-1 text are refused.\<close>

definition cookie_text :: "js_string \<Rightarrow> bool" where
  "cookie_text s = (s \<noteq> [] \<and> list_all (\<lambda>c. c = 9 \<or> (32 \<le> c \<and> c \<le> 126) \<or> (128 \<le> c \<and> c \<le> 255)) s)"

definition serialize_cookie :: "engine \<Rightarrow> js_string \<times> jval \<Rightarrow> request_error + js_string" where
  "serialize_cookie E = (\<lambda>(k, v).
     if \<not> cookie_text k then Inl NoMember
     else case encodeURIComponent (concat_text E v) of
            None \<Rightarrow> Inl UriError
          | Some t \<Rightarrow> Inr (k @ js ''='' @ t))"

definition merge_cookies :: "engine \<Rightarrow> client_request \<Rightarrow> request_error + client_request" where
  "merge_cookies E r =
     (if r_cookies r = [] then Inr r
      else case all_right (map (serialize_cookie E) (own_entries (r_cookies r))) of
             Inl e \<Rightarrow> Inl e
           | Inr ts \<Rightarrow> Inr ((put_header (js ''Cookie'') (JStr (join_with (js ''&'') ts)) r)\<lparr>r_cookies := []\<rparr>))"

definition buildRequest ::
  "request_engine \<Rightarrow> bool \<Rightarrow> js_string \<Rightarrow> js_string \<Rightarrow> request_options \<Rightarrow> operation_info \<Rightarrow> request_error + client_request" where
  "buildRequest E isOAS3 base path c info =
     (let r0 = new_request (base @ path);
          r1 = (case c_responseContentType c of
                  None \<Rightarrow> r0 | Some t \<Rightarrow> if t = [] then r0 else put_header (js ''accept'') (JStr t) r0)
      in case build_parameters E isOAS3 (c_values c) (o_parameters info) (o_path_parameters info) r1 of
           Inl e \<Rightarrow> Inl e
         | Inr r2 \<Rightarrow>
             (case applySecurities (engine.truncate E) isOAS3 (c_securities c) info r2 of
                None \<Rightarrow> Inl NoMember
              | Some r3 \<Rightarrow>
                  (case merge_cookies (engine.truncate E) ((if isOAS3 then oas3_content else swagger2_content) c info r3) of
                     Inl e \<Rightarrow> Inl e
                   | Inr r4 \<Rightarrow> mergeInQueryOrForm E r4)))"

section \<open>The URL of a request\<close>

text \<open>Query parameters with a plain text.\<close>

definition text_query_parameter :: "parameter \<Rightarrow> bool" where
  "text_query_parameter p \<longleftrightarrow> p_in p = js ''query'' \<and> p_content p = None \<and> \<not> p_allowReserved p
     \<and> p_schema_type p \<noteq> Some (js ''object'') \<and> p_name p \<noteq> js ''__proto__'' \<and> well_formed (p_name p)"

definition options_of :: "parameter \<Rightarrow> serialization" where
  "options_of p = \<lparr>ser_style = p_style p, ser_explode = p_explode p, ser_allowReserved = p_allowReserved p\<rparr>"

definition entry_of :: "(parameter \<Rightarrow> js_string) \<Rightarrow> parameter \<Rightarrow> js_string \<times> query_entry" where
  "entry_of text p = (p_name p, Entry (JStr (text p)) False (Some (options_of p)) None)"

lemma build_text_query:
  assumes "text_query_parameter p" "given_value vs p = JStr t" "t \<noteq> []"
  shows "build_parameter E True vs p r = Inr (put_query (p_name p) (Entry (JStr t) False (Some (options_of p)) None) r)"
  using assms
  by (simp add: build_parameter_def passed_value_def text_query_parameter_def oas3_builder_def oas3_query_def query_value_def
      or_no_member_def options_of_def inj_js)

lemma path_not_query: "simple_path_parameter p \<Longrightarrow> \<not> text_query_parameter p"
  by (simp add: simple_path_parameter_def text_query_parameter_def inj_js)

definition url_parts :: "path_token list \<Rightarrow> (parameter \<Rightarrow> js_string) \<Rightarrow> parameter list \<Rightarrow> js_string" where
  "url_parts ts text ps = concat (map (expand (map_of (map (\<lambda>p. (p_name p, escape_text EscapeReserved (text p)))
     (filter simple_path_parameter ps)))) ts)"

lemma alist_put_new: "k \<notin> fst ` set l \<Longrightarrow> alist_put k v l = l @ [(k, v)]"
  by (induction l) auto

lemma build_mixed:
  assumes "list_all (\<lambda>p. simple_path_parameter p \<or> text_query_parameter p) ps"
    and "list_all (\<lambda>p. given_value vs p = JStr (text p) \<and> text p \<noteq> [] \<and> list_all (\<lambda>c. c < 0x10000) (text p)) ps"
    and "list_all token_ok ts" and "r_url r = path_text ts"
    and "distinct (map fst (query_of r) @ map p_name (filter text_query_parameter ps))"
  shows "\<exists>r'. build_loop E True vs ps r = Inr r' \<and> r_url r' = url_parts ts text ps
     \<and> r_query r' = (if filter text_query_parameter ps = [] then r_query r
                      else Some (query_of r @ map (entry_of text) (filter text_query_parameter ps)))
     \<and> r_cookies r' = r_cookies r \<and> r_form r' = r_form r \<and> r_body r' = r_body r"
  using assms
proof (induction ps arbitrary: ts r)
  case Nil
  have "expand Map.empty = token_text" by (auto simp: fun_eq_iff expand_def split: path_token.split)
  with Nil show ?case by (simp add: path_text_def url_parts_def)
next
  case (Cons p ps)
  have p: "given_value vs p = JStr (text p)" "text p \<noteq> []" "list_all (\<lambda>c. c < 0x10000) (text p)"
    using Cons.prems(2) by simp_all
  show ?case
  proof (cases "simple_path_parameter p")
    case True
    let ?v = "escape_text EscapeReserved (text p)"
    let ?r = "fill_path E (p_name p) (JStr ?v) r" and ?ts = "map (fill (p_name p) ?v) ts"
    have "token_ok (Hole (p_name p))" using True by (simp add: simple_path_parameter_def)
    then have "r_url ?r = path_text ?ts"
      using Cons.prems(3,4) by (simp add: fill_path_def join_argument_text replace_path)
    moreover have "list_all token_ok ?ts"
      using Cons.prems(3) escaped_no_brace [OF p(3), of 123] by (auto simp: list_all_iff fill_def)
    moreover have q: "r_query ?r = r_query r" "query_of ?r = query_of r" "r_cookies ?r = r_cookies r" "r_form ?r = r_form r" "r_body ?r = r_body r"
      by (simp_all add: fill_path_def query_of_def)
    moreover have "url_parts ?ts text ps = url_parts ts text (p # ps)"
      unfolding url_parts_def map_map comp_def expand_fill using True by (simp only: filter.simps if_True list.map map_of.simps fst_conv snd_conv)
    moreover have "filter text_query_parameter (p # ps) = filter text_query_parameter ps" using path_not_query [OF True] by simp
    moreover have "build_loop E True vs (p # ps) r = build_loop E True vs ps ?r" using build_simple_path [OF True p(1)] by simp
    moreover have "list_all (\<lambda>p. simple_path_parameter p \<or> text_query_parameter p) ps"
      "list_all (\<lambda>p. given_value vs p = JStr (text p) \<and> text p \<noteq> [] \<and> list_all (\<lambda>c. c < 0x10000) (text p)) ps"
      using Cons.prems(1,2) by simp_all
    ultimately show ?thesis using Cons.IH [of ?ts ?r] Cons.prems(5) by (simp only:)
  next
    case False
    then have t: "text_query_parameter p" using Cons.prems(1) by simp
    let ?r = "put_query (p_name p) (Entry (JStr (text p)) False (Some (options_of p)) None) r"
    have "p_name p \<notin> fst ` set (query_of r)" "p_name p \<noteq> js ''__proto__''"
      using Cons.prems(5) t by (auto simp: text_query_parameter_def)
    then have q: "query_of ?r = query_of r @ [entry_of text p]" "r_query ?r = Some (query_of r @ [entry_of text p])"
      by (simp_all add: put_query_def query_of_def obj_put_def alist_put_new entry_of_def)
    have keep: "r_url ?r = r_url r" "r_cookies ?r = r_cookies r" "r_form ?r = r_form r" "r_body ?r = r_body r"
      by (simp_all add: put_query_def)
    have "url_parts ts text ps = url_parts ts text (p # ps)" using False by (simp add: url_parts_def)
    moreover have "distinct (map fst (query_of ?r) @ map p_name (filter text_query_parameter ps))"
      using Cons.prems(5) t by (simp add: q entry_of_def)
    ultimately show ?thesis
      using Cons.IH [of ts ?r] Cons.prems(1-4) build_text_query [OF t p(1,2)] t q keep by auto
  qed
qed

lemma content_keeps:
  assumes "\<not> jtruthy (c_requestBody c)"
  shows "r_url (oas3_content c info r) = r_url r" "r_query (oas3_content c info r) = r_query r"
    "r_cookies (oas3_content c info r) = r_cookies r" "r_form (oas3_content c info r) = r_form r"
  using assms by (simp_all add: oas3_content_def Let_def content_type_def set_accept_def put_header_def)

lemma url_parts_no_query:
  assumes "63 \<notin> set (path_text ts)" and "list_all (\<lambda>p. list_all (\<lambda>c. c < 0x10000) (text p)) ps"
  shows "63 \<notin> set (url_parts ts text ps)"
proof -
  let ?m = "map_of (map (\<lambda>p. (p_name p, escape_text EscapeReserved (text p))) (filter simple_path_parameter ps))"
  have "63 \<notin> set v" if "?m n = Some v" for n v
    using map_of_SomeD [OF that] escaped_no_brace [of _ 63] assms(2) by (auto simp: list_all_iff)
  note v = this
  have "63 \<notin> set (expand ?m t)" if "t \<in> set ts" for t
  proof -
    have tt: "63 \<notin> set (token_text t)" using assms(1) that by (auto simp: path_text_def)
    show ?thesis
    proof (cases t)
      case (Hole n)
      with v [of n] tt show ?thesis by (cases "?m n") (simp_all add: expand_def)
    qed (use tt in \<open>simp add: expand_def\<close>)
  qed
  then show ?thesis by (auto simp: url_parts_def)
qed

definition query_table :: "(parameter \<Rightarrow> js_string) \<Rightarrow> parameter list \<Rightarrow> js_string \<rightharpoonup> js_string" where
  "query_table text ps = map_of (map (\<lambda>p. (p_name p, text p)) (filter text_query_parameter ps))"

lemma entries_by_key:
  assumes "distinct (map p_name qs)" and "list_all (\<lambda>q. \<not> p_allowReserved q) qs"
  obtains a where "map (entry_of text) qs = map (\<lambda>(k, t). (k, Entry (JStr t) False (Some (a k)) None)) (map (\<lambda>q. (p_name q, text q)) qs)"
    and "\<And>k. \<not> ser_allowReserved (a k)"
proof -
  let ?d = "\<lparr>ser_style = None, ser_explode = None, ser_allowReserved = False\<rparr>"
  let ?f = "map_of (map (\<lambda>q. (p_name q, options_of q)) qs)"
  let ?a = "\<lambda>k. case ?f k of None \<Rightarrow> ?d | Some x \<Rightarrow> x"
  have "?f (p_name q) = Some (options_of q)" if "q \<in> set qs" for q
    using that assms(1) by (intro map_of_is_SomeI) (auto simp: comp_def)
  then have "map (entry_of text) qs = map (\<lambda>(k, t). (k, Entry (JStr t) False (Some (?a k)) None)) (map (\<lambda>q. (p_name q, text q)) qs)"
    by (simp add: entry_of_def)
  moreover have "\<not> ser_allowReserved (?a k)" for k
  proof (cases "?f k")
    case (Some x)
    from map_of_SomeD [OF this] assms(2) show ?thesis using Some by (auto simp: list_all_iff options_of_def)
  qed simp
  ultimately show thesis by (rule that)
qed

text \<open>C18. The URL of a request of an OpenAPI 3 operation without credentials and body says what the parameters
  say: the path with the placeholders filled by the escaped values, and behind it a query that reads back as the
  table of the query parameters.  This is for every mixture and order of simple path parameters and one or more
  query parameters of distinct names without \<open>allowReserved\<close>, all with non-empty well-formed text values.\<close>

theorem request_url_reads_back:
  assumes "deduplicateParameters (o_parameters info @ o_path_parameters info) = ps"
    and "list_all (\<lambda>p. simple_path_parameter p \<or> text_query_parameter p) ps"
    and "list_all (\<lambda>p. given_value (c_values c) p = JStr (text p) \<and> text p \<noteq> [] \<and> well_formed (text p)) ps"
    and "filter text_query_parameter ps \<noteq> []" and "distinct (map p_name (filter text_query_parameter ps))"
    and "list_all token_ok ts" and "base @ path = path_text ts" and "63 \<notin> set (path_text ts)"
    and "\<not> has_credentials (c_securities c) info" and "\<not> jtruthy (c_requestBody c)"
  shows "\<exists>r s t. buildRequest E True base path c info = Inr r \<and> r_url r = url_parts ts text ps @ 63 # s
     \<and> parseSearch (63 # s) = Some t \<and> map_of t = query_table text ps"
proof -
  let ?qs = "filter text_query_parameter ps"
  obtain r1 where r1: "r1 = (case c_responseContentType c of None \<Rightarrow> new_request (base @ path)
      | Some t \<Rightarrow> if t = [] then new_request (base @ path) else put_header (js ''accept'') (JStr t) (new_request (base @ path)))"
    "r_url r1 = path_text ts" "r_query r1 = None" "r_cookies r1 = []" "r_form r1 = None"
    by (auto simp: new_request_def put_header_def assms(7) split: option.split)
  have units: "list_all (\<lambda>p. given_value (c_values c) p = JStr (text p) \<and> text p \<noteq> [] \<and> list_all (\<lambda>c. c < 0x10000) (text p)) ps"
    using assms(3) well_formed_units by (auto simp: list_all_iff)
  have "distinct (map fst (query_of r1) @ map p_name ?qs)" using assms(5) r1(3) by (simp add: query_of_def)
  from build_mixed [OF assms(2) units assms(6) r1(2) this, of E]
  obtain r2 where r2: "build_loop E True (c_values c) ps r1 = Inr r2" "r_url r2 = url_parts ts text ps"
    "r_query r2 = Some (map (entry_of text) ?qs)" "r_cookies r2 = []" "r_form r2 = None"
    using assms(4) r1(3-5) by (auto simp: query_of_def)
  let ?r = "oas3_content c info r2"
  note keep = content_keeps [OF assms(10), of info r2]
  have "list_all (\<lambda>q. \<not> p_allowReserved q) ?qs" by (simp add: list_all_iff text_query_parameter_def)
  from entries_by_key [OF assms(5) this, of "text"]
  obtain a where e: "map (entry_of text) ?qs = map (\<lambda>(k, t). (k, Entry (JStr t) False (Some (a k)) None)) (map (\<lambda>q. (p_name q, text q)) ?qs)"
    and al: "\<And>k. \<not> ser_allowReserved (a k)" by blast
  have a: "r_query ?r = Some (map (\<lambda>(k, t). (k, Entry (JStr t) False (Some (a k)) None)) (map (\<lambda>q. (p_name q, text q)) ?qs))"
    unfolding keep(2) r2(3) e ..
  have "63 \<notin> set (r_url ?r)"
    unfolding keep(1) r2(2) using url_parts_no_query [OF assms(8)] units by (simp add: list_all_iff)
  moreover have "list_all (\<lambda>(k, t). well_formed k \<and> well_formed t \<and> k \<noteq> js ''__proto__'') (map (\<lambda>q. (p_name q, text q)) ?qs)"
    using assms(3) by (auto simp: list_all_iff text_query_parameter_def)
  ultimately obtain s t where st: "merge_query E ?r = Inr (?r\<lparr>r_url := r_url ?r @ 63 # s, r_query := None\<rparr>)"
    "parseSearch (63 # s) = Some t" "map_of t = query_table text ps"
    using merge_query_table [OF a al, of E] assms(4,5) by (auto simp: query_table_def comp_def)
  have "buildRequest E True base path c info = Inr (?r\<lparr>r_url := r_url ?r @ 63 # s, r_query := None\<rparr>)"
    unfolding buildRequest_def Let_def r1(1) [symmetric]
    using r2 keep st(1) assms(9) by (simp add: build_parameters_def assms(1) applySecurities_def merge_cookies_def mergeInQueryOrForm_def merge_form_def)
  moreover have "r_url (?r\<lparr>r_url := r_url ?r @ 63 # s, r_query := None\<rparr>) = url_parts ts text ps @ 63 # s"
    by (simp add: keep(1) r2(2))
  ultimately show ?thesis using st(2,3) by blast
qed

section \<open>Where credentials go\<close>

lemma apply_schemes_cong: "list_all (\<lambda>e. f e = g e) es \<Longrightarrow> apply_schemes f es r = apply_schemes g es r"
proof (induction es arbitrary: r)
  case (Cons e es)
  then show ?case by (cases "g e r") simp_all
qed simp

lemma scheme_cong:
  assumes "credential_of sec e = credential_of sec' e"
  shows "oas3_scheme E sec defs e = oas3_scheme E sec' defs e" "swagger2_scheme E sec defs e = swagger2_scheme E sec' defs e"
proof -
  show "oas3_scheme E sec defs e = oas3_scheme E sec' defs e"
    by (rule ext) (unfold oas3_scheme_def assms, rule refl)
  show "swagger2_scheme E sec defs e = swagger2_scheme E sec' defs e"
    by (rule ext) (unfold swagger2_scheme_def assms, rule refl)
qed

text \<open>C19. A request depends on the credentials of the schemes that its operation requires and on no others: what is
  authorised for another operation never gets into it, in a header, the query or a cookie.\<close>

theorem credentials_not_leaked:
  assumes "has_credentials sec info \<longleftrightarrow> has_credentials (c_securities c) info"
    and "required_schemes isOAS3 sec info = required_schemes isOAS3 (c_securities c) info"
    and "list_all (\<lambda>e. credential_of sec e = credential_of (c_securities c) e) (required_schemes isOAS3 (c_securities c) info)"
  shows "buildRequest E isOAS3 base path (c\<lparr>c_securities := sec\<rparr>) info = buildRequest E isOAS3 base path c info"
proof -
  have "list_all (\<lambda>e. (if isOAS3 then oas3_scheme F sec defs else swagger2_scheme F sec defs) e
      = (if isOAS3 then oas3_scheme F (c_securities c) defs else swagger2_scheme F (c_securities c) defs) e)
      (required_schemes isOAS3 (c_securities c) info)" for F defs
  proof (rule list.pred_mono_strong [OF assms(3)], goal_cases)
    case (1 e)
    from scheme_cong [OF 1(2)] show ?case by (cases isOAS3) (simp_all only: if_True if_False simp_thms)
  qed
  from apply_schemes_cong [OF this] have same: "applySecurities F isOAS3 sec info r = applySecurities F isOAS3 (c_securities c) info r" for F r
    by (simp add: applySecurities_def assms(1,2))
  let ?c = "c\<lparr>c_securities := sec\<rparr>"
  have keep: "c_values ?c = c_values c" "c_requestBody ?c = c_requestBody c" "c_requestContentType ?c = c_requestContentType c"
    "c_responseContentType ?c = c_responseContentType c" "c_attachContentType ?c = c_attachContentType c" "c_securities ?c = sec"
    by simp_all
  have content: "oas3_content ?c info r = oas3_content c info r" "swagger2_content ?c info r = swagger2_content c info r" for r
    unfolding oas3_content_def swagger2_content_def keep by (rule refl)+
  then have content: "(if isOAS3 then oas3_content else swagger2_content) ?c info r = (if isOAS3 then oas3_content else swagger2_content) c info r" for r
    by simp
  show ?thesis unfolding buildRequest_def keep same content ..
qed

lemma header_lookup: "k \<noteq> k' \<Longrightarrow> map_of (r_headers (put_header k' v r)) k = map_of (r_headers r) k"
  by (simp add: put_header_def obj_put_def)

lemma header_put: "k \<noteq> js ''__proto__'' \<Longrightarrow> map_of (r_headers (put_header k v r)) k = Some v"
  by (simp add: put_header_def obj_put_def)

lemma content_headers:
  assumes "k \<notin> {js ''Content-Type'', js ''accept''}"
  shows "map_of (r_headers (oas3_content c info r)) k = map_of (r_headers r) k"
proof -
  have other: "map_of (r_headers (content_type t q)) k = map_of (r_headers q) k" "map_of (r_headers (set_accept ts q)) k = map_of (r_headers q) k" for t ts q
    using assms by (auto simp: content_type_def set_accept_def header_lookup)
  show ?thesis by (simp add: oas3_content_def Let_def other)
qed

lemma merge_headers: "mergeInQueryOrForm E r = Inr r' \<Longrightarrow> r_headers r' = r_headers r"
  by (auto simp: mergeInQueryOrForm_def merge_form_def merge_query_def Let_def split: sum.splits option.splits if_splits)

lemma cookie_headers:
  "merge_cookies E r = Inr r' \<Longrightarrow> k \<noteq> js ''Cookie'' \<Longrightarrow> map_of (r_headers r') k = map_of (r_headers r) k"
  by (auto simp: merge_cookies_def header_lookup split: sum.splits if_splits)

text \<open>C23. The key that is entered for the scheme an operation requires is in the request: it is the value of the header
  the scheme names, and nothing that follows in the building of the request replaces it.\<close>

theorem required_key_sent:
  assumes "has_credentials (c_securities c) info" and "required_schemes True (c_securities c) info = [e]"
    and "member (engine.truncate E) (s_schemes info) e = Some (JObj n)"
    and "object_member n (js ''type'') = JStr (js ''apiKey'')" and "object_member n (js ''in'') = JStr (js ''header'')"
    and "object_member n (js ''name'') = JStr k"
    and "credential_of (c_securities c) e = JObj t" and "object_member t (js ''value'') = JStr v" and "v \<noteq> []"
    and "k \<notin> {js ''Content-Type'', js ''accept'', js ''Cookie'', js ''__proto__''}"
    and "buildRequest E True base path c info = Inr r"
  shows "map_of (r_headers r) k = Some (JStr v)"
proof -
  let ?E = "engine.truncate E"
  have "oas3_apiKey ?E (JObj n) (JStr v) q = Some (put_header k (JStr v) q)" for q
    using assms(5,6) by (simp add: oas3_apiKey_def member_def inj_js concat_text_def value_text_def)
  then have "oas3_scheme ?E (c_securities c) (s_schemes info) e q = Some (put_header k (JStr v) q)" for q
    using assms(3,4,7,8,9) by (simp add: oas3_scheme_def member_def [of _ "JObj _"] or_value_def)
  then have sent: "applySecurities ?E True (c_securities c) info q = Some (put_header k (JStr v) (q\<lparr>r_query := Some (query_of q)\<rparr>))" for q
    using assms(1,2) by (simp add: applySecurities_def)
  from assms(11) obtain q r4 where r4: "merge_cookies ?E (oas3_content c info (put_header k (JStr v) q)) = Inr r4"
    "mergeInQueryOrForm E r4 = Inr r"
    by (auto simp: buildRequest_def Let_def sent split: sum.splits)
  show ?thesis
    using merge_headers [OF r4(2)] cookie_headers [OF r4(1), of k] content_headers [of k c info "put_header k (JStr v) q"] header_put assms(10)
    by simp
qed

text \<open>The client writes the code units of user name and password as single bytes.  Up to U+00FF the header of
  basic authentication decodes to them as Latin-1; what is above is cut, so that different passwords
  give the same header.\<close>

theorem basic_header_latin1:
  assumes "member E defs e = Some (JObj n)" and "object_member n (js ''type'') = JStr (js ''http'')"
    and "object_member n (js ''scheme'') = JStr sc" and "lower_text sc = js ''basic''"
    and "credential_of sec e = JObj t" and "object_member t (js ''value'') = JObj v"
    and "object_member v (js ''username'') = JStr u" and "object_member v (js ''password'') = JStr p"
  shows "\<exists>b. oas3_scheme E sec defs e r = Some (put_header (js ''Authorization'') (JStr (js ''Basic '' @ b)) r)
     \<and> unbase64 b = Some (map (\<lambda>c. c mod 256) (u @ js '':'' @ p))"
proof (intro exI conjI)
  have plain: "concat_text E (or_value (JStr s) (JStr [])) = s" for s
    by (simp add: or_value_def concat_text_def value_text_def)
  have basic: "basic_text E (JObj v) = Some (js ''Basic '' @ client_btoa (u @ js '':'' @ p))"
    using assms(7,8) by (simp add: basic_text_def member_def plain)
  have scheme: "concat_text E (JStr sc) = sc" by (simp add: concat_text_def value_text_def)
  have "oas3_scheme E sec defs e r = oas3_http E (JObj n) (JObj v) r"
    using assms(1,2,5,6) by (simp add: oas3_scheme_def member_def [of E "JObj _"] or_value_def inj_js)
  also have "\<dots> = Some (put_header (js ''Authorization'') (JStr (js ''Basic '' @ client_btoa (u @ js '':'' @ p))) r)"
    using assms(3,4) by (simp add: oas3_http_def member_def scheme basic)
  finally show "oas3_scheme E sec defs e r = Some (put_header (js ''Authorization'') (JStr (js ''Basic '' @ client_btoa (u @ js '':'' @ p))) r)" .
  show "unbase64 (client_btoa (u @ js '':'' @ p)) = Some (map (\<lambda>c. c mod 256) (u @ js '':'' @ p))"
    unfolding client_btoa_def by (rule unbase64_base64) (auto simp: list_all_iff)
qed

section \<open>Examples\<close>

definition sample_call :: request_options where
  "sample_call = \<lparr>c_values = [(js ''id'', JStr (js ''a/b'')), (js ''q'', JStr (js ''x&y''))], c_requestBody = JUndefined,
     c_securities = None, c_requestContentType = None, c_responseContentType = None, c_attachContentType = False\<rparr>"

definition sample_info :: operation_info where
  "sample_info = \<lparr>o_parameters = [plain_parameter ''path'' ''id'', plain_parameter ''query'' ''q''], o_path_parameters = [],
     o_security = None, o_body = [], o_responses = None, o_consumes = None, o_produces = None,
     s_security = Some [[js ''key'']], s_schemes = JObj [], s_consumes = None\<rparr>"

lemma sample_deduplicate: "deduplicateParameters (o_parameters sample_info @ o_path_parameters sample_info)
    = [plain_parameter ''path'' ''id'', plain_parameter ''query'' ''q'']"
proof -
  have "array_index (js ''path'') = None" "array_index (js ''id'') = None" "array_index (js ''query'') = None" "array_index (js ''q'') = None"
    by (simp_all add: array_index_def js_simps js_is_digit_def)
  then show ?thesis
    by (simp add: sample_info_def deduplicateParameters_def by_position_def obj_put_def own_entries_def inj_js)
qed

theorem request_url_reads_back_witness:
  "\<exists>r s t. buildRequest sample_client True (js ''http://h'') (js ''/p/{id}'') sample_call sample_info = Inr r
     \<and> r_url r = js ''http://h/p/a%2Fb'' @ 63 # s \<and> parseSearch (63 # s) = Some t \<and> map_of t = [js ''q'' \<mapsto> js ''x&y'']"
proof -
  let ?ps = "[plain_parameter ''path'' ''id'', plain_parameter ''query'' ''q'']"
  let ?ts = "[Lit (js ''http://h/p/''), Hole (js ''id'')]"
  let ?text = "\<lambda>p. if p_in p = js ''path'' then js ''a/b'' else js ''x&y''"
  have kinds: "simple_path_parameter (plain_parameter ''path'' ''id'')" "text_query_parameter (plain_parameter ''query'' ''q'')"
    "\<not> simple_path_parameter (plain_parameter ''query'' ''q'')"
    by (simp_all add: simple_path_parameter_def text_query_parameter_def keyword_def inj_js)
      (simp_all add: js_simps plain_parameter_def is_high_def is_low_def)
  then have q: "filter text_query_parameter ?ps = [plain_parameter ''query'' ''q'']" "filter simple_path_parameter ?ps = [plain_parameter ''path'' ''id'']"
    using path_not_query by auto
  have given: "list_all (\<lambda>p. given_value (c_values sample_call) p = JStr (?text p) \<and> ?text p \<noteq> [] \<and> well_formed (?text p)) ?ps"
    by (simp add: sample_call_def given_value_def object_member_def js_eq_Nil inj_js) (simp add: js_simps is_high_def is_low_def)
  have tokens: "list_all token_ok ?ts" "js ''http://h'' @ js ''/p/{id}'' = path_text ?ts" "63 \<notin> set (path_text ?ts)"
    by (simp_all add: braced_def js_simps)
  have free: "\<not> has_credentials (c_securities sample_call) sample_info" "\<not> jtruthy (c_requestBody sample_call)"
    by (simp_all add: has_credentials_def sample_call_def)
  have table: "query_table ?text ?ps = [js ''q'' \<mapsto> js ''x&y'']" unfolding query_table_def q by (simp add: inj_js)
  have url: "url_parts ?ts ?text ?ps = js ''http://h/p/a%2Fb''"
    unfolding url_parts_def q by (simp add: expand_def inj_js) (simp add: js_simps escape_text_def escape_point_def is_unreserved_def
        js_is_digit_def is_high_def is_low_def point_code_def percent_point_def utf8_def percent_def hex_digit_def)
  have "list_all (\<lambda>p. simple_path_parameter p \<or> text_query_parameter p) ?ps" using kinds by simp
  from request_url_reads_back [OF sample_deduplicate this given _ _ tokens free, of sample_client] show ?thesis
    unfolding table url q by simp
qed

theorem credentials_not_leaked_witness:
  "buildRequest sample_client True (js ''/'') (js ''p'')
     (sample_call\<lparr>c_securities := Some \<lparr>x_authorized = JObj [(js ''other'', JStr (js ''s''))], x_specSecurity = None\<rparr>\<rparr>) sample_info
   = buildRequest sample_client True (js ''/'') (js ''p'')
     (sample_call\<lparr>c_securities := Some \<lparr>x_authorized = JObj [(js ''third'', JStr (js ''t''))], x_specSecurity = None\<rparr>\<rparr>) sample_info"
  using credentials_not_leaked [of "Some \<lparr>x_authorized = JObj [(js ''other'', JStr (js ''s''))], x_specSecurity = None\<rparr>" sample_info
      "sample_call\<lparr>c_securities := Some \<lparr>x_authorized = JObj [(js ''third'', JStr (js ''t''))], x_specSecurity = None\<rparr>\<rparr>" True
      sample_client "js ''/''" "js ''p''"]
  by (simp add: has_credentials_def required_schemes_def sample_info_def credential_of_def object_member_def object_prototype_def inj_js)

definition keyed_info :: operation_info where
  "keyed_info = sample_info\<lparr>o_parameters := [], s_schemes := JObj [(js ''key'', JObj [(js ''type'', JStr (js ''apiKey'')), (js ''in'', JStr (js ''header'')),
     (js ''name'', JStr (js ''X-Key''))])]\<rparr>"

definition keyed_call :: request_options where
  "keyed_call = sample_call\<lparr>c_securities := Some \<lparr>x_authorized = JObj [(js ''key'', JObj [(js ''value'', JStr (js ''s3''))])], x_specSecurity = None\<rparr>\<rparr>"

theorem required_key_sent_witness:
  "\<exists>r. buildRequest sample_client True (js ''/'') (js ''p'') keyed_call keyed_info = Inr r
     \<and> map_of (r_headers r) (js ''X-Key'') = Some (JStr (js ''s3''))"
proof -
  let ?n = "[(js ''type'', JStr (js ''apiKey'')), (js ''in'', JStr (js ''header'')), (js ''name'', JStr (js ''X-Key''))]"
  let ?q = "\<lparr>r_url = js ''/p'', r_query = Some [], r_headers = [(js ''X-Key'', JStr (js ''s3''))], r_cookies = [], r_form = None, r_body = NoBody\<rparr>"
  have has: "has_credentials (c_securities keyed_call) keyed_info" "required_schemes True (c_securities keyed_call) keyed_info = [js ''key'']"
    by (simp_all add: has_credentials_def required_schemes_def keyed_call_def keyed_info_def sample_info_def)
  have n: "member (engine.truncate sample_client) (s_schemes keyed_info) (js ''key'') = Some (JObj ?n)"
    by (simp add: keyed_info_def member_def object_member_def)
  have f: "object_member ?n (js ''type'') = JStr (js ''apiKey'')" "object_member ?n (js ''in'') = JStr (js ''header'')"
    "object_member ?n (js ''name'') = JStr (js ''X-Key'')"
    by (simp_all add: object_member_def inj_js)
  have c: "credential_of (c_securities keyed_call) (js ''key'') = JObj [(js ''value'', JStr (js ''s3''))]"
    "object_member [(js ''value'', JStr (js ''s3''))] (js ''value'') = JStr (js ''s3'')" "js ''s3'' \<noteq> []"
    by (simp_all add: keyed_call_def credential_of_def object_member_def js_eq_Nil)
  have "js ''/'' @ js ''p'' = js ''/p''" by (simp add: js_simps)
  moreover have "mergeInQueryOrForm sample_client ?q = Inr (?q\<lparr>r_query := None\<rparr>)"
    by (simp add: mergeInQueryOrForm_def merge_form_def merge_query_def encodeFormOrQuery_def all_pairs_def own_entries_def query_suffix_def js_simps)
  moreover have "apply_schemes (oas3_scheme (engine.truncate sample_client) (c_securities keyed_call) (s_schemes keyed_info)) [js ''key'']
      (new_request (js ''/p'')\<lparr>r_query := Some []\<rparr>) = Some ?q"
    using n f c by (simp add: oas3_scheme_def oas3_apiKey_def member_def [of _ "JObj _"] or_value_def inj_js concat_text_def value_text_def
        put_header_def obj_put_def new_request_def)
  moreover have "oas3_content keyed_call keyed_info ?q = ?q"
    by (simp add: oas3_content_def keyed_call_def keyed_info_def sample_call_def sample_info_def)
  ultimately have "buildRequest sample_client True (js ''/'') (js ''p'') keyed_call keyed_info = Inr (?q\<lparr>r_query := None\<rparr>)"
    using has by (simp add: buildRequest_def build_parameters_def deduplicateParameters_def by_position_def own_entries_def applySecurities_def
        merge_cookies_def query_of_def new_request_def keyed_call_def keyed_info_def sample_call_def sample_info_def)
  with required_key_sent [OF has n f c] show ?thesis by (simp add: inj_js)
qed

definition sample_definitions :: jval where
  "sample_definitions = JObj [(js ''b'', JObj [(js ''type'', JStr (js ''http'')), (js ''scheme'', JStr (js ''basic''))])]"

definition sample_securities :: securities where
  "sample_securities = \<lparr>x_authorized = JObj [(js ''b'', JObj [(js ''value'', JObj [(js ''username'', JStr (js ''u'')),
     (js ''password'', JStr [0x141])])])], x_specSecurity = None\<rparr>"

theorem basic_header_latin1_witness:
  "\<exists>b. oas3_scheme sample_engine (Some sample_securities) sample_definitions (js ''b'') (new_request [])
       = Some (put_header (js ''Authorization'') (JStr (js ''Basic '' @ b)) (new_request []))
     \<and> unbase64 b = Some (map (\<lambda>c. c mod 256) (js ''u'' @ js '':'' @ [0x141]))"
proof -
  have a: "member sample_engine sample_definitions (js ''b'') = Some (JObj [(js ''type'', JStr (js ''http'')), (js ''scheme'', JStr (js ''basic''))])"
    by (simp add: sample_definitions_def member_def object_member_def)
  have c: "credential_of (Some sample_securities) (js ''b'') = JObj [(js ''value'', JObj [(js ''username'', JStr (js ''u'')), (js ''password'', JStr [0x141])])]"
    by (simp add: sample_securities_def credential_of_def object_member_def)
  have n: "object_member [(js ''type'', JStr (js ''http'')), (js ''scheme'', JStr (js ''basic''))] (js ''type'') = JStr (js ''http'')"
    "object_member [(js ''type'', JStr (js ''http'')), (js ''scheme'', JStr (js ''basic''))] (js ''scheme'') = JStr (js ''basic'')"
    "lower_text (js ''basic'') = js ''basic''"
    by (simp_all add: object_member_def inj_js) (simp add: lower_text_def js_simps)
  have v: "object_member [(js ''value'', x)] (js ''value'') = x"
    "object_member [(js ''username'', x), (js ''password'', y)] (js ''username'') = x"
    "object_member [(js ''username'', x), (js ''password'', y)] (js ''password'') = y" for x y
    by (simp_all add: object_member_def inj_js)
  show ?thesis by (rule basic_header_latin1 [OF a n c v])
qed

end
