(* ===== verification/Swagger_Execute.thy ===== *)
theory Swagger_Execute
  imports Swagger_Client Swagger_Oas3
begin

text \<open>
  What \<open>executeRequest\<close> of the specification plugin gathers for a request (\<open>swagger-ui-bundle.js\<close>): the
  scheme and the media types of an operation, the values of its parameters and the fields of its body, and how
  the reducers keep what comes back.  Media types that are no texts are not modelled.
\<close>

section \<open>Schemes\<close>

text \<open>\<open>scheme\<close> in the state: the chosen scheme of each operation, and the default one.\<close>

type_synonym scheme_state = "js_string inode"

text \<open>\<open>undefined\<close> is \<open>Some None\<close>, an exception \<open>None\<close>.\<close>

definition SET_SCHEME :: "js_string \<Rightarrow> js_string option \<Rightarrow> js_string option \<Rightarrow> scheme_state \<Rightarrow> scheme_state option option" where
  "SET_SCHEME s p m e =
     (case (falsy_text p, falsy_text m) of
        (False, False) \<Rightarrow> map_option Some (setIn e [the p, the m] (Leaf s))
      | (True, True) \<Rightarrow> map_option Some (setIn e [js ''_defaultScheme''] (Leaf s))
      | _ \<Rightarrow> Some None)"

text \<open>\<open>/^([a-z][a-z0-9+\-.]*):/\<close>\<close>

definition lower_letter :: "code_unit \<Rightarrow> bool" where
  "lower_letter c \<longleftrightarrow> 97 \<le> c \<and> c \<le> 122"

definition url_scheme :: "js_string \<Rightarrow> js_string option" where
  "url_scheme u =
     (let t = takeWhile (\<lambda>c. lower_letter c \<or> js_is_digit c \<or> c \<in> {43, 45, 46}) u
      in if t \<noteq> [] \<and> lower_letter (hd t) \<and> starts_with (drop (length t) u) [58] then Some t else None)"

definition chosen_scheme :: "scheme_state \<Rightarrow> js_string list \<Rightarrow> js_string option" where
  "chosen_scheme e ks = (case getIn e ks of Some (Leaf s) \<Rightarrow> if s = [] then None else Some s | _ \<Rightarrow> None)"

definition operationScheme :: "js_string \<Rightarrow> scheme_state \<Rightarrow> js_string \<Rightarrow> js_string \<Rightarrow> js_string" where
  "operationScheme url e p m =
     (case chosen_scheme e [p, m] of
        Some s \<Rightarrow> s
      | None \<Rightarrow>
          (case chosen_scheme e [js ''_defaultScheme''] of
             Some s \<Rightarrow> s
           | None \<Rightarrow> (case url_scheme url of Some s \<Rightarrow> s | None \<Rightarrow> [])))"

definition canExecuteScheme :: "js_string \<Rightarrow> scheme_state \<Rightarrow> js_string \<Rightarrow> js_string \<Rightarrow> bool" where
  "canExecuteScheme url e p m \<longleftrightarrow> operationScheme url e p m \<in> {js ''http'', js ''https''}"

section \<open>Media types\<close>

text \<open>What is chosen for an operation: \<open>consumes_value\<close> and \<open>produces_value\<close> of its metadata.\<close>

record media_meta =
  consumes_value :: "js_string option"
  produces_value :: "js_string option"

type_synonym media_state = "js_string \<Rightarrow> js_string \<Rightarrow> media_meta"

definition specJson :: "spec_node \<Rightarrow> spec_node" where
  "specJson e = (case child (Some e) (js ''json'') of None \<Rightarrow> Node [] | Some j \<Rightarrow> j)"

definition UPDATE_OPERATION_META_VALUE ::
  "spec_node \<Rightarrow> js_string \<Rightarrow> js_string \<Rightarrow> (media_meta \<Rightarrow> media_meta) \<Rightarrow> media_state \<Rightarrow> media_state" where
  "UPDATE_OPERATION_META_VALUE doc p m f e =
     (if list_ex (\<lambda>k. spec_truthy (getIn doc [js k, js ''paths'', p, m])) [''json'', ''resolved'', ''resolvedSubtrees'']
      then e(p := (e p)(m := f (e p m))) else e)"

definition operation_node :: "spec_node \<Rightarrow> js_string \<Rightarrow> js_string \<Rightarrow> spec_node option" where
  "operation_node doc p m = getIn (specJsonWithResolvedSubtrees doc) [js ''paths'', p, m]"

definition null_node :: "spec_node option \<Rightarrow> bool" where
  "null_node n \<longleftrightarrow> n = None \<or> n = Some (Leaf SNull)"

definition parametersIncludeType :: "spec_node option \<Rightarrow> js_string \<Rightarrow> bool" where
  "parametersIncludeType ps t =
     (case ps of
        Some (Leaf (SList l)) \<Rightarrow> list_ex (\<lambda>q. child (Some q) (js ''type'') = Some (Leaf (SStr t))) l
      | _ \<Rightarrow> False)"

definition text_node :: "spec_node option \<Rightarrow> js_string option" where
  "text_node n = (case n of Some (Leaf (SStr s)) \<Rightarrow> if s = [] then None else Some s | _ \<Rightarrow> None)"

definition truthy_text :: "js_string option \<Rightarrow> js_string option" where
  "truthy_text t = (if falsy_text t then None else t)"

definition currentProducesFor :: "spec_node \<Rightarrow> media_state \<Rightarrow> js_string \<Rightarrow> js_string \<Rightarrow> js_string option" where
  "currentProducesFor doc e p m =
     (let n = operation_node doc p m in
      if null_node n then None
      else case truthy_text (produces_value (e p m)) of
             Some a \<Rightarrow> Some a
           | None \<Rightarrow>
               (case text_node (case child n (js ''produces'') of Some (Leaf (SList (x # _))) \<Rightarrow> Some x | _ \<Rightarrow> None) of
                  Some s \<Rightarrow> Some s
                | None \<Rightarrow> Some (js ''application/json'')))"

definition contentTypeValues :: "spec_node \<Rightarrow> media_state \<Rightarrow> js_string \<Rightarrow> js_string \<Rightarrow> js_string option \<times> js_string option" where
  "contentTypeValues doc e p m =
     (let ps = child (operation_node doc p m) (js ''parameters'')
      in (case truthy_text (consumes_value (e p m)) of
            Some t \<Rightarrow> Some t
          | None \<Rightarrow>
              if parametersIncludeType ps (js ''file'') then Some (js ''multipart/form-data'')
              else if parametersIncludeType ps (js ''formData'') then Some (js ''application/x-www-form-urlencoded'')
              else None,
          currentProducesFor doc e p m))"

text \<open>The first of operation, path and document that has the list.\<close>

definition first_truthy :: "spec_node option list \<Rightarrow> spec_node option" where
  "first_truthy ns = (case dropWhile (\<lambda>n. \<not> spec_truthy n) ns of n # _ \<Rightarrow> n | [] \<Rightarrow> (if ns = [] then None else last ns))"

definition media_options :: "js_string \<Rightarrow> spec_node \<Rightarrow> js_string \<Rightarrow> js_string \<Rightarrow> spec_node option" where
  "media_options k doc p m =
     (let r = specJsonWithResolvedSubtrees doc; n = operation_node doc p m
      in if null_node n then None
         else first_truthy [child n k, getIn r [js ''paths'', p, k], getIn r [k]])"

definition producesOptionsFor :: "spec_node \<Rightarrow> js_string \<Rightarrow> js_string \<Rightarrow> spec_node option" where
  "producesOptionsFor = media_options (js ''produces'')"

definition consumesOptionsFor :: "spec_node \<Rightarrow> js_string \<Rightarrow> js_string \<Rightarrow> spec_node option" where
  "consumesOptionsFor = media_options (js ''consumes'')"

section \<open>The version of a document\<close>

text \<open>The page and the client test the version differently.\<close>

definition spec_isOAS3 :: "spec_node \<Rightarrow> bool" where
  "spec_isOAS3 doc =
     (case child (Some (specJson doc)) (js ''openapi'') of
        Some (Leaf (SStr t)) \<Rightarrow> starts_with t (js ''3.0.'') \<and> 4 < length t
      | _ \<Rightarrow> False)"

definition client_isOAS3 :: "spec_node \<Rightarrow> bool" where
  "client_isOAS3 doc =
     (case child (Some (specJsonWithResolvedSubtrees doc)) (js ''openapi'') of
        Some (Leaf (SStr t)) \<Rightarrow> starts_with t (js ''3'')
      | _ \<Rightarrow> False)"

section \<open>Parameters of the request\<close>

text \<open>The parameters in the resolved part of the document.\<close>

definition resolved_parameters :: "spec_state \<Rightarrow> js_string \<Rightarrow> js_string \<Rightarrow> spec_node list" where
  "resolved_parameters e p m =
     (case getIn (document e) [js ''resolvedSubtrees'', js ''paths'', p, m, js ''parameters''] of
        Some (Leaf (SList ps)) \<Rightarrow> ps
      | _ \<Rightarrow> [])"

text \<open>A value that counts as empty here; whether a file is empty is an argument.\<close>

definition nothing_entered :: "(nat \<Rightarrow> bool) \<Rightarrow> jval \<Rightarrow> bool" where
  "nothing_entered empty_file v =
     (case v of
        JObj m \<Rightarrow> object_member m (js ''size'') = JNum (js ''0'')
      | JFile f \<Rightarrow> empty_file f
      | _ \<Rightarrow> \<not> jtruthy v)"

text \<open>A parameter that may be empty and is sent on purpose is entered as the empty text, under its bare name.\<close>

definition include_empty ::
  "(nat \<Rightarrow> bool) \<Rightarrow> hash \<Rightarrow> spec_state \<Rightarrow> js_string \<Rightarrow> js_string \<Rightarrow> spec_node \<Rightarrow> jval js_object \<Rightarrow> jval js_object" where
  "include_empty empty_file h e p m n l =
     (if child (Some n) (js ''allowEmptyValue'') = Some (Leaf (SBool True)) \<and> parameterInclusionSettingFor e p m n
         \<and> nothing_entered empty_file (paramToValue h n l)
      then obj_put (text_or_undefined (param_text n ''name'')) (JStr []) l else l)"

definition execute_parameters :: "(nat \<Rightarrow> bool) \<Rightarrow> hash \<Rightarrow> bool \<Rightarrow> spec_state \<Rightarrow> js_string \<Rightarrow> js_string \<Rightarrow> jval js_object" where
  "execute_parameters empty_file h isXml e p m =
     fold (include_empty empty_file h e p m) (resolved_parameters e p m) (parameterValues h isXml e p m)"

section \<open>The body of an OpenAPI 3 request\<close>

fun oas3_leaf :: "oas3_value \<Rightarrow> jval" where
  "oas3_leaf (OStr s) = JStr s"
| "oas3_leaf (OBool b) = JBool b"
| "oas3_leaf (OList l) = JArr (map JStr l)"
| "oas3_leaf OUndefined = JUndefined"

function (sequential) oas3_plain :: "oas3_state \<Rightarrow> jval" and oas3_fields :: "(js_string \<times> oas3_state) list \<Rightarrow> (js_string \<times> jval) list" where
  "oas3_plain (Node m) = JObj (oas3_fields m)"
| "oas3_plain (Leaf v) = oas3_leaf v"
| "oas3_fields [] = []"
| "oas3_fields ((k, x) # m) = (k, oas3_plain x) # oas3_fields m"
  by pat_completeness auto

termination
  by (relation "measure (case_sum (\<lambda>n. 2 * size n + 1) (\<lambda>m. 2 * size (Node m)))") auto

definition isEmptyValue :: "oas3_state option \<Rightarrow> bool" where
  "isEmptyValue n = (case n of Some (Node m) \<Rightarrow> m = [] | Some (Leaf (OList l)) \<Rightarrow> l = [] | _ \<Rightarrow> \<not> node_truthy n)"

definition field_value :: "oas3_state \<Rightarrow> oas3_state option" where
  "field_value n = (case n of Node m \<Rightarrow> map_of m (js ''value'') | Leaf v \<Rightarrow> Some (Leaf v))"

definition field_plain :: "oas3_state \<Rightarrow> jval" where
  "field_plain n = (case field_value n of None \<Rightarrow> JUndefined | Some x \<Rightarrow> oas3_plain x)"

text \<open>The fields of a form that are sent: those with a value, and those included on purpose.\<close>

definition field_included :: "oas3_state \<Rightarrow> js_string \<Rightarrow> js_string \<Rightarrow> js_string \<Rightarrow> bool" where
  "field_included e p m k = node_truthy (getIn e (request_data p m @ [js ''bodyInclusion'', k]))"

definition request_body_of :: "oas3_state \<Rightarrow> js_string \<Rightarrow> js_string \<Rightarrow> jval" where
  "request_body_of e p m =
     (let b = getIn e (body_path p m) in
      if \<not> node_truthy b then JNull
      else case b of
             Some (Node fs) \<Rightarrow>
               JObj (map (\<lambda>(k, x). (k, field_plain x)) (filter (\<lambda>(k, x). \<not> isEmptyValue (field_value x) \<or> field_included e p m k) fs))
           | Some (Leaf (OList l)) \<Rightarrow> JArr (map JStr (filter (\<lambda>s. s \<noteq> []) l))
           | Some (Leaf v) \<Rightarrow> oas3_leaf v
           | None \<Rightarrow> JNull)"

definition oas3_text :: "oas3_state \<Rightarrow> js_string \<Rightarrow> js_string \<Rightarrow> string \<Rightarrow> js_string option" where
  "oas3_text e p m k =
     (case getIn e (request_data p m @ [js k]) of Some (Leaf (OStr s)) \<Rightarrow> if s = [] then None else Some s | _ \<Rightarrow> None)"

section \<open>Responses\<close>

text \<open>\<open>Object.assign\<close> of the own entries of an object; other sources have none.\<close>

definition assign_entries :: "jval js_object \<Rightarrow> jval \<Rightarrow> jval js_object" where
  "assign_entries t v = (case v of JObj m \<Rightarrow> fold (\<lambda>(k, x). obj_put k x) (own_entries m) t | _ \<Rightarrow> t)"

text \<open>What the reducer of \<open>SET_RESPONSE\<close> keeps; reading a member of nothing throws.\<close>

definition response_kept :: "engine \<Rightarrow> jval js_object \<Rightarrow> jval js_object option" where
  "response_kept E r =
     (let with_headers = (\<lambda>n. obj_put (js ''headers'') (or_value (object_member n (js ''headers'')) (JObj [])) n)
      in if \<not> jtruthy (object_member r (js ''error'')) then Some (with_headers r)
         else do {
           let e = object_member r (js ''err'');
           name \<leftarrow> member E e (js ''name'');
           message \<leftarrow> member E e (js ''message'');
           code \<leftarrow> member E e (js ''statusCode'');
           res \<leftarrow> member E e (js ''response'');
           Some (with_headers (assign_entries
             [(js ''error'', JBool True), (js ''name'', name), (js ''message'', message), (js ''statusCode'', code)] res))})"

text \<open>
  The promise of an execution: it is fulfilled with a response, or rejected with an error, of which the
  name, the message and the other members are read.
\<close>

datatype outcome = Fulfilled "jval js_object" | Rejected js_string js_string "jval js_object"

definition failed_to_fetch :: js_string where
  "failed_to_fetch = js ''**Failed to fetch.**  '' @ [10] @ js ''**Possible Reasons:** '' @ [10] @ js ''  - CORS '' @ [10]
     @ js ''  - Network Failure '' @ [10] @ js ''  - URL scheme must be \"http\" or \"https\" for CORS request.''"

text \<open>The two callbacks of \<open>executeRequest\<close>; \<open>duration\<close> is the time that has passed.  The stack of an error is left out.\<close>

definition serializeError :: "js_string \<Rightarrow> js_string \<Rightarrow> jval js_object \<Rightarrow> jval" where
  "serializeError name message others = JObj (obj_put (js ''message'') (JStr message) (obj_put (js ''name'') (JStr name) others))"

definition response_of :: "js_string \<Rightarrow> outcome \<Rightarrow> jval js_object" where
  "response_of duration o' =
     (case o' of
        Fulfilled r \<Rightarrow> obj_put (js ''duration'') (JNum duration) r
      | Rejected name message others \<Rightarrow>
          [(js ''error'', JBool True),
           (js ''err'', if message = js ''Failed to fetch'' then serializeError [] failed_to_fetch others
                        else serializeError name message others)])"

text \<open>The end of the client's \<open>http\<close>: a response that is not \<open>ok\<close> becomes an error that carries it.\<close>

definition http_result :: "jval js_object \<Rightarrow> outcome" where
  "http_result r =
     (if jtruthy (object_member r (js ''ok'')) then Fulfilled r
      else Rejected (js ''Error'')
             (case object_member r (js ''statusText'') of JStr s \<Rightarrow> s | _ \<Rightarrow> [])
             [(js ''status'', object_member r (js ''status'')), (js ''statusCode'', object_member r (js ''status'')),
              (js ''response'', JObj r)])"

section \<open>What is shown of an error\<close>

lemma fold_obj_put:
  "distinct (map fst es) \<Longrightarrow> js ''__proto__'' \<notin> fst ` set es \<Longrightarrow>
   map_of (fold (\<lambda>(k, x). obj_put k x) es t) = map_of t ++ map_of es"
proof (induction es arbitrary: t)
  case (Cons x es)
  obtain k v where x: "x = (k, v)" by fastforce
  then have "map_of es k = None" using Cons.prems(1) by (simp add: map_of_eq_None_iff)
  then have new: "(map_of t)(k \<mapsto> v) ++ map_of es = map_of t ++ (map_of es)(k \<mapsto> v)"
    by (auto simp: fun_eq_iff map_add_def split: option.split)
  have "map_of (fold (\<lambda>(k, x). obj_put k x) (x # es) t) = map_of (fold (\<lambda>(k, x). obj_put k x) es (alist_put k v t))"
    using Cons.prems(2) x by (auto simp: obj_put_def)
  also have "\<dots> = map_of (alist_put k v t) ++ map_of es" by (rule Cons.IH) (use Cons.prems in simp_all)
  also have "map_of (alist_put k v t) = (map_of t)(k \<mapsto> v)" by (rule map_of_alist_put)
  also note new
  also have "(map_of es)(k \<mapsto> v) = map_of (x # es)" using x by simp
  finally show ?case .
qed simp

lemma map_of_own_entries: "distinct (map fst m) \<Longrightarrow> map_of (own_entries m) = map_of m"
  by (subst map_of_inject_set) (simp_all add: distinct_entries)

lemma assign_entries_lookup:
  "distinct (map fst m) \<Longrightarrow> js ''__proto__'' \<notin> fst ` set m \<Longrightarrow> map_of (assign_entries t (JObj m)) = map_of t ++ map_of m"
  by (simp add: assign_entries_def fold_obj_put distinct_entries map_of_own_entries)

text \<open>C16. A response with an error status is shown in full: every member the server's response has is kept,
  the mark \<open>error\<close> and the name, message and status code of the error fill in what it lacks, and there are
  always headers.\<close>

theorem http_error_shown:
  assumes "\<not> jtruthy (object_member r (js ''ok''))" and "object_member r (js ''statusText'') = JStr s"
    and "s \<noteq> js ''Failed to fetch''" and "distinct (map fst r)" and "js ''__proto__'' \<notin> fst ` set r"
  shows "\<exists>n. response_kept E (response_of d (http_result r)) = Some n
     \<and> map_of n = ([js ''error'' \<mapsto> JBool True, js ''name'' \<mapsto> JStr (js ''Error''), js ''message'' \<mapsto> JStr s,
                    js ''statusCode'' \<mapsto> object_member r (js ''status'')] ++ map_of r)
                  (js ''headers'' \<mapsto> or_value (object_member r (js ''headers'')) (JObj []))"
proof -
  let ?st = "object_member r (js ''status'')"
  let ?t = "[(js ''error'', JBool True), (js ''name'', JStr (js ''Error'')), (js ''message'', JStr s), (js ''statusCode'', ?st)]"
  let ?n = "assign_entries ?t (JObj r)"
  let ?err = "[(js ''status'', ?st), (js ''statusCode'', ?st), (js ''response'', JObj r), (js ''name'', JStr (js ''Error'')), (js ''message'', JStr s)]"
  have err: "response_of d (http_result r) = [(js ''error'', JBool True), (js ''err'', JObj ?err)]"
    using assms(1,2,3) by (simp add: http_result_def response_of_def serializeError_def obj_put_def inj_js)
  have look: "object_member ?err (js ''name'') = JStr (js ''Error'')" "object_member ?err (js ''message'') = JStr s"
    "object_member ?err (js ''statusCode'') = ?st" "object_member ?err (js ''response'') = JObj r"
    by (simp_all add: object_member_def inj_js)
  have top: "object_member [(js ''error'', JBool True), (js ''err'', x)] (js ''error'') = JBool True"
    "object_member [(js ''error'', JBool True), (js ''err'', x)] (js ''err'') = x" for x
    by (simp_all add: object_member_def inj_js)
  have n: "map_of ?n = map_of ?t ++ map_of r" using assms(4,5) by (rule assign_entries_lookup)
  have "map_of ?n (js ''headers'') = map_of r (js ''headers'')"
    unfolding n by (simp add: map_add_def inj_js split: option.split)
  then have "object_member ?n (js ''headers'') = object_member r (js ''headers'')"
    unfolding object_member_def by (simp only:)
  then have "response_kept E (response_of d (http_result r))
      = Some (obj_put (js ''headers'') (or_value (object_member r (js ''headers'')) (JObj [])) ?n)"
    unfolding err by (simp add: response_kept_def top member_def look)
  moreover have "js ''headers'' \<noteq> js ''__proto__''" by (simp add: inj_js)
  moreover have "map_of ?t = [js ''error'' \<mapsto> JBool True, js ''name'' \<mapsto> JStr (js ''Error''), js ''message'' \<mapsto> JStr s, js ''statusCode'' \<mapsto> ?st]"
    by (auto simp: fun_eq_iff inj_js)
  ultimately show ?thesis by (simp add: obj_put_def n)
qed

theorem http_error_shown_witness:
  "\<exists>n. response_kept sample_engine (response_of (js ''5'') (http_result
        [(js ''ok'', JBool False), (js ''status'', JNum (js ''404'')), (js ''statusText'', JStr (js ''Not Found'')), (js ''text'', JStr (js ''no''))])) = Some n
     \<and> map_of n (js ''text'') = Some (JStr (js ''no'')) \<and> map_of n (js ''statusCode'') = Some (JNum (js ''404''))"
proof -
  let ?r = "[(js ''ok'', JBool False), (js ''status'', JNum (js ''404'')), (js ''statusText'', JStr (js ''Not Found'')), (js ''text'', JStr (js ''no''))]"
  have h: "\<not> jtruthy (object_member ?r (js ''ok''))" "object_member ?r (js ''statusText'') = JStr (js ''Not Found'')"
    "js ''Not Found'' \<noteq> js ''Failed to fetch''" "distinct (map fst ?r)" "js ''__proto__'' \<notin> fst ` set ?r"
    "object_member ?r (js ''status'') = JNum (js ''404'')"
    by (simp_all add: object_member_def inj_js)
  from http_error_shown [OF h(1-5), of sample_engine "js ''5''"] show ?thesis
    by (auto simp: inj_js h(6))
qed

end
