(* ===== verification/Swagger_Tryout.thy ===== *)
theory Swagger_Tryout
  imports Swagger_Execute
begin

text \<open>
  Sending a request from the page (\<open>swagger-ui-bundle.js\<close>): the button that validates and executes, the
  action that builds and sends, the interceptor, the response and the button that clears it, as steps of the
  page.  Validation, entered values, body and request are those of the other theories.  What the server
  answers is a relation; the ids of operations are taken to be distinct.
\<close>

section \<open>The page\<close>

type_synonym operation_key = "js_string \<times> js_string"

text \<open>What does not change: the engine, the interceptor, credentials, the operations and their base URLs.\<close>

record site =
  st_engine :: request_engine
  st_hash :: hash
  st_empty_file :: "nat \<Rightarrow> bool"
  st_base :: "operation_key \<Rightarrow> js_string \<Rightarrow> oas3_state \<Rightarrow> js_string"
  st_info :: "operation_key \<Rightarrow> operation_info"
  st_securities :: securities
  st_intercept :: "client_request \<Rightarrow> client_request option"

text \<open>
  An execution under way: its operation, the request that was built, and the one that was sent once the
  interceptor has returned it.
\<close>

record flight =
  fl_key :: operation_key
  fl_request :: client_request
  fl_sent :: "client_request option"

text \<open>
  The slices of the specification and OpenAPI 3 plugins, the components' flag that an execution is in
  progress, the executions under way, and the timers that validate again.
\<close>

record page =
  pg_spec :: spec_state
  pg_oas3 :: oas3_state
  pg_media :: media_state
  pg_scheme :: scheme_state
  pg_url :: js_string
  pg_requests :: "operation_key \<rightharpoonup> client_request"
  pg_mutated :: "operation_key \<rightharpoonup> client_request"
  pg_responses :: "operation_key \<rightharpoonup> jval js_object"
  pg_progress :: "operation_key \<Rightarrow> bool"
  pg_flights :: "flight list"
  pg_timers :: "operation_key list"

text \<open>A reducer that throws keeps its slice, a selector that throws gives \<open>null\<close>.\<close>

definition kept :: "'s \<Rightarrow> 's option \<Rightarrow> 's" where
  "kept s r = (case r of None \<Rightarrow> s | Some s' \<Rightarrow> s')"

abbreviation page_document :: "page \<Rightarrow> spec_node" where
  "page_document pg \<equiv> document (pg_spec pg)"

definition on_param :: "site \<Rightarrow> param_action \<Rightarrow> page \<Rightarrow> page" where
  "on_param S a pg =
     pg\<lparr>pg_spec := kept (pg_spec pg) (param_reducer (engine.truncate (st_engine S)) (st_hash S) (pg_spec pg) a)\<rparr>"

definition on_oas3 :: "oas3_action \<Rightarrow> page \<Rightarrow> page" where
  "on_oas3 a pg = pg\<lparr>pg_oas3 := kept (pg_oas3 pg) (oas3_reducer (pg_oas3 pg) a)\<rparr>"

section \<open>Validation\<close>

definition validateParams :: "site \<Rightarrow> operation_key \<Rightarrow> page \<Rightarrow> page" where
  "validateParams S = (\<lambda>(p, m) pg. on_param S (VALIDATE_PARAMS p m (spec_isOAS3 (page_document pg))) pg)"

definition handleValidateParameters :: "site \<Rightarrow> operation_key \<Rightarrow> page \<Rightarrow> bool \<times> page" where
  "handleValidateParameters S = (\<lambda>(p, m) pg.
     let pg' = validateParams S (p, m) pg in (spec_validateBeforeExecute (pg_spec pg') p m, pg'))"

text \<open>The required fields of each media type of the resolved body; where the schema's \<open>required\<close> is a flag it throws.\<close>

fun required_loop :: "(js_string \<times> spec_node) list \<Rightarrow> (js_string \<times> js_string list) list option" where
  "required_loop [] = Some []"
| "required_loop ((t, v) # cs) =
     (let r = getIn v [js ''schema'', js ''required''] in
      if \<not> spec_truthy r then required_loop cs
      else case r of
             Some (Leaf (SList xs)) \<Rightarrow>
               map_option (Cons (t, concat (map (\<lambda>x. case x of Leaf (SStr s) \<Rightarrow> [s] | _ \<Rightarrow> []) xs))) (required_loop cs)
           | _ \<Rightarrow> None)"

definition getOAS3RequiredRequestBodyContentType ::
  "spec_node \<Rightarrow> js_string \<Rightarrow> js_string \<Rightarrow> (js_string \<times> js_string list) list option" where
  "getOAS3RequiredRequestBodyContentType doc p m =
     (case getIn doc [js ''resolvedSubtrees'', js ''paths'', p, m, js ''requestBody''] of
        Some (Node (x # b)) \<Rightarrow> (case map_of (x # b) (js ''content'') of Some (Node cs) \<Rightarrow> required_loop cs | _ \<Rightarrow> None)
      | _ \<Rightarrow> Some [])"

definition body_required :: "spec_node \<Rightarrow> js_string \<Rightarrow> js_string \<Rightarrow> bool" where
  "body_required doc p m = spec_truthy (getIn (specJson doc) [js ''paths'', p, m, js ''requestBody'', js ''required''])"

definition missing_fields :: "page \<Rightarrow> js_string \<Rightarrow> js_string \<Rightarrow> js_string list" where
  "missing_fields pg p m =
     (if \<not> spec_isOAS3 (page_document pg) then []
      else case (getOAS3RequiredRequestBodyContentType (page_document pg) p m, oas3_text (pg_oas3 pg) p m ''requestContentType'') of
             (Some r, Some t) \<Rightarrow> validateShallowRequired r t (getIn (pg_oas3 pg) (body_path p m))
           | _ \<Rightarrow> [])"

definition handleValidateRequestBody :: "operation_key \<Rightarrow> page \<Rightarrow> bool \<times> page" where
  "handleValidateRequestBody = (\<lambda>(p, m) pg.
     let pg1 = on_oas3 (CLEAR_REQUEST_BODY_VALIDATE_ERROR p m) pg;
         ok = validateBeforeExecute (body_required (page_document pg1) p m) (pg_oas3 pg1) p m;
         f = missing_fields pg1 p m
     in if \<not> ok then (False, on_oas3 (SET_REQUEST_BODY_VALIDATE_ERROR p m True []) pg1)
        else if f = [] then (True, pg1)
        else (False, on_oas3 (SET_REQUEST_BODY_VALIDATE_ERROR p m False f) pg1))"

section \<open>Executing\<close>

definition execute_options :: "site \<Rightarrow> page \<Rightarrow> operation_key \<Rightarrow> request_options" where
  "execute_options S pg = (\<lambda>(p, m).
     let ct = contentTypeValues (page_document pg) (pg_media pg) p m;
         xml = contains (lower_text (text_or_undefined (fst ct))) (js ''xml'');
         vs = execute_parameters (st_empty_file S) (st_hash S) xml (pg_spec pg) p m
     in if spec_isOAS3 (page_document pg)
        then \<lparr>c_values = vs, c_requestBody = request_body_of (pg_oas3 pg) p m, c_securities = Some (st_securities S),
              c_requestContentType = oas3_text (pg_oas3 pg) p m ''requestContentType'',
              c_responseContentType = Some (case oas3_text (pg_oas3 pg) p m ''responseContentType'' of None \<Rightarrow> js ''*/*'' | Some t \<Rightarrow> t),
              c_attachContentType = False\<rparr>
        else \<lparr>c_values = vs, c_requestBody = JUndefined, c_securities = Some (st_securities S),
              c_requestContentType = fst ct, c_responseContentType = snd ct, c_attachContentType = False\<rparr>)"

definition built_request :: "site \<Rightarrow> page \<Rightarrow> operation_key \<Rightarrow> request_error + client_request" where
  "built_request S pg = (\<lambda>(p, m).
     buildRequest (st_engine S) (client_isOAS3 (page_document pg))
       (st_base S (p, m) (operationScheme (pg_url pg) (pg_scheme pg) p m) (pg_oas3 pg)) p
       (execute_options S pg (p, m)) (st_info S (p, m)))"

text \<open>The wrapped action \<open>execute\<close>: an exception while the request is built is logged and nothing else happens.\<close>

definition executeRequest :: "site \<Rightarrow> operation_key \<Rightarrow> page \<Rightarrow> page" where
  "executeRequest S k pg =
     (case built_request S pg k of
        Inl e \<Rightarrow> pg
      | Inr q \<Rightarrow>
          pg\<lparr>pg_requests := (pg_requests pg)(k \<mapsto> q),
             pg_flights := pg_flights pg @ [\<lparr>fl_key = k, fl_request = q, fl_sent = None\<rparr>]\<rparr>)"

definition handleValidationResultPass :: "site \<Rightarrow> operation_key \<Rightarrow> page \<Rightarrow> page" where
  "handleValidationResultPass S k pg = executeRequest S k (pg\<lparr>pg_progress := (pg_progress pg)(k := True)\<rparr>)"

definition handleValidationResultFail :: "site \<Rightarrow> operation_key \<Rightarrow> page \<Rightarrow> page" where
  "handleValidationResultFail S = (\<lambda>(p, m) pg.
     (on_param S (CLEAR_VALIDATE_PARAMS p m) pg)\<lparr>pg_timers := pg_timers pg @ [(p, m)]\<rparr>)"

text \<open>Both checks are always made.\<close>

definition click_checks :: "site \<Rightarrow> operation_key \<Rightarrow> page \<Rightarrow> bool \<times> page" where
  "click_checks S k pg =
     (let (e, pg1) = handleValidateParameters S k pg; (t, pg2) = handleValidateRequestBody k pg1 in (e \<and> t, pg2))"

definition onExecuteClick :: "site \<Rightarrow> operation_key \<Rightarrow> page \<Rightarrow> page" where
  "onExecuteClick S k pg =
     (let (n, pg') = click_checks S k pg
      in if n then handleValidationResultPass S k pg' else handleValidationResultFail S k pg')"

section \<open>Steps of the page\<close>

datatype edit_action =
    EditParam param_action
  | EditBody oas3_action
  | EditConsumes js_string js_string js_string
  | EditProduces js_string js_string js_string
  | EditScheme js_string "js_string option" "js_string option"

text \<open>A reducer that returns \<open>undefined\<close> makes the dispatch throw, which changes nothing.\<close>

fun edit :: "site \<Rightarrow> edit_action \<Rightarrow> page \<Rightarrow> page" where
  "edit S (EditParam a) pg = on_param S a pg"
| "edit S (EditBody a) pg = on_oas3 a pg"
| "edit S (EditConsumes p m v) pg =
     pg\<lparr>pg_media := UPDATE_OPERATION_META_VALUE (page_document pg) p m (consumes_value_update (\<lambda>_. Some v)) (pg_media pg)\<rparr>"
| "edit S (EditProduces p m v) pg =
     pg\<lparr>pg_media := UPDATE_OPERATION_META_VALUE (page_document pg) p m (produces_value_update (\<lambda>_. Some v)) (pg_media pg)\<rparr>"
| "edit S (EditScheme s p m) pg = pg\<lparr>pg_scheme := kept (pg_scheme pg) (Option.bind (SET_SCHEME s p m (pg_scheme pg)) id)\<rparr>"

text \<open>\<open>setResponse\<close>; a new response makes the component of the operation leave its progress state.\<close>

definition setResponse :: "site \<Rightarrow> operation_key \<Rightarrow> jval js_object \<Rightarrow> page \<Rightarrow> page" where
  "setResponse S k r pg =
     (case response_kept (engine.truncate (st_engine S)) r of
        None \<Rightarrow> pg
      | Some n \<Rightarrow> pg\<lparr>pg_responses := (pg_responses pg)(k \<mapsto> n), pg_progress := (pg_progress pg)(k := False)\<rparr>)"

definition setMutatedRequest :: "operation_key \<Rightarrow> client_request \<Rightarrow> page \<Rightarrow> page" where
  "setMutatedRequest k q pg = pg\<lparr>pg_mutated := (pg_mutated pg)(k \<mapsto> q)\<rparr>"

text \<open>The button that clears removes response and request; the response it removes ends the progress state too.\<close>

definition onClearClick :: "operation_key \<Rightarrow> page \<Rightarrow> page" where
  "onClearClick k pg =
     pg\<lparr>pg_responses := (pg_responses pg)(k := None), pg_requests := (pg_requests pg)(k := None),
        pg_progress := (pg_progress pg)(k := False)\<rparr>"

text \<open>
  The execute button is disabled in the progress state, the clear button is there when a response is.  An
  operation that is mounted again is not in progress.  \<open>guard\<close> restricts when an operation is cleared or
  mounted again, \<open>answers\<close> are the outcomes the server may give to a request; a refusing interceptor
  rejects the promise.
\<close>

inductive page_step ::
  "site \<Rightarrow> (client_request \<Rightarrow> js_string \<Rightarrow> outcome \<Rightarrow> bool) \<Rightarrow> (page \<Rightarrow> operation_key \<Rightarrow> bool) \<Rightarrow> page \<Rightarrow> page \<Rightarrow> bool"
  for S answers guard where
  edited: "page_step S answers guard pg (edit S a pg)"
| clicked: "\<not> pg_progress pg k \<Longrightarrow> page_step S answers guard pg (onExecuteClick S k pg)"
| validated: "pg_timers pg = as @ k # bs \<Longrightarrow> page_step S answers guard pg (validateParams S k (pg\<lparr>pg_timers := as @ bs\<rparr>))"
| intercepted: "pg_flights pg = as @ f # bs \<Longrightarrow> fl_sent f = None \<Longrightarrow> st_intercept S (fl_request f) = Some q \<Longrightarrow>
    page_step S answers guard pg (setMutatedRequest (fl_key f) q (pg\<lparr>pg_flights := as @ f\<lparr>fl_sent := Some q\<rparr> # bs\<rparr>))"
| refused: "pg_flights pg = as @ f # bs \<Longrightarrow> fl_sent f = None \<Longrightarrow> st_intercept S (fl_request f) = None \<Longrightarrow>
    page_step S answers guard pg
      (setResponse S (fl_key f) (response_of d (Rejected name message others)) (pg\<lparr>pg_flights := as @ bs\<rparr>))"
| answered: "pg_flights pg = as @ f # bs \<Longrightarrow> fl_sent f = Some q \<Longrightarrow> answers q d r \<Longrightarrow>
    page_step S answers guard pg (setResponse S (fl_key f) (response_of d r) (pg\<lparr>pg_flights := as @ bs\<rparr>))"
| response_cleared: "pg_responses pg k \<noteq> None \<Longrightarrow> guard pg k \<Longrightarrow> page_step S answers guard pg (onClearClick k pg)"
| remounted: "guard pg k \<Longrightarrow> page_step S answers guard pg (pg\<lparr>pg_progress := (pg_progress pg)(k := False)\<rparr>)"

definition fresh_page :: "page \<Rightarrow> bool" where
  "fresh_page pg \<longleftrightarrow> pg_flights pg = [] \<and> pg_requests pg = Map.empty \<and> pg_responses pg = Map.empty
     \<and> (\<forall>p m. parameters (meta_paths (pg_spec pg) p m) = [])"

inductive page_reach ::
  "site \<Rightarrow> (client_request \<Rightarrow> js_string \<Rightarrow> outcome \<Rightarrow> bool) \<Rightarrow> (page \<Rightarrow> operation_key \<Rightarrow> bool) \<Rightarrow> page \<Rightarrow> page \<Rightarrow> bool"
  for S answers guard pg0 where
  start: "page_reach S answers guard pg0 pg0"
| step: "page_reach S answers guard pg0 pg \<Longrightarrow> page_step S answers guard pg pg' \<Longrightarrow> page_reach S answers guard pg0 pg'"

section \<open>What the steps do to requests and responses\<close>

definition traffic :: "page \<Rightarrow> (operation_key \<rightharpoonup> client_request) \<times> (operation_key \<rightharpoonup> jval js_object) \<times> (operation_key \<Rightarrow> bool) \<times> flight list" where
  "traffic pg = (pg_requests pg, pg_responses pg, pg_progress pg, pg_flights pg)"

lemma traffic_dispatch [simp]:
  "traffic (on_param S a pg) = traffic pg" "traffic (on_oas3 b pg) = traffic pg" "traffic (validateParams S k pg) = traffic pg"
  by (simp_all add: traffic_def on_param_def on_oas3_def validateParams_def split: prod.split)

lemma traffic_timers [simp]: "traffic (pg\<lparr>pg_timers := ts\<rparr>) = traffic pg"
  by (simp add: traffic_def)

lemma traffic_edit [simp]: "traffic (edit S a pg) = traffic pg"
  by (cases a) (simp_all add: traffic_def on_param_def on_oas3_def)

lemma click_eq:
  "onExecuteClick S k pg =
     (if fst (click_checks S k pg) then handleValidationResultPass S k (snd (click_checks S k pg))
      else handleValidationResultFail S k (snd (click_checks S k pg)))"
  by (simp add: onExecuteClick_def split: prod.split)

lemma traffic_checks [simp]: "traffic (snd (click_checks S k pg)) = traffic pg"
  by (simp add: click_checks_def handleValidateParameters_def handleValidateRequestBody_def Let_def split: prod.split)

lemma built_request_progress [simp]: "built_request S (pg\<lparr>pg_progress := b\<rparr>) k = built_request S pg k"
  by (simp add: built_request_def execute_options_def missing_fields_def Let_def split: prod.split)

text \<open>What a click comes to: \<open>None\<close> when a check fails, otherwise the outcome of building the request.\<close>

definition click_result :: "site \<Rightarrow> operation_key \<Rightarrow> page \<Rightarrow> (request_error + client_request) option" where
  "click_result S k pg =
     (if fst (click_checks S k pg) then Some (built_request S (snd (click_checks S k pg)) k) else None)"

lemma traffic_click:
  "traffic (onExecuteClick S k pg) =
     (case click_result S k pg of
        None \<Rightarrow> traffic pg
      | Some (Inl e) \<Rightarrow> (pg_requests pg, pg_responses pg, (pg_progress pg)(k := True), pg_flights pg)
      | Some (Inr q) \<Rightarrow>
          ((pg_requests pg)(k \<mapsto> q), pg_responses pg, (pg_progress pg)(k := True),
           pg_flights pg @ [\<lparr>fl_key = k, fl_request = q, fl_sent = None\<rparr>]))"
proof -
  let ?p = "snd (click_checks S k pg)"
  have t: "pg_requests ?p = pg_requests pg" "pg_responses ?p = pg_responses pg" "pg_progress ?p = pg_progress pg" "pg_flights ?p = pg_flights pg"
    using traffic_checks [of S k pg] by (simp_all add: traffic_def)
  show ?thesis
  proof (cases "fst (click_checks S k pg)")
    case True
    then show ?thesis
      by (cases "built_request S ?p k")
        (simp_all add: click_eq click_result_def handleValidationResultPass_def executeRequest_def traffic_def t)
  next
    case False
    then show ?thesis
      by (simp add: click_eq click_result_def handleValidationResultFail_def split: prod.split)
  qed
qed

lemma setResponse_traffic:
  "traffic (setResponse S k r pg) =
     (case response_kept (engine.truncate (st_engine S)) r of
        None \<Rightarrow> traffic pg
      | Some n \<Rightarrow> (pg_requests pg, (pg_responses pg)(k \<mapsto> n), (pg_progress pg)(k := False), pg_flights pg))"
  by (simp add: setResponse_def traffic_def split: option.split)

section \<open>A response answers the request that is shown\<close>

text \<open>The outcomes of a request: of the interceptor that refuses it, or of the server.\<close>

definition outcome_for ::
  "site \<Rightarrow> (client_request \<Rightarrow> js_string \<Rightarrow> outcome \<Rightarrow> bool) \<Rightarrow> client_request \<Rightarrow> js_string \<Rightarrow> outcome \<Rightarrow> bool" where
  "outcome_for S answers q d r \<longleftrightarrow>
     (case st_intercept S q of
        Some q' \<Rightarrow> answers q' d r
      | None \<Rightarrow> (case r of Rejected _ _ _ \<Rightarrow> True | Fulfilled _ \<Rightarrow> False))"

definition shows_answer ::
  "site \<Rightarrow> (client_request \<Rightarrow> js_string \<Rightarrow> outcome \<Rightarrow> bool) \<Rightarrow> client_request \<Rightarrow> jval js_object \<Rightarrow> bool" where
  "shows_answer S answers q n \<longleftrightarrow>
     (\<exists>d r. outcome_for S answers q d r \<and> response_kept (engine.truncate (st_engine S)) (response_of d r) = Some n)"

definition idle :: "page \<Rightarrow> operation_key \<Rightarrow> bool" where
  "idle pg k \<longleftrightarrow> k \<notin> fl_key ` set (pg_flights pg)"

definition flight_ok :: "site \<Rightarrow> page \<Rightarrow> flight \<Rightarrow> bool" where
  "flight_ok S pg f \<longleftrightarrow> pg_progress pg (fl_key f) \<and> pg_requests pg (fl_key f) = Some (fl_request f)
     \<and> fl_sent f \<in> {None, st_intercept S (fl_request f)}"

definition response_ok :: "site \<Rightarrow> (client_request \<Rightarrow> js_string \<Rightarrow> outcome \<Rightarrow> bool) \<Rightarrow> page \<Rightarrow> operation_key \<Rightarrow> bool" where
  "response_ok S answers pg k \<longleftrightarrow>
     (case pg_responses pg k of
        None \<Rightarrow> True
      | Some n \<Rightarrow> (case pg_requests pg k of None \<Rightarrow> False | Some q \<Rightarrow> shows_answer S answers q n))"

definition traffic_ok :: "site \<Rightarrow> (client_request \<Rightarrow> js_string \<Rightarrow> outcome \<Rightarrow> bool) \<Rightarrow> page \<Rightarrow> bool" where
  "traffic_ok S answers pg \<longleftrightarrow> distinct (map fl_key (pg_flights pg)) \<and> list_all (flight_ok S pg) (pg_flights pg)
     \<and> (\<forall>k. idle pg k \<longrightarrow> response_ok S answers pg k)"

lemma traffic_ok_cong: "traffic pg' = traffic pg \<Longrightarrow> traffic_ok S answers pg' = traffic_ok S answers pg"
  by (simp add: traffic_def traffic_ok_def flight_ok_def [abs_def] idle_def response_ok_def cong: option.case_cong)

text \<open>A serialised response has no member \<open>error\<close>, so that every outcome is kept.\<close>

lemma rejected_kept: "\<exists>n. response_kept E (response_of d (Rejected name message others)) = Some n"
  by (simp add: response_kept_def response_of_def serializeError_def object_member_def [of "[_, _]"] member_def inj_js Let_def)

lemma fulfilled_kept:
  assumes "\<not> jtruthy (object_member r (js ''error''))"
  shows "\<exists>n. response_kept E (response_of d (Fulfilled r)) = Some n"
  using assms by (simp add: response_kept_def response_of_def object_member_def obj_put_def inj_js)

lemma answered_ok:
  assumes inv: "traffic_ok S answers pg" and f: "pg_flights pg = as @ f # bs"
    and o: "outcome_for S answers (fl_request f) d r"
    and n: "response_kept (engine.truncate (st_engine S)) (response_of d r) = Some n"
  shows "traffic_ok S answers (setResponse S (fl_key f) (response_of d r) (pg\<lparr>pg_flights := as @ bs\<rparr>))"
proof -
  have d: "distinct (map fl_key (as @ f # bs))" and fs: "list_all (flight_ok S pg) (as @ f # bs)"
    and rs: "\<And>k. idle pg k \<Longrightarrow> response_ok S answers pg k"
    using inv f by (simp_all add: traffic_ok_def del: split_paired_All)
  let ?p = "setResponse S (fl_key f) (response_of d r) (pg\<lparr>pg_flights := as @ bs\<rparr>)"
  have p: "pg_requests ?p = pg_requests pg" "pg_responses ?p = (pg_responses pg)(fl_key f \<mapsto> n)"
    "pg_progress ?p = (pg_progress pg)(fl_key f := False)" "pg_flights ?p = as @ bs"
    using setResponse_traffic [of S "fl_key f" "response_of d r" "pg\<lparr>pg_flights := as @ bs\<rparr>"] n by (simp_all add: traffic_def)
  have "flight_ok S ?p g" if "g \<in> set (as @ bs)" for g
  proof -
    have "fl_key g \<noteq> fl_key f" using d that by (auto simp: image_iff)
    then show ?thesis using fs that by (auto simp: flight_ok_def p list_all_iff)
  qed
  moreover have "response_ok S answers ?p k" if "idle ?p k" for k
  proof (cases "k = fl_key f")
    case True
    have "pg_requests pg (fl_key f) = Some (fl_request f)" using fs by (simp add: flight_ok_def)
    then show ?thesis using True o n by (auto simp: response_ok_def p shows_answer_def)
  next
    case False
    with that have "idle pg k" by (auto simp: idle_def p f)
    from rs [OF this] False show ?thesis by (simp add: response_ok_def p cong: option.case_cong)
  qed
  ultimately show ?thesis using d by (simp add: traffic_ok_def p list_all_iff)
qed

lemma clicked_ok:
  assumes inv: "traffic_ok S answers pg" and k: "\<not> pg_progress pg k"
  shows "traffic_ok S answers (onExecuteClick S k pg)"
proof -
  let ?p = "onExecuteClick S k pg"
  have fs: "list_all (flight_ok S pg) (pg_flights pg)" and rs: "\<And>k. idle pg k \<Longrightarrow> response_ok S answers pg k"
    and d: "distinct (map fl_key (pg_flights pg))"
    using inv by (simp_all add: traffic_ok_def del: split_paired_All)
  then have fs: "flight_ok S pg f \<and> fl_key f \<noteq> k" if "f \<in> set (pg_flights pg)" for f
    using that k by (auto simp: list_all_iff flight_ok_def)
  then have new: "idle pg k" by (auto simp: idle_def)
  note t = traffic_click [of S k pg]
  show ?thesis
  proof (cases "click_result S k pg")
    case None
    then have "traffic ?p = traffic pg" using t by simp
    from traffic_ok_cong [OF this] inv show ?thesis by simp
  next
    case (Some r)
    show ?thesis
    proof (cases r)
      case (Inl e)
      have p: "pg_requests ?p = pg_requests pg" "pg_responses ?p = pg_responses pg" "pg_progress ?p = (pg_progress pg)(k := True)"
        "pg_flights ?p = pg_flights pg"
        using t Some Inl by (simp_all add: traffic_def)
      have "flight_ok S ?p f" if "f \<in> set (pg_flights pg)" for f using fs [OF that] by (simp add: flight_ok_def p)
      moreover have "response_ok S answers ?p j" if "idle ?p j" for j
        using rs [of j] that by (simp add: response_ok_def idle_def p cong: option.case_cong)
      ultimately show ?thesis using d by (simp add: traffic_ok_def p list_all_iff)
    next
      case (Inr q)
      let ?f = "\<lparr>fl_key = k, fl_request = q, fl_sent = None\<rparr>"
      have p: "pg_requests ?p = (pg_requests pg)(k \<mapsto> q)" "pg_responses ?p = pg_responses pg" "pg_progress ?p = (pg_progress pg)(k := True)"
        "pg_flights ?p = pg_flights pg @ [?f]"
        using t Some Inr by (simp_all add: traffic_def)
      have "flight_ok S ?p f" if "f \<in> set (pg_flights pg)" for f using fs [OF that] by (simp add: flight_ok_def p)
      moreover have "flight_ok S ?p ?f" by (simp add: flight_ok_def p)
      moreover have "response_ok S answers ?p j" if "idle ?p j" for j
        using rs [of j] that by (simp add: response_ok_def idle_def p cong: option.case_cong)
      moreover have "distinct (map fl_key (pg_flights ?p))" using d new by (simp add: p idle_def)
      ultimately show ?thesis by (simp add: traffic_ok_def p list_all_iff)
    qed
  qed
qed

lemma intercepted_ok:
  assumes inv: "traffic_ok S answers pg" and f: "pg_flights pg = as @ f # bs" and q: "st_intercept S (fl_request f) = Some q"
  shows "traffic_ok S answers (setMutatedRequest (fl_key f) q (pg\<lparr>pg_flights := as @ f\<lparr>fl_sent := Some q\<rparr> # bs\<rparr>))"
proof -
  let ?p = "setMutatedRequest (fl_key f) q (pg\<lparr>pg_flights := as @ f\<lparr>fl_sent := Some q\<rparr> # bs\<rparr>)"
  have "flight_ok S pg g \<Longrightarrow> flight_ok S ?p g" "flight_ok S pg f \<Longrightarrow> flight_ok S ?p (f\<lparr>fl_sent := Some q\<rparr>)" for g
    using q by (simp_all add: flight_ok_def setMutatedRequest_def)
  moreover have "idle ?p = idle pg" "response_ok S answers ?p = response_ok S answers pg"
    by (simp_all add: fun_eq_iff idle_def f setMutatedRequest_def response_ok_def cong: option.case_cong)
  ultimately show ?thesis using inv
    by (auto simp: traffic_ok_def f setMutatedRequest_def list_all_iff simp del: split_paired_All)
qed

text \<open>A step of an operation without a request under way.\<close>

lemma idle_step_ok:
  assumes inv: "traffic_ok S answers pg" and k: "idle pg k"
    and p: "pg_flights pg' = pg_flights pg" "\<And>j. j \<noteq> k \<Longrightarrow> pg_requests pg' j = pg_requests pg j"
      "\<And>j. j \<noteq> k \<Longrightarrow> pg_responses pg' j = pg_responses pg j" "\<And>j. j \<noteq> k \<Longrightarrow> pg_progress pg' j = pg_progress pg j"
    and ok: "response_ok S answers pg' k"
  shows "traffic_ok S answers pg'"
proof -
  have fs: "list_all (flight_ok S pg) (pg_flights pg)" and rs: "\<And>k. idle pg k \<Longrightarrow> response_ok S answers pg k"
    and d: "distinct (map fl_key (pg_flights pg))"
    using inv by (simp_all add: traffic_ok_def del: split_paired_All)
  have "flight_ok S pg' f" if "f \<in> set (pg_flights pg)" for f
  proof -
    have "fl_key f \<noteq> k" using k that by (auto simp: idle_def)
    then show ?thesis using fs that p(2,4) by (simp add: flight_ok_def list_all_iff)
  qed
  moreover have "response_ok S answers pg' j" if "idle pg' j" for j
  proof (cases "j = k")
    case False
    then show ?thesis using rs [of j] that p by (simp add: response_ok_def idle_def cong: option.case_cong)
  qed (simp add: ok)
  ultimately show ?thesis using d p(1) by (simp add: traffic_ok_def list_all_iff)
qed

lemma cleared_ok: "traffic_ok S answers pg \<Longrightarrow> idle pg k \<Longrightarrow> traffic_ok S answers (onClearClick k pg)"
  by (rule idle_step_ok [where pg = pg and k = k]) (simp_all add: onClearClick_def response_ok_def fun_upd_other fun_upd_same del: fun_upd_apply)

lemma remounted_ok:
  assumes "traffic_ok S answers pg" and "idle pg k"
  shows "traffic_ok S answers (pg\<lparr>pg_progress := (pg_progress pg)(k := False)\<rparr>)"
proof -
  have "response_ok S answers pg k" using assms by (simp add: traffic_ok_def del: split_paired_All)
  then show ?thesis
    by (intro idle_step_ok [OF assms]) (simp_all add: response_ok_def cong: option.case_cong)
qed

definition plain_answers :: "(client_request \<Rightarrow> js_string \<Rightarrow> outcome \<Rightarrow> bool) \<Rightarrow> bool" where
  "plain_answers answers \<longleftrightarrow> (\<forall>q d r. answers q d (Fulfilled r) \<longrightarrow> \<not> jtruthy (object_member r (js ''error'')))"

lemma answer_kept:
  assumes "plain_answers answers" and "answers q d r"
  shows "\<exists>n. response_kept E (response_of d r) = Some n"
  using assms fulfilled_kept rejected_kept by (cases r) (auto simp: plain_answers_def)

lemma step_ok:
  assumes "plain_answers answers" and "page_step S answers idle pg pg'" and "traffic_ok S answers pg"
  shows "traffic_ok S answers pg'"
  using assms(2,3)
proof cases
  case (edited a)
  then have "traffic pg' = traffic pg" by simp
  from traffic_ok_cong [OF this] assms(3) show ?thesis by simp
next
  case (validated as k bs)
  then have "traffic pg' = traffic pg" by simp
  from traffic_ok_cong [OF this] assms(3) show ?thesis by simp
next
  case (clicked k)
  then show ?thesis using clicked_ok [OF assms(3)] by simp
next
  case (intercepted as f bs q)
  then show ?thesis using intercepted_ok [OF assms(3)] by simp
next
  case (refused as f bs d name message others)
  then have "outcome_for S answers (fl_request f) d (Rejected name message others)" by (simp add: outcome_for_def)
  with refused rejected_kept answered_ok [OF assms(3)] show ?thesis by blast
next
  case (answered as f bs q d r)
  have "flight_ok S pg f" using assms(3) answered(2) by (simp add: traffic_ok_def)
  then have "outcome_for S answers (fl_request f) d r" using answered(3,4) by (auto simp: flight_ok_def outcome_for_def split: option.split)
  with answered answer_kept [OF assms(1)] answered_ok [OF assms(3)] show ?thesis by blast
next
  case (response_cleared k)
  then show ?thesis using cleared_ok [OF assms(3)] by simp
next
  case (remounted k)
  then show ?thesis using remounted_ok [OF assms(3)] by simp
qed

lemma reach_ok:
  assumes "page_reach S answers idle pg0 pg" and "plain_answers answers" and "fresh_page pg0"
  shows "traffic_ok S answers pg"
  using assms
proof (induction rule: page_reach.induct)
  case start
  then show ?case by (simp add: fresh_page_def traffic_ok_def response_ok_def)
next
  case (step pg pg')
  then show ?case by (blast intro: step_ok)
qed

section \<open>The request that is shown\<close>

text \<open>
  \<open>LiveResponse\<close> shows the request as the interceptor left it when \<open>showMutatedRequest\<close> is set, as it is by
  default, and otherwise as it was built.
\<close>

definition live_request :: "bool \<Rightarrow> page \<Rightarrow> operation_key \<Rightarrow> client_request option" where
  "live_request showMutatedRequest pg k = (if showMutatedRequest then pg_mutated pg k else pg_requests pg k)"

definition mutated_ok :: "site \<Rightarrow> page \<Rightarrow> bool" where
  "mutated_ok S pg \<longleftrightarrow>
     (\<forall>f q. f \<in> set (pg_flights pg) \<longrightarrow> fl_sent f = Some q \<longrightarrow> pg_mutated pg (fl_key f) = Some q)
     \<and> (\<forall>k q q'. idle pg k \<longrightarrow> pg_responses pg k \<noteq> None \<longrightarrow> pg_requests pg k = Some q
          \<longrightarrow> st_intercept S q = Some q' \<longrightarrow> pg_mutated pg k = Some q')"

lemma mutated_dispatch [simp]:
  "pg_mutated (on_param S a pg) = pg_mutated pg" "pg_mutated (on_oas3 b pg) = pg_mutated pg"
  "pg_mutated (validateParams S k pg) = pg_mutated pg" "pg_mutated (edit S e pg) = pg_mutated pg"
  "pg_mutated (setResponse S k r pg) = pg_mutated pg" "pg_mutated (onClearClick k pg) = pg_mutated pg"
  by (simp_all add: on_param_def on_oas3_def validateParams_def setResponse_def onClearClick_def split: prod.split option.split)
    (cases e, simp_all add: on_param_def on_oas3_def)

lemma mutated_click [simp]: "pg_mutated (onExecuteClick S k pg) = pg_mutated pg"
proof -
  have c: "pg_mutated (snd (click_checks S j pg)) = pg_mutated pg" for j
    by (simp add: click_checks_def handleValidateParameters_def handleValidateRequestBody_def Let_def split: prod.split)
  show ?thesis
    by (simp add: click_eq handleValidationResultPass_def executeRequest_def handleValidationResultFail_def c split: prod.split sum.split)
qed

lemma mutated_ok_cong:
  "traffic pg' = traffic pg \<Longrightarrow> pg_mutated pg' = pg_mutated pg \<Longrightarrow> mutated_ok S pg' = mutated_ok S pg"
  by (simp add: traffic_def mutated_ok_def idle_def del: split_paired_All)

text \<open>A step that takes an execution away and stores its response.\<close>

lemma landed_mutated:
  assumes inv: "traffic_ok S answers pg" and mut: "mutated_ok S pg" and f: "pg_flights pg = as @ f # bs"
    and sent: "\<And>q. st_intercept S (fl_request f) = Some q \<Longrightarrow> fl_sent f = Some q"
  shows "mutated_ok S (setResponse S (fl_key f) r (pg\<lparr>pg_flights := as @ bs\<rparr>))" (is "mutated_ok S ?p")
proof -
  have req: "pg_requests pg (fl_key f) = Some (fl_request f)" using inv f by (simp add: traffic_ok_def flight_ok_def)
  have p: "pg_flights ?p = as @ bs" "pg_requests ?p = pg_requests pg" "\<And>k. k \<noteq> fl_key f \<Longrightarrow> pg_responses ?p k = pg_responses pg k"
    using setResponse_traffic [of S "fl_key f" r "pg\<lparr>pg_flights := as @ bs\<rparr>"] by (auto simp: traffic_def split: option.splits)
  have "pg_mutated pg k = Some q'"
    if "idle ?p k" "pg_responses ?p k \<noteq> None" "pg_requests pg k = Some q" "st_intercept S q = Some q'" for k q q'
  proof (cases "k = fl_key f")
    case True
    with that(3,4) req sent have "fl_sent f = Some q'" by simp
    then show ?thesis using mut f True by (simp add: mutated_ok_def)
  next
    case False
    then have "idle pg k" "pg_responses pg k \<noteq> None" using that(1,2) by (simp_all add: idle_def p f)
    then show ?thesis using mut that(3,4) unfolding mutated_ok_def by blast
  qed
  then show ?thesis using mut unfolding mutated_ok_def p mutated_dispatch by (simp add: f)
qed

lemma intercepted_mutated:
  assumes inv: "traffic_ok S answers pg" and mut: "mutated_ok S pg" and f: "pg_flights pg = as @ f # bs"
  shows "mutated_ok S (setMutatedRequest (fl_key f) q (pg\<lparr>pg_flights := as @ f\<lparr>fl_sent := Some q\<rparr> # bs\<rparr>))" (is "mutated_ok S ?p")
proof -
  have d: "distinct (map fl_key (as @ f # bs))" using inv f by (simp add: traffic_ok_def)
  have p: "pg_flights ?p = as @ f\<lparr>fl_sent := Some q\<rparr> # bs" "pg_mutated ?p = (pg_mutated pg)(fl_key f \<mapsto> q)"
    "pg_requests ?p = pg_requests pg" "pg_responses ?p = pg_responses pg" "idle ?p = idle pg"
    by (simp_all add: setMutatedRequest_def idle_def fun_eq_iff f)
  have "pg_mutated ?p (fl_key g) = Some q'" if "g \<in> set (pg_flights ?p)" "fl_sent g = Some q'" for g q'
  proof (cases "g = f\<lparr>fl_sent := Some q\<rparr>")
    case False
    then have g: "g \<in> set (as @ bs)" using that(1) by (auto simp: p)
    then have "fl_key g \<noteq> fl_key f" using d by (auto simp: image_iff)
    moreover have "pg_mutated pg (fl_key g) = Some q'" using mut that(2) g f by (auto simp: mutated_ok_def)
    ultimately show ?thesis by (simp add: p)
  qed (use that in \<open>auto simp: setMutatedRequest_def\<close>)
  moreover have "pg_mutated ?p k = Some q'"
    if "idle pg k" "pg_responses pg k \<noteq> None" "pg_requests pg k = Some q0" "st_intercept S q0 = Some q'" for k q0 q'
  proof -
    have "k \<noteq> fl_key f" using that(1) by (auto simp: idle_def f)
    then show ?thesis using mut that unfolding mutated_ok_def p by (simp del: split_paired_All)
  qed
  ultimately show ?thesis unfolding mutated_ok_def p(3-5) by blast
qed

lemma clicked_mutated:
  assumes "mutated_ok S pg"
  shows "mutated_ok S (onExecuteClick S k pg)"
proof -
  let ?p = "onExecuteClick S k pg"
  note t = traffic_click [of S k pg]
  consider (same) "traffic ?p = traffic pg"
    | (failed) "traffic ?p = (pg_requests pg, pg_responses pg, (pg_progress pg)(k := True), pg_flights pg)"
    | (sent) q where "traffic ?p = ((pg_requests pg)(k \<mapsto> q), pg_responses pg, (pg_progress pg)(k := True),
        pg_flights pg @ [\<lparr>fl_key = k, fl_request = q, fl_sent = None\<rparr>])"
    using t by (cases "click_result S k pg") (auto split: sum.splits)
  then show ?thesis
  proof cases
    case same
    from mutated_ok_cong [OF this mutated_click] assms show ?thesis by simp
  next
    case failed
    then show ?thesis using assms by (simp add: mutated_ok_def traffic_def idle_def del: split_paired_All)
  next
    case (sent q)
    then have p: "pg_requests ?p = (pg_requests pg)(k \<mapsto> q)" "pg_responses ?p = pg_responses pg"
      "pg_flights ?p = pg_flights pg @ [\<lparr>fl_key = k, fl_request = q, fl_sent = None\<rparr>]" by (simp_all add: traffic_def)
    have idle: "idle ?p j \<longleftrightarrow> j \<noteq> k \<and> idle pg j" for j by (auto simp: idle_def p)
    show ?thesis using assms unfolding mutated_ok_def idle p mutated_click by (auto simp del: split_paired_All)
  qed
qed

lemma step_mutated:
  assumes "page_step S answers idle pg pg'" and inv: "traffic_ok S answers pg" and mut: "mutated_ok S pg"
  shows "mutated_ok S pg'"
  using assms(1)
proof cases
  case (edited a)
  then show ?thesis using mutated_ok_cong [of "edit S a pg" pg] mut by simp
next
  case (validated as k bs)
  then show ?thesis using mutated_ok_cong [of pg' pg] mut by simp
next
  case (clicked k)
  then show ?thesis using clicked_mutated [OF mut] by simp
next
  case (intercepted as f bs q)
  then show ?thesis using intercepted_mutated [OF inv mut] by simp
next
  case (refused as f bs d name message others)
  then show ?thesis using landed_mutated [OF inv mut refused(2)] by simp
next
  case (answered as f bs q d r)
  have "flight_ok S pg f" using inv answered(2) by (simp add: traffic_ok_def)
  with answered(3) have "st_intercept S (fl_request f) = Some q" by (auto simp: flight_ok_def)
  then show ?thesis using landed_mutated [OF inv mut answered(2)] answered(1,3) by simp
next
  case (response_cleared k)
  then show ?thesis using mut by (auto simp: mutated_ok_def idle_def onClearClick_def simp del: split_paired_All)
next
  case (remounted k)
  then show ?thesis using mut by (simp add: mutated_ok_def idle_def del: split_paired_All)
qed

lemma reach_mutated:
  assumes "page_reach S answers idle pg0 pg" and "plain_answers answers" and "fresh_page pg0"
  shows "mutated_ok S pg"
  using assms
proof (induction rule: page_reach.induct)
  case start
  then show ?case by (simp add: fresh_page_def mutated_ok_def)
next
  case (step pg pg')
  then show ?case using step_mutated reach_ok by blast
qed

text \<open>C7. As long as no operation is cleared or mounted again while a request of it is under way, a response
  of an operation that has no request under way stands beside the request it belongs to: in every reachable
  page it is what the interceptor or the server gave for exactly the stored request, and the request shown is
  that request as it was built or, where the page shows requests as the interceptor left them, what the
  interceptor made of it.  When the interceptor refused, nothing was sent, and the latter view keeps what it
  showed before.\<close>

theorem response_answers_request:
  assumes "page_reach S answers idle pg0 pg" and "plain_answers answers" and "fresh_page pg0"
    and "pg_responses pg k = Some n" and "idle pg k"
  shows "\<exists>q. live_request False pg k = Some q \<and> shows_answer S answers q n
    \<and> (case st_intercept S q of Some q' \<Rightarrow> live_request True pg k = Some q' | None \<Rightarrow> True)"
proof -
  have "response_ok S answers pg k" using reach_ok [OF assms(1-3)] assms(5) by (simp add: traffic_ok_def del: split_paired_All)
  then obtain q where q: "pg_requests pg k = Some q" "shows_answer S answers q n"
    using assms(4) by (auto simp: response_ok_def split: option.splits)
  have "pg_mutated pg k = Some q'" if "st_intercept S q = Some q'" for q'
    using reach_mutated [OF assms(1-3)] assms(4,5) q(1) that unfolding mutated_ok_def by blast
  with q show ?thesis by (auto simp: live_request_def split: option.split)
qed

section \<open>A late response\<close>

lemma sent_traffic:
  assumes "traffic pg = (rq, rs, pr, as @ f # bs)" and "fl_sent f = None" and "st_intercept S (fl_request f) = Some q"
  shows "\<exists>pg'. page_step S answers guard pg pg' \<and> traffic pg' = (rq, rs, pr, as @ f\<lparr>fl_sent := Some q\<rparr> # bs)"
  using page_step.intercepted [of pg as f bs S q answers guard] assms
  by (auto simp: traffic_def setMutatedRequest_def intro!: exI)

lemma answered_traffic:
  assumes "traffic pg = (rq, rs, pr, as @ f # bs)" and "fl_sent f = Some q" and "answers q d r"
    and "response_kept (engine.truncate (st_engine S)) (response_of d r) = Some n"
  shows "\<exists>pg'. page_step S answers guard pg pg'
     \<and> traffic pg' = (rq, rs(fl_key f \<mapsto> n), pr(fl_key f := False), as @ bs)"
proof -
  have "pg_flights pg = as @ f # bs" using assms(1) by (simp add: traffic_def)
  from page_step.answered [of pg as f bs q answers d r S guard, OF this assms(2,3)]
    setResponse_traffic [of S "fl_key f" "response_of d r" "pg\<lparr>pg_flights := as @ bs\<rparr>"] assms(1,4)
  show ?thesis by (auto simp: traffic_def)
qed

text \<open>C9. Clearing the old response while a request is under way enables the execute button again, and then
  the earlier of two executions may be the last to be answered: the page comes to rest with the new request
  beside the response to the old one.\<close>

theorem late_response_shown:
  assumes "pg_flights pg = []" and "pg_responses pg k \<noteq> None" and "\<not> pg_progress pg k"
    and "click_result S k pg = Some (Inr q1)"
    and "click_result S k (edit S a (onClearClick k (onExecuteClick S k pg))) = Some (Inr q2)"
    and "st_intercept S q1 = Some t1" and "st_intercept S q2 = Some t2"
    and "answers t1 d1 r1" and "response_kept (engine.truncate (st_engine S)) (response_of d1 r1) = Some n1"
    and "answers t2 d2 r2" and "response_kept (engine.truncate (st_engine S)) (response_of d2 r2) = Some n2"
  shows "\<exists>pg'. page_reach S answers (\<lambda>_ _. True) pg pg' \<and> pg_flights pg' = [] \<and> \<not> pg_progress pg' k
     \<and> pg_requests pg' k = Some q2 \<and> pg_responses pg' k = Some n1"
proof -
  let ?step = "page_step S answers (\<lambda>_ _. True)"
  let ?f = "\<lambda>q t. \<lparr>fl_key = k, fl_request = q, fl_sent = t\<rparr>"
  define p1 where "p1 = onExecuteClick S k pg"
  define p3 where "p3 = edit S a (onClearClick k p1)"
  define p4 where "p4 = onExecuteClick S k p3"
  have t1: "traffic p1 = ((pg_requests pg)(k \<mapsto> q1), pg_responses pg, (pg_progress pg)(k := True), [?f q1 None])"
    using traffic_click [of S k pg] assms(1,4) by (simp add: p1_def)
  have "traffic (onClearClick k p1)
      = ((pg_requests pg)(k := None), (pg_responses pg)(k := None), (pg_progress pg)(k := False), [?f q1 None])"
    using t1 by (simp add: traffic_def onClearClick_def)
  then have t3: "pg_requests p3 = (pg_requests pg)(k := None)" "pg_responses p3 = (pg_responses pg)(k := None)"
    "pg_progress p3 = (pg_progress pg)(k := False)" "pg_flights p3 = [?f q1 None]"
    using traffic_edit [of S a "onClearClick k p1"] by (simp_all add: p3_def traffic_def)
  have "traffic p4 = ((pg_requests p3)(k \<mapsto> q2), pg_responses p3, (pg_progress p3)(k := True), pg_flights p3 @ [?f q2 None])"
    using traffic_click [of S k p3] assms(5) by (simp add: p4_def p3_def p1_def)
  then have t4: "traffic p4 = ((pg_requests pg)(k \<mapsto> q2), (pg_responses pg)(k := None), (pg_progress pg)(k := True),
      [] @ ?f q1 None # [?f q2 None])"
    unfolding t3 by simp
  obtain p5 where p5: "?step p4 p5" "traffic p5 = ((pg_requests pg)(k \<mapsto> q2), (pg_responses pg)(k := None), (pg_progress pg)(k := True),
      [?f q1 (Some t1)] @ ?f q2 None # [])"
    using sent_traffic [OF t4, of S t1 answers "\<lambda>_ _. True"] assms(6) by auto
  obtain p6 where p6: "?step p5 p6" "traffic p6 = ((pg_requests pg)(k \<mapsto> q2), (pg_responses pg)(k := None), (pg_progress pg)(k := True),
      [?f q1 (Some t1)] @ ?f q2 (Some t2) # [])"
    using sent_traffic [OF p5(2), of S t2 answers "\<lambda>_ _. True"] assms(7) by auto
  obtain p7 where p7: "?step p6 p7" "traffic p7 = ((pg_requests pg)(k \<mapsto> q2), (pg_responses pg)(k \<mapsto> n2), (pg_progress pg)(k := False),
      [] @ ?f q1 (Some t1) # [])"
    using answered_traffic [OF p6(2) _ _ assms(11), of t2 answers "\<lambda>_ _. True"] assms(10) by auto
  obtain p8 where p8: "?step p7 p8" "traffic p8 = ((pg_requests pg)(k \<mapsto> q2), (pg_responses pg)(k \<mapsto> n1), (pg_progress pg)(k := False), [])"
    using answered_traffic [OF p7(2) _ _ assms(9), of t1 answers "\<lambda>_ _. True"] assms(8) by auto
  have s1: "?step pg p1" unfolding p1_def using assms(3) by (rule page_step.clicked)
  have s2: "?step p1 (onClearClick k p1)"
    by (rule page_step.response_cleared) (use t1 assms(2) in \<open>simp_all add: traffic_def\<close>)
  have s3: "?step (onClearClick k p1) p3" unfolding p3_def by (rule page_step.edited)
  have s4: "?step p3 p4" unfolding p4_def by (rule page_step.clicked) (simp add: t3)
  note r4 = page_reach.step [OF page_reach.step [OF page_reach.step [OF page_reach.step [OF page_reach.start s1] s2] s3] s4]
  have "page_reach S answers (\<lambda>_ _. True) pg p8"
    by (rule page_reach.step [OF page_reach.step [OF page_reach.step [OF page_reach.step [OF r4 p5(1)] p6(1)] p7(1)] p8(1)])
  then show ?thesis using p8(2) by (auto simp: traffic_def)
qed

section \<open>A request that cannot be built\<close>

definition locked :: "page \<Rightarrow> operation_key \<Rightarrow> bool" where
  "locked pg k \<longleftrightarrow> pg_progress pg k \<and> idle pg k"

lemma locked_cong: "traffic pg' = traffic pg \<Longrightarrow> locked pg k \<Longrightarrow> locked pg' k"
  by (simp add: locked_def idle_def traffic_def)

lemma set_response_locked:
  assumes "locked pg k" and "pg_flights pg = as @ f # bs"
  shows "locked (setResponse S (fl_key f) r (pg\<lparr>pg_flights := as @ bs\<rparr>)) k"
  using assms by (auto simp: locked_def idle_def setResponse_def split: option.split)

lemma click_locked:
  assumes "locked pg k" and "\<not> pg_progress pg j"
  shows "locked (onExecuteClick S j pg) k"
proof -
  have "j \<noteq> k" using assms by (auto simp: locked_def)
  with traffic_click [of S j pg] assms(1) show ?thesis
    by (auto simp: locked_def idle_def traffic_def split: option.splits sum.splits)
qed

lemma locked_step:
  assumes "page_step S answers (\<lambda>_ j. j \<noteq> k) pg pg'" and "locked pg k"
  shows "locked pg' k"
  using assms(1)
proof cases
  case (edited a)
  then have "traffic pg' = traffic pg" by simp
  then show ?thesis using assms(2) by (rule locked_cong)
next
  case (validated as j bs)
  then have "traffic pg' = traffic pg" by simp
  then show ?thesis using assms(2) by (rule locked_cong)
next
  case (clicked j)
  then show ?thesis using click_locked [OF assms(2)] by simp
next
  case (intercepted as f bs q)
  then show ?thesis using assms(2) by (auto simp: locked_def idle_def setMutatedRequest_def)
next
  case (refused as f bs d name message others)
  then show ?thesis using set_response_locked [OF assms(2)] by simp
next
  case (answered as f bs q d r)
  then show ?thesis using set_response_locked [OF assms(2)] by simp
next
  case (response_cleared j)
  then show ?thesis using assms(2) by (simp add: locked_def idle_def onClearClick_def)
next
  case (remounted j)
  then show ?thesis using assms(2) by (simp add: locked_def idle_def)
qed

text \<open>C11. A request that passes the checks and cannot be built leaves the operation in its progress state
  with nothing under way: whatever happens afterwards, its execute button stays disabled until the operation
  is cleared or mounted again.\<close>

theorem failed_build_locks_button:
  assumes "traffic_ok S answers pg" and "\<not> pg_progress pg k" and "click_result S k pg = Some (Inl e)"
    and "page_reach S answers (\<lambda>_ j. j \<noteq> k) (onExecuteClick S k pg) pg'"
  shows "pg_progress pg' k \<and> idle pg' k"
proof -
  have "idle pg k" using assms(1,2) by (auto simp: traffic_ok_def idle_def flight_ok_def list_all_iff)
  then have "locked (onExecuteClick S k pg) k"
    using traffic_click [of S k pg] assms(3) by (simp add: locked_def idle_def traffic_def)
  from assms(4) this have "locked pg' k"
  proof (induction rule: page_reach.induct)
    case (step pg1 pg2)
    then show ?case by (blast intro: locked_step)
  qed
  then show ?thesis by (simp add: locked_def)
qed

section \<open>When a click sends a request\<close>

text \<open>The stored errors of an operation belong to parameters of the document.\<close>

definition errors_ok :: "hash \<Rightarrow> spec_state \<Rightarrow> js_string \<Rightarrow> js_string \<Rightarrow> bool" where
  "errors_ok h e p m \<longleftrightarrow> distinct (map fst (parameters (meta_paths e p m)))
     \<and> failing (parameters (meta_paths e p m)) \<subseteq> hashed h ` set (doc_parameters e p m)"

lemma failing_enter: "failing (put_param k (enter_value x v) t) = failing t"
  by (auto simp: failing_def put_param_lookup enter_value_def empty_meta_def split: option.splits if_splits)

lemma distinct_put: "distinct (map fst t) \<Longrightarrow> distinct (map fst (put_param k f t))"
  by (simp add: put_param_def distinct_alist_put)

lemma errors_ok_update:
  assumes "errors_ok h e p m"
    and "distinct (map fst (parameters (meta_paths e p m))) \<Longrightarrow> distinct (map fst (parameters (f (meta_paths e p m))))"
    and "failing (parameters (f (meta_paths e p m))) \<subseteq> failing (parameters (meta_paths e p m)) \<union> hashed h ` set (doc_parameters e p m)"
  shows "errors_ok h (update_meta p' m' f e) p m"
  using assms by (auto simp: errors_ok_def)

lemma reducer_document: "param_reducer E h e a = Some e' \<Longrightarrow> document e' = document e"
  by (cases a) (auto split: option.splits if_splits)

lemma reducer_errors_ok:
  assumes ok: "errors_ok h e p m" and wi: "well_identified h (doc_parameters e p m)" and r: "param_reducer E h e a = Some e'"
  shows "errors_ok h e' p m"
proof (cases a)
  case (UPDATE_PARAM p' m' n v x)
  then have "e' = update_meta p' m' (\<lambda>o'. o'\<lparr>parameters := put_param (paramToIdentifier h True n) (enter_value x v) (parameters o')\<rparr>) e"
    using r by simp
  then show ?thesis by (simp only:) (rule errors_ok_update [OF ok]; simp add: distinct_put failing_enter)
next
  case (UPDATE_PARAM_BY_NAME p' m' name position v x)
  then have "e' = update_meta p' m' (\<lambda>o'. o'\<lparr>parameters := put_param (position @ js ''.'' @ name) (enter_value x v) (parameters o')\<rparr>) e"
    using r by simp
  then show ?thesis by (simp only:) (rule errors_ok_update [OF ok]; simp add: distinct_put failing_enter)
next
  case (UPDATE_EMPTY_PARAM_INCLUSION p' m' name position b)
  then have "parameters (meta_paths e' p m) = parameters (meta_paths e p m) \<and> doc_parameters e' p m = doc_parameters e p m"
    using r by (auto split: option.splits if_splits)
  then show ?thesis using ok by (simp add: errors_ok_def)
next
  case (VALIDATE_PARAMS p' m' b)
  show ?thesis
  proof (cases "p' = p \<and> m' = m")
    case True
    then have v: "param_reducer E h e (VALIDATE_PARAMS p m b) = Some e'" using r VALIDATE_PARAMS by simp
    have "doc_parameters e' p m = doc_parameters e p m" using reducer_document [OF r] by (simp add: doc_parameters_def)
    with validate_params_failing [OF wi v] ok show ?thesis by (auto simp: errors_ok_def)
  next
    case False
    then show ?thesis using r VALIDATE_PARAMS ok by (auto simp: errors_ok_def split: if_splits)
  qed
next
  case (CLEAR_VALIDATE_PARAMS p' m')
  show ?thesis
  proof (cases "p' = p \<and> m' = m")
    case True
    then have "param_reducer E h e (CLEAR_VALIDATE_PARAMS p m) = Some e'" using r CLEAR_VALIDATE_PARAMS by simp
    from cleared(1,4,5) [OF this] ok show ?thesis by (simp add: errors_ok_def)
  next
    case False
    then show ?thesis using r CLEAR_VALIDATE_PARAMS ok by (auto simp: errors_ok_def)
  qed
qed

text \<open>The specification slice of a page changes by actions on parameters only.\<close>

inductive spec_run :: "site \<Rightarrow> spec_state \<Rightarrow> spec_state \<Rightarrow> bool" for S where
  same: "spec_run S e e"
| act: "spec_run S e e1 \<Longrightarrow>
    spec_run S e (kept e1 (param_reducer (engine.truncate (st_engine S)) (st_hash S) e1 a))"

lemma spec_run_trans: "spec_run S e1 e2 \<Longrightarrow> spec_run S e e1 \<Longrightarrow> spec_run S e e2"
  by (induction rule: spec_run.induct) (auto intro: spec_run.act)

lemma spec_run_param: "spec_run S (pg_spec pg) (pg_spec (on_param S a pg))"
  using spec_run.act [OF spec_run.same] by (simp add: on_param_def)

lemma spec_of_dispatch [simp]:
  "pg_spec (on_oas3 a pg) = pg_spec pg" "pg_spec (setResponse S k r pg) = pg_spec pg" "pg_spec (executeRequest S k pg) = pg_spec pg"
  by (simp_all add: on_oas3_def setResponse_def executeRequest_def split: option.split sum.split)

lemma spec_of_body [simp]: "pg_spec (snd (handleValidateRequestBody k pg)) = pg_spec pg"
  by (simp add: handleValidateRequestBody_def Let_def split: prod.split)

lemma spec_run_click: "spec_run S (pg_spec pg) (pg_spec (onExecuteClick S k pg))"
proof -
  have c: "pg_spec (snd (click_checks S k pg)) = pg_spec (validateParams S k pg)"
    by (simp add: click_checks_def handleValidateParameters_def Let_def case_prod_beta)
  have v: "spec_run S (pg_spec pg) (pg_spec (validateParams S k pg))"
    by (simp add: validateParams_def spec_run_param split: prod.split)
  have "spec_run S (pg_spec pg) (pg_spec (on_param S a (snd (click_checks S k pg))))" for a
    using spec_run_trans [OF spec_run_param [of S "snd (click_checks S k pg)" a]] v by (simp add: c)
  moreover have "pg_spec (onExecuteClick S k pg) =
      (if fst (click_checks S k pg) then pg_spec (validateParams S k pg)
       else pg_spec (on_param S (CLEAR_VALIDATE_PARAMS (fst k) (snd k)) (snd (click_checks S k pg))))"
    by (simp add: click_eq handleValidationResultPass_def handleValidationResultFail_def c case_prod_beta)
  ultimately show ?thesis using v by simp
qed

lemma spec_run_step:
  assumes "page_step S answers guard pg pg'"
  shows "spec_run S (pg_spec pg) (pg_spec pg')"
  using assms
proof cases
  case (edited a)
  then show ?thesis by (cases a) (simp_all add: spec_run_param spec_run.same)
next
  case (clicked k)
  then show ?thesis by (simp add: spec_run_click)
next
  case (validated as k bs)
  then show ?thesis
    using spec_run_param [of S "pg\<lparr>pg_timers := as @ bs\<rparr>"] by (simp add: validateParams_def split: prod.split)
qed (simp_all add: spec_run.same setMutatedRequest_def onClearClick_def)

lemma spec_run_ok:
  assumes "spec_run S e e'" and "errors_ok (st_hash S) e p m" and "well_identified (st_hash S) (doc_parameters e p m)"
  shows "errors_ok (st_hash S) e' p m \<and> document e' = document e"
  using assms
proof (induction rule: spec_run.induct)
  case (act e e1 a)
  then have ok: "errors_ok (st_hash S) e1 p m" "document e1 = document e" by blast+
  then have "well_identified (st_hash S) (doc_parameters e1 p m)" using act.prems(2) by (simp add: doc_parameters_def)
  from reducer_errors_ok [OF ok(1) this] reducer_document ok show ?case
    by (auto simp: kept_def split: option.split)
qed simp

lemma reach_spec:
  assumes "page_reach S answers guard pg0 pg"
  shows "spec_run S (pg_spec pg0) (pg_spec pg)"
  using assms by (induction rule: page_reach.induct) (auto intro: spec_run.same spec_run_trans spec_run_step)

lemma reach_errors_ok:
  assumes "page_reach S answers guard pg0 pg" and "fresh_page pg0" and "well_identified (st_hash S) (doc_parameters (pg_spec pg0) p m)"
  shows "errors_ok (st_hash S) (pg_spec pg) p m \<and> well_identified (st_hash S) (doc_parameters (pg_spec pg) p m)"
proof -
  have "errors_ok (st_hash S) (pg_spec pg0) p m" using assms(2) by (simp add: fresh_page_def errors_ok_def failing_def)
  from spec_run_ok [OF reach_spec [OF assms(1)] this assms(3)] assms(3) show ?thesis by (simp add: doc_parameters_def)
qed

text \<open>Clearing the errors of a body changes neither its values nor its media type.\<close>

definition body_cleared :: "oas3_state \<Rightarrow> js_string \<Rightarrow> js_string \<Rightarrow> oas3_state" where
  "body_cleared e p m = kept e (oas3_reducer e (CLEAR_REQUEST_BODY_VALIDATE_ERROR p m))"

lemma setIn_no_leaf: "setIn e (k # ks) t = Some e' \<Longrightarrow> \<exists>m. e' = Node m"
  using setIn_same [of e "k # ks" t e'] by (cases e') (auto simp: getIn_def child_def)

lemma set_errors_of_Node: "set_errors_of i ts (Node f) = Some v \<Longrightarrow> \<exists>m. v = Node m"
proof (induction i ts "Node f" arbitrary: f rule: set_errors_of.induct)
  case (2 i t ts)
  then show ?case by (auto split: option.splits dest: setIn_no_leaf)
qed auto

lemma body_cleared_cases:
  assumes "body_cleared e p m = e'" and "e' \<noteq> e"
  obtains f g where "getIn e (body_path p m) = Some (Node f)" "set_errors_of [] (map fst f) (Node f) = Some (Node g)"
      "setIn e (body_path p m) (Node g) = Some e'"
  | "setIn e (request_data p m @ [js ''errors'']) (Leaf (OList [])) = Some e'"
proof (cases "getIn e (body_path p m)")
  case None
  then show ?thesis using assms that(2) by (auto simp: body_cleared_def kept_def split: option.splits)
next
  case (Some b)
  show ?thesis
  proof (cases b)
    case (Leaf v)
    then show ?thesis using Some assms that(2) by (auto simp: body_cleared_def kept_def split: option.splits)
  next
    case (Node f)
    then obtain v where v: "set_errors_of [] (map fst f) (Node f) = Some v" "setIn e (body_path p m) v = Some e'"
      using Some assms by (auto simp: body_cleared_def kept_def bind_set_def split: option.splits)
    from set_errors_of_Node [OF v(1)] v Some Node that(1) show ?thesis by blast
  qed
qed

lemma body_cleared_text:
  assumes "k \<noteq> ''errors''" and "k \<noteq> ''bodyValue''"
  shows "oas3_text (body_cleared e p m) p m k = oas3_text e p m k"
proof (cases "body_cleared e p m = e")
  case False
  have k: "js ''errors'' \<noteq> js k" "js ''bodyValue'' \<noteq> js k" using assms inj_js by (auto simp: inj_on_def)
  from refl False have "getIn (body_cleared e p m) (request_data p m @ [js k]) = getIn e (request_data p m @ [js k])"
  proof (cases rule: body_cleared_cases)
    case (1 f g)
    then show ?thesis using imm.get_put_field [of e "request_data p m"] k by (auto simp: body_path_def)
  next
    case 2
    then show ?thesis using imm.get_put_field [OF _ k(1)] by blast
  qed
  then show ?thesis by (simp add: oas3_text_def)
qed simp

lemma body_cleared_body:
  "node_truthy (getIn (body_cleared e p m) (body_path p m)) = node_truthy (getIn e (body_path p m))
   \<and> validateShallowRequired r t (getIn (body_cleared e p m) (body_path p m)) = validateShallowRequired r t (getIn e (body_path p m))"
proof (cases "body_cleared e p m = e")
  case False
  from refl this show ?thesis
  proof (cases rule: body_cleared_cases)
    case (1 f g)
    have "getIn (Node g) [k, js ''value''] = getIn (Node f) [k, js ''value'']" for k
      by (rule set_errors_of_other [OF 1(2)]) (simp add: inj_js)
    then show ?thesis using 1(1) setIn_same [OF 1(3)] by (simp add: node_truthy_def validateShallowRequired_def)
  next
    case 2
    have "js ''errors'' \<noteq> js ''bodyValue''" by (simp add: inj_js)
    from imm.get_put_field [OF 2 this] show ?thesis by (simp add: body_path_def)
  qed
qed simp

definition body_sendable :: "page \<Rightarrow> js_string \<Rightarrow> js_string \<Rightarrow> bool" where
  "body_sendable pg p m \<longleftrightarrow>
     validateBeforeExecute (body_required (page_document pg) p m) (pg_oas3 pg) p m \<and> missing_fields pg p m = []"

lemma body_check: "fst (handleValidateRequestBody (p, m) pg) = body_sendable pg p m"
proof -
  let ?pg = "on_oas3 (CLEAR_REQUEST_BODY_VALIDATE_ERROR p m) pg"
  have o: "pg_oas3 ?pg = body_cleared (pg_oas3 pg) p m" by (simp add: on_oas3_def body_cleared_def)
  have "missing_fields ?pg p m = missing_fields pg p m"
    by (simp add: missing_fields_def o body_cleared_text body_cleared_body split: option.split)
  moreover have "validateBeforeExecute b (pg_oas3 ?pg) p m = validateBeforeExecute b (pg_oas3 pg) p m" for b
    by (simp add: validateBeforeExecute_def o body_cleared_body)
  ultimately show ?thesis by (auto simp: handleValidateRequestBody_def body_sendable_def Let_def)
qed

lemma body_sendable_param: "body_sendable (on_param S a pg) p m = body_sendable pg p m"
proof -
  have "document (pg_spec (on_param S a pg)) = page_document pg"
    by (auto simp: on_param_def kept_def reducer_document split: option.split)
  moreover have "pg_oas3 (on_param S a pg) = pg_oas3 pg" by (simp add: on_param_def)
  ultimately show ?thesis by (simp add: body_sendable_def missing_fields_def cong: option.case_cong)
qed

text \<open>C8. In every reachable page, a click on the execute button goes on to build and send the request exactly
  when every parameter of the document is valid with the value that the request would carry, a required body
  is there, and no required field of it is missing.  Where the validation throws, errors left from an earlier
  click decide instead: without any, the request is sent unchecked.\<close>

theorem click_sends_iff_valid:
  assumes "page_reach S answers guard pg0 pg" and "fresh_page pg0"
    and "well_identified (st_hash S) (doc_parameters (pg_spec pg0) p m)" and "E = engine.truncate (st_engine S)"
  shows "click_result S (p, m) pg \<noteq> None \<longleftrightarrow>
     (let e = pg_spec pg; v = spec_isOAS3 (document e) in
      case param_reducer E (st_hash S) e (VALIDATE_PARAMS p m v) of
        Some _ \<Rightarrow> list_all (\<lambda>n. validateParam E n (paramToValue (st_hash S) n (parameterValues (st_hash S) False e p m)) v
                     (parameterInclusionSettingFor e p m n) = Some []) (doc_parameters e p m)
      | None \<Rightarrow> spec_validateBeforeExecute e p m) \<and> body_sendable pg p m"
proof -
  let ?e = "pg_spec pg"
  let ?v = "spec_isOAS3 (document ?e)"
  have ok: "errors_ok (st_hash S) ?e p m" "well_identified (st_hash S) (doc_parameters ?e p m)"
    using reach_errors_ok [OF assms(1-3)] by blast+
  have "click_result S (p, m) pg \<noteq> None \<longleftrightarrow>
      spec_validateBeforeExecute (kept ?e (param_reducer E (st_hash S) ?e (VALIDATE_PARAMS p m ?v))) p m \<and> body_sendable pg p m"
    by (simp add: click_result_def click_checks_def handleValidateParameters_def Let_def case_prod_beta body_check
        validateParams_def body_sendable_param assms(4)) (simp add: on_param_def assms(4))
  also have "spec_validateBeforeExecute e' p m \<longleftrightarrow>
      list_all (\<lambda>n. param_result E (st_hash S) ?e p m ?v (parameterValues (st_hash S) False ?e p m) n = Some []) (doc_parameters ?e p m)"
    if e': "param_reducer E (st_hash S) ?e (VALIDATE_PARAMS p m ?v) = Some e'" for e'
  proof -
    note f = validate_params_failing [OF ok(2) e']
    have "spec_validateBeforeExecute e' p m \<longleftrightarrow> failing (parameters (meta_paths e' p m)) = {}"
      unfolding spec_validateBeforeExecute_def by (rule failing_none [OF f(2)]) (use ok(1) in \<open>simp add: errors_ok_def\<close>)
    then show ?thesis unfolding f(1) using ok(1) by (auto simp: errors_ok_def list_all_iff)
  qed
  then have "spec_validateBeforeExecute (kept ?e (param_reducer E (st_hash S) ?e (VALIDATE_PARAMS p m ?v))) p m \<longleftrightarrow>
      (case param_reducer E (st_hash S) ?e (VALIDATE_PARAMS p m ?v) of
        Some _ \<Rightarrow> list_all (\<lambda>n. param_result E (st_hash S) ?e p m ?v (parameterValues (st_hash S) False ?e p m) n = Some []) (doc_parameters ?e p m)
      | None \<Rightarrow> spec_validateBeforeExecute ?e p m)"
    by (simp add: kept_def split: option.split)
  finally show ?thesis unfolding Let_def param_result_def .
qed

section \<open>Required fields of a form\<close>

lemma set_push_new: "set (push_new s es) = set s \<union> set es"
  by (induction s es rule: push_new.induct) auto

lemma set_required:
  "set (fold (\<lambda>(k, ts) s. if k = t then push_new s ts else s) req s) = set s \<union> \<Union> (set ` snd ` {x \<in> set req. fst x = t})"
  by (induction req arbitrary: s) (auto simp: set_push_new split: if_splits)

lemma map_of_filter_map:
  "distinct (map fst m) \<Longrightarrow>
   map_of (map (\<lambda>(k, x). (k, f x)) (filter (\<lambda>(k, x). P k x) m)) k =
     (case map_of m k of None \<Rightarrow> None | Some x \<Rightarrow> if P k x then Some (f x) else None)"
  by (induction m) (auto simp: map_of_eq_None_iff image_iff split: option.splits)

lemma required_field_value:
  assumes "validateShallowRequired req t (Some (Node fs)) = []" and "(t, ks) \<in> set req" and "k \<in> set ks"
  shows "\<exists>g v. map_of fs k = Some (Node g) \<and> map_of g (js ''value'') = Some v \<and> node_truthy (Some v)"
proof -
  have "k \<in> set (fold (\<lambda>(k, ts) s. if k = t then push_new s ts else s) req [])"
    using assms(2,3) unfolding set_required by force
  then have "node_truthy (getIn (Node fs) [k, js ''value''])"
    using assms(1) by (simp add: validateShallowRequired_def filter_empty_conv)
  then obtain v where "getIn (Node fs) [k, js ''value''] = Some v" "node_truthy (Some v)"
    by (cases "getIn (Node fs) [k, js ''value'']") (auto simp: node_truthy_def)
  then show ?thesis
    by (cases "map_of fs k"; cases "the (map_of fs k)") (auto simp: getIn_def child_def)
qed

text \<open>C10. When the checks of a form body pass, every required field of the chosen media type has a value, and
  it is in the body of the request, unless the value is an empty collection that is not included on
  purpose: such a field passes the check and is left out.\<close>

theorem required_fields_sent:
  assumes "body_sendable pg p m" and "spec_isOAS3 (page_document pg)"
    and "getIn (pg_oas3 pg) (body_path p m) = Some (Node fs)" and "distinct (map fst fs)"
    and "getOAS3RequiredRequestBodyContentType (page_document pg) p m = Some req"
    and "oas3_text (pg_oas3 pg) p m ''requestContentType'' = Some t" and "(t, ks) \<in> set req" and "k \<in> set ks"
  shows "\<exists>l g v. c_requestBody (execute_options S pg (p, m)) = JObj l \<and> map_of fs k = Some (Node g)
     \<and> map_of g (js ''value'') = Some v \<and> node_truthy (Some v)
     \<and> map_of l k = (if isEmptyValue (Some v) \<and> \<not> field_included (pg_oas3 pg) p m k then None else Some (oas3_plain v))"
proof -
  have "validateShallowRequired req t (Some (Node fs)) = []"
    using assms(1,2,3,5,6) by (simp add: body_sendable_def missing_fields_def)
  from required_field_value [OF this assms(7,8)] obtain g v
    where g: "map_of fs k = Some (Node g)" "map_of g (js ''value'') = Some v" "node_truthy (Some v)" by blast
  let ?P = "\<lambda>k x. \<not> isEmptyValue (field_value x) \<or> field_included (pg_oas3 pg) p m k"
  have "c_requestBody (execute_options S pg (p, m)) = JObj (map (\<lambda>(k, x). (k, field_plain x)) (filter (\<lambda>(k, x). ?P k x) fs))"
    using assms(2,3) by (simp add: execute_options_def Let_def request_body_of_def node_truthy_def)
  moreover have "map_of (map (\<lambda>(k, x). (k, field_plain x)) (filter (\<lambda>(k, x). ?P k x) fs)) k
      = (if isEmptyValue (Some v) \<and> \<not> field_included (pg_oas3 pg) p m k then None else Some (oas3_plain v))"
    unfolding map_of_filter_map [OF assms(4)] using g by (simp add: field_value_def field_plain_def)
  ultimately show ?thesis using g by blast
qed

section \<open>An example\<close>

definition bare_info :: operation_info where
  "bare_info = \<lparr>o_parameters = [], o_path_parameters = [], o_security = None, o_body = [], o_responses = None, o_consumes = None,
     o_produces = None, s_security = None, s_schemes = JObj [], s_consumes = None\<rparr>"

definition sample_site :: "operation_info \<Rightarrow> jval \<Rightarrow> site" where
  "sample_site info creds = \<lparr>st_engine = sample_client, st_hash = sample_hash, st_empty_file = (\<lambda>_. False),
     st_base = (\<lambda>_ s _. s @ js ''://h''), st_info = (\<lambda>_. info),
     st_securities = \<lparr>x_authorized = creds, x_specSecurity = None\<rparr>, st_intercept = Some\<rparr>"

definition sample_page :: "spec_node list \<Rightarrow> page" where
  "sample_page ns = \<lparr>pg_spec = sample_state ns, pg_oas3 = Node [], pg_media = (\<lambda>_ _. \<lparr>consumes_value = None, produces_value = None\<rparr>),
     pg_scheme = Node [], pg_url = js ''http://h/doc'', pg_requests = Map.empty, pg_mutated = Map.empty, pg_responses = Map.empty,
     pg_progress = (\<lambda>_. False), pg_flights = [], pg_timers = []\<rparr>"

definition sample_key :: operation_key where
  "sample_key = (js ''/p'', js ''post'')"

definition sample_answers :: "client_request \<Rightarrow> js_string \<Rightarrow> outcome \<Rightarrow> bool" where
  "sample_answers q d r \<longleftrightarrow> r = Fulfilled [(js ''url'', JStr (r_url q))]"

definition sample_response :: "js_string \<Rightarrow> jval js_object" where
  "sample_response u = [(js ''url'', JStr u), (js ''duration'', JNum (js ''1'')), (js ''headers'', JObj [])]"

definition sample_request :: "js_string \<Rightarrow> client_request" where
  "sample_request s = put_header (js ''accept'') (JStr (js ''application/json'')) (new_request ((s @ js ''://h'') @ js ''/p''))"

lemma sample_kept: "response_kept E (response_of (js ''1'') (Fulfilled [(js ''url'', JStr u)])) = Some (sample_response u)"
  by (simp add: response_kept_def response_of_def obj_put_def object_member_def object_prototype_def or_value_def sample_response_def inj_js)

lemma sample_plain: "plain_answers sample_answers"
  by (simp add: plain_answers_def sample_answers_def object_member_def object_prototype_def inj_js)

lemma sample_fresh: "fresh_page (sample_page ns)"
  by (simp add: fresh_page_def sample_page_def sample_state_def)

lemma sample_version [simp]: "\<not> spec_isOAS3 (document (sample_state ns))" "\<not> client_isOAS3 (document (sample_state ns))"
  by (simp_all add: spec_isOAS3_def client_isOAS3_def sample_document) (simp_all add: specJson_def sample_state_def child_def inj_js)

lemma sample_body_required: "\<not> body_required (document (sample_state ns)) (js ''/p'') (js ''post'')"
  by (simp add: body_required_def specJson_def sample_state_def child_def getIn_def inj_js)

lemma sample_sendable: "pg_spec pg = sample_state ns \<Longrightarrow> body_sendable pg (js ''/p'') (js ''post'')"
  by (simp add: body_sendable_def missing_fields_def validateBeforeExecute_def sample_body_required)

lemma sample_validated: "pg_spec pg = sample_state [] \<Longrightarrow> pg_spec (validateParams S sample_key pg) = sample_state []"
proof -
  have "update_meta p m (\<lambda>o'. o'\<lparr>parameters := []\<rparr>) (sample_state []) = sample_state []" for p m
    by (simp add: update_meta_def sample_state_def fun_eq_iff)
  then show "pg_spec pg = sample_state [] \<Longrightarrow> pg_spec (validateParams S sample_key pg) = sample_state []"
    by (simp add: validateParams_def sample_key_def on_param_def kept_def sample_getIn sample_parameters) (simp add: sample_state_def)
qed

lemma checks_fields [simp]:
  "pg_spec (snd (click_checks S k pg)) = pg_spec (validateParams S k pg)" "pg_media (snd (click_checks S k pg)) = pg_media pg"
  "pg_scheme (snd (click_checks S k pg)) = pg_scheme pg" "pg_url (snd (click_checks S k pg)) = pg_url pg"
  by (simp_all add: click_checks_def handleValidateParameters_def handleValidateRequestBody_def on_oas3_def on_param_def
      validateParams_def Let_def split: prod.split)

lemma sample_built:
  assumes "pg_spec pg = sample_state []" and "pg_media pg = pg_media (sample_page [])"
  shows "built_request (sample_site bare_info (JObj [])) pg sample_key
     = Inr (sample_request (operationScheme (pg_url pg) (pg_scheme pg) (js ''/p'') (js ''post'')))"
proof -
  have ct: "contentTypeValues (document (sample_state [])) (pg_media (sample_page [])) (js ''/p'') (js ''post'')
      = (None, Some (js ''application/json''))"
    by (simp add: contentTypeValues_def currentProducesFor_def operation_node_def sample_getIn null_node_def sample_page_def
        parametersIncludeType_def text_node_def truthy_text_def falsy_text_def child_def inj_js Let_def)
  show ?thesis
    by (simp add: built_request_def sample_key_def assms execute_options_def ct Let_def sample_site_def buildRequest_def js_eq_Nil
        bare_info_def build_parameters_def deduplicateParameters_def by_position_def own_entries_def applySecurities_def has_credentials_def
        swagger2_content_def merge_cookies_def mergeInQueryOrForm_def merge_form_def merge_query_def sample_request_def
        put_header_def new_request_def)
qed

lemma sample_click:
  assumes "pg_spec pg = sample_state []" and "pg_media pg = pg_media (sample_page [])"
  shows "click_result (sample_site bare_info (JObj [])) sample_key pg
     = Some (Inr (sample_request (operationScheme (pg_url pg) (pg_scheme pg) (js ''/p'') (js ''post''))))"
proof -
  let ?S = "sample_site bare_info (JObj [])"
  have v: "pg_spec (validateParams ?S sample_key pg) = sample_state []" using assms(1) by (rule sample_validated)
  then have "fst (click_checks ?S sample_key pg)"
    by (simp add: click_checks_def handleValidateParameters_def sample_key_def Let_def case_prod_beta body_check sample_sendable)
      (simp add: sample_state_def spec_validateBeforeExecute_def)
  with sample_built [of "snd (click_checks ?S sample_key pg)"] v assms(2) show ?thesis by (simp add: click_result_def)
qed

lemma sample_scheme: "operationScheme (pg_url (sample_page ns)) (Node []) p m = js ''http''"
  by (simp add: operationScheme_def chosen_scheme_def getIn_def child_def sample_page_def url_scheme_def js_simps lower_letter_def js_is_digit_def)

lemma sample_steps:
  assumes "pg_spec pg = sample_state []" and "pg_media pg = pg_media (sample_page [])"
    and "operationScheme (pg_url pg) (pg_scheme pg) (js ''/p'') (js ''post'') = s"
  shows "traffic (onExecuteClick (sample_site bare_info (JObj [])) sample_key pg) =
      ((pg_requests pg)(sample_key \<mapsto> sample_request s), pg_responses pg, (pg_progress pg)(sample_key := True),
       pg_flights pg @ [\<lparr>fl_key = sample_key, fl_request = sample_request s, fl_sent = None\<rparr>])"
  using traffic_click [of "sample_site bare_info (JObj [])" sample_key pg] sample_click [OF assms(1,2)] by (simp add: assms(3))

theorem response_answers_request_witness:
  "\<exists>pg q. page_reach (sample_site bare_info (JObj [])) sample_answers idle (sample_page []) pg
     \<and> pg_responses pg sample_key = Some (sample_response (r_url (sample_request (js ''http''))))
     \<and> live_request False pg sample_key = Some q \<and> live_request True pg sample_key = Some q
     \<and> shows_answer (sample_site bare_info (JObj [])) sample_answers q (sample_response (r_url (sample_request (js ''http''))))"
proof -
  let ?S = "sample_site bare_info (JObj [])"
  let ?q = "sample_request (js ''http'')"
  let ?f = "\<lambda>t. \<lparr>fl_key = sample_key, fl_request = ?q, fl_sent = t\<rparr>"
  let ?step = "page_step ?S sample_answers idle"
  have p: "pg_spec (sample_page []) = sample_state []" "pg_scheme (sample_page []) = Node []" "\<not> pg_progress (sample_page []) sample_key"
    by (simp_all add: sample_page_def)
  have t1: "traffic (onExecuteClick ?S sample_key (sample_page [])) =
      (Map.empty(sample_key \<mapsto> ?q), Map.empty, (\<lambda>_. False)(sample_key := True), [] @ ?f None # [])"
    using sample_steps [OF p(1) refl, of "js ''http''"] sample_scheme p(2) by (simp add: sample_page_def)
  have i: "st_intercept ?S ?q = Some ?q" by (simp add: sample_site_def)
  obtain p2 where p2: "?step (onExecuteClick ?S sample_key (sample_page [])) p2"
    "traffic p2 = (Map.empty(sample_key \<mapsto> ?q), Map.empty, (\<lambda>_. False)(sample_key := True), [] @ ?f (Some ?q) # [])"
    using sent_traffic [OF t1, of ?S ?q sample_answers idle] i by auto
  have "sample_answers ?q (js ''1'') (Fulfilled [(js ''url'', JStr (r_url ?q))])" by (simp add: sample_answers_def)
  then obtain p3 where p3: "?step p2 p3"
    "traffic p3 = (Map.empty(sample_key \<mapsto> ?q), [sample_key \<mapsto> sample_response (r_url ?q)], (\<lambda>_. False)(sample_key := True, sample_key := False), [])"
    using answered_traffic [OF p2(2) _ _ sample_kept, where q = ?q and answers = sample_answers and guard = idle and S = ?S] by auto
  have reach: "page_reach ?S sample_answers idle (sample_page []) p3"
    by (rule page_reach.step [OF page_reach.step [OF page_reach.step [OF page_reach.start page_step.clicked [OF p(3)]] p2(1)] p3(1)])
  have "pg_responses p3 sample_key = Some (sample_response (r_url ?q))" "idle p3 sample_key"
    using p3(2) by (simp_all add: traffic_def idle_def)
  from response_answers_request [OF reach sample_plain sample_fresh this] reach this show ?thesis
    by (auto simp: sample_site_def)
qed

theorem late_response_shown_witness:
  "\<exists>pg'. page_reach (sample_site bare_info (JObj [])) sample_answers (\<lambda>_ _. True)
        (sample_page []\<lparr>pg_responses := [sample_key \<mapsto> []]\<rparr>) pg'
     \<and> pg_requests pg' sample_key = Some (sample_request (js ''https''))
     \<and> pg_responses pg' sample_key = Some (sample_response (r_url (sample_request (js ''http''))))"
proof -
  let ?S = "sample_site bare_info (JObj [])"
  let ?pg = "sample_page []\<lparr>pg_responses := [sample_key \<mapsto> []]\<rparr>"
  let ?a = "EditScheme (js ''https'') None None"
  let ?p2 = "onClearClick sample_key (onExecuteClick ?S sample_key ?pg)"
  have p: "pg_flights ?pg = []" "pg_responses ?pg sample_key \<noteq> None" "\<not> pg_progress ?pg sample_key"
    and s: "pg_spec ?pg = sample_state []" "pg_media ?pg = pg_media (sample_page [])"
    by (simp_all add: sample_page_def)
  have http: "operationScheme (pg_url ?pg) (pg_scheme ?pg) (js ''/p'') (js ''post'') = js ''http''"
    using sample_scheme [of "[]"] by (simp add: sample_page_def)
  have c1: "click_result ?S sample_key ?pg = Some (Inr (sample_request (js ''http'')))"
    using sample_click [OF s] http by simp
  have "fst (click_checks ?S sample_key ?pg)" using c1 by (simp add: click_result_def split: if_splits)
  then have p1: "pg_spec ?p2 = sample_state []" "pg_media ?p2 = pg_media (sample_page [])" "pg_scheme ?p2 = Node []"
    using sample_validated [OF s(1), of ?S]
    by (simp_all add: onClearClick_def click_eq handleValidationResultPass_def executeRequest_def split: sum.split)
      (simp_all add: sample_page_def)
  obtain e where e: "setIn (Node []) [js ''_defaultScheme''] (Leaf (js ''https'')) = Some (e :: scheme_state)"
    using setIn_defined [of "Node []" "[js ''_defaultScheme'']" "Leaf (js ''https'')"] by auto
  have p3: "pg_spec (edit ?S ?a ?p2) = sample_state []" "pg_media (edit ?S ?a ?p2) = pg_media (sample_page [])" "pg_scheme (edit ?S ?a ?p2) = e"
    using p1 e by (simp_all add: SET_SCHEME_def falsy_text_def kept_def)
  have "getIn e [js ''/p'', js ''post''] = None" using setIn_apart [OF e, of "[js ''/p'', js ''post'']"] by (simp add: inj_js)
  then have "operationScheme u e (js ''/p'') (js ''post'') = js ''https''" for u
    using setIn_same [OF e] by (simp add: operationScheme_def chosen_scheme_def js_eq_Nil)
  then have c2: "click_result ?S sample_key (edit ?S ?a ?p2) = Some (Inr (sample_request (js ''https'')))"
    using sample_click [OF p3(1,2)] p3(3) by simp
  have i: "st_intercept ?S q = Some q" for q by (simp add: sample_site_def)
  have answer: "sample_answers q (js ''1'') (Fulfilled [(js ''url'', JStr (r_url q))])" for q by (simp add: sample_answers_def)
  from late_response_shown [where answers = sample_answers, OF p c1 c2 i [of "sample_request (js ''http'')"] i [of "sample_request (js ''https'')"]
      answer [of "sample_request (js ''http'')"] sample_kept answer [of "sample_request (js ''https'')"] sample_kept] show ?thesis by blast
qed

text \<open>Credentials are left from another document: the operation requires a scheme that is no longer defined.\<close>

theorem failed_build_locks_button_witness:
  "let S = sample_site (bare_info\<lparr>o_security := Some [[js ''key'']]\<rparr>) (JObj [(js ''key'', JObj [(js ''value'', JStr (js ''s''))])])
   in pg_progress (onExecuteClick S sample_key (sample_page [])) sample_key \<and> idle (onExecuteClick S sample_key (sample_page [])) sample_key"
proof -
  define S where "S = sample_site (bare_info\<lparr>o_security := Some [[js ''key'']]\<rparr>) (JObj [(js ''key'', JObj [(js ''value'', JStr (js ''s''))])])"
  have v: "pg_spec (validateParams S sample_key (sample_page [])) = sample_state []"
    by (rule sample_validated) (simp add: sample_page_def)
  then have ok: "fst (click_checks S sample_key (sample_page []))"
    by (simp add: click_checks_def handleValidateParameters_def sample_key_def Let_def case_prod_beta body_check sample_sendable)
      (simp add: sample_state_def spec_validateBeforeExecute_def)
  have c: "credential_of (Some \<lparr>x_authorized = JObj [(js ''key'', JObj [(js ''value'', JStr (js ''s''))])], x_specSecurity = None\<rparr>) (js ''key'')
      = JObj [(js ''value'', JStr (js ''s''))]"
    by (simp add: credential_of_def object_member_def)
  have n: "object_member [] (js ''key'') = JUndefined" by (simp add: object_member_def object_prototype_def inj_js)
  have "built_request S (snd (click_checks S sample_key (sample_page []))) sample_key = Inl NoMember"
    by (simp add: built_request_def sample_key_def execute_options_def Let_def S_def [symmetric] v [unfolded sample_key_def])
      (simp add: S_def sample_site_def buildRequest_def bare_info_def build_parameters_def deduplicateParameters_def by_position_def
        own_entries_def applySecurities_def has_credentials_def required_schemes_def swagger2_scheme_def c n member_def)
  with ok have "click_result S sample_key (sample_page []) = Some (Inl NoMember)" by (simp add: click_result_def)
  moreover have "traffic_ok S sample_answers (sample_page [])"
    by (rule reach_ok [OF page_reach.start sample_plain sample_fresh])
  moreover have "\<not> pg_progress (sample_page []) sample_key" by (simp add: sample_page_def)
  ultimately have "pg_progress (onExecuteClick S sample_key (sample_page [])) sample_key
      \<and> idle (onExecuteClick S sample_key (sample_page [])) sample_key"
    using failed_build_locks_button page_reach.start by blast
  then show ?thesis by (simp add: S_def)
qed

theorem click_sends_iff_valid_witness:
  "click_result (sample_site bare_info (JObj [])) (js ''/p'', js ''post'') (sample_page [sample_param ''body'' ''pet'' False ''integer'']) \<noteq> None"
proof -
  let ?n = "sample_param ''body'' ''pet'' False ''integer''"
  let ?e = "sample_state [?n]"
  let ?pg = "sample_page [?n]"
  let ?S = "sample_site bare_info (JObj [])"
  let ?E = "engine.truncate (st_engine ?S)"
  have e: "pg_spec ?pg = ?e" "st_hash ?S = sample_hash" by (simp_all add: sample_page_def sample_site_def)
  have wi: "well_identified sample_hash (doc_parameters ?e (js ''/p'') (js ''post''))"
    and n: "?n \<in> set (doc_parameters ?e (js ''/p'') (js ''post''))"
    by (simp_all add: sample_parameters sample_identified)
  have "46 \<notin> set (js ''pet'')" "object_prototype (js ''pet'') = None" by (simp_all add: object_prototype_def js_simps)
  with bare_name_value [OF wi, of "js ''pet''"]
  have "paramToValue sample_hash ?n (parameterValues sample_hash False ?e (js ''/p'') (js ''post'')) = JUndefined"
    by (simp add: paramToValue_eq [OF wi n] sample_value text_or_undefined_def param_text_def)
  then have r: "validateParam ?E ?n (paramToValue sample_hash ?n (parameterValues sample_hash False ?e (js ''/p'') (js ''post''))) False b = Some []" for b
    by (simp add: validateParam_def sample_schema typed_schema_def absent_def has_type_def inj_js js_eq_Nil)
  then have "param_result ?E sample_hash ?e (js ''/p'') (js ''post'') False (parameterValues sample_hash False ?e (js ''/p'') (js ''post'')) ?n = Some []"
    by (simp add: param_result_def)
  with sample_reducer [OF sample_getIn sample_parameters sample_not_leaf]
  obtain e2 where e2: "param_reducer ?E sample_hash ?e (VALIDATE_PARAMS (js ''/p'') (js ''post'') False) = Some e2" by blast
  have "well_identified (st_hash ?S) (doc_parameters (pg_spec ?pg) (js ''/p'') (js ''post''))" using wi e by simp
  from click_sends_iff_valid [OF page_reach.start sample_fresh this refl] show ?thesis
    unfolding e Let_def by (simp add: e2 r sample_parameters sample_sendable [OF e(1)] del: param_reducer.simps not_None_eq)
qed

definition form_document :: spec_node where
  "form_document = Node [(js ''json'', Node [(js ''openapi'', Leaf (SStr (js ''3.0.1'')))]),
     (js ''resolvedSubtrees'', Node [(js ''paths'', Node [(js ''/p'', Node [(js ''post'', Node [(js ''requestBody'', Node [(js ''content'',
        Node [(js ''f'', Node [(js ''schema'', Node [(js ''required'', Leaf (SList [Leaf (SStr (js ''a''))]))])])])])])])])])]"

definition form_page :: page where
  "form_page = (sample_page [])\<lparr>pg_spec := (sample_state [])\<lparr>document := form_document\<rparr>,
     pg_oas3 := Node [(js ''requestData'', Node [(js ''/p'', Node [(js ''post'', Node [(js ''requestContentType'', Leaf (OStr (js ''f''))),
        (js ''bodyValue'', Node [(js ''a'', Node [(js ''value'', Leaf (OStr (js ''x'')))])])])])])]\<rparr>"

theorem required_fields_sent_witness:
  "\<exists>l. c_requestBody (execute_options (sample_site bare_info (JObj [])) form_page (js ''/p'', js ''post'')) = JObj l
     \<and> map_of l (js ''a'') = Some (JStr (js ''x''))"
proof -
  let ?fs = "[(js ''a'', Node [(js ''value'', Leaf (OStr (js ''x'')))])]"
  have d: "page_document form_page = form_document" by (simp add: form_page_def)
  have v: "spec_isOAS3 form_document"
    by (simp add: spec_isOAS3_def specJson_def form_document_def child_def) (simp add: js_simps)
  have req: "getOAS3RequiredRequestBodyContentType form_document (js ''/p'') (js ''post'') = Some [(js ''f'', [js ''a''])]"
    by (simp add: getOAS3RequiredRequestBodyContentType_def form_document_def getIn_def child_def inj_js)
  have b: "getIn (pg_oas3 form_page) (body_path (js ''/p'') (js ''post'')) = Some (Node ?fs)"
    and t: "oas3_text (pg_oas3 form_page) (js ''/p'') (js ''post'') ''requestContentType'' = Some (js ''f'')"
    by (simp_all add: form_page_def body_path_def request_data_def oas3_text_def getIn_def child_def inj_js js_eq_Nil)
  have "validateShallowRequired [(js ''f'', [js ''a''])] (js ''f'') (Some (Node ?fs)) = []"
    by (simp add: validateShallowRequired_def getIn_def child_def node_truthy_def js_eq_Nil)
  moreover have "\<not> body_required form_document (js ''/p'') (js ''post'')"
    by (simp add: body_required_def specJson_def form_document_def getIn_def child_def inj_js)
  ultimately have s: "body_sendable form_page (js ''/p'') (js ''post'')"
    by (simp add: body_sendable_def missing_fields_def d v req t b validateBeforeExecute_def)
  have "\<not> isEmptyValue (Some (Leaf (OStr (js ''x''))))" by (simp add: isEmptyValue_def node_truthy_def js_eq_Nil)
  with required_fields_sent [OF s _ b _ _ t, of "[(js ''f'', [js ''a''])]" "[js ''a'']" "js ''a''" "sample_site bare_info (JObj [])"] show ?thesis
    by (auto simp: d v req)
qed

end
