(* ===== verification/Swagger_Oauth.thy ===== *)
theory Swagger_Oauth
  imports Swagger_Execute Swagger_Url
begin

text \<open>
  The OAuth2 dialog of the Swagger UI (\<open>swagger-ui-bundle.js\<close>) with the page \<open>oauth2-redirect.html\<close> that an
  authorisation server returns to: the dialog's state and its inputs, the URL that opens the authorisation, the
  callback of the redirect page, the token requests and their answers.  The objects that have been the dialog's
  state are kept in a store, because the redirect page and the actions write to the one they were given.  The
  bundled libraries that resolve a URL and hash a text are arguments, and so are the random bytes of a click.
\<close>

section \<open>Forms and verifiers\<close>

text \<open>\<open>buildFormData\<close>: \<open>encodeURIComponent\<close> throws on an unpaired surrogate.\<close>

definition oauth_form_value :: "js_string \<Rightarrow> js_string option" where
  "oauth_form_value v = map_option (replace_text (js ''%20'') (js ''+'')) (encodeURIComponent v)"

definition form_field :: "js_string \<times> js_string \<Rightarrow> js_string option" where
  "form_field = (\<lambda>(k, v). map_option (\<lambda>e. k @ 61 # e) (oauth_form_value v))"

definition given_fields :: "(js_string \<times> js_string option) list \<Rightarrow> (js_string \<times> js_string) list" where
  "given_fields e = concat (map (\<lambda>(k, v). case v of None \<Rightarrow> [] | Some t \<Rightarrow> if t = [] then [] else [(k, t)]) e)"

definition oauth_buildFormData :: "(js_string \<times> js_string option) list \<Rightarrow> js_string option" where
  "oauth_buildFormData e = map_option (join_with [38]) (those (map form_field (given_fields e)))"

definition b64toB64UrlEncoded :: "js_string \<Rightarrow> js_string" where
  "b64toB64UrlEncoded s = filter (\<lambda>c. c \<noteq> 61) (map (\<lambda>c. if c = 43 then 45 else if c = 47 then 95 else c) s)"

definition generateCodeVerifier :: "nat list \<Rightarrow> js_string" where
  "generateCodeVerifier bytes = b64toB64UrlEncoded (base64 bytes)"

definition createCodeChallenge :: "(nat list \<Rightarrow> nat list) \<Rightarrow> js_string \<Rightarrow> js_string" where
  "createCodeChallenge sha256 v = b64toB64UrlEncoded (base64 (sha256 (utf8_bytes_of v)))"

section \<open>The state\<close>

record oauth_schema =
  flow :: "js_string option"
  authorizationUrl :: "js_string option"
  tokenUrl :: "js_string option"
  allowedScopes :: "js_string list option"
  schema_scopes :: "js_string list option"

text \<open>An object that is or was the state of the dialog.\<close>

record auth_object =
  o_name :: js_string
  o_schema :: oauth_schema
  o_scopes :: "js_string list"
  o_clientId :: js_string
  o_clientSecret :: js_string
  o_username :: js_string
  o_password :: js_string
  o_passwordType :: js_string
  o_code :: "js_string option"
  o_codeVerifier :: "js_string option"
  o_token :: "jval js_object option"

datatype oauth_callback = preAuthorize | withFormParams | withBasicAuthentication

text \<open>\<open>window.swaggerUIRedirectOauth2\<close>; \<open>w_auth\<close> points into the store.\<close>

record redirect_info =
  w_auth :: nat
  w_state :: "js_string option"
  w_redirectUrl :: js_string
  w_callback :: oauth_callback

text \<open>A call of \<open>fn.fetch\<close>, with the auth object it is made for; the method is always \<open>post\<close> and the query empty.\<close>

record token_request =
  t_url :: js_string
  t_headers :: "(js_string \<times> js_string) list"
  t_body :: js_string
  t_auth :: nat
  t_name :: js_string
  t_settled :: bool

text \<open>\<open>authorized\<close> holds the entries of OAuth2 schemes, and \<open>stored\<close> what the local storage has of them.\<close>

record oauth_page =
  objects :: "auth_object list"
  this :: nat
  pending :: "redirect_info option"
  opened :: "js_string list"
  posted :: "token_request list"
  oauth_errors :: err_state
  oauth_authorized :: "(js_string \<rightharpoonup> auth_object) option"
  stored :: "(js_string \<rightharpoonup> auth_object) option"

text \<open>
  What the page is configured with: \<open>v_window\<close> is the global \<open>name\<close>, \<open>v_server\<close> the effective value of the
  selected server, \<open>v_resolve\<close> the bundled URL parser, \<open>v_post_url\<close> what it makes of a token URL with the base URL
  and the additional query parameters, and \<open>v_exception\<close> the message of a text that is no JSON.
\<close>

record oauth_env =
  v_engine :: request_engine
  v_redirect :: "js_string option"
  v_window :: js_string
  v_server :: "js_string option"
  v_resolve :: "js_string \<Rightarrow> js_string \<Rightarrow> js_string"
  v_sha256 :: "nat list \<Rightarrow> nat list"
  v_post_url :: "js_string option \<Rightarrow> js_string"
  v_exception :: "js_string \<Rightarrow> js_string"
  v_persist :: bool
  v_clientId :: js_string
  v_clientSecret :: js_string
  v_scopes :: "(js_string + js_string list) option"
  v_scopeSeparator :: "js_string option"
  v_realm :: "js_string option"
  v_pkce :: bool
  v_basic :: bool
  v_additional :: "(js_string \<times> js_string option) list"

text \<open>A handler gives the state it leaves and whether it returns; an exception keeps what was written before.\<close>

type_synonym handled = "oauth_page \<times> bool"

definition write_auth :: "nat \<Rightarrow> (auth_object \<Rightarrow> auth_object) \<Rightarrow> oauth_page \<Rightarrow> oauth_page" where
  "write_auth i f p = p\<lparr>objects := (objects p)[i := f (objects p ! i)]\<rparr>"

definition scope_separator :: "oauth_env \<Rightarrow> js_string" where
  "scope_separator V = (case v_scopeSeparator V of None \<Rightarrow> js '' '' | Some s \<Rightarrow> str_or s (js '' ''))"

section \<open>The dialog\<close>

definition authorized_entry :: "oauth_page \<Rightarrow> js_string \<Rightarrow> auth_object option" where
  "authorized_entry p name = (case oauth_authorized p of None \<Rightarrow> None | Some m \<Rightarrow> m name)"

definition dialog_object :: "oauth_env \<Rightarrow> js_string \<Rightarrow> oauth_schema \<Rightarrow> oauth_page \<Rightarrow> auth_object" where
  "dialog_object V name sch p =
     (let f = authorized_entry p name;
          kept = (\<lambda>g d. case f of None \<Rightarrow> d | Some a \<Rightarrow> str_or (g a) d)
      in \<lparr>o_name = name, o_schema = sch,
          o_scopes = (case f of
                        Some a \<Rightarrow> o_scopes a
                      | None \<Rightarrow> (case v_scopes V of
                                   None \<Rightarrow> []
                                 | Some (Inl s) \<Rightarrow> if s = [] then [] else split_text (scope_separator V) s
                                 | Some (Inr l) \<Rightarrow> l)),
          o_clientId = kept o_clientId (v_clientId V), o_clientSecret = kept o_clientSecret (v_clientSecret V),
          o_username = kept o_username [], o_password = [], o_passwordType = kept o_passwordType (js ''basic''),
          o_code = None, o_codeVerifier = None, o_token = None\<rparr>)"

definition set_this :: "auth_object \<Rightarrow> oauth_page \<Rightarrow> oauth_page" where
  "set_this a p = p\<lparr>objects := objects p @ [a], this := length (objects p)\<rparr>"

definition this_object :: "oauth_page \<Rightarrow> auth_object" where
  "this_object p = objects p ! this p"

definition mounted :: "oauth_env \<Rightarrow> js_string \<Rightarrow> oauth_schema \<Rightarrow> oauth_page \<Rightarrow> oauth_page" where
  "mounted V name sch p = set_this (dialog_object V name sch p) p"

text \<open>\<open>setState\<close> makes a new object with the members of the old one.\<close>

datatype input = UsernameInput | PasswordInput | PasswordTypeInput | ClientIdInput | ClientSecretInput

fun with_input :: "input \<Rightarrow> js_string \<Rightarrow> auth_object \<Rightarrow> auth_object" where
  "with_input UsernameInput v a = a\<lparr>o_username := v\<rparr>"
| "with_input PasswordInput v a = a\<lparr>o_password := v\<rparr>"
| "with_input PasswordTypeInput v a = a\<lparr>o_passwordType := v\<rparr>"
| "with_input ClientIdInput v a = a\<lparr>o_clientId := v\<rparr>"
| "with_input ClientSecretInput v a = a\<lparr>o_clientSecret := v\<rparr>"

definition onInputChange :: "input \<Rightarrow> js_string \<Rightarrow> oauth_page \<Rightarrow> handled" where
  "onInputChange i v p = (set_this (with_input i v (this_object p)) p, True)"

definition onScopeChange :: "bool \<Rightarrow> js_string \<Rightarrow> oauth_page \<Rightarrow> handled" where
  "onScopeChange checked v p =
     (let a = this_object p in
      if checked \<and> v \<notin> set (o_scopes a) then (set_this (a\<lparr>o_scopes := o_scopes a @ [v]\<rparr>) p, True)
      else if \<not> checked \<and> v \<in> set (o_scopes a) then (set_this (a\<lparr>o_scopes := filter (\<lambda>e. e \<noteq> v) (o_scopes a)\<rparr>) p, True)
      else (p, True))"

text \<open>The scopes are the ones of the description the dialog was given.\<close>

definition selectScopes :: "bool \<Rightarrow> oauth_page \<Rightarrow> handled" where
  "selectScopes all p =
     (let a = this_object p in
      if all then
        (case (allowedScopes (o_schema a), schema_scopes (o_schema a)) of
           (Some l, _) \<Rightarrow> (set_this (a\<lparr>o_scopes := l\<rparr>) p, True)
         | (None, Some l) \<Rightarrow> (set_this (a\<lparr>o_scopes := l\<rparr>) p, True)
         | (None, None) \<Rightarrow> (p, False))
      else (set_this (a\<lparr>o_scopes := []\<rparr>) p, True))"

section \<open>Errors and tokens\<close>

definition oauth_error :: "js_string \<Rightarrow> js_string \<Rightarrow> js_string \<Rightarrow> js_string option \<Rightarrow> err" where
  "oauth_error name source level message =
     [js ''authId'' \<mapsto> EStr name, js ''source'' \<mapsto> EStr source, js ''level'' \<mapsto> EStr level]
       (js ''message'' := map_option EStr message)"

definition change_errors :: "err_action \<Rightarrow> oauth_page \<Rightarrow> oauth_page" where
  "change_errors a p = (case err_reducer (\<lambda>l. l) (oauth_errors p) a of None \<Rightarrow> p | Some e \<Rightarrow> p\<lparr>oauth_errors := e\<rparr>)"

definition auth_failed :: "js_string \<Rightarrow> js_string \<Rightarrow> js_string option \<Rightarrow> oauth_page \<Rightarrow> oauth_page" where
  "auth_failed name level message = change_errors (NEW_AUTH_ERR (oauth_error name (js ''auth'') level message))"

text \<open>The clearing at the start of \<open>authorize\<close> names the scheme by the global \<open>name\<close>.\<close>

definition clear_auth :: "js_string \<Rightarrow> oauth_page \<Rightarrow> oauth_page" where
  "clear_auth name = change_errors (CLEAR [(js ''authId'', EStr name), (js ''type'', EStr (js ''auth'')), (js ''source'', EStr (js ''auth''))])"

text \<open>\<open>Object.assign(\{\}, token)\<close>.\<close>

definition token_copy :: "jval \<Rightarrow> jval js_object" where
  "token_copy v =
     (case v of
        JArr xs \<Rightarrow> map (\<lambda>(i, x). (js_nat i, x)) (enumerate 0 xs)
      | JStr s \<Rightarrow> map (\<lambda>(i, c). (js_nat i, JStr [c])) (enumerate 0 s)
      | _ \<Rightarrow> assign_entries [] v)"

definition persist_oauth :: "oauth_env \<Rightarrow> oauth_page \<Rightarrow> oauth_page" where
  "persist_oauth V p =
     (if v_persist V
      then p\<lparr>stored := Some (\<lambda>k. if k = js ''__proto__'' then None else authorized_entry p k)\<rparr>
      else p)"

definition authorize_token :: "oauth_env \<Rightarrow> nat \<Rightarrow> jval \<Rightarrow> oauth_page \<Rightarrow> oauth_page" where
  "authorize_token V i tok p0 =
     (let p = write_auth i (\<lambda>a. a\<lparr>o_token := Some (token_copy tok)\<rparr>) p0;
          a = objects p ! i
      in persist_oauth V (p\<lparr>oauth_authorized := Some ((authorized_entry p)(o_name a \<mapsto> a))\<rparr>))"

text \<open>Before anything is authorised the reducer throws and keeps the state; the storage is written all the same.\<close>

definition oauth_logout :: "oauth_env \<Rightarrow> js_string \<Rightarrow> oauth_page \<Rightarrow> handled" where
  "oauth_logout V name p0 =
     (let p = clear_auth name p0 in
      (persist_oauth V (p\<lparr>oauth_authorized := map_option (\<lambda>m. m(name := None)) (oauth_authorized p)\<rparr>), True))"

section \<open>Token requests\<close>

definition token_headers :: "(js_string \<times> js_string) list" where
  "token_headers =
     [(js ''Accept'', js ''application/json, text/plain, */*''), (js ''Content-Type'', js ''application/x-www-form-urlencoded''),
      (js ''X-Requested-With'', js ''XMLHttpRequest'')]"

definition basic_authorization :: "auth_object \<Rightarrow> (js_string \<times> js_string) list" where
  "basic_authorization a = [(js ''Authorization'', js ''Basic '' @ btoa (o_clientId a @ js '':'' @ o_clientSecret a))]"

text \<open>\<open>authorizeRequest\<close>: the body is given as \<open>None\<close> when \<open>buildFormData\<close> throws.\<close>

definition authorizeRequest ::
  "oauth_env \<Rightarrow> nat \<Rightarrow> (js_string \<times> js_string) list \<Rightarrow> js_string option \<Rightarrow> oauth_page \<Rightarrow> handled" where
  "authorizeRequest V i headers body p =
     (case body of
        None \<Rightarrow> (p, False)
      | Some b \<Rightarrow>
          (p\<lparr>posted := posted p @ [\<lparr>t_url = v_post_url V (tokenUrl (o_schema (objects p ! i))),
              t_headers = token_headers @ headers, t_body = b, t_auth = i, t_name = o_name (objects p ! i), t_settled = False\<rparr>]\<rparr>, True))"

definition join_scopes :: "auth_object \<Rightarrow> js_string" where
  "join_scopes a = join_with (js '' '') (o_scopes a)"

text \<open>The fields of the forms, in the order in which the objects have them.\<close>

definition password_form :: "auth_object \<Rightarrow> (js_string \<times> js_string option) list" where
  "password_form a =
     [(js ''grant_type'', Some (js ''password'')), (js ''scope'', Some (join_scopes a)),
      (js ''username'', Some (o_username a)), (js ''password'', Some (o_password a))]
     @ (if o_passwordType a = js ''request-body''
        then (if o_clientId a \<noteq> [] then [(js ''client_id'', Some (o_clientId a))] else [])
           @ (if o_clientSecret a \<noteq> [] then [(js ''client_secret'', Some (o_clientSecret a))] else [])
        else [])"

definition code_form :: "bool \<Rightarrow> js_string \<Rightarrow> auth_object \<Rightarrow> (js_string \<times> js_string option) list" where
  "code_form with_secret redirectUrl a =
     [(js ''grant_type'', Some (js ''authorization_code'')), (js ''code'', o_code a), (js ''client_id'', Some (o_clientId a))]
     @ (if with_secret then [(js ''client_secret'', Some (o_clientSecret a))] else [])
     @ [(js ''redirect_uri'', Some redirectUrl), (js ''code_verifier'', o_codeVerifier a)]"

definition authorizePassword :: "oauth_env \<Rightarrow> nat \<Rightarrow> oauth_page \<Rightarrow> handled" where
  "authorizePassword V i p =
     (let a = objects p ! i in
      authorizeRequest V i (if o_passwordType a = js ''basic'' then basic_authorization a else [])
        (oauth_buildFormData (password_form a)) p)"

definition authorizeApplication :: "oauth_env \<Rightarrow> nat \<Rightarrow> oauth_page \<Rightarrow> handled" where
  "authorizeApplication V i p =
     (let a = objects p ! i in
      authorizeRequest V i (basic_authorization a)
        (oauth_buildFormData [(js ''grant_type'', Some (js ''client_credentials'')), (js ''scope'', Some (join_scopes a))]) p)"

definition authorizeAccessCodeWithFormParams :: "oauth_env \<Rightarrow> nat \<Rightarrow> js_string \<Rightarrow> oauth_page \<Rightarrow> handled" where
  "authorizeAccessCodeWithFormParams V i redirectUrl p =
     authorizeRequest V i [] (oauth_buildFormData (code_form True redirectUrl (objects p ! i))) p"

definition authorizeAccessCodeWithBasicAuthentication :: "oauth_env \<Rightarrow> nat \<Rightarrow> js_string \<Rightarrow> oauth_page \<Rightarrow> handled" where
  "authorizeAccessCodeWithBasicAuthentication V i redirectUrl p =
     authorizeRequest V i (basic_authorization (objects p ! i)) (oauth_buildFormData (code_form False redirectUrl (objects p ! i))) p"

section \<open>Opening the authorisation\<close>

definition code_flow :: "js_string option \<Rightarrow> bool" where
  "code_flow f \<longleftrightarrow> f = Some (js ''accessCode'') \<or> f = Some (js ''authorizationCode'') \<or> f = Some (js ''authorization_code'')"

definition response_type :: "js_string option \<Rightarrow> js_string list" where
  "response_type f =
     (if code_flow f then [js ''response_type=code'']
      else if f = Some (js ''implicit'') then [js ''response_type=token''] else [])"

text \<open>Pieces of the query: a name and an encoded value.\<close>

definition query_piece :: "js_string \<times> js_string \<Rightarrow> js_string option" where
  "query_piece = (\<lambda>(k, v). map_option (\<lambda>e. k @ 61 # e) (encodeURIComponent v))"

definition both_encoded :: "js_string \<times> js_string \<Rightarrow> js_string option" where
  "both_encoded = (\<lambda>(k, v). case (encodeURIComponent k, encodeURIComponent v) of
     (Some a, Some b) \<Rightarrow> Some (a @ 61 # b) | _ \<Rightarrow> None)"

text \<open>The values before the verifier is generated; the state is the encoded time of the click.\<close>

definition front_fields :: "oauth_env \<Rightarrow> js_string \<Rightarrow> js_string \<Rightarrow> auth_object \<Rightarrow> (js_string \<times> js_string) list" where
  "front_fields V h now a =
     [(js ''client_id'', o_clientId a), (js ''redirect_uri'', h)]
     @ (if o_scopes a \<noteq> [] then [(js ''scope'', join_with (scope_separator V) (o_scopes a))] else [])
     @ [(js ''state'', btoa now)]
     @ (case v_realm V of None \<Rightarrow> [] | Some r \<Rightarrow> [(js ''realm'', r)])"

definition front_pieces :: "oauth_env \<Rightarrow> js_string \<Rightarrow> js_string \<Rightarrow> auth_object \<Rightarrow> js_string list option" where
  "front_pieces V h now a = map_option (\<lambda>l. response_type (flow (o_schema a)) @ l) (those (map query_piece (front_fields V h now a)))"

definition challenge_pieces :: "oauth_env \<Rightarrow> js_string \<Rightarrow> js_string list" where
  "challenge_pieces V v = [js ''code_challenge='' @ createCodeChallenge (v_sha256 V) v, js ''code_challenge_method=S256'']"

definition additional_fields :: "oauth_env \<Rightarrow> (js_string \<times> js_string) list" where
  "additional_fields V = concat (map (\<lambda>(k, v). case v of None \<Rightarrow> [] | Some t \<Rightarrow> [(k, t)]) (own_entries (v_additional V)))"

definition back_pieces :: "oauth_env \<Rightarrow> js_string list option" where
  "back_pieces V = those (map both_encoded (additional_fields V))"

text \<open>A URL with a question mark gets its further fields behind an ampersand.\<close>

definition authorization_address :: "oauth_env \<Rightarrow> js_string \<Rightarrow> js_string" where
  "authorization_address V j =
     (case v_server V of
        None \<Rightarrow> sanitizeUrl (Some j)
      | Some s \<Rightarrow> if s = [] then sanitizeUrl (Some j) else v_resolve V (sanitizeUrl (Some j)) s)"

definition authorization_url :: "oauth_env \<Rightarrow> js_string \<Rightarrow> js_string list \<Rightarrow> js_string" where
  "authorization_url V j d = authorization_address V j @ (if 63 \<in> set j then [38] else [63]) @ join_with [38] d"

definition callback_for :: "oauth_env \<Rightarrow> js_string option \<Rightarrow> oauth_callback" where
  "callback_for V f =
     (if f = Some (js ''implicit'') then preAuthorize
      else if v_basic V then withBasicAuthentication else withFormParams)"

definition pkce_used :: "oauth_env \<Rightarrow> js_string option \<Rightarrow> bool" where
  "pkce_used V f \<longleftrightarrow> code_flow f \<and> v_pkce V"

text \<open>The part behind the switch: the redirect URL is configured.\<close>

definition open_authorization :: "oauth_env \<Rightarrow> js_string \<Rightarrow> js_string \<Rightarrow> nat list \<Rightarrow> oauth_page \<Rightarrow> handled" where
  "open_authorization V h now bytes p =
     (let a = this_object p; f = flow (o_schema a); y = generateCodeVerifier bytes in
      case front_pieces V h now a of
        None \<Rightarrow> (p, False)
      | Some front \<Rightarrow>
          (let p1 = (if pkce_used V f then write_auth (this p) (\<lambda>a. a\<lparr>o_codeVerifier := Some y\<rparr>) p else p) in
           case (back_pieces V, authorizationUrl (o_schema a)) of
             (Some back, Some j) \<Rightarrow>
               (p1\<lparr>pending := Some \<lparr>w_auth = this p, w_state = Some (btoa now), w_redirectUrl = h, w_callback = callback_for V f\<rparr>,
                   opened := opened p1 @ [authorization_url V j (front @ (if pkce_used V f then challenge_pieces V y else []) @ back)]\<rparr>, True)
           | _ \<Rightarrow> (p1, False)))"

definition authorize_click :: "oauth_env \<Rightarrow> js_string \<Rightarrow> nat list \<Rightarrow> oauth_page \<Rightarrow> handled" where
  "authorize_click V now bytes p0 =
     (let p = clear_auth (v_window V) p0; a = this_object p; f = flow (o_schema a) in
      if f = Some (js ''password'') then authorizePassword V (this p) p
      else if f = Some (js ''application'') \<or> f = Some (js ''clientCredentials'') \<or> f = Some (js ''client_credentials'')
      then authorizeApplication V (this p) p
      else if encodeURIComponent (o_clientId a) = None then (p, False)
      else (case v_redirect V of
              None \<Rightarrow> (change_errors (NEW_AUTH_ERR (oauth_error (o_name a) (js ''validation'') (js ''error'')
                (Some (js ''oauth2RedirectUrl configuration is not passed. Oauth2 authorization cannot be performed.'')))) p, True)
            | Some h \<Rightarrow> open_authorization V h now bytes p))"

section \<open>The redirect page\<close>

text \<open>
  \<open>run\<close> turns every field into \<open>"name":"value"\<close> and parses the joined fields as an object.  The parser below
  reads objects whose members are texts; the fields of a URL contain no quotation mark, so that another value
  can only be read when a field ends in a backslash, and then the model gives an exception.
\<close>

definition json_escape :: "code_unit \<Rightarrow> code_unit option" where
  "json_escape c =
     (if c \<in> {34, 92, 47} then Some c
      else map_of [(98, 8), (102, 12), (110, 10), (114, 13), (116, 9)] c)"

fun json_chars :: "js_string \<Rightarrow> (js_string \<times> js_string) option" where
  "json_chars [] = None"
| "json_chars (c # s) =
     (if c = 34 then Some ([], s)
      else if c < 32 then None
      else if c = 92 then
        (case s of
           [] \<Rightarrow> None
         | d # r \<Rightarrow>
             if d = 117 then
               (case r of
                  x # y # z # w # q \<Rightarrow> do {
                    a \<leftarrow> hex_value x; b \<leftarrow> hex_value y; e \<leftarrow> hex_value z; f \<leftarrow> hex_value w;
                    (t, rest) \<leftarrow> json_chars q;
                    Some ((((a * 16 + b) * 16 + e) * 16 + f) # t, rest)}
                | _ \<Rightarrow> None)
             else do {
               u \<leftarrow> json_escape d;
               (t, rest) \<leftarrow> json_chars r;
               Some (u # t, rest)})
      else do {
        (t, rest) \<leftarrow> json_chars s;
        Some (c # t, rest)})"

definition expect :: "code_unit \<Rightarrow> js_string \<Rightarrow> js_string option" where
  "expect c s = (case s of [] \<Rightarrow> None | d # r \<Rightarrow> if c = d then Some r else None)"

definition json_member :: "js_string \<Rightarrow> ((js_string \<times> js_string) \<times> js_string) option" where
  "json_member s = do {
     s1 \<leftarrow> expect 34 s;
     (k, s2) \<leftarrow> json_chars s1;
     s3 \<leftarrow> expect 58 s2;
     s4 \<leftarrow> expect 34 s3;
     (v, s5) \<leftarrow> json_chars s4;
     Some ((k, v), s5)}"

lemma json_chars_length: "json_chars s = Some (t, r) \<Longrightarrow> length r < length s"
proof (induction s arbitrary: t r rule: json_chars.induct)
  case (2 c s)
  then show ?case
    by (fastforce split: if_splits list.splits option.splits bind_splits prod.splits simp: Let_def)
qed simp

lemma expect_length: "expect c s = Some r \<Longrightarrow> length r < length s"
  by (auto simp: expect_def split: list.splits if_splits)

lemma json_member_length: "json_member s = Some (kv, r) \<Longrightarrow> length r < length s"
  by (fastforce simp: json_member_def split: bind_splits prod.splits dest!: expect_length json_chars_length)

function json_members :: "js_string \<Rightarrow> (js_string \<times> js_string) list option" where
  "json_members s =
     (case json_member s of
        None \<Rightarrow> None
      | Some (kv, []) \<Rightarrow> None
      | Some (kv, c # r) \<Rightarrow>
          if c = 44 then map_option ((#) kv) (json_members r)
          else if c = 125 \<and> r = [] then Some [kv] else None)"
  by pat_completeness auto
termination
  by (relation "measure length") (auto dest!: json_member_length)

declare json_members.simps [simp del]

definition quoted_field :: "js_string \<Rightarrow> js_string" where
  "quoted_field v =
     (let k = takeWhile (\<lambda>c. c \<noteq> 61) v in
      if k = v then 34 # v @ [34] else 34 # k @ [34, 58, 34] @ drop (Suc (length k)) v @ [34])"

text \<open>A later member replaces an earlier one of the same name; the reviver leaves the value of an empty name alone.\<close>

definition parsed_object :: "(js_string \<times> js_string) list \<Rightarrow> js_string js_object" where
  "parsed_object kvs = fold (\<lambda>(k, v). alist_put k v) kvs []"

definition revived :: "js_string \<times> js_string \<Rightarrow> (js_string \<times> js_string) option" where
  "revived = (\<lambda>(k, v). if k = [] then Some (k, v) else map_option (Pair k) (decodeURIComponent v))"

definition redirect_text :: "js_string \<Rightarrow> js_string \<Rightarrow> js_string" where
  "redirect_text frag query =
     (if contains frag (js ''code'') \<or> contains frag (js ''token'') \<or> contains frag (js ''error'') then drop 1 frag
      else drop 1 query)"

definition redirect_object :: "js_string \<Rightarrow> js_string js_object option" where
  "redirect_object q =
     (if q = [] then Some []
      else do {
        kvs \<leftarrow> json_members (join_with [44] (map quoted_field (split_on 38 q)) @ [125]);
        those (map revived (parsed_object kvs))})"

definition changed_state_message :: js_string where
  "changed_state_message = js ''Authorization may be unsafe, passed state was changed in server Passed state wasn't returned from auth server''"

definition qp_truthy :: "js_string js_object \<Rightarrow> string \<Rightarrow> js_string option" where
  "qp_truthy qp k = (case map_of qp (js k) of None \<Rightarrow> None | Some v \<Rightarrow> if v = [] then None else Some v)"

definition no_code_message :: "js_string js_object \<Rightarrow> js_string" where
  "no_code_message qp =
     (case qp_truthy qp ''error'' of
        None \<Rightarrow> js ''[Authorization failed]: no accessCode received from the server''
      | Some e \<Rightarrow> js ''['' @ e @ js '']: ''
          @ (case qp_truthy qp ''error_description'' of
               None \<Rightarrow> js ''no accessCode received from the server. '' | Some d \<Rightarrow> d @ js ''. '')
          @ (case qp_truthy qp ''error_uri'' of None \<Rightarrow> [] | Some u \<Rightarrow> js ''More info: '' @ u))"

text \<open>\<open>preAuthorizeImplicit\<close>; the printed form of the answer is the engine's.\<close>

definition preAuthorizeImplicit_action ::
  "oauth_env \<Rightarrow> nat \<Rightarrow> js_string js_object \<Rightarrow> bool \<Rightarrow> oauth_page \<Rightarrow> handled" where
  "preAuthorizeImplicit_action V i qp isValid p0 =
     (let a = objects p0 ! i; tok = JObj (map (\<lambda>(k, v). (k, JStr v)) qp); p1 = p0\<lparr>pending := None\<rparr>;
          p = (if flow (o_schema a) = Some (js ''accessCode'') \<or> isValid then p1
               else auth_failed (o_name a) (js ''warning'') (Some changed_state_message) p1)
      in (if qp_truthy qp ''error'' \<noteq> None
          then auth_failed (o_name a) (js ''error'') (Some (concat_text (engine.truncate (v_engine V)) (json_stringify (v_engine V) tok))) p
          else authorize_token V i tok p, True))"

definition call_back :: "oauth_env \<Rightarrow> redirect_info \<Rightarrow> js_string js_object \<Rightarrow> bool \<Rightarrow> oauth_page \<Rightarrow> handled" where
  "call_back V w qp isValid p =
     (case w_callback w of
        preAuthorize \<Rightarrow> preAuthorizeImplicit_action V (w_auth w) qp isValid p
      | withFormParams \<Rightarrow> authorizeAccessCodeWithFormParams V (w_auth w) (w_redirectUrl w) p
      | withBasicAuthentication \<Rightarrow> authorizeAccessCodeWithBasicAuthentication V (w_auth w) (w_redirectUrl w) p)"

text \<open>A code that was stored before counts as present, unless it is empty.\<close>

definition has_code :: "auth_object \<Rightarrow> bool" where
  "has_code a = (\<not> falsy_text (o_code a))"

definition run_redirect :: "oauth_env \<Rightarrow> js_string \<Rightarrow> js_string \<Rightarrow> oauth_page \<Rightarrow> handled" where
  "run_redirect V frag query p =
     (case (pending p, redirect_object (redirect_text frag query)) of
        (Some w, Some qp) \<Rightarrow>
          (let a = objects p ! w_auth w; isValid = (map_of qp (js ''state'') = w_state w) in
           if code_flow (flow (o_schema a)) \<and> \<not> has_code a then
             (let p1 = (if isValid then p else auth_failed (o_name a) (js ''warning'') (Some changed_state_message) p) in
              case qp_truthy qp ''code'' of
                Some c \<Rightarrow> call_back V w qp isValid
                  (write_auth (w_auth w) (\<lambda>a. a\<lparr>o_code := Some c\<rparr>) (p1\<lparr>pending := Some (w\<lparr>w_state := None\<rparr>)\<rparr>))
              | None \<Rightarrow> (auth_failed (o_name a) (js ''error'') (Some (no_code_message qp)) p1, True))
           else call_back V w qp isValid p)
      | _ \<Rightarrow> (p, False))"

section \<open>The answer of the token request\<close>

text \<open>\<open>String(error)\<close>, and what the handler of a failure adds to it.\<close>

definition error_text :: "js_string \<Rightarrow> js_string \<Rightarrow> js_string" where
  "error_text name message =
     (if name = [] then message else if message = [] then name else name @ js '': '' @ message)"

definition failure_details :: "engine \<Rightarrow> jval js_object \<Rightarrow> js_string" where
  "failure_details E others =
     (let res = object_member others (js ''response'');
          n = (if jtruthy res then member E res (js ''data'') else None);
          r = (case n of
                 None \<Rightarrow> None
               | Some v \<Rightarrow> if \<not> jtruthy v then None
                            else case v of JStr s \<Rightarrow> parse_json E s | _ \<Rightarrow> Some v);
          part = (\<lambda>v l k. case member E v (js k) of
                           Some e \<Rightarrow> if jtruthy e then js l @ concat_text E e else [] | None \<Rightarrow> [])
      in case r of
           None \<Rightarrow> []
         | Some v \<Rightarrow> part v '', error: '' ''error'' @ part v '', description: '' ''error_description'')"

definition token_refused :: "engine \<Rightarrow> jval \<Rightarrow> bool" where
  "token_refused E t \<longleftrightarrow> jtruthy t
     \<and> (list_ex (\<lambda>k. case member E t (js k) of Some e \<Rightarrow> jtruthy e | None \<Rightarrow> False) [''error'', ''parseError''])"

definition settle_request :: "oauth_env \<Rightarrow> outcome \<Rightarrow> token_request \<Rightarrow> oauth_page \<Rightarrow> oauth_page" where
  "settle_request V answer r p =
     (let E = engine.truncate (v_engine V); failed = auth_failed (t_name r) (js ''error'') in
      case answer of
        Fulfilled e \<Rightarrow>
          (let d = concat_text E (object_member e (js ''data'')) in
           case parse_json E d of
             None \<Rightarrow> failed (Some (v_exception V d)) p
           | Some t \<Rightarrow>
               if \<not> jtruthy (object_member e (js ''ok'')) then
                 failed (case object_member e (js ''statusText'') of JStr s \<Rightarrow> Some s | _ \<Rightarrow> None) p
               else if token_refused E t then failed (Some (concat_text E (json_stringify (v_engine V) t))) p
               else authorize_token V (t_auth r) t p)
      | Rejected name message others \<Rightarrow> failed (Some (error_text name message @ failure_details E others)) p)"

definition settle :: "oauth_env \<Rightarrow> nat \<Rightarrow> outcome \<Rightarrow> oauth_page \<Rightarrow> oauth_page" where
  "settle V i answer p =
     (if i < length (posted p) \<and> \<not> t_settled (posted p ! i)
      then settle_request V answer (posted p ! i) (p\<lparr>posted := (posted p)[i := (posted p ! i)\<lparr>t_settled := True\<rparr>]\<rparr>)
      else p)"

section \<open>Runs of the dialog\<close>

definition empty_page :: oauth_page where
  "empty_page = \<lparr>objects = [], this = 0, pending = None, opened = [], posted = [], oauth_errors = initial_err,
     oauth_authorized = None, stored = None\<rparr>"

text \<open>A verifier is made of 32 random bytes.\<close>

datatype event =
    Reopened
  | Typed input js_string
  | Ticked bool js_string
  | Selected bool
  | Clicked js_string "nat list"
  | Returned js_string js_string
  | Answered nat outcome
  | LoggedOut

fun event_ok :: "event \<Rightarrow> bool" where
  "event_ok (Clicked now bytes) = (length bytes = 32 \<and> list_all (\<lambda>b. b < 256) bytes)"
| "event_ok _ = True"

fun handle :: "oauth_env \<Rightarrow> js_string \<Rightarrow> oauth_schema \<Rightarrow> event \<Rightarrow> oauth_page \<Rightarrow> handled" where
  "handle V name sch Reopened p = (mounted V name sch p, True)"
| "handle V name sch (Typed i v) p = onInputChange i v p"
| "handle V name sch (Ticked b v) p = onScopeChange b v p"
| "handle V name sch (Selected b) p = selectScopes b p"
| "handle V name sch (Clicked now bytes) p = authorize_click V now bytes p"
| "handle V name sch (Returned frag query) p = run_redirect V frag query p"
| "handle V name sch (Answered i answer) p = (settle V i answer p, True)"
| "handle V name sch LoggedOut p = oauth_logout V name p"

inductive oauth_reach :: "oauth_env \<Rightarrow> js_string \<Rightarrow> oauth_schema \<Rightarrow> oauth_page \<Rightarrow> bool" for V name sch where
  mount: "oauth_reach V name sch (mounted V name sch empty_page)"
| event: "oauth_reach V name sch p \<Longrightarrow> event_ok e \<Longrightarrow> oauth_reach V name sch (fst (handle V name sch e p))"

end
