(* ===== verification/Oauth_Flow.thy ===== *)
theory Oauth_Flow
  imports Swagger_Oauth
begin

text \<open>
  What the OAuth2 dialog of the Swagger UI achieves: the forms and queries it makes read back as their tables, the
  opened URL carries what the dialog holds, the redirect page exchanges the code of the answer with the verifier
  of the opened URL, and a dialog that has a code keeps it.  The model is \<open>Swagger_Oauth\<close>.
\<close>

section \<open>Forms read back\<close>

text \<open>
  The standard for forms and queries is the parser of \<open>application/x-www-form-urlencoded\<close>: it splits at the
  ampersands, and every field at its first equals sign, and turns plus signs into blanks before decoding.
\<close>

definition plus_to_space :: "js_string \<Rightarrow> js_string" where
  "plus_to_space e = map (\<lambda>c. if c = 43 then 32 else c) e"

definition decoded :: "js_string \<Rightarrow> js_string option" where
  "decoded e = decodeURIComponent (plus_to_space e)"

definition form_pair :: "js_string \<Rightarrow> (js_string \<times> js_string) option" where
  "form_pair p =
     (let k = takeWhile (\<lambda>c. c \<noteq> 61) p in
      case (decoded k, decoded (drop (Suc (length k)) p)) of (Some a, Some b) \<Rightarrow> Some (a, b) | _ \<Rightarrow> None)"

definition form_pairs :: "js_string \<Rightarrow> (js_string \<times> js_string) list option" where
  "form_pairs t = (if t = [] then Some [] else those (map form_pair (split_on 38 t)))"

definition spells :: "js_string \<Rightarrow> js_string \<Rightarrow> bool" where
  "spells e s \<longleftrightarrow> 38 \<notin> set e \<and> 61 \<notin> set e \<and> decoded e = Some s"

definition spells_field :: "js_string \<Rightarrow> js_string \<times> js_string \<Rightarrow> bool" where
  "spells_field p kv \<longleftrightarrow> (\<exists>ek ev. p = ek @ 61 # ev \<and> spells ek (fst kv) \<and> spells ev (snd kv))"

lemma form_pair_spells: "spells_field p kv \<Longrightarrow> form_pair p = Some kv \<and> 38 \<notin> set p"
  by (auto simp: spells_field_def spells_def form_pair_def Let_def takeWhile_append)

lemma form_pairs_join:
  assumes "list_all2 spells_field ps kvs"
  shows "form_pairs (join_with [38] ps) = Some kvs"
proof (cases "ps = []")
  case False
  then obtain p qs where ps: "ps = p # qs" by (cases ps) auto
  with assms have "p \<noteq> []" by (auto simp: spells_field_def list_all2_Cons1)
  with ps have "join_with [38] ps \<noteq> []" by (cases qs) auto
  moreover have "list_all (\<lambda>p. 38 \<notin> set p) ps"
    using assms by (induction rule: list_all2_induct) (auto dest: form_pair_spells)
  then have "split_on 38 (join_with [38] ps) = ps"
    using False by (intro split_on_join) (auto simp: list_all_iff)
  moreover have "those (map form_pair ps) = Some kvs"
    using assms by (induction rule: list_all2_induct) (auto dest: form_pair_spells)
  ultimately show ?thesis by (simp add: form_pairs_def)
qed (use assms in \<open>simp add: form_pairs_def\<close>)

lemma plus_plain: "43 \<notin> set e \<Longrightarrow> plus_to_space e = e"
  unfolding plus_to_space_def by (rule map_idI) auto

lemma plus_not_component: "\<not> uri_component_unit 43"
  by (simp add: uri_component_unit_def uri_unescaped_def js_simps)

lemma encoded_spells:
  assumes "well_formed s" "encodeURIComponent s = Some e"
  shows "spells e s"
proof -
  have "43 \<notin> set e" "38 \<notin> set e" "61 \<notin> set e"
    using encode_units [OF assms] plus_not_component not_component_units by blast+
  with assms uri.dec_enc show ?thesis by (simp add: spells_def decoded_def plus_plain)
qed

lemma plus_to_space_simps [simp]:
  "plus_to_space [] = []" "plus_to_space (a @ b) = plus_to_space a @ plus_to_space b"
  "plus_to_space (c # b) = (if c = 43 then 32 else c) # plus_to_space b"
  by (simp_all add: plus_to_space_def)

lemma percent_not_blank:
  assumes "b < 256" "b \<noteq> 32"
  shows "replace_text (js ''%20'') v (percent b @ s) = percent b @ replace_text (js ''%20'') v s"
proof -
  have "hex_digit (b div 16) \<noteq> 37" "hex_digit (b mod 16) \<noteq> 37" by (simp_all add: hex_digit_def)
  moreover have "\<not> (hex_digit (b div 16) = 50 \<and> hex_digit (b mod 16) = 48)"
  proof
    assume "hex_digit (b div 16) = 50 \<and> hex_digit (b mod 16) = 48"
    then have "b div 16 = 2" "b mod 16 = 0" by (auto simp: hex_digit_def split: if_splits)
    then show False using assms(2) div_mult_mod_eq [of b 16] by simp
  qed
  ultimately show ?thesis by (simp add: percent_def replace_skip js_simps)
qed

lemma utf8_no_blank: "p < 0x110000 \<Longrightarrow> p \<noteq> 32 \<Longrightarrow> list_all (\<lambda>b. b < 256 \<and> b \<noteq> 32) (utf8 p)"
  by (auto simp: utf8_def)

lemma percent_point_not_blank:
  assumes "p < 0x110000" "p \<noteq> 32"
  shows "replace_text (js ''%20'') v (percent_point p @ s) = percent_point p @ replace_text (js ''%20'') v s"
proof -
  have "replace_text (js ''%20'') v (concat (map percent bs) @ s) = concat (map percent bs) @ replace_text (js ''%20'') v s"
    if "list_all (\<lambda>b. b < 256 \<and> b \<noteq> 32) bs" for bs
    using that by (induction bs) (simp_all add: percent_not_blank)
  with utf8_no_blank [OF assms] show ?thesis by (simp add: percent_point_def)
qed

lemma percent_plain: "b < 256 \<Longrightarrow> plus_to_space (percent b) = percent b"
  by (rule plus_plain) (auto simp: percent_def hex_digit_def split: if_splits)

lemma percent_point_plain: "p < 0x110000 \<Longrightarrow> plus_to_space (percent_point p) = percent_point p"
  using percent_point_units [of 43 p] plus_not_component by (intro plus_plain) blast

lemma oauth_form_value_decodes:
  "well_formed s \<Longrightarrow> encodeURIComponent s = Some e \<Longrightarrow> decoded (replace_text (js ''%20'') (js ''+'') e) = Some s"
proof (induction s arbitrary: e rule: encodeURIComponent.induct)
  case 1
  then show ?case by (simp add: replace_Nil decoded_def)
next
  case (2 c s)
  let ?r = "replace_text (js ''%20'') (js ''+'')"
  have point: "decoded (?r (percent_point p @ t)) = map_option (\<lambda>r. utf16 p @ r) (decoded (?r t))"
    if p: "is_scalar p" "p < 0x110000" "p \<noteq> 32" for p t
    using p by (simp add: percent_point_not_blank decoded_def percent_point_plain decode_percent_point)
  show ?case
  proof (cases "uri_unescaped c")
    case True
    then obtain f where f: "encodeURIComponent s = Some f" "e = c # f" using "2.prems" by auto
    have "c \<noteq> 37" "c \<noteq> 43" "\<not> is_high c" using True by (auto simp: uri_unescaped_def js_simps is_high_def)
    then have "?r e = c # ?r f" "well_formed s" using f(2) "2.prems"(1) by (simp_all add: replace_skip js_simps)
    with "2.IH"(1) [OF True _ f(1)] \<open>c \<noteq> 37\<close> \<open>c \<noteq> 43\<close> show ?thesis by (simp add: decoded_def)
  next
    case esc: False
    show ?thesis
    proof (cases "is_high c")
      case True
      then obtain d s' where s: "s = d # s'" "is_low d" "well_formed s'" using "2.prems"(1) by (cases s) auto
      let ?p = "0x10000 + (c - 0xD800) * 0x400 + (d - 0xDC00)"
      have low: "\<not> is_low c" using True by (auto simp: is_high_def is_low_def)
      obtain f where f: "encodeURIComponent s' = Some f" "e = percent_point ?p @ f"
        using "2.prems"(2) esc True low s by auto
      note pair = surrogate_pair [OF True s(2)]
      have "decoded (?r f) = Some s'" using "2.IH"(2) [OF esc low True s(1) s(2,3) f(1)] .
      with point [OF pair(1,3), of f] f(2) pair(2) s(1) show ?thesis by simp
    next
      case False
      then have c: "\<not> is_low c" "c < 0x10000" "well_formed s" using "2.prems"(1) by auto
      obtain f where f: "encodeURIComponent s = Some f" "e = percent_point c @ f"
        using "2.prems"(2) esc False c(1) by auto
      have IH: "decoded (?r f) = Some s" using "2.IH"(3) [OF esc c(1) False c(3) f(1)] .
      show ?thesis
      proof (cases "c = 32")
        case True
        have "percent_point 32 = js ''%20''" by (simp add: percent_point_def utf8_def percent_def hex_digit_def js_simps)
        then have "?r e = js ''+'' @ ?r f" using f(2) True replace_hit [of "js ''%20''" "js ''+''" f] by (simp add: js_def)
        with IH True show ?thesis by (simp add: decoded_def js_simps)
      next
        case ne: False
        have sc: "is_scalar c" "utf16 c = [c]" "c < 0x110000" using c(1,2) False
          by (auto simp: is_scalar_def is_high_def is_low_def utf16_def)
        with point [OF sc(1,3) ne, of f] IH f(2) show ?thesis by simp
      qed
    qed
  qed
qed

lemma split_text_subset: "r \<in> set (split_text sep s) \<Longrightarrow> set r \<subseteq> set s"
proof (induction sep s arbitrary: r rule: split_text.induct)
  case (2 sep c s)
  obtain q qs where "split_text sep s = q # qs" by (cases "split_text sep s") auto
  then show ?case using 2 by (fastforce split: if_splits dest: in_set_dropD)
qed simp

lemma set_replace_text: "set (replace_text sep v s) \<subseteq> set v \<union> set s"
  using set_join_with [of v "split_text sep s"] split_text_subset by (fastforce simp: replace_text_def)

lemma oauth_form_value_spells:
  assumes "well_formed s"
  obtains e where "oauth_form_value s = Some e" "spells e s"
proof -
  obtain e where e: "encodeURIComponent s = Some e" using encode_decode [OF assms] by blast
  have "38 \<notin> set (js ''+'')" "61 \<notin> set (js ''+'')" by (simp_all add: js_simps)
  with encoded_spells [OF assms e] set_replace_text [of "js ''%20''" "js ''+''" e]
  have "38 \<notin> set (replace_text (js ''%20'') (js ''+'') e)" "61 \<notin> set (replace_text (js ''%20'') (js ''+'') e)"
    by (auto simp: spells_def)
  with oauth_form_value_decodes [OF assms e] e that show thesis by (simp add: oauth_form_value_def spells_def)
qed

lemma plain_spells: "list_all uri_unescaped k \<Longrightarrow> spells k k"
proof -
  assume k: "list_all uri_unescaped k"
  have "\<not> uri_unescaped 38" "\<not> uri_unescaped 61" "\<not> uri_unescaped 43" by (simp_all add: uri_unescaped_def js_simps)
  with k have "38 \<notin> set k" "61 \<notin> set k" "43 \<notin> set k" by (auto simp: list_all_iff)
  moreover have "decodeURIComponent k = Some k"
    using k by (induction k) (auto simp: uri_unescaped_def js_simps)
  ultimately show "spells k k" by (simp add: spells_def decoded_def plus_plain)
qed

definition readable :: "js_string \<times> js_string \<Rightarrow> bool" where
  "readable kv \<longleftrightarrow> list_all uri_unescaped (fst kv) \<and> well_formed (snd kv)"

lemma fields_read:
  assumes "\<And>kv. P kv \<Longrightarrow> \<exists>p. f kv = Some p \<and> spells_field p kv" and "list_all P kvs"
  shows "\<exists>ps. those (map f kvs) = Some ps \<and> list_all2 spells_field ps kvs"
  using assms(2)
proof (induction kvs)
  case (Cons kv kvs)
  with assms(1) [of kv] show ?case by auto
qed simp

lemma form_field_read: "readable kv \<Longrightarrow> \<exists>p. form_field kv = Some p \<and> spells_field p kv"
  by (cases kv) (auto simp: readable_def form_field_def spells_field_def intro: plain_spells elim!: oauth_form_value_spells)

lemma query_piece_read: "readable kv \<Longrightarrow> \<exists>p. query_piece kv = Some p \<and> spells_field p kv"
proof (cases kv)
  case (Pair k v)
  moreover assume "readable kv"
  moreover from this Pair obtain e where "encodeURIComponent v = Some e" using encode_decode [of v] by (auto simp: readable_def)
  ultimately show ?thesis by (auto simp: readable_def query_piece_def spells_field_def intro: plain_spells encoded_spells)
qed

lemma both_encoded_read:
  "well_formed (fst kv) \<and> well_formed (snd kv) \<Longrightarrow> \<exists>p. both_encoded kv = Some p \<and> spells_field p kv"
proof -
  assume wf: "well_formed (fst kv) \<and> well_formed (snd kv)"
  then obtain a b where "encodeURIComponent (fst kv) = Some a" "encodeURIComponent (snd kv) = Some b"
    using encode_decode by metis
  with wf show ?thesis by (cases kv) (auto simp: both_encoded_def spells_field_def intro: encoded_spells)
qed

lemma oauth_buildFormData_reads:
  assumes "list_all readable (given_fields e)"
  obtains b where "oauth_buildFormData e = Some b" "form_pairs b = Some (given_fields e)"
  using fields_read [OF form_field_read assms] form_pairs_join by (auto simp: oauth_buildFormData_def)

lemma base64_units: "c \<in> set (base64 bs) \<Longrightarrow> c = 61 \<or> (\<exists>n. c = base64_digit n)"
  by (induction bs rule: base64.induct) auto

lemma base64_digit_unit: "base64_digit n \<in> {43, 47} \<or> uri_unescaped (base64_digit n)"
  by (auto simp: base64_digit_def uri_unescaped_def)

lemma base64_url_units: "list_all uri_unescaped (b64toB64UrlEncoded (base64 bs))"
proof -
  have "uri_unescaped 45" "uri_unescaped 95" by (simp_all add: uri_unescaped_def js_simps)
  then show ?thesis
    using base64_units [of _ bs] base64_digit_unit by (fastforce simp: b64toB64UrlEncoded_def list_all_iff)
qed

lemma ascii_well_formed: "list_all (\<lambda>c. c < 128) s \<Longrightarrow> well_formed s"
  by (induction s) (auto simp: is_high_def is_low_def)

lemma btoa_well_formed: "well_formed (btoa s)"
proof (rule ascii_well_formed)
  have "base64_digit n < 128" for n by (auto simp: base64_digit_def)
  then show "list_all (\<lambda>c. c < 128) (btoa s)"
    using base64_units by (fastforce simp: btoa_def list_all_iff)
qed

section \<open>The authorisation URL\<close>

lemma change_errors_keeps [simp]:
  "objects (change_errors e p) = objects p" "this (change_errors e p) = this p" "pending (change_errors e p) = pending p"
  "opened (change_errors e p) = opened p" "posted (change_errors e p) = posted p"
  "oauth_authorized (change_errors e p) = oauth_authorized p"
  by (simp_all add: change_errors_def split: option.split)

lemma report_keeps [simp]:
  "objects (auth_failed n l m p) = objects p" "this (auth_failed n l m p) = this p" "pending (auth_failed n l m p) = pending p"
  "opened (auth_failed n l m p) = opened p" "posted (auth_failed n l m p) = posted p"
  "objects (clear_auth n p) = objects p" "this (clear_auth n p) = this p" "pending (clear_auth n p) = pending p"
  "opened (clear_auth n p) = opened p" "posted (clear_auth n p) = posted p"
  by (simp_all add: auth_failed_def clear_auth_def)

lemma write_auth_keeps [simp]:
  "this (write_auth i f p) = this p" "pending (write_auth i f p) = pending p"
  "opened (write_auth i f p) = opened p" "posted (write_auth i f p) = posted p"
  "length (objects (write_auth i f p)) = length (objects p)"
  by (simp_all add: write_auth_def)

text \<open>What the URL says, and what the texts of the dialog must be like.\<close>

definition authorization_table :: "oauth_env \<Rightarrow> js_string \<Rightarrow> js_string \<Rightarrow> js_string \<Rightarrow> auth_object \<Rightarrow> (js_string \<times> js_string) list" where
  "authorization_table V h now y a =
     (js ''response_type'', if code_flow (flow (o_schema a)) then js ''code'' else js ''token'')
     # front_fields V h now a
     @ (if pkce_used V (flow (o_schema a))
        then [(js ''code_challenge'', createCodeChallenge (v_sha256 V) y), (js ''code_challenge_method'', js ''S256'')] else [])
     @ additional_fields V"

definition sendable :: "oauth_env \<Rightarrow> js_string \<Rightarrow> auth_object \<Rightarrow> bool" where
  "sendable V h a \<longleftrightarrow> well_formed (o_clientId a) \<and> well_formed h
     \<and> well_formed (join_with (scope_separator V) (o_scopes a))
     \<and> (case v_realm V of None \<Rightarrow> True | Some r \<Rightarrow> well_formed r)
     \<and> list_all (\<lambda>kv. well_formed (fst kv) \<and> well_formed (snd kv)) (additional_fields V)"

lemma list_all_unescaped_names [simp]:
  "list_all uri_unescaped (js ''client_id'')" "list_all uri_unescaped (js ''redirect_uri'')" "list_all uri_unescaped (js ''scope'')"
  "list_all uri_unescaped (js ''state'')" "list_all uri_unescaped (js ''realm'')" "list_all uri_unescaped (js ''response_type'')"
  "list_all uri_unescaped (js ''code'')" "list_all uri_unescaped (js ''token'')" "list_all uri_unescaped (js ''grant_type'')"
  "list_all uri_unescaped (js ''client_secret'')" "list_all uri_unescaped (js ''code_verifier'')"
  "list_all uri_unescaped (js ''code_challenge'')" "list_all uri_unescaped (js ''code_challenge_method'')"
  "list_all uri_unescaped (js ''S256'')" "list_all uri_unescaped (js ''authorization_code'')"
  by (simp_all add: js_simps uri_unescaped_def)

lemma plain_field:
  "list_all uri_unescaped k \<Longrightarrow> list_all uri_unescaped v \<Longrightarrow> spells_field (k @ 61 # v) (k, v)"
  by (auto simp: spells_field_def intro!: exI plain_spells)

lemma front_read:
  assumes "sendable V h a"
  shows "\<exists>ps. those (map query_piece (front_fields V h now a)) = Some ps \<and> list_all2 spells_field ps (front_fields V h now a)"
  using assms by (intro fields_read [OF query_piece_read])
    (auto simp: front_fields_def readable_def sendable_def btoa_well_formed split: option.splits)

lemma back_read:
  assumes "sendable V h a"
  shows "\<exists>ps. back_pieces V = Some ps \<and> list_all2 spells_field ps (additional_fields V)"
proof -
  have "list_all (\<lambda>kv. well_formed (fst kv) \<and> well_formed (snd kv)) (additional_fields V)"
    using assms by (simp only: sendable_def)
  from fields_read [of "\<lambda>kv. well_formed (fst kv) \<and> well_formed (snd kv)", OF both_encoded_read this]
  show ?thesis unfolding back_pieces_def .
qed

lemma challenge_read:
  "list_all2 spells_field (challenge_pieces V y) [(js ''code_challenge'', createCodeChallenge (v_sha256 V) y), (js ''code_challenge_method'', js ''S256'')]"
proof -
  have "js ''code_challenge='' = js ''code_challenge'' @ [61]"
    "js ''code_challenge_method=S256'' = js ''code_challenge_method'' @ 61 # js ''S256''" by (simp_all add: js_simps)
  then show ?thesis
    by (simp add: challenge_pieces_def plain_field createCodeChallenge_def base64_url_units)
qed

lemma response_read:
  "f = Some (js ''implicit'') \<or> code_flow f \<Longrightarrow>
   list_all2 spells_field (response_type f) [(js ''response_type'', if code_flow f then js ''code'' else js ''token'')]"
proof -
  assume f: "f = Some (js ''implicit'') \<or> code_flow f"
  have "js ''response_type=code'' = js ''response_type'' @ 61 # js ''code''"
    "js ''response_type=token'' = js ''response_type'' @ 61 # js ''token''" by (simp_all add: js_simps)
  with f show ?thesis by (auto simp: response_type_def plain_field)
qed

definition kept_object :: "oauth_env \<Rightarrow> nat list \<Rightarrow> auth_object \<Rightarrow> auth_object" where
  "kept_object V bytes a =
     (if pkce_used V (flow (o_schema a)) then a\<lparr>o_codeVerifier := Some (generateCodeVerifier bytes)\<rparr> else a)"

lemma authorize_opens:
  assumes "flow (o_schema a) = Some (js ''implicit'') \<or> code_flow (flow (o_schema a))"
    and "this_object p = a" and "this p < length (objects p)" and "authorizationUrl (o_schema a) = Some j"
    and "v_redirect V = Some h" and "sendable V h a"
  obtains p' q where "authorize_click V now bytes p = (p', True)"
    "opened p' = opened p @ [authorization_address V j @ (if 63 \<in> set j then [38] else [63]) @ q]"
    "form_pairs q = Some (authorization_table V h now (generateCodeVerifier bytes) a)"
    "pending p' = Some \<lparr>w_auth = this p, w_state = Some (btoa now), w_redirectUrl = h, w_callback = callback_for V (flow (o_schema a))\<rparr>"
    "objects p' = (objects p)[this p := kept_object V bytes a]" "posted p' = posted p"
proof -
  let ?f = "flow (o_schema a)" and ?y = "generateCodeVerifier bytes" and ?c = "clear_auth (v_window V) p"
  have c: "this_object ?c = a" "this ?c = this p" using assms(2) by (simp_all add: this_object_def)
  have other: "?f \<noteq> Some (js ''password'')" "?f \<noteq> Some (js ''application'')" "?f \<noteq> Some (js ''clientCredentials'')"
    "?f \<noteq> Some (js ''client_credentials'')"
    using assms(1) by (auto simp: code_flow_def inj_js)
  obtain front where front: "those (map query_piece (front_fields V h now a)) = Some front"
    "list_all2 spells_field front (front_fields V h now a)" using front_read [OF assms(6)] by blast
  obtain rear where rear: "back_pieces V = Some rear" "list_all2 spells_field rear (additional_fields V)"
    using back_read [OF assms(6)] by blast
  have client: "encodeURIComponent (o_clientId a) \<noteq> None" using assms(6) encode_decode by (metis option.discI sendable_def)
  let ?d = "(response_type ?f @ front) @ (if pkce_used V ?f then challenge_pieces V ?y else []) @ rear"
  have "list_all2 spells_field ?d
      ([(js ''response_type'', if code_flow ?f then js ''code'' else js ''token'')] @ front_fields V h now a
       @ (if pkce_used V ?f
          then [(js ''code_challenge'', createCodeChallenge (v_sha256 V) ?y), (js ''code_challenge_method'', js ''S256'')] else [])
       @ additional_fields V)"
    unfolding append_assoc
    by (intro list_all2_appendI response_read [OF assms(1)] front(2) rear(2)) (simp add: challenge_read)
  then have q: "form_pairs (join_with [38] ?d) = Some (authorization_table V h now ?y a)"
    using form_pairs_join by (simp add: authorization_table_def)
  obtain p' where p': "authorize_click V now bytes p = (p', True)"
    "opened p' = opened p @ [authorization_url V j ?d]"
    "pending p' = Some \<lparr>w_auth = this p, w_state = Some (btoa now), w_redirectUrl = h, w_callback = callback_for V ?f\<rparr>"
    "objects p' = (objects p)[this p := kept_object V bytes a]" "posted p' = posted p"
    using other client front(1) rear(1) assms(3-5) c
    by (auto simp: authorize_click_def open_authorization_def front_pieces_def Let_def write_auth_def this_object_def kept_object_def)
  show thesis
    by (rule that [of p' "join_with [38] ?d"]) (use p' q in \<open>simp_all add: authorization_url_def\<close>)
qed

text \<open>C14. Pressing Authorize in a dialog of the implicit or of an authorisation code flow opens one URL: the
  sanitised authorisation URL, and behind it a query from which the server reads, in this order, the response
  type, the client, the redirect URL, the scopes, the state that is kept for the comparison, the realm, the
  challenge of the verifier that is kept for the exchange, and the additional parameters, whatever characters
  their well-formed values contain.\<close>

theorem authorization_url_reads_back:
  assumes "flow (o_schema a) = Some (js ''implicit'') \<or> code_flow (flow (o_schema a))"
    and "this_object p = a" and "this p < length (objects p)" and "authorizationUrl (o_schema a) = Some j"
    and "v_redirect V = Some h" and "sendable V h a"
  shows "\<exists>p' q. authorize_click V now bytes p = (p', True)
     \<and> opened p' = opened p @ [authorization_address V j @ (if 63 \<in> set j then [38] else [63]) @ q]
     \<and> form_pairs q = Some (authorization_table V h now (generateCodeVerifier bytes) a)
     \<and> pending p' = Some \<lparr>w_auth = this p, w_state = Some (btoa now), w_redirectUrl = h, w_callback = callback_for V (flow (o_schema a))\<rparr>
     \<and> o_codeVerifier (objects p' ! this p)
         = (if pkce_used V (flow (o_schema a)) then Some (generateCodeVerifier bytes) else o_codeVerifier a)"
proof -
  obtain p' q where "authorize_click V now bytes p = (p', True)"
    "opened p' = opened p @ [authorization_address V j @ (if 63 \<in> set j then [38] else [63]) @ q]"
    "form_pairs q = Some (authorization_table V h now (generateCodeVerifier bytes) a)"
    "pending p' = Some \<lparr>w_auth = this p, w_state = Some (btoa now), w_redirectUrl = h, w_callback = callback_for V (flow (o_schema a))\<rparr>"
    "objects p' = (objects p)[this p := kept_object V bytes a]"
    using authorize_opens [OF assms] by blast
  then show ?thesis using assms(3) by (intro exI [of _ p'] exI [of _ q]) (simp add: kept_object_def)
qed

section \<open>The exchange of the code\<close>

definition json_plain :: "code_unit \<Rightarrow> bool" where
  "json_plain c \<longleftrightarrow> 32 \<le> c \<and> c \<noteq> 34 \<and> c \<noteq> 92"

lemma json_chars_plain: "list_all json_plain t \<Longrightarrow> json_chars (t @ 34 # r) = Some (t, r)"
  by (induction t) (auto simp: json_plain_def)

lemma json_member_plain:
  "list_all json_plain k \<Longrightarrow> list_all json_plain v \<Longrightarrow> json_member (34 # k @ 34 # 58 # 34 # v @ 34 # r) = Some ((k, v), r)"
  by (simp add: json_member_def expect_def json_chars_plain)

definition written_field :: "js_string \<times> js_string \<Rightarrow> js_string" where
  "written_field kv = fst kv @ 61 # snd kv"

definition plain_pair :: "js_string \<times> js_string \<Rightarrow> bool" where
  "plain_pair kv \<longleftrightarrow> list_all json_plain (fst kv) \<and> 61 \<notin> set (fst kv) \<and> list_all json_plain (snd kv)"

lemma quoted_plain: "plain_pair kv \<Longrightarrow> quoted_field (written_field kv) = 34 # fst kv @ 34 # 58 # 34 # snd kv @ [34]"
  by (simp add: plain_pair_def written_field_def quoted_field_def Let_def takeWhile_append)

lemma json_members_plain:
  "kvs \<noteq> [] \<Longrightarrow> list_all plain_pair kvs \<Longrightarrow>
   json_members (join_with [44] (map (quoted_field \<circ> written_field) kvs) @ [125]) = Some kvs"
proof (induction kvs)
  case (Cons kv kvs)
  have m: "json_member (34 # fst kv @ 34 # 58 # 34 # snd kv @ 34 # r) = Some (kv, r)" for r
    using Cons.prems(2) json_member_plain [of "fst kv" "snd kv" r] by (simp add: plain_pair_def)
  show ?case
  proof (cases kvs)
    case Nil
    then show ?thesis using Cons.prems(2) m by (subst json_members.simps) (simp add: quoted_plain)
  next
    case (Cons x xs)
    then show ?thesis using Cons.IH Cons.prems(2) m by (subst json_members.simps) (simp add: quoted_plain comp_def)
  qed
qed simp

lemma unescaped_json: "uri_component_unit c \<Longrightarrow> json_plain c"
  by (auto simp: uri_component_unit_def uri_unescaped_def json_plain_def js_simps)

text \<open>A name and a value as a server sends them: the name needs no escape, and the value is encoded.\<close>

definition sent_pair :: "js_string \<times> js_string \<Rightarrow> bool" where
  "sent_pair kv \<longleftrightarrow> readable kv \<and> fst kv \<noteq> []"

lemma sent_pair_encoded:
  assumes "sent_pair kv"
  obtains e where "query_piece kv = Some (written_field (fst kv, e))" "plain_pair (fst kv, e)"
    "revived (fst kv, e) = Some kv" "38 \<notin> set (written_field (fst kv, e))"
proof -
  obtain e where e: "encodeURIComponent (snd kv) = Some e" "decodeURIComponent e = Some (snd kv)"
    using assms encode_decode [of "snd kv"] by (auto simp: sent_pair_def readable_def)
  have "list_all uri_component_unit e" "list_all uri_component_unit (fst kv)"
    using assms encode_units [OF _ e(1)] by (auto simp: sent_pair_def readable_def list_all_iff uri_component_unit_def)
  moreover from this have "61 \<notin> set (fst kv)" "38 \<notin> set (fst kv)" "38 \<notin> set e"
    using not_component_units by (auto simp: list_all_iff)
  ultimately have "plain_pair (fst kv, e)" "38 \<notin> set (written_field (fst kv, e))"
    using unescaped_json by (auto simp: plain_pair_def written_field_def list_all_iff)
  moreover have "query_piece kv = Some (written_field (fst kv, e))" using e(1) by (cases kv) (simp add: query_piece_def written_field_def)
  moreover have "revived (fst kv, e) = Some kv" using assms e(2) by (cases kv) (simp add: revived_def sent_pair_def)
  ultimately show thesis by (intro that)
qed

lemma sent_pairs_encoded:
  "list_all sent_pair kvs \<Longrightarrow> those (map query_piece kvs) = Some ps \<Longrightarrow>
   \<exists>es. ps = map written_field es \<and> list_all plain_pair es \<and> those (map revived es) = Some kvs
     \<and> map fst es = map fst kvs \<and> list_all (\<lambda>p. 38 \<notin> set p) ps"
proof (induction kvs arbitrary: ps)
  case (Cons kv kvs)
  then have kv: "sent_pair kv" by simp
  obtain e where e: "query_piece kv = Some (written_field (fst kv, e))" "plain_pair (fst kv, e)"
    "revived (fst kv, e) = Some kv" "38 \<notin> set (written_field (fst kv, e))" by (rule sent_pair_encoded [OF kv])
  with Cons.prems(2) obtain qs where qs: "those (map query_piece kvs) = Some qs" "ps = written_field (fst kv, e) # qs" by auto
  obtain es where "qs = map written_field es" "list_all plain_pair es" "those (map revived es) = Some kvs"
    "map fst es = map fst kvs" "list_all (\<lambda>p. 38 \<notin> set p) qs"
    using Cons.IH [OF _ qs(1)] Cons.prems(1) by auto
  with e qs(2) show ?case by (intro exI [of _ "(fst kv, e) # es"]) simp
qed simp

lemma parsed_distinct: "distinct (map fst (l @ kvs)) \<Longrightarrow> fold (\<lambda>(k, v). alist_put k v) kvs l = l @ kvs"
proof (induction kvs arbitrary: l)
  case (Cons kv kvs)
  then show ?case by (cases kv) (simp add: alist_put_new)
qed simp

lemma redirect_object_reads:
  assumes "kvs \<noteq> []" "distinct (map fst kvs)" "list_all sent_pair kvs" "those (map query_piece kvs) = Some ps"
  shows "redirect_object (join_with [38] ps) = Some kvs"
proof -
  from sent_pairs_encoded [OF assms(3,4)] obtain es where es: "ps = map written_field es" "list_all plain_pair es"
    "those (map revived es) = Some kvs" "map fst es = map fst kvs" "list_all (\<lambda>p. 38 \<notin> set p) ps" by blast
  then have ne: "es \<noteq> []" "ps \<noteq> []" using assms(1) by auto
  then obtain e es' where "es = e # es'" by (cases es) auto
  then have "join_with [38] ps \<noteq> []" using es(1) by (cases es') (simp_all add: written_field_def)
  moreover have "split_on 38 (join_with [38] ps) = ps" using ne(2) es(5) by (intro split_on_join) (auto simp: list_all_iff)
  moreover have "json_members (join_with [44] (map quoted_field ps) @ [125]) = Some es"
    using json_members_plain [OF ne(1) es(2)] es(1) by simp
  moreover have "parsed_object es = es" using parsed_distinct [of "[]" es] es(4) assms(2) by (simp add: parsed_object_def)
  ultimately show ?thesis using es(3) by (simp add: redirect_object_def)
qed

lemma sent_pairs_total: "list_all sent_pair kvs \<Longrightarrow> \<exists>ps. those (map query_piece kvs) = Some ps"
  by (induction kvs) (auto elim: sent_pair_encoded)

text \<open>Posting the form of a code.\<close>

definition formable :: "js_string \<Rightarrow> auth_object \<Rightarrow> bool" where
  "formable h a \<longleftrightarrow> well_formed h \<and> well_formed (o_clientId a) \<and> well_formed (o_clientSecret a)
     \<and> (case o_code a of None \<Rightarrow> True | Some c \<Rightarrow> well_formed c)
     \<and> (case o_codeVerifier a of None \<Rightarrow> True | Some v \<Rightarrow> well_formed v)"

lemma given_fields_readable:
  "list_all (\<lambda>(k, v). list_all uri_unescaped k \<and> (case v of None \<Rightarrow> True | Some t \<Rightarrow> well_formed t)) e
   \<Longrightarrow> list_all readable (given_fields e)"
  by (induction e) (auto simp: given_fields_def readable_def split: option.splits)

lemma well_formed_grant [simp]: "well_formed (js ''authorization_code'')"
  by (simp add: js_simps is_high_def is_low_def)

lemma code_form_readable: "formable h a \<Longrightarrow> list_all readable (given_fields (code_form b h a))"
  by (rule given_fields_readable) (simp add: formable_def code_form_def)

lemma exchange_posted:
  assumes "w_callback w \<noteq> preAuthorize" and "formable (w_redirectUrl w) (objects p ! w_auth w)"
  obtains r where "call_back V w qp v p = (p\<lparr>posted := posted p @ [r]\<rparr>, True)" "t_auth r = w_auth w"
    "form_pairs (t_body r) = Some (given_fields (code_form (w_callback w = withFormParams) (w_redirectUrl w) (objects p ! w_auth w)))"
proof -
  let ?e = "code_form (w_callback w = withFormParams) (w_redirectUrl w) (objects p ! w_auth w)"
  obtain b where b: "oauth_buildFormData ?e = Some b" "form_pairs b = Some (given_fields ?e)"
    using oauth_buildFormData_reads [OF code_form_readable [OF assms(2)]] .
  show thesis
  proof (cases "w_callback w")
    case withFormParams
    with b that show thesis
      by (simp add: call_back_def authorizeAccessCodeWithFormParams_def authorizeRequest_def)
  next
    case withBasicAuthentication
    with b that show thesis
      by (simp add: call_back_def authorizeAccessCodeWithBasicAuthentication_def authorizeRequest_def)
  qed (use assms(1) in simp)
qed

lemma unescaped_well_formed: "list_all uri_unescaped s \<Longrightarrow> well_formed s"
proof (rule ascii_well_formed)
  have "uri_unescaped c \<Longrightarrow> c < 128" for c by (auto simp: uri_unescaped_def js_simps)
  then show "list_all uri_unescaped s \<Longrightarrow> list_all (\<lambda>c. c < 128) s" by (auto simp: list_all_iff)
qed

lemma verifier_nonempty: "bytes \<noteq> [] \<Longrightarrow> generateCodeVerifier bytes \<noteq> []"
proof -
  have "base64_digit n \<noteq> 61" for n by (auto simp: base64_digit_def)
  then show "bytes \<noteq> [] \<Longrightarrow> generateCodeVerifier bytes \<noteq> []"
    by (cases bytes rule: base64.cases) (simp_all add: generateCodeVerifier_def b64toB64UrlEncoded_def)
qed

lemma given_fields_simps [simp]:
  "given_fields [] = []" "given_fields ((k, None) # e) = given_fields e"
  "given_fields ((k, Some t) # e) = (if t = [] then [] else [(k, t)]) @ given_fields e"
  "given_fields (d @ e) = given_fields d @ given_fields e"
  by (simp_all add: given_fields_def)

lemma code_form_table:
  assumes "o_code a = Some c" "c \<noteq> []" "h \<noteq> []"
  shows "map_of (given_fields (code_form b h a)) (js ''grant_type'') = Some (js ''authorization_code'')"
    "map_of (given_fields (code_form b h a)) (js ''code'') = Some c"
    "map_of (given_fields (code_form b h a)) (js ''redirect_uri'') = Some h"
    "o_codeVerifier a = Some v \<Longrightarrow> v \<noteq> [] \<Longrightarrow> map_of (given_fields (code_form b h a)) (js ''code_verifier'') = Some v"
  using assms by (simp_all add: code_form_def inj_js) (simp add: js_simps)

lemma change_errors_count:
  "length (allErrors (oauth_errors (auth_failed n l m p))) = Suc (length (allErrors (oauth_errors p)))"
  by (simp add: auth_failed_def change_errors_def allErrors_def errs_def set_errors_def Let_def)

lemma code_exchanged:
  assumes "code_flow (flow (o_schema a))" and "v_pkce V" and "\<not> has_code a"
    and "this_object p = a" and "this p < length (objects p)" and "authorizationUrl (o_schema a) = Some j"
    and "v_redirect V = Some h" and "h \<noteq> []" and "sendable V h a" and "well_formed (o_clientSecret a)"
    and "bytes \<noteq> []"
    and "distinct (map fst kvs)" and "list_all sent_pair kvs" and "those (map query_piece kvs) = Some ps"
    and "map_of kvs (js ''code'') = Some c" and "c \<noteq> []"
  obtains p1 p2 r t where "authorize_click V now bytes p = (p1, True)" "posted p1 = posted p"
    "run_redirect V [] (63 # join_with [38] ps) p1 = (p2, True)"
    "posted p2 = posted p @ [r]" "form_pairs (t_body r) = Some t"
    "map_of t (js ''grant_type'') = Some (js ''authorization_code'')" "map_of t (js ''code'') = Some c"
    "map_of t (js ''redirect_uri'') = Some h" "map_of t (js ''code_verifier'') = Some (generateCodeVerifier bytes)"
    "length (allErrors (oauth_errors p2))
       = length (allErrors (oauth_errors p1)) + (if map_of kvs (js ''state'') = Some (btoa now) then 0 else 1)"
proof -
  have f: "flow (o_schema a) = Some (js ''implicit'') \<or> code_flow (flow (o_schema a))" using assms(1) by simp
  obtain p1 where p1: "authorize_click V now bytes p = (p1, True)"
    "pending p1 = Some \<lparr>w_auth = this p, w_state = Some (btoa now), w_redirectUrl = h, w_callback = callback_for V (flow (o_schema a))\<rparr>"
    "objects p1 = (objects p)[this p := kept_object V bytes a]" "posted p1 = posted p"
    using authorize_opens [OF f assms(4-7,9)] by metis
  let ?w = "\<lparr>w_auth = this p, w_state = Some (btoa now), w_redirectUrl = h, w_callback = callback_for V (flow (o_schema a))\<rparr>"
  let ?k = "kept_object V bytes a" and ?v = "generateCodeVerifier bytes"
  have k: "objects p1 ! this p = ?k" "o_schema ?k = o_schema a" "\<not> has_code ?k" "o_codeVerifier ?k = Some ?v"
    using p1(3) assms(1-3,5) by (simp_all add: kept_object_def has_code_def pkce_used_def)
  have "kvs \<noteq> []" using assms(15) by auto
  then have q: "redirect_object (join_with [38] ps) = Some kvs" by (rule redirect_object_reads [OF _ assms(12-14)])
  have frag: "redirect_text [] (63 # join_with [38] ps) = join_with [38] ps" by (simp add: redirect_text_def js_simps)
  define p0 where "p0 = (if map_of kvs (js ''state'') = Some (btoa now) then p1
    else auth_failed (o_name ?k) (js ''warning'') (Some changed_state_message) p1)"
  define p3 where "p3 = write_auth (this p) (\<lambda>a. a\<lparr>o_code := Some c\<rparr>) (p0\<lparr>pending := Some (?w\<lparr>w_state := None\<rparr>)\<rparr>)"
  have p0: "objects p0 = objects p1" "posted p0 = posted p" "length (allErrors (oauth_errors p0))
      = length (allErrors (oauth_errors p1)) + (if map_of kvs (js ''state'') = Some (btoa now) then 0 else 1)"
    by (simp_all add: p0_def p1(4) change_errors_count)
  have p3: "objects p3 ! this p = ?k\<lparr>o_code := Some c\<rparr>" "posted p3 = posted p" "oauth_errors p3 = oauth_errors p0"
    using p0(1,2) p1(3) assms(5) k(1) by (simp_all add: p3_def write_auth_def)
  let ?cb = "call_back V ?w kvs (map_of kvs (js ''state'') = Some (btoa now)) p3"
  have run: "run_redirect V [] (63 # join_with [38] ps) p1 = ?cb"
    using k assms(1,15,16) p1(2) q by (simp add: run_redirect_def frag Let_def qp_truthy_def p3_def p0_def)
  have cb: "w_callback ?w \<noteq> preAuthorize" using assms(1) by (auto simp: callback_for_def code_flow_def inj_js)
  have "sent_pair (js ''code'', c)" using assms(13,15) map_of_SomeD by (fastforce simp: list_all_iff)
  then have c: "well_formed c" by (simp add: sent_pair_def readable_def)
  have v: "list_all uri_unescaped ?v" by (simp add: generateCodeVerifier_def base64_url_units)
  then have "well_formed ?v" by (rule unescaped_well_formed)
  with c assms(9,10) k(4) have form: "formable (w_redirectUrl ?w) (objects p3 ! w_auth ?w)"
    by (simp add: p3(1) formable_def sendable_def kept_object_def)
  obtain r where r: "?cb = (p3\<lparr>posted := posted p3 @ [r]\<rparr>, True)"
    "form_pairs (t_body r) = Some (given_fields (code_form (w_callback ?w = withFormParams) h (?k\<lparr>o_code := Some c\<rparr>)))"
    using exchange_posted [OF cb form, of V kvs "map_of kvs (js ''state'') = Some (btoa now)"] by (auto simp: p3(1))
  have "o_code (?k\<lparr>o_code := Some c\<rparr>) = Some c" "o_codeVerifier (?k\<lparr>o_code := Some c\<rparr>) = Some ?v" using k(4) by simp_all
  note table = code_form_table [OF this(1) assms(16,8)] code_form_table(4) [OF this(1) assms(16,8) this(2) verifier_nonempty [OF assms(11)]]
  show thesis
    by (rule that [of p1 "p3\<lparr>posted := posted p3 @ [r]\<rparr>" r
          "given_fields (code_form (w_callback ?w = withFormParams) h (?k\<lparr>o_code := Some c\<rparr>))"])
      (use p1(1,4) run r p3(2,3) p0(3) table in \<open>simp_all\<close>)
qed

text \<open>C12. After Authorize has been pressed with an authorisation code flow and PKCE, in a dialog that holds no code
  yet, the redirect page answers any query of the server that carries a code, in whatever order and with whatever
  other fields: it posts one request, whose form says the grant, that code, the redirect URL the code was asked
  for and the verifier of the challenge.  A state that is not the one sent makes no difference but for a warning.
  The texts of the dialog and of the answer are well-formed, and the names of the answer's fields distinct.\<close>

theorem authorization_code_exchanged:
  assumes "code_flow (flow (o_schema a))" and "v_pkce V" and "\<not> has_code a"
    and "this_object p = a" and "this p < length (objects p)" and "authorizationUrl (o_schema a) = Some j"
    and "v_redirect V = Some h" and "h \<noteq> []" and "sendable V h a" and "well_formed (o_clientSecret a)"
    and "bytes \<noteq> []"
    and "distinct (map fst kvs)" and "list_all sent_pair kvs" and "those (map query_piece kvs) = Some ps"
    and "map_of kvs (js ''code'') = Some c" and "c \<noteq> []"
  shows "\<exists>p1 p2 r t. authorize_click V now bytes p = (p1, True)
     \<and> run_redirect V [] (63 # join_with [38] ps) p1 = (p2, True)
     \<and> posted p2 = posted p @ [r] \<and> form_pairs (t_body r) = Some t
     \<and> map_of t (js ''grant_type'') = Some (js ''authorization_code'') \<and> map_of t (js ''code'') = Some c
     \<and> map_of t (js ''redirect_uri'') = Some h \<and> map_of t (js ''code_verifier'') = Some (generateCodeVerifier bytes)
     \<and> length (allErrors (oauth_errors p2))
         = length (allErrors (oauth_errors p1)) + (if map_of kvs (js ''state'') = Some (btoa now) then 0 else 1)"
  by (rule code_exchanged [OF assms, of now]) blast

text \<open>C15. A dialog of a code flow with PKCE that has been given a code keeps it: when its exchange has failed and
  Authorize is pressed again, the redirect page does not look at the code of the second answer, nor at its state or its error, and
  posts the first code once more, now with the verifier of the second attempt.\<close>

theorem first_code_kept:
  assumes "code_flow (flow (o_schema a))" and "v_pkce V" and "o_code a = Some c0" and "c0 \<noteq> []" and "well_formed c0"
    and "this_object p = a" and "this p < length (objects p)" and "authorizationUrl (o_schema a) = Some j"
    and "v_redirect V = Some h" and "h \<noteq> []" and "sendable V h a" and "well_formed (o_clientSecret a)"
    and "bytes \<noteq> []"
    and "kvs \<noteq> []" and "distinct (map fst kvs)" and "list_all sent_pair kvs" and "those (map query_piece kvs) = Some ps"
  shows "\<exists>p1 p2 r t. authorize_click V now bytes p = (p1, True)
     \<and> run_redirect V [] (63 # join_with [38] ps) p1 = (p2, True)
     \<and> posted p2 = posted p @ [r] \<and> form_pairs (t_body r) = Some t
     \<and> map_of t (js ''code'') = Some c0 \<and> map_of t (js ''code_verifier'') = Some (generateCodeVerifier bytes)
     \<and> oauth_errors p2 = oauth_errors p1"
proof -
  have f: "flow (o_schema a) = Some (js ''implicit'') \<or> code_flow (flow (o_schema a))" using assms(1) by simp
  let ?w = "\<lparr>w_auth = this p, w_state = Some (btoa now), w_redirectUrl = h, w_callback = callback_for V (flow (o_schema a))\<rparr>"
  obtain p1 where p1: "authorize_click V now bytes p = (p1, True)" "pending p1 = Some ?w"
    "objects p1 = (objects p)[this p := kept_object V bytes a]" "posted p1 = posted p"
    using authorize_opens [OF f assms(6-9,11)] by metis
  let ?k = "kept_object V bytes a" and ?v = "generateCodeVerifier bytes"
  have k: "objects p1 ! this p = ?k" "o_schema ?k = o_schema a" "has_code ?k" "o_code ?k = Some c0" "o_codeVerifier ?k = Some ?v"
    using p1(3) assms(1-4,7) by (simp_all add: kept_object_def has_code_def falsy_text_def pkce_used_def)
  have q: "redirect_object (join_with [38] ps) = Some kvs" by (rule redirect_object_reads [OF assms(14-17)])
  have frag: "redirect_text [] (63 # join_with [38] ps) = join_with [38] ps" by (simp add: redirect_text_def js_simps)
  let ?cb = "call_back V ?w kvs (map_of kvs (js ''state'') = Some (btoa now)) p1"
  have run: "run_redirect V [] (63 # join_with [38] ps) p1 = ?cb"
    using k assms(1) p1(2) q by (simp add: run_redirect_def frag Let_def)
  have cb: "w_callback ?w \<noteq> preAuthorize" using assms(1) by (auto simp: callback_for_def code_flow_def inj_js)
  have v: "well_formed ?v" by (rule unescaped_well_formed) (simp add: generateCodeVerifier_def base64_url_units)
  with assms(5,11,12) k(4,5) have form: "formable (w_redirectUrl ?w) (objects p1 ! w_auth ?w)"
    by (simp add: k(1) formable_def sendable_def kept_object_def)
  obtain r where r: "?cb = (p1\<lparr>posted := posted p1 @ [r]\<rparr>, True)"
    "form_pairs (t_body r) = Some (given_fields (code_form (w_callback ?w = withFormParams) h ?k))"
    using exchange_posted [OF cb form, of V kvs "map_of kvs (js ''state'') = Some (btoa now)"] by (auto simp: k(1))
  note table = code_form_table [OF k(4) assms(4,10)] code_form_table(4) [OF k(4) assms(4,10) k(5) verifier_nonempty [OF assms(13)]]
  show ?thesis
    by (rule exI [of _ p1], rule exI [of _ "p1\<lparr>posted := posted p1 @ [r]\<rparr>"], rule exI [of _ r],
        rule exI [of _ "given_fields (code_form (w_callback ?w = withFormParams) h ?k)"])
      (use p1(1,4) run r table in \<open>simp\<close>)
qed

section \<open>The verifier belongs to the opened URL\<close>

definition one_dialog :: "js_string \<Rightarrow> oauth_schema \<Rightarrow> oauth_page \<Rightarrow> bool" where
  "one_dialog name sch p \<longleftrightarrow> this p < length (objects p) \<and> list_all (\<lambda>a. o_schema a = sch \<and> o_name a = name) (objects p)"

definition challenge_in :: "oauth_env \<Rightarrow> js_string \<Rightarrow> js_string \<Rightarrow> bool" where
  "challenge_in V v u \<longleftrightarrow> contains u (js ''code_challenge='' @ createCodeChallenge (v_sha256 V) v @ js ''&code_challenge_method=S256'')"

definition kept_verifier :: "oauth_env \<Rightarrow> js_string list \<Rightarrow> js_string option \<Rightarrow> bool" where
  "kept_verifier V us v \<longleftrightarrow>
     (case v of None \<Rightarrow> False | Some t \<Rightarrow> us \<noteq> [] \<and> challenge_in V t (last us) \<and> list_all uri_unescaped t \<and> t \<noteq> [])"

definition bound_verifier :: "oauth_env \<Rightarrow> js_string \<Rightarrow> oauth_schema \<Rightarrow> oauth_page \<Rightarrow> bool" where
  "bound_verifier V name sch p \<longleftrightarrow> one_dialog name sch p
     \<and> (case pending p of
          None \<Rightarrow> True
        | Some w \<Rightarrow> w_auth w < length (objects p) \<and> back_pieces V \<noteq> None \<and> authorizationUrl sch \<noteq> None
            \<and> kept_verifier V (opened p) (o_codeVerifier (objects p ! w_auth w)))"

lemma one_dialog_set: "one_dialog name sch p \<Longrightarrow> o_schema a = sch \<Longrightarrow> o_name a = name \<Longrightarrow> one_dialog name sch (set_this a p)"
  by (simp add: one_dialog_def set_this_def)

lemma this_of_dialog: "one_dialog name sch p \<Longrightarrow> o_schema (this_object p) = sch \<and> o_name (this_object p) = name"
  by (auto simp: one_dialog_def this_object_def list_all_length)

lemma set_this_keeps [simp]:
  "pending (set_this a p) = pending p" "opened (set_this a p) = opened p"
  "i < length (objects p) \<Longrightarrow> objects (set_this a p) ! i = objects p ! i"
  "length (objects (set_this a p)) = Suc (length (objects p))"
  by (simp_all add: set_this_def nth_append)

lemma bound_set:
  assumes "bound_verifier V name sch p" "o_schema a = sch" "o_name a = name"
  shows "bound_verifier V name sch (set_this a p)"
proof -
  have "one_dialog name sch (set_this a p)" using assms by (intro one_dialog_set) (simp_all add: bound_verifier_def)
  then show ?thesis using assms(1) by (cases "pending p") (simp_all add: bound_verifier_def)
qed

text \<open>Only \<open>open_authorization\<close> touches a verifier; the rest keeps the five parts below.\<close>

definition same_verifiers :: "oauth_page \<Rightarrow> oauth_page \<Rightarrow> bool" where
  "same_verifiers p p' \<longleftrightarrow> this p' = this p \<and> opened p' = opened p
     \<and> (pending p' = None \<or> map_option w_auth (pending p') = map_option w_auth (pending p))
     \<and> map (\<lambda>a. (o_schema a, o_name a, o_codeVerifier a)) (objects p') = map (\<lambda>a. (o_schema a, o_name a, o_codeVerifier a)) (objects p)"

lemma bound_same:
  assumes "same_verifiers p p'" "bound_verifier V name sch p"
  shows "bound_verifier V name sch p'"
proof -
  have l: "length (objects p') = length (objects p)"
    using assms(1) map_eq_imp_length_eq unfolding same_verifiers_def by blast
  have n: "o_schema (objects p' ! i) = o_schema (objects p ! i) \<and> o_name (objects p' ! i) = o_name (objects p ! i)
      \<and> o_codeVerifier (objects p' ! i) = o_codeVerifier (objects p ! i)" if "i < length (objects p)" for i
  proof -
    have "map (\<lambda>a. (o_schema a, o_name a, o_codeVerifier a)) (objects p') ! i = map (\<lambda>a. (o_schema a, o_name a, o_codeVerifier a)) (objects p) ! i"
      using assms(1) by (simp only: same_verifiers_def)
    with that l show ?thesis by simp
  qed
  have "one_dialog name sch p'"
    using assms l n by (simp add: bound_verifier_def one_dialog_def same_verifiers_def list_all_length)
  moreover have "w_auth w < length (objects p') \<and> back_pieces V \<noteq> None \<and> authorizationUrl sch \<noteq> None
      \<and> kept_verifier V (opened p') (o_codeVerifier (objects p' ! w_auth w))" if w: "pending p' = Some w" for w
  proof -
    obtain u where u: "pending p = Some u" "w_auth u = w_auth w" "opened p' = opened p"
      using assms(1) w by (cases "pending p") (auto simp: same_verifiers_def)
    with assms(2) n [of "w_auth u"] l show ?thesis by (simp add: bound_verifier_def)
  qed
  ultimately show ?thesis by (simp add: bound_verifier_def split: option.split)
qed

lemma same_verifiers_refl [simp]: "same_verifiers p p"
  by (simp add: same_verifiers_def)

lemma same_verifiers_errors [simp]: "same_verifiers p (change_errors e q) = same_verifiers p q"
  "same_verifiers p (auth_failed n l m q) = same_verifiers p q" "same_verifiers p (clear_auth n q) = same_verifiers p q"
  by (simp_all add: same_verifiers_def)

lemma map_write:
  assumes "\<And>a. g (f a) = g a"
  shows "map g ((objects p)[i := f (objects p ! i)]) = map g (objects p)"
proof (cases "i < length (objects p)")
  case True
  then have "map g ((objects p)[i := f (objects p ! i)]) = (map g (objects p))[i := map g (objects p) ! i]"
    by (simp add: map_update assms)
  then show ?thesis by (simp only: list_update_id)
qed (simp add: list_update_beyond)

lemma same_verifiers_write:
  "(\<And>a. o_schema (f a) = o_schema a \<and> o_name (f a) = o_name a \<and> o_codeVerifier (f a) = o_codeVerifier a) \<Longrightarrow>
   same_verifiers p (write_auth i f q) = same_verifiers p q"
  by (simp add: same_verifiers_def write_auth_def map_write [of "\<lambda>a. (o_schema a, o_name a, o_codeVerifier a)" f])

lemma same_verifiers_update [simp]:
  "same_verifiers p (q\<lparr>posted := x\<rparr>) = same_verifiers p q" "same_verifiers p (q\<lparr>oauth_authorized := y\<rparr>) = same_verifiers p q"
  "same_verifiers p (q\<lparr>stored := y\<rparr>) = same_verifiers p q"
  by (simp_all add: same_verifiers_def)

lemma same_verifiers_token [simp]: "same_verifiers p (authorize_token V i t q) = same_verifiers p q"
  by (simp add: authorize_token_def persist_oauth_def Let_def same_verifiers_write)

lemma same_verifiers_post [simp]: "same_verifiers p (fst (authorizeRequest V i hs b q)) = same_verifiers p q"
  by (simp add: authorizeRequest_def split: option.split)

lemma same_verifiers_settle: "same_verifiers p (settle V i answer p)"
  by (simp add: settle_def settle_request_def Let_def split: outcome.split option.split)

lemma same_verifiers_logout: "same_verifiers p (fst (oauth_logout V n p))"
  by (simp add: oauth_logout_def persist_oauth_def Let_def split: option.split)

lemma same_verifiers_call_back: "same_verifiers p q \<Longrightarrow> same_verifiers p (fst (call_back V w qp v q))"
  by (cases "w_callback w")
    (simp_all add: call_back_def preAuthorizeImplicit_action_def authorizeAccessCodeWithFormParams_def
      authorizeAccessCodeWithBasicAuthentication_def Let_def, simp add: same_verifiers_def)

lemma same_verifiers_redirect: "same_verifiers p (fst (run_redirect V frag query p))"
proof -
  have "same_verifiers p (write_auth i (\<lambda>a. a\<lparr>o_code := c\<rparr>) (q\<lparr>pending := Some (w\<lparr>w_state := None\<rparr>)\<rparr>))"
    if "pending p = Some w" "same_verifiers p q" for i c q w
    using that by (simp add: same_verifiers_write) (simp add: same_verifiers_def)
  then show ?thesis
    by (auto simp: run_redirect_def Let_def intro!: same_verifiers_call_back split: option.split)
qed

lemma join_with_append:
  "ps \<noteq> [] \<Longrightarrow> qs \<noteq> [] \<Longrightarrow> join_with sep (ps @ qs) = join_with sep ps @ sep @ join_with sep qs"
proof (induction ps)
  case (Cons p ps)
  then show ?case by (cases ps; cases qs) auto
qed simp

lemma join_with_contains:
  assumes "c \<noteq> []"
  shows "contains (join_with sep (front @ c @ rear)) (join_with sep c)"
proof -
  obtain r where r: "join_with sep (c @ rear) = join_with sep c @ r"
    using assms by (cases "rear = []") (simp_all add: join_with_append)
  obtain l where "join_with sep (front @ c @ rear) = l @ join_with sep (c @ rear)"
  proof (cases "front = []")
    case True
    then show thesis using that [of "[]"] by simp
  next
    case False
    then show thesis using assms that [of "join_with sep front @ sep"] join_with_append [of front "c @ rear" sep] by simp
  qed
  with r show ?thesis unfolding contains_iff by metis
qed

lemma challenge_joined: "contains (join_with [38] (front @ challenge_pieces V v @ rear))
   (js ''code_challenge='' @ createCodeChallenge (v_sha256 V) v @ js ''&code_challenge_method=S256'')"
proof -
  have "join_with [38] (challenge_pieces V v) = js ''code_challenge='' @ createCodeChallenge (v_sha256 V) v @ js ''&code_challenge_method=S256''"
    by (simp add: challenge_pieces_def js_simps)
  with join_with_contains [of "challenge_pieces V v" "[38]" front rear] show ?thesis by (simp add: challenge_pieces_def)
qed

lemma bound_click:
  assumes "bound_verifier V name sch p" and "code_flow (flow sch)" and "v_pkce V" and "bytes \<noteq> []"
  shows "bound_verifier V name sch (fst (authorize_click V now bytes p))"
proof -
  let ?c = "clear_auth (v_window V) p" and ?v = "generateCodeVerifier bytes"
  have c: "bound_verifier V name sch ?c" by (rule bound_same [OF _ assms(1)]) simp
  then have d: "one_dialog name sch ?c" by (simp add: bound_verifier_def)
  have f: "flow (o_schema (this_object ?c)) = flow sch" using this_of_dialog [OF d] by simp
  have no: "flow sch \<noteq> Some (js ''password'')" "flow sch \<noteq> Some (js ''application'')" "flow sch \<noteq> Some (js ''clientCredentials'')"
    "flow sch \<noteq> Some (js ''client_credentials'')"
    using assms(2) by (auto simp: code_flow_def inj_js)
  have new: "bound_verifier V name sch (fst (open_authorization V h now bytes ?c))" for h
  proof -
    let ?q = "write_auth (this ?c) (\<lambda>a. a\<lparr>o_codeVerifier := Some ?v\<rparr>) ?c"
    have len: "this ?c < length (objects ?c)" using d by (simp add: one_dialog_def)
    have dq: "one_dialog name sch ?q"
      using d by (auto simp: one_dialog_def write_auth_def list_all_length nth_list_update)
    have v: "list_all uri_unescaped ?v" "?v \<noteq> []"
      using verifier_nonempty [OF assms(4)] by (simp_all add: generateCodeVerifier_def base64_url_units)
    have verifier: "o_codeVerifier (objects ?q ! this ?c) = Some ?v" using len by (simp add: write_auth_def)
    show ?thesis
    proof (cases "front_pieces V h now (this_object ?c)")
      case None
      with c show ?thesis by (simp add: open_authorization_def Let_def)
    next
      case (Some front)
      show ?thesis
      proof (cases "back_pieces V = None \<or> authorizationUrl sch = None")
        case True
        with c have "pending ?q = None" by (auto simp: bound_verifier_def split: option.splits)
        with dq have "bound_verifier V name sch ?q" by (simp add: bound_verifier_def)
        with Some True this_of_dialog [OF d] assms(2,3) show ?thesis
          by (auto simp: open_authorization_def Let_def pkce_used_def split: option.split)
      next
        case False
        then obtain rear j where rear: "back_pieces V = Some rear" and j: "authorizationUrl sch = Some j" by auto
        let ?u = "authorization_url V j (front @ challenge_pieces V ?v @ rear)"
        have "challenge_in V ?v ?u"
          using challenge_joined [of front V ?v rear] unfolding challenge_in_def authorization_url_def contains_iff
          by (metis append_assoc)
        with Some rear j this_of_dialog [OF d] assms(2,3) dq verifier v len show ?thesis
          by (simp add: open_authorization_def Let_def pkce_used_def bound_verifier_def kept_verifier_def one_dialog_def)
      qed
    qed
  qed
  have err: "bound_verifier V name sch (change_errors e ?c)" for e by (rule bound_same [OF _ c]) simp
  show ?thesis
    using c f no new err by (simp add: authorize_click_def Let_def split: option.split)
qed

lemma oauth_reach_bound:
  assumes "oauth_reach V name sch p" "code_flow (flow sch)" "v_pkce V"
  shows "bound_verifier V name sch p"
  using assms(1)
proof (induction rule: oauth_reach.induct)
  case mount
  show ?case
    by (simp add: mounted_def set_this_def empty_page_def dialog_object_def Let_def bound_verifier_def one_dialog_def)
next
  case (event p e)
  have d: "o_schema (this_object p) = sch \<and> o_name (this_object p) = name"
    using event.IH this_of_dialog [of name sch p] by (simp add: bound_verifier_def)
  note set = bound_set [OF event.IH]
  note same = bound_same [OF _ event.IH]
  show ?case
  proof (cases e)
    case Reopened
    then show ?thesis by (simp add: mounted_def set dialog_object_def Let_def)
  next
    case (Typed i v)
    then show ?thesis using d by (cases i) (simp_all add: onInputChange_def set)
  next
    case (Ticked b v)
    then show ?thesis using d event.IH by (simp add: onScopeChange_def set Let_def)
  next
    case (Selected b)
    then show ?thesis using d event.IH by (simp add: selectScopes_def set Let_def split: option.split)
  next
    case (Clicked now bytes)
    with event.hyps(2) have "bytes \<noteq> []" by auto
    with Clicked bound_click [OF event.IH assms(2,3)] show ?thesis by simp
  next
    case (Returned frag query)
    then show ?thesis using same [OF same_verifiers_redirect] by simp
  next
    case (Answered i answer)
    then show ?thesis using same [OF same_verifiers_settle] by simp
  next
    case LoggedOut
    then show ?thesis using same [OF same_verifiers_logout] by simp
  qed
qed

lemma encode_unescaped: "list_all uri_unescaped v \<Longrightarrow> encodeURIComponent v = Some v"
  by (induction v) simp_all

lemma replace_unescaped: "list_all uri_unescaped v \<Longrightarrow> replace_text (js ''%20'') u v = v"
proof (induction v)
  case (Cons c v)
  then have "c \<noteq> 37" by (auto simp: uri_unescaped_def js_simps)
  with Cons show ?case by (simp add: replace_skip js_simps)
qed (rule replace_Nil)

lemma those_append: "those (xs @ ys) = Some zs \<Longrightarrow> \<exists>us vs. those xs = Some us \<and> those ys = Some vs \<and> zs = us @ vs"
proof (induction xs arbitrary: zs)
  case (Cons x xs)
  from Cons.prems obtain a ws where x: "x = Some a" "those (xs @ ys) = Some ws" "zs = a # ws" by (cases x) auto
  from Cons.IH [OF x(2)] x show ?case by auto
qed simp

lemma verifier_in_body:
  assumes "oauth_buildFormData (code_form b h a) = Some t" "o_codeVerifier a = Some v" "list_all uri_unescaped v" "v \<noteq> []"
  shows "\<exists>l. t = l @ js ''&code_verifier='' @ v"
proof -
  define fs where "fs = given_fields ([(js ''code'', o_code a), (js ''client_id'', Some (o_clientId a))]
    @ (if b then [(js ''client_secret'', Some (o_clientSecret a))] else []) @ [(js ''redirect_uri'', Some h)])"
  have "js ''authorization_code'' \<noteq> []" by (simp add: js_def)
  then have fs: "given_fields (code_form b h a) = (js ''grant_type'', js ''authorization_code'') # fs @ [(js ''code_verifier'', v)]"
    using assms(2,4) by (cases "o_code a") (simp_all add: code_form_def fs_def)
  have v: "form_field (js ''code_verifier'', v) = Some (js ''code_verifier='' @ v)"
    using replace_unescaped [OF assms(3)] encode_unescaped [OF assms(3)] by (simp add: form_field_def oauth_form_value_def js_def)
  obtain ps where ps: "those (map form_field ([(js ''grant_type'', js ''authorization_code'')] @ fs) @ [Some (js ''code_verifier='' @ v)]) = Some ps"
    "t = join_with [38] ps"
    using assms(1) fs v by (auto simp: oauth_buildFormData_def)
  then obtain us where us: "those (map form_field ([(js ''grant_type'', js ''authorization_code'')] @ fs)) = Some us"
    "ps = us @ [js ''code_verifier='' @ v]"
    using those_append [OF ps(1)] by auto
  then have "us \<noteq> []" by (auto split: option.splits)
  with us(2) ps(2) have "t = join_with [38] us @ js ''&code_verifier='' @ v" by (simp add: join_with_append js_simps)
  then show ?thesis by (intro exI [of _ "join_with [38] us"])
qed

lemma request_posted:
  assumes "posted (fst (authorizeRequest V i hs b q)) = posted q @ [r]"
  shows "b = Some (t_body r)"
  using assms by (auto simp: authorizeRequest_def split: option.splits)

lemma write_code_keeps: "o_codeVerifier (objects (write_auth i (\<lambda>a. a\<lparr>o_code := c\<rparr>) q) ! k) = o_codeVerifier (objects q ! k)"
  by (cases "k = i"; cases "i < length (objects q)") (simp_all add: write_auth_def list_update_beyond)

lemma call_back_posts:
  assumes "posted (fst (call_back V w qp iv q)) = posted q @ [r]" "o_codeVerifier (objects q ! w_auth w) = Some v"
    "list_all uri_unescaped v" "v \<noteq> []"
  shows "\<exists>l. t_body r = l @ js ''&code_verifier='' @ v"
proof (cases "w_callback w")
  case preAuthorize
  have "posted (authorize_token V i t p) = posted p" for i t p
    by (simp add: authorize_token_def persist_oauth_def Let_def)
  with assms(1) preAuthorize show ?thesis by (auto simp: call_back_def preAuthorizeImplicit_action_def Let_def split: if_splits)
next
  case withFormParams
  with assms(1) have "oauth_buildFormData (code_form True (w_redirectUrl w) (objects q ! w_auth w)) = Some (t_body r)"
    by (intro request_posted) (simp add: call_back_def authorizeAccessCodeWithFormParams_def)
  from verifier_in_body [OF this assms(2-4)] show ?thesis .
next
  case withBasicAuthentication
  with assms(1) have "oauth_buildFormData (code_form False (w_redirectUrl w) (objects q ! w_auth w)) = Some (t_body r)"
    by (intro request_posted) (simp add: call_back_def authorizeAccessCodeWithBasicAuthentication_def)
  from verifier_in_body [OF this assms(2-4)] show ?thesis .
qed

text \<open>C13. Whatever happens on the page, typing, ticking, reopening the dialog, pressing Authorize several times, returning
  twice, answers of the token server, logging out: with a code flow and PKCE, a request for a token that the redirect
  page posts ends in the verifier whose challenge is in the URL that was opened last.\<close>

theorem exchanged_verifier_matches:
  assumes "oauth_reach V name sch p" and "code_flow (flow sch)" and "v_pkce V"
    and "posted (fst (run_redirect V frag query p)) = posted p @ [r]"
  shows "\<exists>l v. t_body r = l @ js ''&code_verifier='' @ v \<and> opened p \<noteq> []
     \<and> contains (last (opened p)) (js ''code_challenge='' @ createCodeChallenge (v_sha256 V) v @ js ''&code_challenge_method=S256'')"
proof -
  have b: "bound_verifier V name sch p" by (rule oauth_reach_bound [OF assms(1-3)])
  have ne: "posted p \<noteq> posted p @ [r]" by simp
  obtain w qp where w: "pending p = Some w" "redirect_object (redirect_text frag query) = Some qp"
    using assms(4) by (auto simp: run_redirect_def split: option.splits)
  with b obtain v where v: "o_codeVerifier (objects p ! w_auth w) = Some v" "opened p \<noteq> []"
    "challenge_in V v (last (opened p))" "list_all uri_unescaped v" "v \<noteq> []"
    by (auto simp: bound_verifier_def kept_verifier_def split: option.splits)
  have "\<exists>q iv. posted (fst (call_back V w qp iv q)) = posted q @ [r] \<and> o_codeVerifier (objects q ! w_auth w) = Some v"
  proof (cases "code_flow (flow (o_schema (objects p ! w_auth w))) \<and> \<not> has_code (objects p ! w_auth w)")
    case False
    with assms(4) w v(1) show ?thesis by (auto simp: run_redirect_def Let_def)
  next
    case True
    let ?iv = "map_of qp (js ''state'') = w_state w"
    let ?p1 = "if ?iv then p else auth_failed (o_name (objects p ! w_auth w)) (js ''warning'') (Some changed_state_message) p"
    show ?thesis
    proof (cases "qp_truthy qp ''code''")
      case None
      have "posted ?p1 = posted p" by simp
      with assms(4) w True None ne show ?thesis by (simp add: run_redirect_def Let_def)
    next
      case (Some c)
      let ?q = "write_auth (w_auth w) (\<lambda>a. a\<lparr>o_code := Some c\<rparr>) (?p1\<lparr>pending := Some (w\<lparr>w_state := None\<rparr>)\<rparr>)"
      have "run_redirect V frag query p = call_back V w qp ?iv ?q"
        using w True Some by (simp add: run_redirect_def Let_def)
      moreover have "posted ?q = posted p" "o_codeVerifier (objects ?q ! w_auth w) = Some v"
        using v(1) by (simp_all add: write_code_keeps)
      ultimately show ?thesis using assms(4) by (intro exI [of _ ?q] exI [of _ ?iv]) simp
    qed
  qed
  then obtain l where "t_body r = l @ js ''&code_verifier='' @ v" using call_back_posts [OF _ _ v(4,5)] by blast
  with v(2,3) show ?thesis by (auto simp: challenge_in_def)
qed

text \<open>Clearing at the start of \<open>authorize\<close> drops the errors of every scheme, not only of the dialog's.\<close>

lemma clear_auth_every_scheme:
  assumes "e \<in> set (allErrors (oauth_errors (clear_auth name p)))"
  shows "e (js ''type'') \<noteq> Some (EStr (js ''auth''))"
proof
  assume t: "e (js ''type'') = Some (EStr (js ''auth''))"
  let ?r = "[(js ''authId'', EStr name), (js ''type'', EStr (js ''auth'')), (js ''source'', EStr (js ''auth''))]"
  have "js ''type'' \<in> set (object_keys ?r)" "obj_get ?r (js ''type'') = Some (EStr (js ''auth''))" "js ''auth'' \<noteq> []"
    by (simp_all add: obj_get_def inj_js) (simp add: js_def)
  with t have "matches_clear ?r e" unfolding matches_clear_def list_ex_iff by (intro bexI [of _ "js ''type''"]) simp_all
  with assms show False
    by (auto simp: clear_auth_def change_errors_def allErrors_def errs_def set_errors_def split: option.splits)
qed

section \<open>Samples\<close>

definition sample_schema :: oauth_schema where
  "sample_schema = \<lparr>flow = Some (js ''accessCode''), authorizationUrl = Some (js ''http://a/o''), tokenUrl = Some (js ''http://a/t''),
     allowedScopes = None, schema_scopes = None\<rparr>"

definition sample_oauth :: oauth_env where
  "sample_oauth = \<lparr>v_engine = sample_client, v_redirect = Some (js ''http://h/r''), v_window = [], v_server = None,
     v_resolve = (\<lambda>u s. u), v_sha256 = (\<lambda>b. b), v_post_url = (\<lambda>u. case u of None \<Rightarrow> [] | Some t \<Rightarrow> t), v_exception = (\<lambda>d. d),
     v_persist = False, v_clientId = js ''me'', v_clientSecret = js ''s'', v_scopes = None, v_scopeSeparator = None, v_realm = None,
     v_pkce = True, v_basic = False, v_additional = []\<rparr>"

definition sample_dialog :: oauth_page where
  "sample_dialog = mounted sample_oauth (js ''x'') sample_schema empty_page"

abbreviation sample_object :: auth_object where
  "sample_object \<equiv> dialog_object sample_oauth (js ''x'') sample_schema empty_page"

lemma sample_opens:
  "this_object sample_dialog = sample_object" "this sample_dialog < length (objects sample_dialog)"
  "authorizationUrl (o_schema sample_object) = Some (js ''http://a/o'')" "flow (o_schema sample_object) = Some (js ''accessCode'')"
  "code_flow (flow (o_schema sample_object))" "v_redirect sample_oauth = Some (js ''http://h/r'')" "v_pkce sample_oauth"
  "\<not> has_code sample_object"
  by (simp_all add: sample_dialog_def mounted_def set_this_def this_object_def empty_page_def dialog_object_def sample_schema_def
      sample_oauth_def code_flow_def has_code_def falsy_text_def Let_def)

lemma oauth_sample_texts:
  "sendable sample_oauth (js ''http://h/r'') sample_object" "well_formed (o_clientSecret sample_object)"
  "o_clientId sample_object = js ''me''"
  by (simp_all add: sendable_def sample_oauth_def dialog_object_def authorized_entry_def empty_page_def additional_fields_def own_entries_def
      str_or_def js_simps is_high_def is_low_def Let_def)

lemma sample_sent:
  assumes "c \<noteq> []" "list_all uri_unescaped c"
  shows "distinct (map fst [(js ''code'', c), (js ''state'', js ''s'')])" "list_all sent_pair [(js ''code'', c), (js ''state'', js ''s'')]"
  using assms unescaped_well_formed [of c]
  by (simp_all add: sent_pair_def readable_def) (simp_all add: js_simps is_high_def is_low_def)

theorem authorization_url_reads_back_witness:
  "\<exists>p' q t. authorize_click sample_oauth (js ''now'') (replicate 32 0) sample_dialog = (p', True)
     \<and> form_pairs q = Some t \<and> map_of t (js ''client_id'') = Some (js ''me'') \<and> map_of t (js ''redirect_uri'') = Some (js ''http://h/r'')"
proof -
  obtain p' q where p': "authorize_click sample_oauth (js ''now'') (replicate 32 0) sample_dialog = (p', True)"
    "form_pairs q = Some (authorization_table sample_oauth (js ''http://h/r'') (js ''now'') (generateCodeVerifier (replicate 32 0)) sample_object)"
    using authorization_url_reads_back [OF disjI2 [OF sample_opens(5)] sample_opens(1-3,6) oauth_sample_texts(1), of "js ''now''" "replicate 32 0"]
    by blast
  have "map_of (authorization_table sample_oauth (js ''http://h/r'') (js ''now'') y sample_object) (js ''client_id'') = Some (js ''me'')"
    "map_of (authorization_table sample_oauth (js ''http://h/r'') (js ''now'') y sample_object) (js ''redirect_uri'') = Some (js ''http://h/r'')" for y
    by (simp_all add: authorization_table_def front_fields_def oauth_sample_texts(3) inj_js)
  with p' show ?thesis by blast
qed

theorem authorization_code_exchanged_witness:
  "\<exists>ps p1 p2 r t. authorize_click sample_oauth (js ''now'') (replicate 32 0) sample_dialog = (p1, True)
     \<and> run_redirect sample_oauth [] (63 # join_with [38] ps) p1 = (p2, True)
     \<and> posted p2 = [r] \<and> form_pairs (t_body r) = Some t \<and> map_of t (js ''code'') = Some (js ''c1'')"
proof -
  have c: "js ''c1'' \<noteq> []" "list_all uri_unescaped (js ''c1'')" by (simp_all add: js_simps uri_unescaped_def)
  obtain ps where ps: "those (map query_piece [(js ''code'', js ''c1''), (js ''state'', js ''s'')]) = Some ps"
    using sent_pairs_total [OF sample_sent(2) [OF c]] by blast
  have b: "replicate 32 (0::nat) \<noteq> []" "js ''http://h/r'' \<noteq> []" by (simp_all add: js_def)
  have l: "map_of [(js ''code'', js ''c1''), (js ''state'', js ''s'')] (js ''code'') = Some (js ''c1'')" by simp
  have "posted sample_dialog = []" by (simp add: sample_dialog_def mounted_def set_this_def empty_page_def)
  with authorization_code_exchanged [OF sample_opens(5,7,8,1,2,3,6) b(2) oauth_sample_texts(1,2) b(1) sample_sent [OF c] ps l c(1), of "js ''now''"]
  show ?thesis by (intro exI [of _ ps]) auto
qed

definition coded_dialog :: oauth_page where
  "coded_dialog = write_auth 0 (\<lambda>a. a\<lparr>o_code := Some (js ''c1'')\<rparr>) sample_dialog"

theorem first_code_kept_witness:
  "\<exists>ps p1 p2 r t. authorize_click sample_oauth (js ''now'') (replicate 32 0) coded_dialog = (p1, True)
     \<and> those (map query_piece [(js ''code'', js ''c2''), (js ''state'', js ''s'')]) = Some ps
     \<and> run_redirect sample_oauth [] (63 # join_with [38] ps) p1 = (p2, True)
     \<and> posted p2 = [r] \<and> form_pairs (t_body r) = Some t \<and> map_of t (js ''code'') = Some (js ''c1'')"
proof -
  let ?a = "sample_object\<lparr>o_code := Some (js ''c1'')\<rparr>"
  have c: "js ''c2'' \<noteq> []" "list_all uri_unescaped (js ''c2'')" "js ''c1'' \<noteq> []" "well_formed (js ''c1'')"
    by (simp_all add: js_simps uri_unescaped_def is_high_def is_low_def)
  obtain ps where ps: "those (map query_piece [(js ''code'', js ''c2''), (js ''state'', js ''s'')]) = Some ps"
    using sent_pairs_total [OF sample_sent(2) [OF c(1,2)]] by blast
  have b: "replicate 32 (0::nat) \<noteq> []" "js ''http://h/r'' \<noteq> []" "[(js ''code'', js ''c2''), (js ''state'', js ''s'')] \<noteq> []"
    by (simp_all add: js_def)
  have "this sample_dialog = 0" by (simp add: sample_dialog_def mounted_def set_this_def empty_page_def)
  then have d: "this_object coded_dialog = ?a" "this coded_dialog < length (objects coded_dialog)"
    using sample_opens(1,2) by (simp_all add: coded_dialog_def write_auth_def this_object_def)
  have a: "code_flow (flow (o_schema ?a))" "o_code ?a = Some (js ''c1'')" "authorizationUrl (o_schema ?a) = Some (js ''http://a/o'')"
    "sendable sample_oauth (js ''http://h/r'') ?a" "well_formed (o_clientSecret ?a)"
    using sample_opens(3,5) oauth_sample_texts(1,2) by (simp_all add: sendable_def)
  have "posted coded_dialog = []" by (simp add: coded_dialog_def sample_dialog_def mounted_def set_this_def empty_page_def)
  with ps first_code_kept [OF a(1) sample_opens(7) a(2) c(3,4) d a(3) sample_opens(6) b(2) a(4,5) b(1,3) sample_sent [OF c(1,2)] ps, of "js ''now''"]
  show ?thesis by auto
qed

theorem exchanged_verifier_matches_witness:
  "\<exists>p ps r l v. oauth_reach sample_oauth (js ''x'') sample_schema p
     \<and> posted (fst (run_redirect sample_oauth [] (63 # join_with [38] ps) p)) = [r] \<and> t_body r = l @ js ''&code_verifier='' @ v"
proof -
  have c: "js ''c1'' \<noteq> []" "list_all uri_unescaped (js ''c1'')" by (simp_all add: js_simps uri_unescaped_def)
  obtain ps where ps: "those (map query_piece [(js ''code'', js ''c1''), (js ''state'', js ''s'')]) = Some ps"
    using sent_pairs_total [OF sample_sent(2) [OF c]] by blast
  have b: "replicate 32 (0::nat) \<noteq> []" "js ''http://h/r'' \<noteq> []" by (simp_all add: js_def)
  have l: "map_of [(js ''code'', js ''c1''), (js ''state'', js ''s'')] (js ''code'') = Some (js ''c1'')" by simp
  obtain p1 p2 r where p: "authorize_click sample_oauth (js ''now'') (replicate 32 0) sample_dialog = (p1, True)"
    "posted p1 = posted sample_dialog" "run_redirect sample_oauth [] (63 # join_with [38] ps) p1 = (p2, True)"
    "posted p2 = posted sample_dialog @ [r]"
    using code_exchanged [OF sample_opens(5,7,8,1,2,3,6) b(2) oauth_sample_texts(1,2) b(1) sample_sent [OF c] ps l c(1), of "js ''now''"] by metis
  have "oauth_reach sample_oauth (js ''x'') sample_schema sample_dialog"
    unfolding sample_dialog_def by (rule oauth_reach.mount)
  then have "oauth_reach sample_oauth (js ''x'') sample_schema (fst (handle sample_oauth (js ''x'') sample_schema (Clicked (js ''now'') (replicate 32 0)) sample_dialog))"
    by (rule oauth_reach.event) (simp add: list_all_iff)
  then have reach: "oauth_reach sample_oauth (js ''x'') sample_schema p1" by (simp add: p(1))
  have flow: "code_flow (flow sample_schema)" by (simp add: sample_schema_def code_flow_def)
  have one: "posted (fst (run_redirect sample_oauth [] (63 # join_with [38] ps) p1)) = posted p1 @ [r]" using p(2-4) by simp
  have "posted p1 = []" unfolding p(2) by (simp add: sample_dialog_def mounted_def set_this_def empty_page_def)
  with reach one exchanged_verifier_matches [OF reach flow sample_opens(7) one] show ?thesis by fastforce
qed

end
