(* ===== verification/Spec2Isabelle.thy ===== *)
theory Spec2Isabelle
  imports Fifo_Queue Ordered_Queue Rdbms_Cache Sql_Adapters Mock_Mq Mq_Routes Strategy_Chains Filters
    Swagger_Topbar Swagger_Layout Swagger_Curl Swagger_Url Swagger_Err Swagger_Auth Swagger_Oas3
    Swagger_Store Swagger_Tryout Oauth_Flow
begin

text \<open>
  \<^bold>\<open>A verification development for gocom.\<close>

  The repository is a library of Go packages for services (queues, caches, database access, message
  brokers, a handler framework with filters, observers and visitors) together with the scripts of
  the Swagger UI, through which a running service shows the description of its own interface.  The
  development models the logic of both as executable HOL functions and proves what they do.

  \<^bold>\<open>The browser side\<close> (\<open>src/microsvc/autodocs/swagger/*.js\<close>).  Each of the five scripts is one minified
  line; the map of the manifest names the function in that line, with its minified name where the
  original name is gone.  The scripts share their sources, so each function is mapped to one of them.

    \<^item> \<open>Js_Prelude\<close>: strings as lists of UTF-16 code units (\<open>js ''abc''\<close> is a literal), \<open>split\<close>,
      \<open>join\<close>, \<open>trim\<close>, substring search, and objects as tables with the enumeration order of the
      language (array indices first) and the special key \<open>__proto__\<close>.
    \<^item> \<open>Js_Url\<close>: \<open>encodeURIComponent\<close> and \<open>decodeURIComponent\<close> with their exceptions, over a model of
      UTF-16 and UTF-8.  The locale \<open>component_codec\<close> states what the clients rely on (encoding
      returns, decoding inverts it, no delimiter occurs in encoded text); it is interpreted on these
      two functions, and the query string and the deep links use it.
    \<^item> \<open>Js_Immutable\<close>: nested maps with the path operations of the bundled Immutable library.  The
      locale \<open>path_store\<close> states read-after-write and the frame law; it is interpreted on \<open>getIn\<close> and
      \<open>setIn\<close>.
    \<^item> \<open>Swagger_Topbar\<close> (\<open>swagger-ui-standalone-preset.js\<close>): the query helpers \<open>parseSearch\<close> and
      \<open>serializeSearch\<close>, the state and handlers of the top bar, and the configs reducer.
    \<^item> \<open>Swagger_Layout\<close> (\<open>swagger-ui.js\<close>): actions, reducer and selectors of the layout plugin, the
      deep-linking plugin that wraps \<open>show\<close>, and the tag filter.
    \<^item> \<open>Swagger_Curl\<close> (\<open>swagger-ui-es-bundle.js\<close>): quoting for three shells and the curl generator, with
      a model of the word splitting of the POSIX shell as its specification.
    \<^item> \<open>Swagger_Err\<close> (\<open>swagger-ui-es-bundle-core.js\<close>): the error reducer, its transformers and
      selectors, and the action that parses the specification.
    \<^item> \<open>Swagger_Auth\<close> (\<open>swagger-ui-es-bundle-core.js\<close>): the authorisation plugin, with its storage,
      the two functions that authorise without a dialog (and without writing to the storage) and the reload of
      the page as steps of the system around it, and the Base64 text of the basic header.
    \<^item> \<open>Swagger_System\<close>, \<open>Swagger_Store\<close> (\<open>swagger-ui-bundle.js\<close>): the class \<open>System\<close>.  The first models
      plugin objects and how \<open>combinePlugins\<close>, \<open>systemExtend\<close> and \<open>register\<close> merge them; the second the
      calls of wrapped and bound actions, the combined reducer and \<open>dispatch\<close>, with the error plugin as
      one of its slices.
    \<^item> \<open>Swagger_Spec\<close> (\<open>swagger-ui-bundle.js\<close>): the selectors of the specification plugin that merge the
      document with its resolved parts, list its operations and group them by tags.
    \<^item> \<open>Swagger_Validate\<close>, \<open>Swagger_Params\<close> (\<open>swagger-ui-bundle.js\<close>): the check of a value against the
      schema of its parameter with all its keywords and exceptions, and the reducers and selectors of
      entered values, up to the decision whether a request may be sent.
    \<^item> \<open>Swagger_Style\<close>, \<open>Swagger_Request\<close>, \<open>Swagger_Query\<close>, \<open>Swagger_Client\<close>
      (\<open>swagger-ui-bundle.js\<close>): the client that builds a request from these values: escaping and
      styles, the parameter builders for Swagger 2 and OpenAPI 3 with the loop that calls them, the query
      and body they are merged into, and the whole \<open>buildRequest\<close> with credentials and content types.  Escaping
      interprets \<open>component_codec\<close> a second time.
    \<^item> \<open>Swagger_Execute\<close>, \<open>Swagger_Tryout\<close> (\<open>swagger-ui-bundle.js\<close>): what \<open>executeRequest\<close> gathers (scheme,
      media types, values, form fields) and how a response or an error is kept, and the page around it: the
      execute and clear buttons with their checks, executions under way, interceptor, answers and timers as
      the steps of a relation over the slices of the other theories.
    \<^item> \<open>Swagger_Oauth\<close>, \<open>Oauth_Flow\<close> (\<open>swagger-ui-bundle.js\<close>, \<open>oauth2-redirect.html\<close>): the OAuth2 dialog with
      the identity of its state objects, the URL it opens, the page the server returns to, the token requests
      and their answers as the events of a page (first theory), and what the exchange achieves (second theory).
    \<^item> \<open>Swagger_Url\<close> (\<open>swagger-ui-bundle.js\<close>): the sanitiser of links, with the scheme that a browser
      finds in a URL as its specification.
    \<^item> \<open>Swagger_Oas3\<close> (\<open>swagger-ui-bundle.js\<close>): the reducer of the OpenAPI 3 plugin and its validation
      selectors.

  \<^bold>\<open>The Go side.\<close>

    \<^item> \<open>Go_Prelude\<close>, \<open>Go_Strings\<close>: outcomes (a value or a panic), slices and indexing with their panics,
      64-bit arithmetic with wrap-around, and the functions of \<open>strings\<close>, \<open>strconv\<close> and \<open>fmt\<close> in use.
    \<^item> \<open>Comparison\<close> (\<open>definations/comparison_meta.go\<close>): conditions over reflected values.
    \<^item> \<open>IQueue\<close> (\<open>queues/prototypes.go\<close>): the element interface and the locale \<open>iqueue\<close> of the queue
      operations, interpreted by \<open>Fifo_Queue\<close> (\<open>queues/fifoqueue.go\<close>) and \<open>Ordered_Queue\<close>
      (\<open>queues/orderedqueue.go\<close>), whose binary-search insertion is proved equal to stable insertion.
    \<^item> \<open>Keyed_Store\<close> (\<open>utils/co_mapdata.go\<close>) and the locale \<open>keyed_store\<close>, also interpreted by
      \<open>Mq_Routes\<close>.
    \<^item> \<open>Rdbms_Cache\<close> (\<open>orm/rdbms/caches.go\<close>): cached records and arrays with their timer queues; a
      group is a record, its operations and the periodic clean-up are the steps of a relation whose
      reachable states carry the invariant.
    \<^item> \<open>Sql_Adapters\<close> (\<open>dbutils/*.go\<close>): the eight dialects, each an interpretation of \<open>db_adapter\<close>.
    \<^item> \<open>Mq_Messages\<close>, \<open>Mock_Mq\<close>, \<open>Mq_Routes\<close> (\<open>mq/\<close>): messages, the in-process broker as explicit state
      with steps and reachable worlds, and the registry that dispatches to the drivers.
    \<^item> \<open>Widgets\<close>, \<open>Strategy_Chains\<close>, \<open>Filters\<close> (\<open>microsvc/\<close>): strategy containers, the observer, visitor
      and delegate chains (one locale \<open>strategy_chain\<close>, three interpretations), and filter chains.
    \<^item> \<open>Utils_Strings\<close> (\<open>utils/index.go\<close>): naming conventions, paths, digit alphabets, substrings.

  \<^bold>\<open>What the lemmas show.\<close>  Round trips: query string, deep link, codec, cache, authorisation URL.  Refinement: the ordered
  queue is a stable sort, the curl text reads back as the request.  Invariants of reachable states:
  cache group, broker, strategy container, error list, stored authorisation, the page, where a
  response answers the request beside it (as it was built, or as the interceptor left it), and the OAuth2 dialog, whose verifier belongs to the URL opened last.  Frame properties: operations of the OpenAPI 3
  state do not interfere, and credentials that an operation does not require do not influence its request.
  Safety: no sanitised link runs a script, a reply is received once, a cache hit is fresh, a click sends
  only what passes the checks.  Error behaviour: exactly when a comparison, a mode change or a validation
  fails, and what is shown of a failed request.  Several properties state behaviour that the code does not
  intend, such as a late response beside the wrong request; the manifest lists them as findings.

  \<^bold>\<open>Termination, bounds and fuel.\<close>  All functions are total except two that may diverge in the code:
  publishing in \<open>Mock_Mq\<close> takes fuel, where two units suffice when replies go to waiting calls (proved
  with the property on publishing), and \<open>FilterEvent\<close> takes fuel bounded by the nesting depth of the
  chain.  For both, running out of fuel for every amount is proved for the configuration in which the
  code does not return.  \<open>decodeURIComponent\<close> is defined with a termination proof on the length.

  \<^bold>\<open>Parameters.\<close>  Code outside the repository is an argument of the definitions that use it: the regular
  expression engine of strategies (\<open>compile\<close>), callbacks and leaf filters, broker clients, the printer
  and copier of cached records, the YAML parser's outcome, the text \<open>JSON.stringify\<close> gives for a body
  that is neither string nor form, the browser's sorting routine where the comparison is not an
  order, the order in which a set of tags is iterated, the hash of a parameter, the base URL of an operation
  and the description of an operation that the client reads, the request interceptor, the answers of a
  server (a relation), the bundled URL parser, hash function and random bytes of the OAuth2 dialog, and in the record \<open>engine\<close> the
  comparison of floating-point numbers, regular expressions of a schema and the parsers of JSON and dates.  Browser time, scrolling and rendering do not occur.

  \<^bold>\<open>Not modelled.\<close>  Network clients, file access, logging, reflection over user types, generated code
  and the React components of the Swagger UI; specification resolution and sample generation; the
  libraries bundled into the scripts, except the path updates of Immutable.  The percent-encoding that
  a browser applies to an apostrophe in a query is not modelled; it does not change the decoded text.
\<close>

end
